(* ===== verification/Prelude.thy ===== *)
theory Prelude
  imports Main "HOL-Library.Word" "HOL-Library.Sublist"
begin

text \<open>
  The vocabulary the components share: results as sums, the operations of Rust's
  \<open>str\<close> and slice types the sources use, 64-bit integers with their wrap-around, and
  the generic lemmas on them.

  A Rust \<open>&str\<close> is modelled by the list of its UTF-8 bytes (\<^typ>\<open>string\<close>). UTF-8 is
  self-synchronising, so splitting at an ASCII character, stripping a prefix or a suffix,
  searching a substring and comparing give on the bytes what they give on the characters.
  Where a source counts or maps characters (code points), the function says so.
\<close>

section \<open>Collections and types\<close>

named_theorems str_simps \<open>evaluation of the string operations\<close>
named_theorems i64_simps \<open>64-bit arithmetic inside its range\<close>

type_synonym byte = "8 word"
type_synonym str = string
type_synonym ('e, 'a) result = "'e + 'a"

abbreviation Ok :: "'a \<Rightarrow> ('e, 'a) result" where
  "Ok \<equiv> Inr"

abbreviation Err :: "'e \<Rightarrow> ('e, 'a) result" where
  "Err \<equiv> Inl"

text \<open>The \<open>?\<close> operator: continue with the value, or return the error.\<close>

definition try_then :: "('e, 'a) result \<Rightarrow> ('a \<Rightarrow> ('e, 'b) result) \<Rightarrow> ('e, 'b) result" where
  "try_then r f = (case r of Inl e \<Rightarrow> Inl e | Inr a \<Rightarrow> f a)"

lemma try_then_simps [simp]:
  "try_then (Inl e) f = Inl e"
  "try_then (Inr a) f = f a"
  by (simp_all add: try_then_def)

lemma try_then_Inr_iff:
  "try_then r f = Inr b \<longleftrightarrow> (\<exists>a. r = Inr a \<and> f a = Inr b)"
  by (cases r) auto

lemma try_then_Inl_iff:
  "try_then r f = Inl e \<longleftrightarrow> r = Inl e \<or> (\<exists>a. r = Inr a \<and> f a = Inl e)"
  by (cases r) auto

text \<open>A loop whose body may return early with an error: \<open>try_fold\<close> over a list.\<close>

fun try_fold :: "('a \<Rightarrow> 's \<Rightarrow> ('e, 's) result) \<Rightarrow> 'a list \<Rightarrow> 's \<Rightarrow> ('e, 's) result" where
  "try_fold f [] s = Inr s"
| "try_fold f (x # xs) s = try_then (f x s) (try_fold f xs)"

text \<open>Collecting an iterator of results: the first error wins.\<close>

fun try_map :: "('a \<Rightarrow> ('e, 'b) result) \<Rightarrow> 'a list \<Rightarrow> ('e, 'b list) result" where
  "try_map f [] = Inr []"
| "try_map f (x # xs) = try_then (f x) (\<lambda>y. try_then (try_map f xs) (\<lambda>ys. Inr (y # ys)))"

text \<open>\<open>Iterator::any\<close> with a test that may fail: the first true answer or error ends it.\<close>

fun try_any :: "('a \<Rightarrow> ('e, bool) result) \<Rightarrow> 'a list \<Rightarrow> ('e, bool) result" where
  "try_any f [] = Inr False"
| "try_any f (x # xs) = try_then (f x) (\<lambda>b. if b then Inr True else try_any f xs)"

fun try_all :: "('a \<Rightarrow> ('e, bool) result) \<Rightarrow> 'a list \<Rightarrow> ('e, bool) result" where
  "try_all f [] = Inr True"
| "try_all f (x # xs) = try_then (f x) (\<lambda>b. if b then try_all f xs else Inr False)"

text \<open>A sequence of checks with an early return: the first one not true decides.\<close>

abbreviation try_conj :: "('e, bool) result list \<Rightarrow> ('e, bool) result" where
  "try_conj \<equiv> try_all (\<lambda>c. c)"

lemma try_all_total:
  "(\<And>x. x \<in> set xs \<Longrightarrow> f x = Inr (g x)) \<Longrightarrow> try_all f xs = Inr (\<forall>x \<in> set xs. g x)"
  by (induction xs) auto

lemma try_all_append:
  "try_all f (xs @ ys) = try_then (try_all f xs) (\<lambda>b. if b then try_all f ys else Inr False)"
proof (induction xs)
  case (Cons x xs)
  then show ?case by (cases "f x") simp_all
qed simp

lemma try_any_cong [fundef_cong]:
  "xs = ys \<Longrightarrow> (\<And>x. x \<in> set ys \<Longrightarrow> f x = g x) \<Longrightarrow> try_any f xs = try_any g ys"
  by (induction ys arbitrary: xs) (auto intro!: arg_cong2[where f = try_then])

lemma try_all_cong [fundef_cong]:
  "xs = ys \<Longrightarrow> (\<And>x. x \<in> set ys \<Longrightarrow> f x = g x) \<Longrightarrow> try_all f xs = try_all g ys"
  by (induction ys arbitrary: xs) (auto intro!: arg_cong2[where f = try_then])

lemma try_map_cong [fundef_cong]:
  "xs = ys \<Longrightarrow> (\<And>x. x \<in> set ys \<Longrightarrow> f x = g x) \<Longrightarrow> try_map f xs = try_map g ys"
  by (induction ys arbitrary: xs) (auto intro!: arg_cong2[where f = try_then])

lemma try_any_total:
  "(\<And>x. x \<in> set xs \<Longrightarrow> f x = Inr (g x)) \<Longrightarrow> try_any f xs = Inr (\<exists>x \<in> set xs. g x)"
  by (induction xs) auto

lemma try_map_total:
  "(\<And>x. x \<in> set xs \<Longrightarrow> f x = Inr (g x)) \<Longrightarrow> try_map f xs = Inr (map g xs)"
  by (induction xs) auto

text \<open>Appending the parts a sequence of steps produces, each of which may fail.\<close>

lemma try_map_map: "try_map f (map g xs) = try_map (\<lambda>x. f (g x)) xs"
  by (induction xs) auto

lemma try_map_mapped:
  "(\<And>x. x \<in> set xs \<Longrightarrow> f (h x) = Inr (g x)) \<Longrightarrow> try_map f (map h xs) = Inr (map g xs)"
  unfolding try_map_map by (rule try_map_total)

definition try_concat :: "('e, 'a list) result list \<Rightarrow> ('e, 'a list) result" where
  "try_concat rs = try_then (try_map (\<lambda>r. r) rs) (\<lambda>xs. Inr (concat xs))"

lemma try_concat_total:
  "(\<And>r. r \<in> set rs \<Longrightarrow> r = Inr (g r)) \<Longrightarrow> try_concat rs = Inr (concat (map g rs))"
  using try_map_total[of rs "\<lambda>r. r" g] by (simp add: try_concat_def)

text \<open>A Rust \<open>panic!\<close>, \<open>expect\<close> on a missing value or unreachable branch, with its message.\<close>

datatype panic = Panic str

definition expect :: "str \<Rightarrow> 'a option \<Rightarrow> (panic, 'a) result" where
  "expect msg v = (case v of None \<Rightarrow> Inl (Panic msg) | Some x \<Rightarrow> Inr x)"

lemma expect_simps [simp]:
  "expect msg None = Inl (Panic msg)"
  "expect msg (Some x) = Inr x"
  by (simp_all add: expect_def)

lemma try_fold_append:
  "try_fold f (xs @ ys) s = try_then (try_fold f xs s) (try_fold f ys)"
proof (induction xs arbitrary: s)
  case Nil
  then show ?case by simp
next
  case (Cons x xs)
  then show ?case by (cases "f x s") simp_all
qed

text \<open>An invariant every step keeps is kept by the whole loop.\<close>

lemma try_fold_invariant:
  assumes "try_fold f xs s = Inr s'" and "P s"
    and "\<And>x s s'. x \<in> set xs \<Longrightarrow> P s \<Longrightarrow> f x s = Inr s' \<Longrightarrow> P s'"
  shows "P s'"
  using assms
proof (induction xs arbitrary: s)
  case Nil
  then show ?case by simp
next
  case (Cons x xs)
  from Cons.prems(1) obtain t where t: "f x s = Inr t" "try_fold f xs t = Inr s'"
    by (auto simp: try_then_Inr_iff)
  have "P t"
    using Cons.prems(3)[of x s t] Cons.prems(2) t(1) by simp
  then show ?case
    using Cons.IH[OF t(2)] Cons.prems(3) by auto
qed

lemma ball_subset: "\<forall>y \<in> set (x # xs). P y \<Longrightarrow> \<forall>y \<in> set xs. P y"
  by simp

lemma list_all2_member: "list_all2 P xs ys \<Longrightarrow> y \<in> set ys \<Longrightarrow> \<exists>x \<in> set xs. P x y"
  by (induction rule: list_all2_induct) auto

lemma try_map_Inr:
  "try_map f xs = Inr ys \<longleftrightarrow> list_all2 (\<lambda>x y. f x = Inr y) xs ys"
proof (induction xs arbitrary: ys)
  case Nil
  then show ?case by auto
next
  case (Cons x xs)
  then show ?case by (auto simp: try_then_Inr_iff list_all2_Cons1)
qed

section \<open>Strings\<close>

text \<open>\<open>str::split\<close> at a character: one piece more than there are separators.\<close>

fun split_on :: "'a \<Rightarrow> 'a list \<Rightarrow> 'a list list" where
  "split_on c [] = [[]]"
| "split_on c (x # xs) =
     (if x = c then [] # split_on c xs
      else (case split_on c xs of [] \<Rightarrow> [[x]] | s # ss \<Rightarrow> (x # s) # ss))"

text \<open>\<open>str::split_once\<close> at a character: the first occurrence splits.\<close>

fun split_once :: "'a \<Rightarrow> 'a list \<Rightarrow> ('a list \<times> 'a list) option" where
  "split_once c [] = None"
| "split_once c (x # xs) =
     (if x = c then Some ([], xs)
      else map_option (\<lambda>(a, b). (x # a, b)) (split_once c xs))"

text \<open>\<open>strip_prefix\<close>, \<open>strip_suffix\<close>, \<open>starts_with\<close>, \<open>ends_with\<close>, \<open>contains\<close>.\<close>

fun strip_prefix :: "'a list \<Rightarrow> 'a list \<Rightarrow> 'a list option" where
  "strip_prefix [] s = Some s"
| "strip_prefix (p # ps) [] = None"
| "strip_prefix (p # ps) (x # xs) = (if p = x then strip_prefix ps xs else None)"

definition strip_suffix :: "'a list \<Rightarrow> 'a list \<Rightarrow> 'a list option" where
  "strip_suffix p s = map_option rev (strip_prefix (rev p) (rev s))"

definition starts_with :: "'a list \<Rightarrow> 'a list \<Rightarrow> bool" where
  "starts_with p s \<longleftrightarrow> strip_prefix p s \<noteq> None"

definition ends_with :: "'a list \<Rightarrow> 'a list \<Rightarrow> bool" where
  "ends_with p s \<longleftrightarrow> strip_suffix p s \<noteq> None"

fun contains_str :: "'a list \<Rightarrow> 'a list \<Rightarrow> bool" where
  "contains_str p [] = (p = [])"
| "contains_str p (x # xs) = (starts_with p (x # xs) \<or> contains_str p xs)"

text \<open>\<open>str::replace\<close> of one character by a string.\<close>

fun replace_char :: "'a \<Rightarrow> 'a list \<Rightarrow> 'a list \<Rightarrow> 'a list" where
  "replace_char c t [] = []"
| "replace_char c t (x # xs) = (if x = c then t else [x]) @ replace_char c t xs"

fun join_with :: "'a list \<Rightarrow> 'a list list \<Rightarrow> 'a list" where
  "join_with sep [] = []"
| "join_with sep [s] = s"
| "join_with sep (s # t # ss) = s @ sep @ join_with sep (t # ss)"

text \<open>The decimal digits of a number, as formatting prints them.\<close>

fun nat_text :: "nat \<Rightarrow> str" where
  "nat_text n = (if n < 10 then [char_of (48 + n)] else nat_text (n div 10) @ [char_of (48 + n mod 10)])"

declare nat_text.simps [simp del]

definition is_ascii_digit :: "char \<Rightarrow> bool" where
  "is_ascii_digit c \<longleftrightarrow> 48 \<le> (of_char c :: nat) \<and> (of_char c :: nat) \<le> 57"

definition is_ascii_alphabetic :: "char \<Rightarrow> bool" where
  "is_ascii_alphabetic c \<longleftrightarrow>
     65 \<le> (of_char c :: nat) \<and> (of_char c :: nat) \<le> 90 \<or>
     97 \<le> (of_char c :: nat) \<and> (of_char c :: nat) \<le> 122"

definition is_ascii_alphanumeric :: "char \<Rightarrow> bool" where
  "is_ascii_alphanumeric c \<longleftrightarrow> is_ascii_alphabetic c \<or> is_ascii_digit c"

lemma strip_prefix_Some [str_simps]: "strip_prefix p s = Some r \<longleftrightarrow> s = p @ r"
  by (induction p s rule: strip_prefix.induct) auto

lemma strip_prefix_append [simp]: "strip_prefix p (p @ r) = Some r"
  by (simp add: strip_prefix_Some)

lemma starts_with_iff: "starts_with p s \<longleftrightarrow> (\<exists>r. s = p @ r)"
  by (auto simp: starts_with_def strip_prefix_Some)

lemma starts_with_prefix: "starts_with p s \<longleftrightarrow> prefix p s"
  by (auto simp: starts_with_iff prefix_def)

lemma strip_suffix_Some: "strip_suffix p s = Some r \<longleftrightarrow> s = r @ p"
proof -
  have "rev s = rev p @ rev r \<longleftrightarrow> s = r @ p"
    by (metis rev_append rev_rev_ident)
  then show ?thesis
    by (auto simp: strip_suffix_def strip_prefix_Some)
qed

lemma ends_with_iff: "ends_with p s \<longleftrightarrow> (\<exists>r. s = r @ p)"
  by (auto simp: ends_with_def strip_suffix_Some)

lemma contains_str_iff: "contains_str p s \<longleftrightarrow> (\<exists>a b. s = a @ p @ b)"
proof (induction s)
  case Nil
  then show ?case by auto
next
  case (Cons x xs)
  show ?case
  proof
    assume "contains_str p (x # xs)"
    then consider "starts_with p (x # xs)" | "contains_str p xs" by auto
    then show "\<exists>a b. x # xs = a @ p @ b"
    proof cases
      case 1
      then show ?thesis by (metis append_Nil starts_with_iff)
    next
      case 2
      then show ?thesis using Cons.IH by (metis append_Cons)
    qed
  next
    assume "\<exists>a b. x # xs = a @ p @ b"
    then obtain a b where ab: "x # xs = a @ p @ b" by blast
    show "contains_str p (x # xs)"
    proof (cases a)
      case Nil
      then have "starts_with p (x # xs)" using ab by (auto simp: starts_with_iff)
      then show ?thesis by simp
    next
      case (Cons y ys)
      then show ?thesis using ab Cons.IH by auto
    qed
  qed
qed

lemma contains_single: "contains_str [c] s \<longleftrightarrow> c \<in> set s"
  by (auto simp: contains_str_iff dest: split_list)

lemma split_once_None [str_simps]: "split_once c s = None \<longleftrightarrow> c \<notin> set s"
  by (induction s) auto

lemma split_once_Some:
  "split_once c s = Some (a, b) \<longleftrightarrow> s = a @ c # b \<and> c \<notin> set a"
proof (induction s arbitrary: a)
  case Nil
  then show ?case by simp
next
  case (Cons x xs)
  then show ?case by (cases a) auto
qed

lemma split_on_not_Nil [simp]: "split_on c s \<noteq> []"
  by (induction s) (auto split: list.splits)

lemma join_split [simp]: "join_with [c] (split_on c s) = s"
proof (induction s)
  case Nil
  then show ?case by simp
next
  case (Cons x xs)
  obtain t ts where t: "split_on c xs = t # ts"
    using split_on_not_Nil by (metis list.exhaust)
  show ?case
    using Cons.IH t by (cases ts) auto
qed

lemma split_on_pieces: "t \<in> set (split_on c s) \<Longrightarrow> c \<notin> set t"
proof (induction s arbitrary: t)
  case Nil
  then show ?case by simp
next
  case (Cons x xs)
  then show ?case by (cases "split_on c xs") (auto split: if_splits)
qed

lemma split_on_atom: "c \<notin> set s \<Longrightarrow> split_on c s = [s]"
  by (induction s) auto

lemma split_on_append_sep: "c \<notin> set s \<Longrightarrow> split_on c (s @ c # t) = s # split_on c t"
  by (induction s) auto

lemma set_split_on: "x \<in> set s \<Longrightarrow> x \<noteq> c \<Longrightarrow> \<exists>t \<in> set (split_on c s). x \<in> set t"
proof (induction s)
  case Nil
  then show ?case by simp
next
  case (Cons y ys)
  then show ?case by (cases "split_on c ys") auto
qed

section \<open>64-bit integers\<close>

text \<open>
  The sources' \<open>i64\<close> arithmetic, as a release build performs it: two's complement
  wrap-around. Values are integers kept in \<open>[-2^63, 2^63)\<close> by \<open>wrap_i64\<close>.
\<close>

definition wrap_i64 :: "int \<Rightarrow> int" where
  "wrap_i64 x = signed_take_bit 63 x"

definition in_i64 :: "int \<Rightarrow> bool" where
  "in_i64 x \<longleftrightarrow> - (2 ^ 63) \<le> x \<and> x < 2 ^ 63"

lemma wrap_i64_id [i64_simps]: "in_i64 x \<Longrightarrow> wrap_i64 x = x"
  by (simp add: wrap_i64_def in_i64_def signed_take_bit_int_eq_self)

lemma wrap_i64_in [simp]: "in_i64 (wrap_i64 x)"
  using signed_take_bit_int_greater_eq_minus_exp[of 63 x] signed_take_bit_int_less_exp[of 63 x]
  by (simp add: wrap_i64_def in_i64_def)

text \<open>The wrap-around is the one of 64-bit words read as two's complement.\<close>

lemma wrap_i64_word: "wrap_i64 (sint (a :: 64 word) + sint b) = sint (a + b)"
  by (simp add: wrap_i64_def signed_take_bit_add sint_word_ariths)

end
