(* ===== verification/Timeline.thy ===== *)
theory Timeline
  imports Prelude
begin

text \<open>
  \<open>ceres-media/src/remux/timeline.rs\<close>: placing the packets of successive connections on
  one output timeline, and the tick conversion of \<open>ceres-media/src/lib.rs\<close> that precedes
  it. Ticks are \<open>i64\<close> values; every addition and subtraction of the source wraps here as
  in a release build.
\<close>

section \<open>Packet timing and time bases\<close>

record packet_timing =
  pt_pts :: "int option"
  pt_dts :: "int option"
  pt_duration :: int

record time_base =
  tb_num :: int
  tb_den :: int

text \<open>Rust's \<open>/\<close> on signed integers truncates towards zero.\<close>

definition trunc_div :: "int \<Rightarrow> int \<Rightarrow> int" where
  "trunc_div a b = sgn a * sgn b * (\<bar>a\<bar> div \<bar>b\<bar>)"

definition time_base_rescale :: "time_base \<Rightarrow> int \<Rightarrow> time_base \<Rightarrow> int" where
  "time_base_rescale from ticks to =
     (if from = to then ticks
      else
        let numerator = ticks * tb_num from * tb_den to;
            denominator = tb_den from * tb_num to;
            rounded = trunc_div (numerator + sgn numerator * trunc_div denominator 2) denominator
        in if in_i64 rounded then rounded
           else if rounded < 0 then - (2 ^ 63) + 1 else 2 ^ 63 - 1)"

definition timing_rescale :: "packet_timing \<Rightarrow> time_base \<Rightarrow> time_base \<Rightarrow> packet_timing" where
  "timing_rescale t from to =
     \<lparr>pt_pts = map_option (\<lambda>x. time_base_rescale from x to) (pt_pts t),
      pt_dts = map_option (\<lambda>x. time_base_rescale from x to) (pt_dts t),
      pt_duration = time_base_rescale from (pt_duration t) to\<rparr>"

section \<open>The timeline\<close>

record timeline =
  tl_end :: int
  tl_last_dts :: "int option"
  tl_shift :: "int option"

definition timeline_default :: timeline where
  "timeline_default = \<lparr>tl_end = 0, tl_last_dts = None, tl_shift = None\<rparr>"

definition timeline_reconnect :: "timeline \<Rightarrow> timeline" where
  "timeline_reconnect tln = tln\<lparr>tl_shift := None\<rparr>"

text \<open>The first half of \<open>place\<close>: where the packet falls before any correction.\<close>

definition timeline_locate ::
  "timeline \<Rightarrow> packet_timing \<Rightarrow> timeline \<times> int option \<times> int" where
  "timeline_locate tln t =
     (case (case pt_dts t of Some d \<Rightarrow> Some d | None \<Rightarrow> pt_pts t) of
        Some source \<Rightarrow>
          let shift = (case tl_shift tln of Some s \<Rightarrow> s | None \<Rightarrow> wrap_i64 (tl_end tln - source))
          in (tln\<lparr>tl_shift := Some shift\<rparr>,
              map_option (\<lambda>p. wrap_i64 (p + shift)) (pt_pts t),
              wrap_i64 (source + shift))
      | None \<Rightarrow>
          (case (tl_shift tln, tl_last_dts tln) of
             (Some _, Some prev) \<Rightarrow> (tln, None, wrap_i64 (prev + max (pt_duration t) 1))
           | _ \<Rightarrow> (tln, None, tl_end tln)))"

definition timeline_place :: "timeline \<Rightarrow> packet_timing \<Rightarrow> timeline \<times> packet_timing" where
  "timeline_place tln t =
     (let (tl1, pts0, dts0) = timeline_locate tln t;
          dts = (case tl_last_dts tl1 of
                   Some prev \<Rightarrow> if dts0 \<le> prev then wrap_i64 (prev + 1) else dts0
                 | None \<Rightarrow> dts0);
          pts = (case pts0 of None \<Rightarrow> dts | Some p \<Rightarrow> max p dts)
      in (tl1\<lparr>tl_last_dts := Some dts,
              tl_end := max (max (tl_end tl1) (wrap_i64 (pts + max (pt_duration t) 0)))
                            (wrap_i64 (dts + 1))\<rparr>,
          \<lparr>pt_pts = Some pts, pt_dts = Some dts, pt_duration = pt_duration t\<rparr>))"

text \<open>A track's life: connections begin and packets arrive, in any order.\<close>

datatype timeline_event = Reconnect | Place packet_timing

fun timeline_run :: "timeline \<Rightarrow> timeline_event list \<Rightarrow> timeline \<times> packet_timing list" where
  "timeline_run tln [] = (tln, [])"
| "timeline_run tln (Reconnect # es) = timeline_run (timeline_reconnect tln) es"
| "timeline_run tln (Place t # es) =
     (let (tln', p) = timeline_place tln t; (tln'', ps) = timeline_run tln' es in (tln'', p # ps))"

section \<open>The invariant and its preservation\<close>

text \<open>
  The stamps a source may send, \<open>B\<close> bounding every timestamp's magnitude and \<open>D\<close> every
  duration, and the invariant: the end lies past every placed packet, and the shift of
  the current connection cannot move a packet more than \<open>2 * B\<close> past it.
\<close>

definition timing_within :: "int \<Rightarrow> int \<Rightarrow> packet_timing \<Rightarrow> bool" where
  "timing_within B D t \<longleftrightarrow>
     (\<forall>x. pt_pts t = Some x \<longrightarrow> \<bar>x\<bar> \<le> B) \<and> (\<forall>x. pt_dts t = Some x \<longrightarrow> \<bar>x\<bar> \<le> B)
     \<and> \<bar>pt_duration t\<bar> \<le> D"

definition timeline_inv :: "int \<Rightarrow> timeline \<Rightarrow> bool" where
  "timeline_inv B tln \<longleftrightarrow>
     0 \<le> tl_end tln
     \<and> (\<forall>l. tl_last_dts tln = Some l \<longrightarrow> 0 \<le> l \<and> l < tl_end tln)
     \<and> (\<forall>s. tl_shift tln = Some s \<longrightarrow> - B \<le> s \<and> s \<le> tl_end tln + B \<and> tl_last_dts tln \<noteq> None)"

lemma timeline_inv_default: "0 \<le> B \<Longrightarrow> timeline_inv B timeline_default"
  by (simp add: timeline_inv_def timeline_default_def)

lemma timeline_inv_reconnect: "timeline_inv B tln \<Longrightarrow> timeline_inv B (timeline_reconnect tln)"
  by (simp add: timeline_inv_def timeline_reconnect_def)

text \<open>One step from a state with room below \<open>2 ^ 62\<close>: nothing wraps.\<close>

definition timeline_room :: "int \<Rightarrow> int \<Rightarrow> int \<Rightarrow> bool" where
  "timeline_room B D e \<longleftrightarrow> 0 \<le> B \<and> 0 \<le> D \<and> e + 2 * B + 2 * D + 1 \<le> 2 ^ 62"

lemma timeline_locate_exact:
  assumes inv: "timeline_inv B tln" and t: "timing_within B D t"
    and room: "timeline_room B D (tl_end tln)"
    and loc: "timeline_locate tln t = (tln1, pts0, dts0)"
  shows "tl_end tln1 = tl_end tln" and "tl_last_dts tln1 = tl_last_dts tln"
    and "dts0 \<le> tl_end tln + 2 * B + D" and "- (2 * B) \<le> dts0"
    and "\<And>p. pts0 = Some p \<Longrightarrow> p \<le> tl_end tln + 2 * B"
    and "\<And>s. tl_shift tln1 = Some s \<Longrightarrow> - B \<le> s \<and> s \<le> tl_end tln + B"
    and "tl_last_dts tln = None \<Longrightarrow> dts0 = tl_end tln"
proof -
  note defs = timeline_inv_def timing_within_def timeline_room_def in_i64_def
  have wrap: "wrap_i64 x = x" if "- (2 ^ 62) \<le> x" "x \<le> 2 ^ 62" for x
    using that by (simp add: in_i64_def i64_simps)
  show "tl_end tln1 = tl_end tln" "tl_last_dts tln1 = tl_last_dts tln"
    using loc by (auto simp: timeline_locate_def Let_def split: option.splits)
  show "dts0 \<le> tl_end tln + 2 * B + D" "- (2 * B) \<le> dts0"
    "\<And>p. pts0 = Some p \<Longrightarrow> p \<le> tl_end tln + 2 * B"
    "\<And>s. tl_shift tln1 = Some s \<Longrightarrow> - B \<le> s \<and> s \<le> tl_end tln + B"
    "tl_last_dts tln = None \<Longrightarrow> dts0 = tl_end tln"
    using inv t room loc
    by (force simp: timeline_locate_def Let_def defs wrap abs_le_iff
        split: option.splits)+
qed

lemma timeline_place_step:
  assumes inv: "timeline_inv B tln" and t: "timing_within B D t"
    and room: "timeline_room B D (tl_end tln)"
    and place: "timeline_place tln t = (tln', p)"
  shows "timeline_inv B tln'"
    and "tl_end tln \<le> tl_end tln'"
    and "tl_end tln' \<le> tl_end tln + 2 * B + 2 * D + 1"
    and "\<exists>dts pts. p = \<lparr>pt_pts = Some pts, pt_dts = Some dts, pt_duration = pt_duration t\<rparr>
           \<and> tl_last_dts tln' = Some dts \<and> 0 \<le> dts \<and> dts \<le> pts
           \<and> (\<forall>prev. tl_last_dts tln = Some prev \<longrightarrow> prev < dts)"
proof -
  obtain tln1 pts0 dts0 where loc: "timeline_locate tln t = (tln1, pts0, dts0)"
    by (metis prod_cases3)
  note L = timeline_locate_exact[OF inv t room loc]
  note I = inv[unfolded timeline_inv_def] and R = room[unfolded timeline_room_def]
  define dts where "dts = (case tl_last_dts tln of
      Some prev \<Rightarrow> if dts0 \<le> prev then prev + 1 else dts0 | None \<Rightarrow> dts0)"
  define pts where "pts = (case pts0 of None \<Rightarrow> dts | Some p \<Rightarrow> max p dts)"
  have wrap: "wrap_i64 x = x" if "- (2 ^ 62) \<le> x" "x \<le> 2 ^ 62" for x
    using that by (simp add: in_i64_def i64_simps)
  have dts: "0 \<le> dts" "dts \<le> tl_end tln + 2 * B + D"
    "\<And>prev. tl_last_dts tln = Some prev \<Longrightarrow> prev < dts"
    using I R L(3,4,7) by (auto simp: dts_def split: option.splits)
  have pts: "dts \<le> pts" "pts \<le> tl_end tln + 2 * B + D"
    using L(5) dts R by (auto simp: pts_def split: option.splits)
  have D: "0 \<le> max (pt_duration t) 0" "max (pt_duration t) 0 \<le> D"
    using t R by (auto simp: timing_within_def)
  have wraps: "wrap_i64 (pts + max (pt_duration t) 0) = pts + max (pt_duration t) 0"
    "wrap_i64 (dts + 1) = dts + 1"
    using dts pts D R by (auto intro!: wrap)
  have prev_wrap: "\<And>prev. tl_last_dts tln = Some prev \<Longrightarrow> wrap_i64 (prev + 1) = prev + 1"
    using I R by (auto intro!: wrap)
  have dts_eq: "(case tl_last_dts tln1 of
      Some prev \<Rightarrow> if dts0 \<le> prev then wrap_i64 (prev + 1) else dts0 | None \<Rightarrow> dts0) = dts"
    using prev_wrap by (simp add: dts_def L(2) split: option.splits)
  have res: "tln' = tln1\<lparr>tl_last_dts := Some dts,
               tl_end := max (max (tl_end tln) (pts + max (pt_duration t) 0)) (dts + 1)\<rparr>"
    "p = \<lparr>pt_pts = Some pts, pt_dts = Some dts, pt_duration = pt_duration t\<rparr>"
    using place by (simp_all add: timeline_place_def loc dts_eq wraps L(1) flip: pts_def)
  show "tl_end tln \<le> tl_end tln'" "tl_end tln' \<le> tl_end tln + 2 * B + 2 * D + 1"
    using res(1) dts pts D R by auto
  have new: "tl_shift tln' = tl_shift tln1" "tl_last_dts tln' = Some dts" "dts < tl_end tln'"
    using res(1) by auto
  have "- B \<le> s \<and> s \<le> tl_end tln' + B" if "tl_shift tln' = Some s" for s
    using L(6)[of s] that new(1) \<open>tl_end tln \<le> tl_end tln'\<close> by simp
  moreover have "0 \<le> tl_end tln'"
    using I \<open>tl_end tln \<le> tl_end tln'\<close> by simp
  ultimately show "timeline_inv B tln'"
    using dts(1) new by (simp add: timeline_inv_def)
  show "\<exists>dts pts. p = \<lparr>pt_pts = Some pts, pt_dts = Some dts, pt_duration = pt_duration t\<rparr>
           \<and> tl_last_dts tln' = Some dts \<and> 0 \<le> dts \<and> dts \<le> pts
           \<and> (\<forall>prev. tl_last_dts tln = Some prev \<longrightarrow> prev < dts)"
    using res dts pts by auto
qed

text \<open>The decode and presentation stamps of what was placed.\<close>

definition placed_dts :: "packet_timing list \<Rightarrow> int list" where
  "placed_dts ps = map (\<lambda>p. the (pt_dts p)) ps"

definition event_within :: "int \<Rightarrow> int \<Rightarrow> timeline_event \<Rightarrow> bool" where
  "event_within B D e = (case e of Reconnect \<Rightarrow> True | Place t \<Rightarrow> timing_within B D t)"

lemma timeline_run_from:
  assumes "timeline_inv B tln" and "\<forall>e \<in> set es. event_within B D e" and "0 \<le> B" and "0 \<le> D"
    and "tl_end tln + int (length es) * (2 * B + 2 * D + 1) \<le> 2 ^ 62"
    and "timeline_run tln es = (tln', ps)"
  shows "timeline_inv B tln' \<and> sorted_wrt (<) (placed_dts ps)
    \<and> (\<forall>p \<in> set ps. \<exists>d q. pt_dts p = Some d \<and> pt_pts p = Some q \<and> d \<le> q)
    \<and> (\<forall>prev d. tl_last_dts tln = Some prev \<longrightarrow> d \<in> set (placed_dts ps) \<longrightarrow> prev < d)"
  using assms
proof (induction tln es arbitrary: tln' ps rule: timeline_run.induct)
  case (1 tln)
  then show ?case by (simp add: placed_dts_def)
next
  case (2 tln es)
  have "timeline_inv B (timeline_reconnect tln)"
    using 2(2) by (rule timeline_inv_reconnect)
  moreover have "tl_end (timeline_reconnect tln) + int (length es) * (2 * B + 2 * D + 1) \<le> 2 ^ 62"
    using 2(4-6) by (simp add: timeline_reconnect_def algebra_simps)
  ultimately show ?case
    using 2(1)[of tln' ps] 2(3-7) by (simp add: timeline_reconnect_def)
next
  case (3 tln t es)
  obtain u p where up: "timeline_place tln t = (u, p)" by fastforce
  obtain v qs where vq: "timeline_run u es = (v, qs)" by fastforce
  have ps: "ps = p # qs" "tln' = v"
    using 3(7) up vq by auto
  have N: "0 \<le> int (length es) * (2 * B + 2 * D + 1)"
    using 3(4,5) by simp
  have len: "int (length (Place t # es)) * (2 * B + 2 * D + 1)
      = int (length es) * (2 * B + 2 * D + 1) + (2 * B + 2 * D + 1)"
    by (simp add: algebra_simps)
  have room: "timeline_room B D (tl_end tln)"
    using 3(4-6) N unfolding len timeline_room_def by linarith
  have within: "timing_within B D t" "\<forall>e \<in> set es. event_within B D e"
    using 3(3) by (auto simp: event_within_def)
  note S = timeline_place_step[OF 3(2) within(1) room up]
  have "tl_end u + int (length es) * (2 * B + 2 * D + 1) \<le> 2 ^ 62"
    using S(3) 3(6) unfolding len by linarith
  from 3(1)[OF up[symmetric] refl S(1) within(2) 3(4,5) this vq] S(4) ps
  show ?case by (fastforce simp: placed_dts_def)
qed

section \<open>Properties\<close>


definition example_stamp :: "int \<Rightarrow> packet_timing" where
  "example_stamp x = \<lparr>pt_pts = Some x, pt_dts = Some x, pt_duration = 10\<rparr>"


text \<open>
  A reconnect continues the track where it ended: the first timed packet of a new
  connection is decoded exactly at the end of everything placed so far, whatever clock the
  new connection counts from.
\<close>

theorem timeline_reconnect_continues:
  assumes "timeline_inv B tln" and "timing_within B D t" and "timeline_room B D (tl_end tln)"
    and "pt_dts t = Some source"
    and "timeline_place (timeline_reconnect tln) t = (tln', p)"
  shows "pt_dts p = Some (tl_end tln)"
proof -
  have wrap: "wrap_i64 x = x" if "- (2 ^ 62) \<le> x" "x \<le> 2 ^ 62" for x
    using that by (simp add: in_i64_def i64_simps)
  have b: "\<bar>source\<bar> \<le> B"
    using assms(2,4) by (simp add: timing_within_def)
  have "wrap_i64 (tl_end tln - source) = tl_end tln - source" "wrap_i64 (tl_end tln) = tl_end tln"
    using assms(1,3) b by (auto simp: timeline_inv_def timeline_room_def intro!: wrap)
  then have "\<exists>q. timeline_locate (timeline_reconnect tln) t
      = ((timeline_reconnect tln)\<lparr>tl_shift := Some (tl_end tln - source)\<rparr>, q, tl_end tln)"
    using assms(4) by (simp add: timeline_locate_def timeline_reconnect_def Let_def)
  then show ?thesis
    using assms(1,5)
    by (auto simp: timeline_place_def timeline_reconnect_def timeline_inv_def Let_def
        split: option.splits)
qed

theorem timeline_reconnect_continues_witness:
  "pt_dts (snd (timeline_place
     (timeline_reconnect \<lparr>tl_end = 20, tl_last_dts = Some 10, tl_shift = Some 0\<rparr>)
     (example_stamp 500))) = Some 20"
proof -
  let ?tln = "\<lparr>tl_end = 20, tl_last_dts = Some 10, tl_shift = Some 0\<rparr>"
  obtain tln' p where p: "timeline_place (timeline_reconnect ?tln) (example_stamp 500) = (tln', p)"
    by fastforce
  have "pt_dts p = Some (tl_end ?tln)"
    by (rule timeline_reconnect_continues[OF _ _ _ _ p, of 500 10 500])
      (simp_all add: timeline_inv_def timing_within_def timeline_room_def example_stamp_def)
  then show ?thesis using p by simp
qed

text \<open>
  Converting ticks between positive time bases rounds to the nearest tick: the result
  is never more than half a target tick from the exact quotient, and the sign is kept.
\<close>

theorem rescale_nearest:
  assumes "0 < tb_num from" and "0 < tb_den from" and "0 < tb_num to" and "0 < tb_den to"
    and "in_i64 (trunc_div (ticks * tb_num from * tb_den to
           + sgn (ticks * tb_num from * tb_den to) * trunc_div (tb_den from * tb_num to) 2)
           (tb_den from * tb_num to))"
    and "from \<noteq> to"
  shows "2 * \<bar>time_base_rescale from ticks to * (tb_den from * tb_num to)
              - ticks * tb_num from * tb_den to\<bar> \<le> tb_den from * tb_num to"
proof -
  define n where "n = ticks * tb_num from * tb_den to"
  define d where "d = tb_den from * tb_num to"
  have d: "0 < d" using assms(2,3) by (simp add: d_def)
  have half: "trunc_div d 2 = d div 2" using d by (simp add: trunc_div_def)
  define r where "r = trunc_div (n + sgn n * (d div 2)) d"
  have r: "time_base_rescale from ticks to = r"
    using assms(5,6) half by (simp add: time_base_rescale_def r_def n_def d_def Let_def)
  have q: "2 * \<bar>((m + d div 2) div d) * d - m\<bar> \<le> d" if "0 \<le> m" for m :: int
  proof -
    define x where "x = (m + d div 2) mod d"
    have "((m + d div 2) div d) * d - m = d div 2 - x"
      by (simp add: x_def flip: minus_mod_eq_div_mult)
    moreover have "0 \<le> x" "x < d" using d by (auto simp: x_def)
    ultimately show ?thesis by (auto simp: abs_if)
  qed
  have "2 * \<bar>r * d - n\<bar> \<le> d"
  proof (cases "0 \<le> n")
    case True
    have "0 \<le> n + d div 2" using True d by simp
    then have "r = (n + d div 2) div d"
      using True d by (cases "n = 0"; cases "n + d div 2 = 0") (auto simp: r_def trunc_div_def sgn_if)
    then show ?thesis using q[OF True] by simp
  next
    case False
    have "n - d div 2 < 0" using False d by (simp add: pos_imp_zdiv_nonneg_iff)
    then have "r = - ((- n + d div 2) div d)"
      using False d by (simp add: r_def trunc_div_def sgn_if add.commute)
    moreover have "2 * \<bar>((- n + d div 2) div d) * d - (- n)\<bar> \<le> d"
      using q[of "- n"] False by simp
    moreover have "\<bar>x * d - (- n)\<bar> = \<bar>(- x) * d - n\<bar>" for x
      using abs_minus_cancel[of "x * d + n"] by (simp add: algebra_simps)
    ultimately show ?thesis by simp
  qed
  then show ?thesis by (simp add: r n_def d_def)
qed

theorem rescale_nearest_witness:
  "2 * \<bar>time_base_rescale \<lparr>tb_num = 1, tb_den = 1000\<rparr> 7 \<lparr>tb_num = 1, tb_den = 90000\<rparr> * 1000
        - 7 * 90000\<bar> \<le> 1000"
proof -
  let ?f = "\<lparr>tb_num = 1, tb_den = 1000\<rparr>" and ?t = "\<lparr>tb_num = 1, tb_den = 90000\<rparr>"
  have "2 * \<bar>time_base_rescale ?f 7 ?t * (tb_den ?f * tb_num ?t) - 7 * tb_num ?f * tb_den ?t\<bar>
      \<le> tb_den ?f * tb_num ?t"
    by (rule rescale_nearest) (simp_all add: in_i64_def trunc_div_def)
  then show ?thesis by simp
qed

end
