(* ===== verification/Api.thy ===== *)
theory Api
  imports Prelude "HOL-Library.AList"
begin

text \<open>
  What every route of \<open>ceres-server\<close> answers with: JSON values as \<open>serde_json\<close> has them (objects in
  insertion order), the error envelopes of \<open>error.rs\<close>, header values, and the credential scrubbing
  of \<open>scrub.rs\<close>. Reading and writing JSON text belongs to \<open>serde_json\<close> and is an argument.
\<close>

section \<open>JSON values\<close>

text \<open>
  A number is an integer, or the bits of a double. \<open>Map\<close> keeps its keys distinct and in the order they
  were first inserted; \<^const>\<open>AList.update\<close> is its \<open>insert\<close>, and \<^const>\<open>map_of\<close> its \<open>get\<close>.
\<close>

datatype json =
    JNull
  | JBool bool
  | JInt int
  | JFloat "64 word"
  | JString str
  | JArray "json list"
  | JObject "(str \<times> json) list"

fun json_as_str :: "json \<Rightarrow> str option" where
  "json_as_str (JString s) = Some s"
| "json_as_str _ = None"

fun json_as_i64 :: "json \<Rightarrow> int option" where
  "json_as_i64 (JInt n) = (if in_i64 n then Some n else None)"
| "json_as_i64 _ = None"

text \<open>A place inside a value, by field names and item positions.\<close>

datatype json_step = AtKey str | AtIndex nat

fun json_at :: "json \<Rightarrow> json_step list \<Rightarrow> json option" where
  "json_at v [] = Some v"
| "json_at (JObject m) (AtKey k # p) = (case map_of m k of None \<Rightarrow> None | Some w \<Rightarrow> json_at w p)"
| "json_at (JArray vs) (AtIndex i # p) = (if i < length vs then json_at (vs ! i) p else None)"
| "json_at _ _ = None"

lemma json_at_field:
  "json_at (JObject m) (AtKey k # p) = Option.bind (map_of m k) (\<lambda>w. json_at w p)"
  by (simp split: option.splits)

section \<open>Errors\<close>

datatype api_error =
  ApiError (ae_status: nat) (ae_kind: str) (ae_fields: "(str \<times> json) list") (ae_envelope: "str option")

definition api_error_new :: "nat \<Rightarrow> str \<Rightarrow> api_error" where
  "api_error_new s k = ApiError s k [] None"

definition not_found :: api_error where
  "not_found = api_error_new 404 ''not-found-error''"

definition not_authenticated :: api_error where
  "not_authenticated = api_error_new 401 ''not-authenticated-error''"

definition not_permitted :: api_error where
  "not_permitted = api_error_new 403 ''not-permitted-error''"

definition bad_credentials :: api_error where
  "bad_credentials = api_error_new 401 ''bad-credentials-error''"

definition authentication_disabled :: api_error where
  "authentication_disabled = api_error_new 403 ''authentication-disabled-error''"

definition http_error :: "nat \<Rightarrow> api_error" where
  "http_error s = ApiError s ''http-error'' [(''status'', JInt (int s))] None"

definition internal_error :: api_error where
  "internal_error = api_error_new 500 ''error''"

text \<open>\<open>StatusCode::from_u16\<close> takes 100 to 999.\<close>

definition status_from_u16 :: "nat \<Rightarrow> nat option" where
  "status_from_u16 s = (if 100 \<le> s \<and> s \<le> 999 then Some s else None)"

definition verbatim_error :: "nat \<Rightarrow> str \<Rightarrow> api_error" where
  "verbatim_error s envelope =
     ApiError (case status_from_u16 s of Some s \<Rightarrow> s | None \<Rightarrow> 500) ''error'' [] (Some envelope)"

datatype problem = Problem (pr_kind: str) (pr_location: "str list") (pr_message: str)

definition problem_json :: "problem \<Rightarrow> json" where
  "problem_json p =
     JObject [(''type'', JString (pr_kind p)), (''location'', JArray (map JString (pr_location p))),
              (''message'', JString (pr_message p))]"

definition validation_error :: "problem list \<Rightarrow> api_error" where
  "validation_error ps =
     ApiError 422 ''validation-failed-error'' [(''problems'', JArray (map problem_json ps))] None"

text \<open>\<open>ApiError::body\<close>: the envelope, or the text the host already serialized.\<close>

definition error_envelope :: "api_error \<Rightarrow> json" where
  "error_envelope e =
     JObject (fold (\<lambda>(k, v). AList.update k v) (ae_fields e)
        [(''__error__'', JBool True), (''type'', JString (ae_kind e))])"

definition error_body :: "(json \<Rightarrow> str) \<Rightarrow> api_error \<Rightarrow> str" where
  "error_body write e = (case ae_envelope e of Some t \<Rightarrow> t | None \<Rightarrow> write (error_envelope e))"

lemmas api_error_defs =
  api_error_new_def not_found_def not_authenticated_def not_permitted_def bad_credentials_def
  authentication_disabled_def http_error_def internal_error_def verbatim_error_def
  validation_error_def

text \<open>A handler's own refusals render an envelope that clients recognise by its first two keys.\<close>

lemma fold_update_get:
  "k \<notin> fst ` set fs \<Longrightarrow> map_of (fold (\<lambda>(k, v). AList.update k v) fs m) k = map_of m k"
  by (induction fs arbitrary: m) (auto simp: update_conv')

section \<open>Header values\<close>

text \<open>\<open>HeaderValue::to_str\<close> gives visible ASCII only.\<close>

definition header_to_str :: "str \<Rightarrow> str option" where
  "header_to_str s =
     (if list_all (\<lambda>c. (of_char c :: nat) = 9 \<or> 32 \<le> (of_char c :: nat) \<and> (of_char c :: nat) < 127) s
      then Some s else None)"

text \<open>\<open>HeaderValue::from_str\<close> refuses control bytes other than a tab.\<close>

definition header_from_str :: "str \<Rightarrow> str option" where
  "header_from_str s =
     (if list_all (\<lambda>c. (of_char c :: nat) = 9 \<or> 32 \<le> (of_char c :: nat) \<and> (of_char c :: nat) \<noteq> 127) s
      then Some s else None)"

section \<open>Scrubbing credentials\<close>

definition CREDENTIAL_FIELDS :: "str list" where
  "CREDENTIAL_FIELDS = [''secret'', ''password'', ''key_password'']"

lemma size_json_field:
  "(k, v) \<in> set m \<Longrightarrow> size v < Suc (size_list (size_prod (\<lambda>_. 0) size) m)"
  by (induction m) auto

function (sequential) scrub_credentials :: "json \<Rightarrow> json" where
  "scrub_credentials (JObject m) =
     JObject (map (\<lambda>(k, v). (k, scrub_credentials v)) (filter (\<lambda>(k, v). k \<notin> set CREDENTIAL_FIELDS) m))"
| "scrub_credentials (JArray vs) = JArray (map scrub_credentials vs)"
| "scrub_credentials v = v"
  by pat_completeness auto
termination
  by (relation "measure size") (auto dest: size_json_field simp: size_list_estimation' less_Suc_eq_le)

definition scrub_json :: "(str \<Rightarrow> (str, json) result) \<Rightarrow> (json \<Rightarrow> str) \<Rightarrow> str \<Rightarrow> str" where
  "scrub_json read write payload =
     (case read payload of Inl _ \<Rightarrow> ''null'' | Inr v \<Rightarrow> write (scrub_credentials v))"

definition names_credential :: "json_step list \<Rightarrow> bool" where
  "names_credential p \<longleftrightarrow> (\<exists>k\<in>set CREDENTIAL_FIELDS. AtKey k \<in> set p)"

lemma map_of_scrubbed:
  "map_of (map (\<lambda>(k, v). (k, f v)) (filter (\<lambda>(k, v). P k) m)) k =
     (if P k then map_option f (map_of m k) else None)"
  by (induction m) auto

lemma scrub_at:
  "json_at (scrub_credentials v) p =
     (if names_credential p then None else map_option scrub_credentials (json_at v p))"
proof (induction v p rule: json_at.induct)
  case (2 m k p)
  have "names_credential (AtKey k # p) \<longleftrightarrow> k \<in> set CREDENTIAL_FIELDS \<or> names_credential p"
    by (auto simp: names_credential_def)
  with 2 show ?case
    by (auto simp: map_of_scrubbed split: option.splits)
next
  case (3 vs i p)
  have "names_credential (AtIndex i # p) \<longleftrightarrow> names_credential p"
    by (auto simp: names_credential_def)
  with 3 show ?case by simp
qed (auto simp: names_credential_def split: option.splits)

text \<open>
  What \<open>serde_json\<close> keeps of every value: distinct keys and finite numbers. Scrubbing keeps it too.
\<close>

function (sequential) json_wf :: "json \<Rightarrow> bool" where
  "json_wf (JObject m) \<longleftrightarrow> distinct (map fst m) \<and> list_all (\<lambda>(k, v). json_wf v) m"
| "json_wf (JArray vs) \<longleftrightarrow> list_all json_wf vs"
| "json_wf (JFloat w) \<longleftrightarrow> take_bit 11 (drop_bit 52 w) \<noteq> 2047"
| "json_wf v \<longleftrightarrow> True"
  by pat_completeness auto
termination
  by (relation "measure size") (auto dest: size_json_field simp: size_list_estimation' less_Suc_eq_le)

lemma scrub_wf: "json_wf v \<Longrightarrow> json_wf (scrub_credentials v)"
proof (induction v rule: scrub_credentials.induct)
  case (1 m)
  have "fst \<circ> (\<lambda>(k :: str, v). (k, scrub_credentials v)) = fst"
    by (auto simp: fun_eq_iff)
  with 1 show ?case by (auto simp: list_all_iff distinct_map_filter)
qed (auto simp: list_all_iff)

text \<open>
  Over the values text reads as, writing and reading are inverse. Scrubbing stays among them, as it does
  for the well-formed values.
\<close>

definition json_faithful :: "json set \<Rightarrow> (str \<Rightarrow> (str, json) result) \<Rightarrow> (json \<Rightarrow> str) \<Rightarrow> bool" where
  "json_faithful V read write \<longleftrightarrow>
     (\<forall>v \<in> V. read (write v) = Ok v) \<and> (\<forall>t v. read t = Ok v \<longrightarrow> v \<in> V) \<and> read ''null'' = Ok JNull \<and>
     (\<forall>v \<in> V. scrub_credentials v \<in> V)"

lemma json_faithful_wf:
  "(\<And>v. json_wf v \<Longrightarrow> read (write v) = Ok v) \<Longrightarrow> (\<And>t v. read t = Ok v \<Longrightarrow> json_wf v) \<Longrightarrow>
   read ''null'' = Ok JNull \<Longrightarrow> json_faithful (Collect json_wf) read write"
  by (auto simp: json_faithful_def scrub_wf)

lemma scrub_json_reads:
  assumes "json_faithful V read write"
  obtains v where "read (scrub_json read write payload) = Ok v"
    and "\<And>p. names_credential p \<Longrightarrow> json_at v p = None"
    and "\<And>w p. read payload = Ok w \<Longrightarrow> \<not> names_credential p \<Longrightarrow> json_at v p = map_option scrub_credentials (json_at w p)"
proof (cases "read payload")
  case (Inl e)
  have "json_at JNull p = None" if "names_credential p" for p
    using that by (cases p) (auto simp: names_credential_def)
  with assms Inl show thesis by (intro that[of JNull]) (auto simp: scrub_json_def json_faithful_def)
next
  case (Inr w)
  then have "scrub_credentials w \<in> V" using assms by (auto simp: json_faithful_def)
  then have "read (scrub_json read write payload) = Ok (scrub_credentials w)"
    using assms Inr by (auto simp: scrub_json_def json_faithful_def)
  with Inr show thesis by (intro that) (auto simp: scrub_at)
qed

end
