(* ===== verification/Sql.thy ===== *)
theory Sql
  imports Prelude "HOL-Library.List_Lexorder" "HOL-Library.Char_ord"
begin

text \<open>
  The SQL the compilers of \<open>ceres-database\<close> build (\<open>filter.rs\<close>, \<open>selector.rs\<close>,
  \<open>store.rs\<close>): an abstract syntax for the \<open>sea_query\<close> expressions the sources construct,
  and its evaluation on a row with SQL's three-valued logic.

  Comparison, \<open>AND\<close>, \<open>OR\<close>, \<open>NOT\<close>, \<open>IN\<close> and \<open>IS NOT NULL\<close> are the language's own and are
  defined here. What a backend supplies (\<open>LIKE\<close>, \<open>ILIKE\<close>, \<open>GLOB\<close>, \<open>lower\<close>, the cast of a JSON
  column to text, \<open>instr\<close>, \<open>substr\<close>, the stored function \<open>ceres_tokenize_bytes\<close>, the clock and
  bucket functions) is a parameter: a field of \<open>sql_engine\<close>.
\<close>

section \<open>Values and expressions\<close>

text \<open>\<open>SqlDialect\<close> of \<open>filter.rs\<close>.\<close>

datatype sql_dialect = SqliteText | Postgres

datatype sql_value =
    TextV str
  | BytesV "byte list"
  | UuidV "128 word"
  | StampV int \<comment> \<open>a timestamp, nanoseconds from the epoch\<close>
  | BoolV bool
  | IntV int
  | JsonV str \<comment> \<open>a JSON column's content\<close>

datatype clock_part = Hour | Minute

datatype sql_expr =
    Col str
  | Val sql_value
  | CastText sql_expr
  | Lower sql_expr
  | TokenizeBytes sql_expr
  | Instr sql_expr sql_expr
  | Substr sql_expr int "int option"
  | ClockPart clock_part sql_expr

text \<open>
  Conditions. \<open>InBuckets key least origin width from to\<close> is the membership test of
  \<open>Schema::bucket_condition\<close>: the column is among the least (or greatest) values each
  bucket keeps of the rows in range.
\<close>

datatype sql_cond =
    BoolC bool
  | EqC sql_expr sql_expr
  | NeC sql_expr sql_expr
  | LtC sql_expr sql_expr
  | LeC sql_expr sql_expr
  | GtC sql_expr sql_expr
  | GeC sql_expr sql_expr
  | InC sql_expr "sql_value list"
  | LikeC sql_expr sql_expr "char option"
  | ILikeC sql_expr sql_expr "char option"
  | GlobC sql_expr sql_expr
  | IsNotNullC sql_expr
  | NotC sql_cond
  | AndC sql_cond sql_cond
  | OrC sql_cond sql_cond
  | InBuckets str bool int int "sql_value option" "sql_value option"

type_synonym row = "str \<Rightarrow> sql_value option"

section \<open>The backend\<close>

record sql_engine =
  eng_like :: "str \<Rightarrow> str \<Rightarrow> char option \<Rightarrow> bool"
  eng_ilike :: "str \<Rightarrow> str \<Rightarrow> char option \<Rightarrow> bool"
  eng_glob :: "str \<Rightarrow> str \<Rightarrow> bool"
  eng_lower :: "str \<Rightarrow> str"
  eng_cast_text :: "sql_value \<Rightarrow> str"
  eng_tokenize :: "byte list \<Rightarrow> str"
  eng_instr :: "byte list \<Rightarrow> byte list \<Rightarrow> int"
  eng_substr :: "byte list \<Rightarrow> int \<Rightarrow> int option \<Rightarrow> byte list"
  eng_clock :: "clock_part \<Rightarrow> sql_value \<Rightarrow> int"
  eng_bucket :: "int \<Rightarrow> int \<Rightarrow> sql_value \<Rightarrow> int"

section \<open>Three-valued logic\<close>

definition sql_not :: "bool option \<Rightarrow> bool option" where
  "sql_not a = map_option Not a"

fun sql_and :: "bool option \<Rightarrow> bool option \<Rightarrow> bool option" where
  "sql_and (Some False) _ = Some False"
| "sql_and _ (Some False) = Some False"
| "sql_and (Some True) b = b"
| "sql_and a (Some True) = a"
| "sql_and None None = None"

definition sql_or :: "bool option \<Rightarrow> bool option \<Rightarrow> bool option" where
  "sql_or a b = sql_not (sql_and (sql_not a) (sql_not b))"

lemma sql_and_True [simp]: "sql_and a b = Some True \<longleftrightarrow> a = Some True \<and> b = Some True"
  by (cases "(a, b)" rule: sql_and.cases) auto

lemma sql_and_False [simp]: "sql_and a b = Some False \<longleftrightarrow> a = Some False \<or> b = Some False"
  by (cases "(a, b)" rule: sql_and.cases) auto

lemma sql_not_True [simp]: "sql_not a = Some True \<longleftrightarrow> a = Some False"
  by (auto simp: sql_not_def)

lemma sql_not_False [simp]: "sql_not a = Some False \<longleftrightarrow> a = Some True"
  by (auto simp: sql_not_def)

lemma sql_not_None [simp]: "sql_not a = None \<longleftrightarrow> a = None"
  by (simp add: sql_not_def)

lemma sql_or_True [simp]: "sql_or a b = Some True \<longleftrightarrow> a = Some True \<or> b = Some True"
  by (simp add: sql_or_def)

lemma sql_or_False [simp]: "sql_or a b = Some False \<longleftrightarrow> a = Some False \<and> b = Some False"
  by (simp add: sql_or_def)

section \<open>Evaluation\<close>

text \<open>
  Ordered comparison. Text compares by its bytes: \<open>BINARY\<close> is the SQLite family's
  collation and migration \<open>0008\<close> collates PostgreSQL's text columns by code point.
\<close>

fun sql_less :: "sql_value \<Rightarrow> sql_value \<Rightarrow> bool" where
  "sql_less (TextV a) (TextV b) = (a < b)"
| "sql_less (StampV a) (StampV b) = (a < b)"
| "sql_less (IntV a) (IntV b) = (a < b)"
| "sql_less (UuidV a) (UuidV b) = (a < b)"
| "sql_less (BoolV a) (BoolV b) = (\<not> a \<and> b)"
| "sql_less (BytesV a) (BytesV b) = (map unat a < map unat b)"
| "sql_less _ _ = False"

text \<open>A strict function of possibly null operands.\<close>

definition sql_lift2 :: "('a \<Rightarrow> 'b \<Rightarrow> 'c) \<Rightarrow> 'a option \<Rightarrow> 'b option \<Rightarrow> 'c option" where
  "sql_lift2 f a b = (case (a, b) of (Some x, Some y) \<Rightarrow> Some (f x y) | _ \<Rightarrow> None)"

lemma sql_lift2_simps [simp]:
  "sql_lift2 f (Some x) (Some y) = Some (f x y)"
  "sql_lift2 f None b = None"
  "sql_lift2 f a None = None"
  by (simp_all add: sql_lift2_def split: option.splits)

fun sql_text :: "sql_value \<Rightarrow> str" where
  "sql_text (TextV t) = t"
| "sql_text _ = []"

fun sql_bytes :: "sql_value \<Rightarrow> byte list" where
  "sql_bytes (BytesV b) = b"
| "sql_bytes _ = []"

fun eval_expr :: "sql_engine \<Rightarrow> row \<Rightarrow> sql_expr \<Rightarrow> sql_value option" where
  "eval_expr E r (Col c) = r c"
| "eval_expr E r (Val v) = Some v"
| "eval_expr E r (CastText e) = map_option (\<lambda>v. TextV (eng_cast_text E v)) (eval_expr E r e)"
| "eval_expr E r (Lower e) = map_option (\<lambda>v. TextV (eng_lower E (sql_text v))) (eval_expr E r e)"
| "eval_expr E r (TokenizeBytes e) =
     map_option (\<lambda>v. TextV (eng_tokenize E (sql_bytes v))) (eval_expr E r e)"
| "eval_expr E r (Instr a b) =
     sql_lift2 (\<lambda>x y. IntV (eng_instr E (sql_bytes x) (sql_bytes y))) (eval_expr E r a) (eval_expr E r b)"
| "eval_expr E r (Substr e i n) =
     map_option (\<lambda>v. BytesV (eng_substr E (sql_bytes v) i n)) (eval_expr E r e)"
| "eval_expr E r (ClockPart p e) = map_option (\<lambda>v. IntV (eng_clock E p v)) (eval_expr E r e)"

text \<open>The values a bucket subquery keeps, over the rows of its own table.\<close>

definition bucket_rows ::
  "row list \<Rightarrow> str \<Rightarrow> sql_value option \<Rightarrow> sql_value option \<Rightarrow> sql_value list" where
  "bucket_rows rows key from to =
     filter (\<lambda>v. (case from of None \<Rightarrow> True | Some s \<Rightarrow> s = v \<or> sql_less s v)
               \<and> (case to of None \<Rightarrow> True | Some e \<Rightarrow> sql_less v e))
       (List.map_filter (\<lambda>r. r key) rows)"

definition bucket_kept ::
  "sql_engine \<Rightarrow> row list \<Rightarrow> str \<Rightarrow> bool \<Rightarrow> int \<Rightarrow> int \<Rightarrow> sql_value option \<Rightarrow> sql_value option
     \<Rightarrow> sql_value list" where
  "bucket_kept E rows key least origin width from to =
     (let vs = bucket_rows rows key from to
      in filter (\<lambda>v. list_all (\<lambda>w. eng_bucket E origin width w = eng_bucket E origin width v \<longrightarrow>
           \<not> (if least then sql_less w v else sql_less v w)) vs) vs)"

fun eval_cond :: "sql_engine \<Rightarrow> row list \<Rightarrow> row \<Rightarrow> sql_cond \<Rightarrow> bool option" where
  "eval_cond E rows r (BoolC b) = Some b"
| "eval_cond E rows r (EqC a b) = sql_lift2 (=) (eval_expr E r a) (eval_expr E r b)"
| "eval_cond E rows r (NeC a b) = sql_lift2 (\<noteq>) (eval_expr E r a) (eval_expr E r b)"
| "eval_cond E rows r (LtC a b) = sql_lift2 sql_less (eval_expr E r a) (eval_expr E r b)"
| "eval_cond E rows r (LeC a b) =
     sql_lift2 (\<lambda>x y. x = y \<or> sql_less x y) (eval_expr E r a) (eval_expr E r b)"
| "eval_cond E rows r (GtC a b) = sql_lift2 (\<lambda>x y. sql_less y x) (eval_expr E r a) (eval_expr E r b)"
| "eval_cond E rows r (GeC a b) =
     sql_lift2 (\<lambda>x y. x = y \<or> sql_less y x) (eval_expr E r a) (eval_expr E r b)"
| "eval_cond E rows r (InC a vs) =
     (if vs = [] then Some False else map_option (\<lambda>x. x \<in> set vs) (eval_expr E r a))"
| "eval_cond E rows r (LikeC a p esc) =
     sql_lift2 (\<lambda>x y. eng_like E (sql_text x) (sql_text y) esc) (eval_expr E r a) (eval_expr E r p)"
| "eval_cond E rows r (ILikeC a p esc) =
     sql_lift2 (\<lambda>x y. eng_ilike E (sql_text x) (sql_text y) esc) (eval_expr E r a) (eval_expr E r p)"
| "eval_cond E rows r (GlobC a p) =
     sql_lift2 (\<lambda>x y. eng_glob E (sql_text x) (sql_text y)) (eval_expr E r a) (eval_expr E r p)"
| "eval_cond E rows r (IsNotNullC a) = Some (eval_expr E r a \<noteq> None)"
| "eval_cond E rows r (NotC c) = sql_not (eval_cond E rows r c)"
| "eval_cond E rows r (AndC c d) = sql_and (eval_cond E rows r c) (eval_cond E rows r d)"
| "eval_cond E rows r (OrC c d) = sql_or (eval_cond E rows r c) (eval_cond E rows r d)"
| "eval_cond E rows r (InBuckets key least origin width from to) =
     map_option (\<lambda>x. x \<in> set (bucket_kept E rows key least origin width from to)) (r key)"

text \<open>A \<open>WHERE\<close> clause keeps a row when every condition is true, not merely not false.\<close>

definition where_holds :: "sql_engine \<Rightarrow> row list \<Rightarrow> sql_cond list \<Rightarrow> row \<Rightarrow> bool" where
  "where_holds E rows cs r \<longleftrightarrow> (\<forall>c \<in> set cs. eval_cond E rows r c = Some True)"

text \<open>
  \<open>all_of\<close> and the \<open>reduce\<close> of \<open>or\<close> conditions: a left-nested combination of at least one
  condition. The empty list, which every caller excludes, is where the source panics.
\<close>

definition all_of :: "sql_cond list \<Rightarrow> sql_cond" where
  "all_of cs = (case cs of [] \<Rightarrow> BoolC True | c # cs' \<Rightarrow> foldl AndC c cs')"

definition any_of :: "sql_cond list \<Rightarrow> sql_cond" where
  "any_of cs = (case cs of [] \<Rightarrow> BoolC False | c # cs' \<Rightarrow> foldl OrC c cs')"

lemma eval_foldl_AndC:
  "eval_cond E rows r (foldl AndC c cs) = Some True \<longleftrightarrow>
     eval_cond E rows r c = Some True \<and> where_holds E rows cs r"
  by (induction cs arbitrary: c) (auto simp: where_holds_def)

lemma eval_foldl_OrC:
  "eval_cond E rows r (foldl OrC c cs) = Some True \<longleftrightarrow>
     eval_cond E rows r c = Some True \<or> (\<exists>d \<in> set cs. eval_cond E rows r d = Some True)"
  by (induction cs arbitrary: c) auto

lemma eval_all_of: "eval_cond E rows r (all_of cs) = Some True \<longleftrightarrow> where_holds E rows cs r"
  by (cases cs) (simp_all add: all_of_def eval_foldl_AndC, simp_all add: where_holds_def)

lemma eval_any_of:
  "eval_cond E rows r (any_of cs) = Some True \<longleftrightarrow> (\<exists>c \<in> set cs. eval_cond E rows r c = Some True)"
  by (cases cs) (simp_all add: any_of_def eval_foldl_OrC)

lemma where_holds_append:
  "where_holds E rows (cs @ ds) r \<longleftrightarrow> where_holds E rows cs r \<and> where_holds E rows ds r"
  by (auto simp: where_holds_def)

lemma where_holds_simps [simp]:
  "where_holds E rows [] r"
  "where_holds E rows (c # cs) r \<longleftrightarrow> eval_cond E rows r c = Some True \<and> where_holds E rows cs r"
  by (auto simp: where_holds_def)

end
