(* ===== verification/Patterns.thy ===== *)
theory Patterns
  imports Sql
begin

text \<open>
  The text patterns \<open>filter.rs\<close> compiles (\<open>like_escape\<close>, \<open>glob_escape\<close>,
  \<open>with_wildcards\<close>, \<open>tokenize_bytes\<close>) against the documented meaning of \<open>LIKE\<close>, \<open>ILIKE\<close> and
  \<open>GLOB\<close>: an escaped text matches itself literally, and a wildcard on either side makes
  the match a containment, a prefix or a suffix test.
\<close>

section \<open>What a pattern means\<close>

text \<open>The only wildcard the sources emit is the one matching any run of characters.\<close>

datatype pat = Lit char | Run

fun pat_match :: "pat list \<Rightarrow> str \<Rightarrow> bool" where
  "pat_match [] s = (s = [])"
| "pat_match (Lit c # ps) [] = False"
| "pat_match (Lit c # ps) (x # xs) = (x = c \<and> pat_match ps xs)"
| "pat_match (Run # ps) [] = pat_match ps []"
| "pat_match (Run # ps) (x # xs) = (pat_match ps (x # xs) \<or> pat_match (Run # ps) xs)"

lemma pat_match_Run: "pat_match (Run # ps) s \<longleftrightarrow> (\<exists>a b. s = a @ b \<and> pat_match ps b)"
proof (induction s)
  case Nil
  then show ?case by simp
next
  case (Cons x xs)
  have "(\<exists>a b. x # xs = a @ b \<and> pat_match ps b) \<longleftrightarrow>
      pat_match ps (x # xs) \<or> (\<exists>a b. xs = a @ b \<and> pat_match ps b)"
    by (metis append_eq_Cons_conv)
  then show ?case using Cons.IH by simp
qed

lemma pat_match_Lits: "pat_match (map Lit p @ ps) s \<longleftrightarrow> (\<exists>r. s = p @ r \<and> pat_match ps r)"
proof (induction p arbitrary: s)
  case Nil
  then show ?case by simp
next
  case (Cons c p)
  then show ?case by (cases s) auto
qed

lemma pat_match_Run_end: "pat_match [Run] s"
  by (simp add: pat_match_Run)

lemma pat_match_exact: "pat_match (map Lit p) s \<longleftrightarrow> s = p"
  using pat_match_Lits[of p "[]" s] by simp

lemma pat_match_prefix: "pat_match (map Lit p @ [Run]) s \<longleftrightarrow> starts_with p s"
  by (simp add: pat_match_Lits pat_match_Run_end starts_with_iff)

lemma pat_match_suffix: "pat_match (Run # map Lit p) s \<longleftrightarrow> ends_with p s"
  by (simp add: pat_match_Run pat_match_exact ends_with_iff)

lemma pat_match_contains: "pat_match (Run # map Lit p @ [Run]) s \<longleftrightarrow> contains_str p s"
  by (auto simp: pat_match_Run pat_match_Lits pat_match_Run_end contains_str_iff)

section \<open>How a pattern is written\<close>

text \<open>
  The documented spelling of a pattern: \<open>LIKE\<close> writes the run \<open>%\<close> and makes \<open>%\<close>, \<open>_\<close> and
  the escape character itself literal with the escape; without an \<open>ESCAPE\<close> clause a
  literal is written plainly. \<open>GLOB\<close> writes the run \<open>*\<close> and makes a metacharacter literal
  with a character class of its own.
\<close>

definition like_token :: "pat \<Rightarrow> str" where
  "like_token t = (case t of Run \<Rightarrow> ''%''
     | Lit c \<Rightarrow> if c = CHR ''%'' \<or> c = CHR ''_'' \<or> c = CHR ''^'' then [CHR ''^'', c] else [c])"

definition plain_token :: "pat \<Rightarrow> str" where
  "plain_token t = (case t of Run \<Rightarrow> ''%'' | Lit c \<Rightarrow> [c])"

definition glob_token :: "pat \<Rightarrow> str" where
  "glob_token t = (case t of Run \<Rightarrow> ''*''
     | Lit c \<Rightarrow> if c = CHR ''['' \<or> c = CHR ''*'' \<or> c = CHR ''?'' then [CHR ''['', c, CHR '']''] else [c])"

lemma token_Run [simp]:
  "like_token Run = ''%''" "plain_token Run = ''%''" "glob_token Run = ''*''"
  by (simp_all add: like_token_def plain_token_def glob_token_def)

definition plain_pat :: "pat list \<Rightarrow> bool" where
  "plain_pat ps \<longleftrightarrow> (\<forall>c. Lit c \<in> set ps \<longrightarrow> c \<noteq> CHR ''%'' \<and> c \<noteq> CHR ''_'' \<and> c \<noteq> CHR 0x5C)"

definition ascii_lower :: "char \<Rightarrow> char" where
  "ascii_lower c =
     (let n = (of_char c :: nat) in if 65 \<le> n \<and> n \<le> 90 then char_of (n + 32) else c)"

definition lower_pat :: "pat \<Rightarrow> pat" where
  "lower_pat t = (case t of Run \<Rightarrow> Run | Lit c \<Rightarrow> Lit (ascii_lower c))"

text \<open>
  The documented laws of the operators. PostgreSQL's \<open>LIKE\<close> compares characters exactly;
  the SQLite family's folds ASCII case. \<open>GLOB\<close> compares exactly. Folding operators are
  claimed only for ASCII text: \<open>ILIKE\<close> and \<open>lower\<close> fold at least its letters.
\<close>

definition is_ascii :: "str \<Rightarrow> bool" where
  "is_ascii s \<longleftrightarrow> (\<forall>c \<in> set s. (of_char c :: nat) < 128)"

definition like_meaning :: "sql_dialect \<Rightarrow> pat list \<Rightarrow> str \<Rightarrow> bool" where
  "like_meaning D ps s = (case D of Postgres \<Rightarrow> pat_match ps s
     | SqliteText \<Rightarrow> pat_match (map lower_pat ps) (map ascii_lower s))"

definition like_law :: "sql_dialect \<Rightarrow> sql_engine \<Rightarrow> bool" where
  "like_law D E \<longleftrightarrow>
     (\<forall>ps s. eng_like E s (concat (map like_token ps)) (Some CHR ''^'') = like_meaning D ps s)
     \<and> (\<forall>ps s. plain_pat ps \<longrightarrow>
          eng_like E s (concat (map plain_token ps)) None = like_meaning D ps s)"

definition ilike_law :: "sql_engine \<Rightarrow> bool" where
  "ilike_law E \<longleftrightarrow>
     (\<forall>ps s. is_ascii s \<longrightarrow> (\<forall>c. Lit c \<in> set ps \<longrightarrow> is_ascii [c]) \<longrightarrow>
        eng_ilike E s (concat (map like_token ps)) (Some CHR ''^'')
        = pat_match (map lower_pat ps) (map ascii_lower s))"

definition lower_law :: "sql_engine \<Rightarrow> bool" where
  "lower_law E \<longleftrightarrow> (\<forall>s. is_ascii s \<longrightarrow> eng_lower E s = map ascii_lower s)"

definition glob_law :: "sql_engine \<Rightarrow> bool" where
  "glob_law E \<longleftrightarrow> (\<forall>ps s. eng_glob E s (concat (map glob_token ps)) = pat_match ps s)"

lemma ascii_lower_eq:
  assumes "\<not> is_ascii_alphabetic d"
  shows "ascii_lower c = d \<longleftrightarrow> c = d"
proof -
  have "of_char (char_of (of_char c + 32 :: nat) :: char) = (of_char c + 32 :: nat)"
    if "(of_char c :: nat) \<le> 90"
    using that by (simp add: of_char_of)
  then show ?thesis
    using assms by (auto simp: ascii_lower_def Let_def is_ascii_alphabetic_def)
qed

section \<open>The escapes of the sources\<close>

datatype operation_kind = Contains | Prefix | Suffix

definition like_escape :: "str \<Rightarrow> str" where
  "like_escape s = replace_char CHR ''_'' ''^_'' (replace_char CHR ''%'' ''^%'' s)"

definition glob_escape :: "str \<Rightarrow> str" where
  "glob_escape s =
     replace_char CHR ''?'' ''[?]'' (replace_char CHR ''*'' ''[*]'' (replace_char CHR ''['' ''[[]'' s))"

definition with_wildcards :: "str \<Rightarrow> operation_kind \<Rightarrow> char \<Rightarrow> str" where
  "with_wildcards s kind w =
     (case kind of Contains \<Rightarrow> [w] @ s @ [w] | Prefix \<Rightarrow> s @ [w] | Suffix \<Rightarrow> [w] @ s)"

text \<open>\<open>tokenize_bytes\<close>: two hex digits and a space per byte.\<close>

definition hex_digit :: "nat \<Rightarrow> char" where
  "hex_digit n = (''0123456789abcdef'' ! n)"

definition byte_token :: "byte \<Rightarrow> str" where
  "byte_token b = [hex_digit (unat b div 16), hex_digit (unat b mod 16), CHR '' '']"

definition tokenize_bytes :: "byte list \<Rightarrow> str" where
  "tokenize_bytes bs = concat (map byte_token bs)"

text \<open>\<open>text_matches\<close>, the in-memory side of an operation.\<close>

definition text_matches :: "str \<Rightarrow> operation_kind \<Rightarrow> str \<Rightarrow> bool" where
  "text_matches s kind p =
     (case kind of Contains \<Rightarrow> contains_str p s | Prefix \<Rightarrow> starts_with p s | Suffix \<Rightarrow> ends_with p s)"

definition kind_pat :: "operation_kind \<Rightarrow> str \<Rightarrow> pat list" where
  "kind_pat kind p =
     (case kind of Contains \<Rightarrow> Run # map Lit p @ [Run] | Prefix \<Rightarrow> map Lit p @ [Run]
      | Suffix \<Rightarrow> Run # map Lit p)"

lemma pat_match_kind: "pat_match (kind_pat kind p) s = text_matches s kind p"
  by (cases kind)
    (simp_all add: kind_pat_def text_matches_def pat_match_contains pat_match_prefix pat_match_suffix)

lemma replace_char_append: "replace_char c t (a @ b) = replace_char c t a @ replace_char c t b"
  by (induction a) simp_all

lemma like_escape_tokens:
  "CHR ''^'' \<notin> set p \<Longrightarrow> like_escape p = concat (map like_token (map Lit p))"
  by (induction p) (auto simp: like_escape_def like_token_def replace_char_append)

lemma glob_escape_tokens: "glob_escape p = concat (map glob_token (map Lit p))"
  by (induction p) (auto simp: glob_escape_def glob_token_def replace_char_append)

lemma like_pattern_tokens:
  assumes "CHR ''^'' \<notin> set p"
  shows "with_wildcards (like_escape p) kind CHR ''%'' = concat (map like_token (kind_pat kind p))"
  by (cases kind) (simp_all add: with_wildcards_def kind_pat_def like_escape_tokens[OF assms])

lemma glob_pattern_tokens:
  "with_wildcards (glob_escape p) kind CHR ''*'' = concat (map glob_token (kind_pat kind p))"
  by (cases kind) (simp_all add: with_wildcards_def kind_pat_def glob_escape_tokens)

lemma map_lower_kind: "map lower_pat (kind_pat kind p) = kind_pat kind (map ascii_lower p)"
  by (cases kind) (simp_all add: kind_pat_def lower_pat_def)

lemma set_kind_pat: "Lit c \<in> set (kind_pat kind p) \<longleftrightarrow> c \<in> set p"
  by (cases kind) (auto simp: kind_pat_def)

text \<open>The two case-sensitive comparisons the compiler emits say what the matcher says.\<close>

lemma glob_pattern_meaning:
  assumes "glob_law E"
  shows "eng_glob E s (with_wildcards (glob_escape p) kind CHR ''*'') = text_matches s kind p"
  using assms by (simp add: glob_law_def glob_pattern_tokens pat_match_kind)

lemma like_pattern_meaning:
  assumes "like_law Postgres E" and "CHR ''^'' \<notin> set p"
  shows "eng_like E s (with_wildcards (like_escape p) kind CHR ''%'') (Some CHR ''^'')
    = text_matches s kind p"
  using assms by (simp add: like_law_def like_pattern_tokens pat_match_kind like_meaning_def)

end
