(* ===== verification/Schema.thy ===== *)
theory Schema
  imports Patterns
begin

text \<open>
  The tables and their filter surface: \<open>ceres-entities\<close> (\<open>filterable.rs\<close> and the entity
  structs), the \<open>Filterable\<close> derive of \<open>ceres-macros\<close> that turns a struct into its field
  tables, the schemas of \<open>ceres-database\<close> (\<open>records.rs\<close>, \<open>entities.rs\<close>) and the key
  resolution of \<open>filter.rs\<close>. The derive is modelled as the function it is: a struct is a
  list of field declarations and its tables are computed from them.
\<close>

section \<open>Field families\<close>

datatype field_family =
    Uuid | Address | Timestamp | Text | Email | Values "str list" | Level | Bytes | Json
  | Boolean | JsonValue | PlainAddress

definition family_native :: "field_family \<Rightarrow> bool" where
  "family_native f \<longleftrightarrow> f \<noteq> Json"

definition family_scalar :: "field_family \<Rightarrow> bool" where
  "family_scalar f \<longleftrightarrow> f = Boolean"

record field_operation =
  op_key :: str
  op_kind :: operation_kind
  op_insensitive :: bool

record filter_field =
  ff_key :: str
  ff_family :: field_family
  ff_operations :: "field_operation list"
  ff_hidden :: bool

definition level_values :: "str list" where
  "level_values = [''debug'', ''info'', ''warning'', ''error'', ''critical'']"

section \<open>The derive\<close>

text \<open>A field's type, by the last segment of its path and its type arguments.\<close>

datatype rust_type = Path str "rust_type list" | NoPath

record field_decl =
  fd_ident :: str
  fd_rename :: "str option"
  fd_type :: rust_type
  fd_marks :: "str list"

text \<open>\<open>expand_filter_values\<close>: the variant names in declaration order, lowercased.\<close>

definition filter_values :: "str list \<Rightarrow> str list" where
  "filter_values variants = map (map ascii_lower) variants"

definition enum_variants :: "str \<Rightarrow> str list" where
  "enum_variants name =
     (if name = ''MessageDirection'' then [''Send'', ''Receive'']
      else if name = ''PermissionTargetType'' then [''Component'', ''Tag'', ''All'']
      else if name = ''GrantLevel'' then [''View'', ''Operate'', ''Manage'']
      else [])"

definition known_enum :: "str \<Rightarrow> bool" where
  "known_enum name \<longleftrightarrow>
     name = ''MessageDirection'' \<or> name = ''PermissionTargetType'' \<or> name = ''GrantLevel''"

definition type_is :: "rust_type \<Rightarrow> str \<Rightarrow> bool" where
  "type_is ty name \<longleftrightarrow> ty = Path name []"

text \<open>\<open>family_of\<close>, \<open>None\<close> for an unfilterable type.\<close>

fun family_of :: "rust_type \<Rightarrow> field_family option" where
  "family_of NoPath = None"
| "family_of (Path name args) =
     (if name = ''Uuid'' then Some Uuid
      else if name = ''Address'' then Some Address
      else if name = ''Timestamp'' then Some Timestamp
      else if name = ''String'' then Some Text
      else if name = ''Level'' then Some Level
      else if name = ''Vec'' then
        (case args of inner # _ \<Rightarrow> if type_is inner ''u8'' then Some Bytes else None | [] \<Rightarrow> None)
      else if name = ''Map'' then Some Json
      else if name = ''bool'' then Some Boolean
      else if name = ''Value'' then Some JsonValue
      else if name = ''Option'' then (case args of inner # _ \<Rightarrow> family_of inner | [] \<Rightarrow> None)
      else if args = [] \<and> known_enum name then Some (Values (filter_values (enum_variants name)))
      else None)"

definition marked :: "field_decl \<Rightarrow> str \<Rightarrow> bool" where
  "marked fd name \<longleftrightarrow> name \<in> set (fd_marks fd)"

definition family_carries_operations :: "field_family \<Rightarrow> bool" where
  "family_carries_operations family \<longleftrightarrow> family \<in> {Text, Email, Bytes, Json}"

definition operation_entries :: "str \<Rightarrow> field_family \<Rightarrow> bool \<Rightarrow> bool \<Rightarrow> field_operation list" where
  "operation_entries key family bare insensitive =
     (if family_carries_operations family
      then map (\<lambda>(variant, kind).
              \<lparr>op_key = (if bare then variant else key @ ''_'' @ variant),
               op_kind = kind, op_insensitive = insensitive\<rparr>)
            [(''contains'', Contains), (''prefix'', Prefix), (''suffix'', Suffix)]
      else [])"

text \<open>
  The loop of \<open>expand_filterable\<close>: a field's wire key, its column entry when its type has
  a family, and the three tables (\<open>FIELDS\<close>, \<open>COLUMNS\<close>, \<open>WIRE_KEYS\<close>).
\<close>

definition wire_key :: "field_decl \<Rightarrow> str" where
  "wire_key fd = (case fd_rename fd of Some k \<Rightarrow> k | None \<Rightarrow> fd_ident fd)"

definition field_family_of :: "field_decl \<Rightarrow> field_family option" where
  "field_family_of fd =
     (case family_of (fd_type fd) of
        Some Address \<Rightarrow> Some (if marked fd ''plain'' then PlainAddress else Address)
      | Some Text \<Rightarrow> Some (if marked fd ''email'' then Email else Text)
      | family \<Rightarrow> family)"

definition column_entry :: "field_decl \<Rightarrow> filter_field option" where
  "column_entry fd = map_option (\<lambda>family.
     \<lparr>ff_key = wire_key fd, ff_family = family,
      ff_operations = (if marked fd ''no_operations'' then []
        else operation_entries (wire_key fd) family (marked fd ''bare_operations'') (marked fd ''insensitive'')),
      ff_hidden = marked fd ''hidden''\<rparr>) (field_family_of fd)"

definition derive_columns :: "field_decl list \<Rightarrow> filter_field list" where
  "derive_columns fds = List.map_filter column_entry fds"

definition derive_fields :: "field_decl list \<Rightarrow> filter_field list" where
  "derive_fields fds = List.map_filter column_entry (filter (\<lambda>fd. \<not> marked fd ''skip'') fds)"

definition derive_wire_keys :: "field_decl list \<Rightarrow> str list" where
  "derive_wire_keys fds = map wire_key fds"

section \<open>The entity structs\<close>

definition plain_field :: "str \<Rightarrow> rust_type \<Rightarrow> field_decl" where
  "plain_field name ty = \<lparr>fd_ident = name, fd_rename = None, fd_type = ty, fd_marks = []\<rparr>"

definition marked_field :: "str \<Rightarrow> rust_type \<Rightarrow> str list \<Rightarrow> field_decl" where
  "marked_field name ty marks = \<lparr>fd_ident = name, fd_rename = None, fd_type = ty, fd_marks = marks\<rparr>"

definition renamed_field :: "str \<Rightarrow> str \<Rightarrow> rust_type \<Rightarrow> field_decl" where
  "renamed_field name wire ty = \<lparr>fd_ident = name, fd_rename = Some wire, fd_type = ty, fd_marks = []\<rparr>"

abbreviation ty_name :: "str \<Rightarrow> rust_type" where
  "ty_name n \<equiv> Path n []"

abbreviation ty_option :: "rust_type \<Rightarrow> rust_type" where
  "ty_option t \<equiv> Path ''Option'' [t]"

abbreviation ty_json_map :: rust_type where
  "ty_json_map \<equiv> Path ''Map'' [Path ''String'' [], Path ''Value'' []]"

definition message_struct :: "field_decl list" where
  "message_struct =
     [plain_field ''id'' (ty_name ''Uuid''),
      plain_field ''address'' (ty_name ''Address''),
      plain_field ''timestamp'' (ty_name ''Timestamp''),
      plain_field ''connection'' (ty_option (ty_name ''String'')),
      plain_field ''direction'' (ty_name ''MessageDirection''),
      marked_field ''data'' (Path ''Vec'' [ty_name ''u8'']) [''bare_operations'']]"

definition particle_struct :: "field_decl list" where
  "particle_struct =
     [plain_field ''id'' (ty_name ''Uuid''),
      plain_field ''address'' (ty_name ''Address''),
      plain_field ''timestamp'' (ty_name ''Timestamp''),
      plain_field ''connection'' (ty_option (ty_name ''String'')),
      renamed_field ''kind'' ''type'' (ty_name ''String''),
      plain_field ''data'' ty_json_map,
      plain_field ''span'' (ty_option NoPath)]"

definition alert_struct :: "field_decl list" where
  "alert_struct =
     [plain_field ''id'' (ty_name ''Uuid''),
      plain_field ''address'' (ty_name ''Address''),
      plain_field ''timestamp'' (ty_name ''Timestamp''),
      plain_field ''level'' (ty_name ''Level''),
      renamed_field ''kind'' ''type'' (ty_name ''String''),
      plain_field ''data'' ty_json_map]"

definition log_entry_struct :: "field_decl list" where
  "log_entry_struct =
     [plain_field ''id'' (ty_name ''Uuid''),
      plain_field ''address'' (ty_name ''Address''),
      plain_field ''timestamp'' (ty_name ''Timestamp''),
      plain_field ''level'' (ty_name ''Level''),
      marked_field ''content'' (ty_name ''String'') [''bare_operations'']]"

definition user_struct :: "field_decl list" where
  "user_struct =
     [plain_field ''id'' (ty_name ''Uuid''),
      plain_field ''username'' (ty_name ''String''),
      marked_field ''email'' (ty_name ''String'') [''email'', ''insensitive''],
      marked_field ''password'' (ty_name ''String'') [''skip'', ''hidden''],
      plain_field ''admin'' (ty_name ''bool''),
      plain_field ''disabled'' (ty_name ''bool'')]"

definition variable_struct :: "field_decl list" where
  "variable_struct =
     [plain_field ''address'' (ty_name ''Address''),
      plain_field ''name'' (ty_name ''String''),
      plain_field ''value'' (ty_name ''Value'')]"

definition setting_struct :: "field_decl list" where
  "setting_struct =
     [plain_field ''user_id'' (ty_name ''Uuid''),
      plain_field ''name'' (ty_name ''String''),
      marked_field ''value'' (ty_name ''Value'') [''skip'']]"

definition workspace_struct :: "field_decl list" where
  "workspace_struct =
     [plain_field ''id'' (ty_name ''Uuid''),
      plain_field ''name'' (ty_name ''String''),
      marked_field ''scope'' (ty_name ''Address'') [''plain''],
      plain_field ''owner_id'' (ty_option (ty_name ''Uuid'')),
      plain_field ''show_when_logged_out'' (ty_name ''bool''),
      marked_field ''data'' ty_json_map [''skip'']]"

definition workspace_edit_struct :: "field_decl list" where
  "workspace_edit_struct =
     [plain_field ''user_id'' (ty_name ''Uuid''),
      plain_field ''workspace_id'' (ty_name ''Uuid''),
      marked_field ''data'' ty_json_map [''skip'']]"

definition group_struct :: "field_decl list" where
  "group_struct =
     [plain_field ''id'' (ty_name ''Uuid''),
      plain_field ''name'' (ty_name ''String''),
      marked_field ''description'' (ty_name ''String'') [''skip'']]"

definition group_membership_struct :: "field_decl list" where
  "group_membership_struct =
     [plain_field ''user_id'' (ty_name ''Uuid''),
      plain_field ''group_id'' (ty_name ''Uuid'')]"

definition user_permission_struct :: "field_decl list" where
  "user_permission_struct =
     [plain_field ''user_id'' (ty_name ''Uuid''),
      plain_field ''target_type'' (ty_name ''PermissionTargetType''),
      marked_field ''target'' (ty_name ''String'') [''no_operations''],
      plain_field ''level'' (ty_name ''GrantLevel'')]"

definition group_permission_struct :: "field_decl list" where
  "group_permission_struct =
     [plain_field ''group_id'' (ty_name ''Uuid''),
      plain_field ''target_type'' (ty_name ''PermissionTargetType''),
      marked_field ''target'' (ty_name ''String'') [''no_operations''],
      plain_field ''level'' (ty_name ''GrantLevel'')]"


section \<open>Schemas\<close>

datatype cshape = Internal | Literal str | Present

record computed =
  cp_key :: str
  cp_column :: str
  cp_shape :: cshape

text \<open>
  \<open>Schema\<close>, without the parts only the generated Python models read (the entity's class
  name, its module and its docstring).
\<close>

record schema =
  sch_name :: str
  sch_fields :: "filter_field list"
  sch_columns :: "filter_field list"
  sch_delegated :: "str list"
  sch_key :: "str list"
  sch_fixed :: "str list"
  sch_order :: "str list"
  sch_computed :: "computed list"

definition struct_schema ::
  "str \<Rightarrow> field_decl list \<Rightarrow> str list \<Rightarrow> str list \<Rightarrow> str list \<Rightarrow> str list \<Rightarrow> computed list \<Rightarrow> schema" where
  "struct_schema name fds delegated key fixed order computed =
     \<lparr>sch_name = name, sch_fields = derive_fields fds, sch_columns = derive_columns fds,
      sch_delegated = delegated, sch_key = key, sch_fixed = fixed, sch_order = order,
      sch_computed = computed\<rparr>"

datatype record_table = Messages | Particles | Alerts | Logs

definition record_table_all :: "record_table list" where
  "record_table_all = [Messages, Particles, Alerts, Logs]"

definition record_table_parse :: "str \<Rightarrow> (str, record_table) result" where
  "record_table_parse n =
     (if n = ''messages'' then Ok Messages
      else if n = ''particles'' then Ok Particles
      else if n = ''alerts'' then Ok Alerts
      else if n = ''logs'' then Ok Logs
      else Err n)"

definition record_table_name :: "record_table \<Rightarrow> str" where
  "record_table_name t =
     (case t of Messages \<Rightarrow> ''messages'' | Particles \<Rightarrow> ''particles'' | Alerts \<Rightarrow> ''alerts'' | Logs \<Rightarrow> ''logs'')"

definition listing_cap :: "record_table \<Rightarrow> nat" where
  "listing_cap t = (case t of Particles \<Rightarrow> 5000 | _ \<Rightarrow> 1000)"

definition record_struct :: "record_table \<Rightarrow> field_decl list" where
  "record_struct t =
     (case t of Messages \<Rightarrow> message_struct | Particles \<Rightarrow> particle_struct | Alerts \<Rightarrow> alert_struct
      | Logs \<Rightarrow> log_entry_struct)"

definition record_schema :: "record_table \<Rightarrow> schema" where
  "record_schema t =
     struct_schema (record_table_name t) (record_struct t)
       (case t of Particles \<Rightarrow> [''class''] | _ \<Rightarrow> [])
       [''id''] [''id''] [''timestamp''] []"

datatype entity_table =
    Users | Variables | Settings | Workspaces | WorkspaceEdits | Groups | GroupMemberships
  | UserPermissions | GroupPermissions

definition entity_table_all :: "entity_table list" where
  "entity_table_all =
     [Users, Variables, Settings, Workspaces, WorkspaceEdits, Groups, GroupMemberships,
      UserPermissions, GroupPermissions]"

definition entity_table_parse :: "str \<Rightarrow> (str, entity_table) result" where
  "entity_table_parse n =
     (if n = ''users'' then Ok Users
      else if n = ''variables'' then Ok Variables
      else if n = ''settings'' then Ok Settings
      else if n = ''workspaces'' then Ok Workspaces
      else if n = ''workspace_edits'' then Ok WorkspaceEdits
      else if n = ''groups'' then Ok Groups
      else if n = ''group_memberships'' then Ok GroupMemberships
      else if n = ''user_permissions'' then Ok UserPermissions
      else if n = ''group_permissions'' then Ok GroupPermissions
      else Err n)"

definition entity_table_name :: "entity_table \<Rightarrow> str" where
  "entity_table_name t =
     (case t of
        Users \<Rightarrow> ''users''
      | Variables \<Rightarrow> ''variables''
      | Settings \<Rightarrow> ''settings''
      | Workspaces \<Rightarrow> ''workspaces''
      | WorkspaceEdits \<Rightarrow> ''workspace_edits''
      | Groups \<Rightarrow> ''groups''
      | GroupMemberships \<Rightarrow> ''group_memberships''
      | UserPermissions \<Rightarrow> ''user_permissions''
      | GroupPermissions \<Rightarrow> ''group_permissions'')"

definition entity_schema :: "entity_table \<Rightarrow> schema" where
  "entity_schema t =
     (case t of
        Users \<Rightarrow> struct_schema (entity_table_name t) user_struct []
        [''id''] [''id''] [''username'']
        []
      | Variables \<Rightarrow> struct_schema (entity_table_name t) variable_struct []
        [''address'', ''name''] [''address''] [''address'', ''name'']
        [\<lparr>cp_key = ''internal'', cp_column = ''name'', cp_shape = Internal\<rparr>]
      | Settings \<Rightarrow> struct_schema (entity_table_name t) setting_struct []
        [''user_id'', ''name''] [''user_id''] [''name'']
        []
      | Workspaces \<Rightarrow> struct_schema (entity_table_name t) workspace_struct []
        [''id''] [''id''] [''name'']
        [\<lparr>cp_key = ''placed_on_engine'', cp_column = ''scope'', cp_shape = Literal ''~''\<rparr>,
         \<lparr>cp_key = ''owned'', cp_column = ''owner_id'', cp_shape = Present\<rparr>]
      | WorkspaceEdits \<Rightarrow> struct_schema (entity_table_name t) workspace_edit_struct []
        [''workspace_id'', ''user_id''] [''workspace_id'', ''user_id''] [''user_id'', ''workspace_id'']
        []
      | Groups \<Rightarrow> struct_schema (entity_table_name t) group_struct []
        [''id''] [''id''] [''name'']
        []
      | GroupMemberships \<Rightarrow> struct_schema (entity_table_name t) group_membership_struct []
        [''user_id'', ''group_id''] [''user_id'', ''group_id''] [''user_id'', ''group_id'']
        []
      | UserPermissions \<Rightarrow> struct_schema (entity_table_name t) user_permission_struct []
        [''user_id'', ''target_type'', ''target''] [''user_id'', ''target_type'', ''target''] [''user_id'', ''target_type'', ''target'']
        []
      | GroupPermissions \<Rightarrow> struct_schema (entity_table_name t) group_permission_struct []
        [''group_id'', ''target_type'', ''target''] [''group_id'', ''target_type'', ''target''] [''group_id'', ''target_type'', ''target'']
        [])"

text \<open>The tables a filter can query.\<close>

datatype table = RecordTable record_table | EntityTable entity_table

definition table_schema :: "table \<Rightarrow> schema" where
  "table_schema t = (case t of RecordTable r \<Rightarrow> record_schema r | EntityTable e \<Rightarrow> entity_schema e)"

section \<open>Filter keys\<close>

datatype invalid =
    UnknownKey str | InvalidOrder str | InvalidSelector str | InvalidUuid str | InvalidTimestamp str
  | InvalidDuration str | InvalidValue str str | InvalidLevel str | InvalidBoolean str
  | InvalidRoot str | InvalidYaml str | TakesOneValue str | TakesSingleValue str
  | NotPositive str | InvalidSubsample str | InvalidSubsampleSelect str | InvalidClock str str
  | InvalidLimit str | InvalidOffset str | SubfilterNotMapping | SubfilterKeyNotString
  | FilterNotMapping | SubsampleRange bool bool | OrControl str | LimitAboveCap nat
  | InvalidAddress str | InvalidJson str | InvalidScalar str

datatype refusal = Delegated | Invalid invalid

datatype window_op = After | Before | Timespan | MaxAge | MinAge
datatype subsample_op = Every | Count | Select
datatype group_op = OrGroup | AndGroup
datatype clock_op = AfterHour | BeforeHour | AfterMinute | BeforeMinute
datatype bound_op = Minimum | Maximum

datatype key_role =
    EqualityR filter_field
  | OperationR filter_field operation_kind
  | RootR
  | GroupR group_op
  | SubsampleR subsample_op
  | WindowR window_op
  | ClockR clock_op
  | BoundR bound_op
  | ComputedR computed
  | OrderR
  | LimitR
  | OffsetR

datatype arity = Flag | ValueArity

datatype window_kind = Absolute | Age | Span | Clock | Subsample

datatype key_doc_role =
    EqualityK | OperationK operation_kind | RootK | WindowK window_kind | BoundK | ComputedK | QueryK | GroupK

record filter_key =
  fk_key :: str
  fk_arity :: arity
  fk_role :: key_doc_role
  fk_field :: "str option"

definition window_of :: "str \<Rightarrow> window_op option" where
  "window_of key =
     (if key = ''after'' then Some After
      else if key = ''before'' then Some Before
      else if key = ''timespan'' then Some Timespan
      else if key = ''max_age'' then Some MaxAge
      else if key = ''min_age'' then Some MinAge
      else None)"

definition clock_of :: "str \<Rightarrow> clock_op option" where
  "clock_of key =
     (if key = ''after_hour'' then Some AfterHour
      else if key = ''before_hour'' then Some BeforeHour
      else if key = ''after_minute'' then Some AfterMinute
      else if key = ''before_minute'' then Some BeforeMinute
      else None)"

definition subsample_of :: "str \<Rightarrow> subsample_op option" where
  "subsample_of key =
     (if key = ''subsample_every'' then Some Every
      else if key = ''subsample'' then Some Count
      else if key = ''subsample_select'' then Some Select
      else None)"

text \<open>The keys a field's family brings beside its own and its operations'.\<close>

definition family_role :: "field_family \<Rightarrow> str \<Rightarrow> key_role option" where
  "family_role family key =
     (case family of
        Address \<Rightarrow> if key = ''root'' then Some RootR else None
      | Timestamp \<Rightarrow>
          (case window_of key of Some w \<Rightarrow> Some (WindowR w)
           | None \<Rightarrow> (case clock_of key of Some c \<Rightarrow> Some (ClockR c)
              | None \<Rightarrow> map_option SubsampleR (subsample_of key)))
      | Level \<Rightarrow>
          if key = ''min_level'' then Some (BoundR Minimum)
          else if key = ''max_level'' then Some (BoundR Maximum) else None
      | _ \<Rightarrow> None)"

definition field_role :: "filter_field \<Rightarrow> str \<Rightarrow> key_role option" where
  "field_role field key =
     (if ff_key field = key \<and> family_native (ff_family field) then Some (EqualityR field)
      else case find (\<lambda>op. op_key op = key) (ff_operations field) of
             Some op \<Rightarrow> Some (OperationR field (op_kind op))
           | None \<Rightarrow> family_role (ff_family field) key)"

fun first_role :: "filter_field list \<Rightarrow> str \<Rightarrow> key_role option" where
  "first_role [] key = None"
| "first_role (f # fs) key = (case field_role f key of Some role \<Rightarrow> Some role | None \<Rightarrow> first_role fs key)"

definition query_role :: "str \<Rightarrow> key_role option" where
  "query_role key =
     (if key = ''order'' then Some OrderR
      else if key = ''limit'' then Some LimitR
      else if key = ''offset'' then Some OffsetR
      else if key = ''or'' then Some (GroupR OrGroup)
      else if key = ''and'' then Some (GroupR AndGroup)
      else None)"

definition resolve :: "schema \<Rightarrow> str \<Rightarrow> (refusal, key_role) result" where
  "resolve s key =
     (case query_role key of Some role \<Rightarrow> Ok role
      | None \<Rightarrow>
          if key \<in> set (sch_delegated s) then Err Delegated
          else case find (\<lambda>p. cp_key p = key) (sch_computed s) of
                 Some p \<Rightarrow> Ok (ComputedR p)
               | None \<Rightarrow> (case first_role (sch_fields s) key of Some role \<Rightarrow> Ok role
                          | None \<Rightarrow> Err (Invalid (UnknownKey key))))"

definition nullable :: "schema \<Rightarrow> str \<Rightarrow> bool" where
  "nullable s key \<longleftrightarrow> list_ex (\<lambda>f. ff_key f = key \<and> ff_family f = JsonValue) (sch_fields s)"

record order_term =
  ot_field :: filter_field
  ot_ascending :: bool

definition parse_order :: "schema \<Rightarrow> str \<Rightarrow> (refusal, order_term) result" where
  "parse_order s t =
     try_then
       (case split_once CHR '':'' t of
          None \<Rightarrow> Ok (t, True)
        | Some (base, d) \<Rightarrow>
            if d = ''asc'' then Ok (base, True)
            else if d = ''desc'' then Ok (base, False)
            else Err (Invalid (InvalidOrder t)))
       (\<lambda>(base, ascending).
          case find (\<lambda>f. ff_key f = base) (sch_fields s) of
            None \<Rightarrow> Err (Invalid (InvalidOrder t))
          | Some f \<Rightarrow> if \<not> family_native (ff_family f) then Err Delegated
                      else Ok \<lparr>ot_field = f, ot_ascending = ascending\<rparr>)"

definition field_arity :: "filter_field \<Rightarrow> arity" where
  "field_arity f = (if family_scalar (ff_family f) then Flag else ValueArity)"

definition family_keys :: "filter_field \<Rightarrow> filter_key list" where
  "family_keys f =
     (let keyed = (\<lambda>role key. \<lparr>fk_key = key, fk_arity = ValueArity, fk_role = role, fk_field = Some (ff_key f)\<rparr>)
      in case ff_family f of
           Address \<Rightarrow> [keyed RootK ''root'']
         | Timestamp \<Rightarrow>
             map (keyed (WindowK Absolute)) [''after'', ''before'']
             @ [keyed (WindowK Span) ''timespan'']
             @ map (keyed (WindowK Age)) [''max_age'', ''min_age'']
             @ map (keyed (WindowK Clock)) [''after_hour'', ''before_hour'', ''after_minute'', ''before_minute'']
             @ map (keyed (WindowK Subsample)) [''subsample_every'', ''subsample'', ''subsample_select'']
         | Level \<Rightarrow> map (keyed BoundK) [''min_level'', ''max_level'']
         | _ \<Rightarrow> [])"

definition field_keys :: "schema \<Rightarrow> filter_field \<Rightarrow> filter_key list" where
  "field_keys s f =
     (let own = family_native (ff_family f) \<and> ff_key f \<notin> set (sch_delegated s)
      in (if own then [\<lparr>fk_key = ff_key f, fk_arity = field_arity f, fk_role = EqualityK,
                        fk_field = Some (ff_key f)\<rparr>] else [])
         @ map (\<lambda>op. \<lparr>fk_key = op_key op, fk_arity = ValueArity, fk_role = OperationK (op_kind op),
                      fk_field = Some (ff_key f)\<rparr>) (ff_operations f)
         @ (if own then family_keys f else []))"

definition filter_keys :: "schema \<Rightarrow> filter_key list" where
  "filter_keys s =
     concat (map (field_keys s) (sch_fields s))
     @ map (\<lambda>p. \<lparr>fk_key = cp_key p, fk_arity = Flag, fk_role = ComputedK, fk_field = Some (cp_column p)\<rparr>)
         (sch_computed s)
     @ map (\<lambda>key. \<lparr>fk_key = key, fk_arity = ValueArity, fk_role = QueryK, fk_field = None\<rparr>)
         [''order'', ''limit'', ''offset'']
     @ map (\<lambda>key. \<lparr>fk_key = key, fk_arity = ValueArity, fk_role = GroupK, fk_field = None\<rparr>) [''or'', ''and'']"

definition supported_keys :: "schema \<Rightarrow> str list" where
  "supported_keys s = map fk_key (filter_keys s)"

definition column_keys :: "schema \<Rightarrow> filter_key list" where
  "column_keys s = map (\<lambda>f. \<lparr>fk_key = ff_key f, fk_arity = field_arity f, fk_role = EqualityK,
     fk_field = Some (ff_key f)\<rparr>) (sch_columns s)"

text \<open>The position of a level name in severity order.\<close>

fun position :: "'a \<Rightarrow> 'a list \<Rightarrow> nat option" where
  "position x [] = None"
| "position x (y # ys) = (if x = y then Some 0 else map_option Suc (position x ys))"

definition level_position :: "str \<Rightarrow> nat option" where
  "level_position value = position value level_values"

definition default_order_terms :: "schema \<Rightarrow> order_term list" where
  "default_order_terms s = List.map_filter (\<lambda>column.
     map_option (\<lambda>f. \<lparr>ot_field = f, ot_ascending = True\<rparr>)
       (find (\<lambda>f. ff_key f = column) (sch_fields s))) (sch_order s)"


section \<open>Keys served and keys resolved\<close>

text \<open>
  A schema is coherent when no delegated key names a field, an operation, a computed
  predicate or a key a family brings: delegation then removes nothing else.
\<close>

definition schema_ok :: "schema \<Rightarrow> bool" where
  "schema_ok s \<longleftrightarrow>
     list_all (\<lambda>k. list_all (\<lambda>f. ff_key f \<noteq> k \<and> k \<notin> set (map op_key (ff_operations f))
          \<and> k \<notin> set (map fk_key (family_keys f))) (sch_fields s)
        \<and> k \<notin> set (map cp_key (sch_computed s))
        \<and> k \<notin> {''order'', ''limit'', ''offset'', ''or'', ''and''}) (sch_delegated s)"

lemma family_role_keys: "family_role (ff_family f) key \<noteq> None \<longleftrightarrow> key \<in> set (map fk_key (family_keys f))"
  by (cases "ff_family f")
    (auto simp: family_role_def family_keys_def window_of_def clock_of_def subsample_of_def)

lemma family_keys_native: "\<not> family_native (ff_family f) \<Longrightarrow> family_keys f = []"
  by (simp add: family_native_def family_keys_def)

lemma field_role_keys:
  "field_role f key \<noteq> None \<longleftrightarrow>
     ff_key f = key \<and> family_native (ff_family f) \<or> key \<in> set (map op_key (ff_operations f))
     \<or> key \<in> set (map fk_key (family_keys f))"
proof -
  have "find (\<lambda>op. op_key op = key) (ff_operations f) = None
      \<longleftrightarrow> key \<notin> set (map op_key (ff_operations f))"
    by (auto simp: find_None_iff)
  then show ?thesis
    unfolding field_role_def family_role_keys[symmetric] by (auto split: option.splits)
qed

lemma first_role_keys: "first_role fs key \<noteq> None \<longleftrightarrow> (\<exists>f \<in> set fs. field_role f key \<noteq> None)"
  by (induction fs) (auto split: option.splits)

lemma field_keys_set:
  assumes "schema_ok s" and "f \<in> set (sch_fields s)"
  shows "key \<in> fk_key ` set (field_keys s f) \<longleftrightarrow> field_role f key \<noteq> None"
proof -
  have "ff_key f \<notin> set (sch_delegated s)"
    using assms by (auto simp: schema_ok_def list_all_iff)
  then have "fk_key ` set (field_keys s f) =
      (if family_native (ff_family f) then {ff_key f} else {}) \<union> set (map op_key (ff_operations f))
      \<union> set (map fk_key (family_keys f))"
    using family_keys_native[of f] by (simp add: field_keys_def image_Un image_image)
  then show ?thesis unfolding field_role_keys by auto
qed

lemma query_role_keys:
  "query_role key \<noteq> None \<longleftrightarrow> key \<in> {''order'', ''limit'', ''offset'', ''or'', ''and''}"
  by (simp add: query_role_def)

lemma supported_keys_iff:
  assumes "schema_ok s"
  shows "key \<in> set (supported_keys s) \<longleftrightarrow>
    query_role key \<noteq> None \<or> key \<in> set (map cp_key (sch_computed s)) \<or> first_role (sch_fields s) key \<noteq> None"
proof -
  have "fk_key ` set (concat (map (field_keys s) (sch_fields s)))
      = (\<Union>f \<in> set (sch_fields s). fk_key ` set (field_keys s f))"
    by auto
  then have "key \<in> fk_key ` set (concat (map (field_keys s) (sch_fields s)))
      \<longleftrightarrow> (\<exists>f \<in> set (sch_fields s). field_role f key \<noteq> None)"
    using field_keys_set[OF assms] by simp
  then show ?thesis
    unfolding supported_keys_def filter_keys_def first_role_keys query_role_keys
    by (simp add: image_Un image_image) blast
qed

lemma resolve_supported:
  assumes "schema_ok s"
  shows "(\<exists>role. resolve s key = Ok role) \<longleftrightarrow> key \<in> set (supported_keys s)"
proof -
  have comp: "find (\<lambda>p. cp_key p = key) (sch_computed s) = None \<longleftrightarrow> key \<notin> set (map cp_key (sch_computed s))"
    by (auto simp: find_None_iff)
  have "key \<in> set (sch_delegated s) \<Longrightarrow> key \<notin> set (supported_keys s)"
    using assms unfolding supported_keys_iff[OF assms] query_role_keys first_role_keys field_role_keys
    by (auto simp: schema_ok_def list_all_iff)
  then show ?thesis
    unfolding resolve_def supported_keys_iff[OF assms] using comp by (auto split: option.splits)
qed

lemmas struct_defs =
  message_struct_def particle_struct_def alert_struct_def log_entry_struct_def user_struct_def
  variable_struct_def setting_struct_def workspace_struct_def workspace_edit_struct_def
  group_struct_def group_membership_struct_def user_permission_struct_def group_permission_struct_def

lemmas schema_defs =
  struct_defs record_schema_def record_struct_def entity_schema_def struct_schema_def
  plain_field_def marked_field_def renamed_field_def derive_fields_def derive_columns_def
  column_entry_def field_family_of_def wire_key_def marked_def operation_entries_def
  family_carries_operations_def filter_values_def enum_variants_def known_enum_def type_is_def


text \<open>Every table, for the statements that range over all of them.\<close>

definition all_tables :: "table list" where
  "all_tables = map RecordTable record_table_all @ map EntityTable entity_table_all"

lemma all_tables_complete: "t \<in> set all_tables"
proof (cases t)
  case (RecordTable r)
  then show ?thesis by (cases r) (simp_all add: all_tables_def record_table_all_def)
next
  case (EntityTable e)
  then show ?thesis by (cases e) (simp_all add: all_tables_def entity_table_all_def)
qed

lemma schema_ok_no_delegated: "sch_delegated s = [] \<Longrightarrow> schema_ok s"
  by (simp add: schema_ok_def)

lemma particles_ok: "schema_ok (record_schema Particles)"
  by code_simp

lemma delegated_none:
  "r \<noteq> Particles \<Longrightarrow> sch_delegated (record_schema r) = []"
  "sch_delegated (entity_schema e) = []"
  by (cases r; simp add: record_schema_def struct_schema_def)
    (cases e; simp add: entity_schema_def struct_schema_def)

lemma table_schema_ok: "schema_ok (table_schema t)"
  using particles_ok schema_ok_no_delegated[OF delegated_none(1)] schema_ok_no_delegated[OF delegated_none(2)]
  by (cases t; metis table.simps(5,6) table_schema_def)

text \<open>Field keys name one field each.\<close>

definition fields_distinct :: "schema \<Rightarrow> bool" where
  "fields_distinct s \<longleftrightarrow> distinct (map ff_key (sch_fields s))"

definition table_keys_ok :: "schema \<Rightarrow> bool" where
  "table_keys_ok s \<longleftrightarrow>
     distinct (supported_keys s)
     \<and> fields_distinct s
     \<and> list_all (\<lambda>k. k \<in> set (map ff_key (sch_columns s))) (sch_key s @ sch_fixed s)
     \<and> map (\<lambda>t. ff_key (ot_field t)) (default_order_terms s) = sch_order s
     \<and> sch_order s \<noteq> []
     \<and> list_all (\<lambda>t. family_native (ff_family (ot_field t))) (default_order_terms s)"

lemma all_tables_keys_ok: "list_all (\<lambda>t. table_keys_ok (table_schema t)) all_tables"
  by code_simp

lemma table_fields_distinct: "fields_distinct (table_schema t)"
  using all_tables_keys_ok all_tables_complete by (simp add: list_all_iff table_keys_ok_def)

section \<open>Properties\<close>

text \<open>
  C31. What a table advertises is what it answers: on each of the thirteen tables a wire key
  resolves to a role exactly when it is one of the table's supported keys, so a parser
  generated from the list can never offer a key the compiler refuses, nor miss one.
\<close>

theorem supported_keys_resolve:
  "(\<exists>role. resolve (table_schema t) key = Ok role) \<longleftrightarrow> key \<in> set (supported_keys (table_schema t))"
  by (rule resolve_supported[OF table_schema_ok])

text \<open>
  The schemas the derive generates are well formed on each of the thirteen tables: no
  filter key is claimed twice, the key and fixed columns are stored columns, and every
  default order column is a filterable, natively ordered field, so no listing is silently
  unordered.
\<close>

theorem table_schemas_well_formed:
  "distinct (supported_keys (table_schema t))
   \<and> set (sch_key (table_schema t)) \<union> set (sch_fixed (table_schema t))
       \<subseteq> ff_key ` set (sch_columns (table_schema t))
   \<and> map (\<lambda>o'. ff_key (ot_field o')) (default_order_terms (table_schema t)) = sch_order (table_schema t)
   \<and> default_order_terms (table_schema t) \<noteq> []"
proof -
  have ok: "table_keys_ok (table_schema t)"
    using all_tables_keys_ok all_tables_complete by (simp add: list_all_iff)
  then have "default_order_terms (table_schema t) \<noteq> []"
    by (auto simp: table_keys_ok_def)
  then show ?thesis
    using ok by (auto simp: table_keys_ok_def list_all_iff)
qed

end
