(* ===== verification/Credentials.thy ===== *)
theory Credentials
  imports Schema
begin

text \<open>
  \<open>ceres-database/src/credentials.rs\<close>: what a user's password and email become on their
  way into the database. The cryptographic and Unicode libraries (\<open>argon2\<close>, \<open>bcrypt\<close>,
  \<open>email_address\<close>, \<open>idna\<close>, \<open>unicode-normalization\<close>) are parameters; the recognisers, the
  narrowing between the libraries and the write rule are the source's.
\<close>

section \<open>Library parameters\<close>

record credential_lib =
  cl_hash_argon2 :: "str \<Rightarrow> str option"
  cl_hash_bcrypt :: "str \<Rightarrow> str option"
  cl_nfc :: "str \<Rightarrow> str"
  cl_email :: "str \<Rightarrow> (str \<times> str \<times> str) option" \<comment> \<open>display part, local part, domain\<close>
  cl_domain_to_unicode :: "str \<Rightarrow> str option"
  cl_lower :: "str \<Rightarrow> str"
  cl_char_count :: "str \<Rightarrow> nat" \<comment> \<open>code points of a text\<close>
  cl_all_alphabetic :: "str \<Rightarrow> bool" \<comment> \<open>every code point is alphabetic\<close>

datatype hashing = Argon2 | Bcrypt

section \<open>Recognising a stored hash\<close>

definition bcrypt_hash :: "credential_lib \<Rightarrow> str \<Rightarrow> bool" where
  "bcrypt_hash L v =
     (case strip_prefix ''$2'' v of None \<Rightarrow> False
      | Some (c # d # rest) \<Rightarrow>
          (c = CHR ''a'' \<or> c = CHR ''y'' \<or> c = CHR ''b'') \<and> d = CHR ''$'' \<and> cl_char_count L rest = 56
      | Some _ \<Rightarrow> False)"

text \<open>\<open>str::split_once\<close> at a text.\<close>

fun split_once_str :: "str \<Rightarrow> str \<Rightarrow> (str \<times> str) option" where
  "split_once_str sep [] = (if sep = [] then Some ([], []) else None)"
| "split_once_str sep (x # xs) =
     (case strip_prefix sep (x # xs) of Some rest \<Rightarrow> Some ([], rest)
      | None \<Rightarrow> map_option (\<lambda>(a, b). (x # a, b)) (split_once_str sep xs))"

definition digits :: "str \<Rightarrow> bool" where
  "digits t \<longleftrightarrow> t \<noteq> [] \<and> list_all is_ascii_digit t"

definition argon2_variant :: "str \<Rightarrow> str option" where
  "argon2_variant rest =
     (case strip_prefix ''id'' rest of Some r \<Rightarrow> Some r
      | None \<Rightarrow> (case strip_prefix ''i'' rest of Some r \<Rightarrow> Some r | None \<Rightarrow> strip_prefix ''d'' rest))"

definition argon2_hash :: "str \<Rightarrow> bool" where
  "argon2_hash v =
     (case Option.bind (Option.bind (strip_prefix ''$argon2'' v) argon2_variant) (strip_prefix ''$v='') of
        None \<Rightarrow> False
      | Some rest \<Rightarrow> (case split_once_str ''$m='' rest of None \<Rightarrow> False
        | Some (version, rest) \<Rightarrow> (case split_once_str '',t='' rest of None \<Rightarrow> False
          | Some (memory, rest) \<Rightarrow> (case split_once_str '',p='' rest of None \<Rightarrow> False
            | Some (time, rest) \<Rightarrow> (case split_once CHR ''$'' rest of None \<Rightarrow> False
              | Some (parallelism, tail) \<Rightarrow>
                  digits version \<and> digits memory \<and> digits time \<and> digits parallelism \<and> tail \<noteq> []
                  \<and> list_all (\<lambda>c. is_ascii_alphanumeric c \<or> c = CHR ''+'' \<or> c = CHR ''/'' \<or> c = CHR ''$'') tail)))))"

definition is_password_hash :: "credential_lib \<Rightarrow> str \<Rightarrow> bool" where
  "is_password_hash L v \<longleftrightarrow> bcrypt_hash L v \<or> argon2_hash v"

definition valid_password :: "str \<Rightarrow> bool" where
  "valid_password v \<longleftrightarrow> v \<noteq> [] \<and> length v \<le> 72"

definition credentials_password :: "credential_lib \<Rightarrow> hashing \<Rightarrow> str \<Rightarrow> str option" where
  "credentials_password L h v =
     (if is_password_hash L v then Some v
      else if \<not> valid_password v then None
      else (case h of Argon2 \<Rightarrow> cl_hash_argon2 L v | Bcrypt \<Rightarrow> cl_hash_bcrypt L v))"

section \<open>Email addresses\<close>

definition special_use_domains :: "str list" where
  "special_use_domains = [''arpa'', ''invalid'', ''local'', ''localhost'', ''onion'', ''test'']"

definition email_domain_ok :: "credential_lib \<Rightarrow> str \<Rightarrow> bool" where
  "email_domain_ok L domain =
     (let labels = split_on CHR ''.'' domain; final = List.last labels
      in if length labels < 2 \<or> length domain > 253 then False
         else if list_ex (\<lambda>l. l = [] \<or> starts_with ''-'' l \<or> ends_with ''-'' l) labels then False
         else if cl_char_count L final < 2 \<or> \<not> cl_all_alphabetic L final then False
         else cl_lower L final \<notin> set special_use_domains)"

definition normalize_email :: "credential_lib \<Rightarrow> str \<Rightarrow> str option" where
  "normalize_email L v =
     (if length v > 254 then None
      else (case cl_email L (cl_nfc L v) of
          None \<Rightarrow> None
        | Some (shown, mailbox, host) \<Rightarrow>
            (if shown \<noteq> [] then None
             else if starts_with [CHR 0x22] mailbox \<or> mailbox = [] \<or> length mailbox > 64 then None
             else (case cl_domain_to_unicode L host of
                 None \<Rightarrow> None
               | Some domain \<Rightarrow>
                   (if email_domain_ok L domain then Some (cl_lower L (mailbox @ ''@'' @ domain)) else None)))))"

section \<open>The write rule\<close>

text \<open>A wire object's values, as far as the rule tells them apart.\<close>

datatype wire_json = JText str | JOther str

datatype credential_error = NotText str | PasswordRefused | EmailRefused

definition credential_entry ::
  "credential_lib \<Rightarrow> hashing \<Rightarrow> str \<times> wire_json \<Rightarrow> (credential_error, str \<times> wire_json) result" where
  "credential_entry L h kv =
     (case kv of
        (key, JOther v) \<Rightarrow>
          if key = ''password'' \<or> key = ''email'' then Err (NotText key) else Ok (key, JOther v)
      | (key, JText t) \<Rightarrow>
          if key = ''password'' then
            (case credentials_password L h t of Some t' \<Rightarrow> Ok (key, JText t') | None \<Rightarrow> Err PasswordRefused)
          else if key = ''email'' then
            (case normalize_email L t of Some t' \<Rightarrow> Ok (key, JText t') | None \<Rightarrow> Err EmailRefused)
          else Ok (key, JText t))"

definition credentials_apply ::
  "credential_lib \<Rightarrow> hashing \<Rightarrow> entity_table \<Rightarrow> (str \<times> wire_json) list
     \<Rightarrow> (credential_error, (str \<times> wire_json) list) result" where
  "credentials_apply L h table object =
     (if table \<noteq> Users then Ok object else try_map (credential_entry L h) object)"

section \<open>Properties\<close>

text \<open>The two recognisers never accept the same text, so a hash names one algorithm.\<close>

lemma hash_recognisers_disjoint: "\<not> (bcrypt_hash L v \<and> argon2_hash v)"
  by (auto simp: bcrypt_hash_def argon2_hash_def strip_prefix_Some bind_eq_Some_conv
      split: option.splits)

definition hashing_recognised :: "credential_lib \<Rightarrow> bool" where
  "hashing_recognised L \<longleftrightarrow>
     (\<forall>t v. cl_hash_argon2 L t = Some v \<longrightarrow> argon2_hash v)
     \<and> (\<forall>t v. cl_hash_bcrypt L t = Some v \<longrightarrow> bcrypt_hash L v)"

lemma credentials_password_hash:
  "hashing_recognised L \<Longrightarrow> credentials_password L h t = Some v \<Longrightarrow> is_password_hash L v"
  by (auto simp: credentials_password_def hashing_recognised_def is_password_hash_def
      split: if_splits hashing.splits)

text \<open>The passwords of a wire object.\<close>

definition password_entries :: "(str \<times> wire_json) list \<Rightarrow> (str \<times> wire_json) list" where
  "password_entries object = filter (\<lambda>(k, _). k = ''password'') object"

lemma credential_entry_password:
  assumes "hashing_recognised L" and "credential_entry L h kv = Ok (''password'', v)"
  shows "\<exists>t. v = JText t \<and> is_password_hash L t"
  using assms credentials_password_hash[OF assms(1)]
  by (cases kv; cases "snd kv") (auto simp: credential_entry_def split: if_splits option.splits)


definition example_hash :: str where
  "example_hash = ''$argon2id$v=19$m=8,t=1,p=1$salt$hash''"

definition example_lib :: credential_lib where
  "example_lib =
     \<lparr>cl_hash_argon2 = (\<lambda>t. Some example_hash), cl_hash_bcrypt = (\<lambda>t. None),
      cl_nfc = id, cl_email = (\<lambda>t. map_option (\<lambda>(l, d). ([], l, d)) (split_once CHR ''@'' t)),
      cl_domain_to_unicode = Some, cl_lower = map ascii_lower, cl_char_count = length,
      cl_all_alphabetic = list_all is_ascii_alphabetic\<rparr>"

lemma example_hash_recognised: "argon2_hash example_hash"
  by (simp add: argon2_hash_def example_hash_def argon2_variant_def digits_def is_ascii_digit_def
      is_ascii_alphanumeric_def is_ascii_alphabetic_def)


text \<open>
  The comment on \<open>valid_password\<close> says that every hash is longer than the 72 bytes it
  allows; a bcrypt hash is sixty bytes long and passes it.
\<close>

lemma bcrypt_hash_is_valid_password:
  "bcrypt_hash example_lib (''$2b$'' @ replicate 56 CHR ''x'')
   \<and> valid_password (''$2b$'' @ replicate 56 CHR ''x'')"
  by (simp add: bcrypt_hash_def valid_password_def example_lib_def)

end
