(* ===== verification/Reference_Engine.thy ===== *)
theory Reference_Engine
  imports Patterns
begin

text \<open>
  A concrete backend satisfying the operator laws: executable \<open>LIKE\<close> and \<open>GLOB\<close> matchers
  over pattern text, as the SQL documentation describes them. The theorems about compiled
  conditions are stated for every engine with the laws; this one shows that the laws hold
  together and carries their concrete instances.
\<close>

fun like_ref :: "(char \<Rightarrow> char) \<Rightarrow> char option \<Rightarrow> str \<Rightarrow> str \<Rightarrow> bool" where
  "like_ref f e [] s = (s = [])"
| "like_ref f e (p # ps) s =
     (if e = Some p then
        (case ps of [] \<Rightarrow> False
         | q # qs \<Rightarrow> (case s of [] \<Rightarrow> False | x # xs \<Rightarrow> f x = f q \<and> like_ref f e qs xs))
      else if p = CHR ''%'' then
        like_ref f e ps s \<or> (case s of [] \<Rightarrow> False | x # xs \<Rightarrow> like_ref f e (p # ps) xs)
      else if p = CHR ''_'' then (case s of [] \<Rightarrow> False | x # xs \<Rightarrow> like_ref f e ps xs)
      else (case s of [] \<Rightarrow> False | x # xs \<Rightarrow> f x = f p \<and> like_ref f e ps xs))"

fun glob_ref :: "str \<Rightarrow> str \<Rightarrow> bool" where
  "glob_ref [] s = (s = [])"
| "glob_ref (p # ps) s =
     (if p = CHR ''['' then
        (case ps of q # r # qs \<Rightarrow> r = CHR '']'' \<and> (case s of [] \<Rightarrow> False | x # xs \<Rightarrow> x = q \<and> glob_ref qs xs)
         | _ \<Rightarrow> False)
      else if p = CHR ''*'' then
        glob_ref ps s \<or> (case s of [] \<Rightarrow> False | x # xs \<Rightarrow> glob_ref (p # ps) xs)
      else if p = CHR ''?'' then (case s of [] \<Rightarrow> False | x # xs \<Rightarrow> glob_ref ps xs)
      else (case s of [] \<Rightarrow> False | x # xs \<Rightarrow> x = p \<and> glob_ref ps xs))"

fun instr_ref :: "int \<Rightarrow> byte list \<Rightarrow> byte list \<Rightarrow> int" where
  "instr_ref i s [] = i"
| "instr_ref i [] n = 0"
| "instr_ref i (x # xs) n = (if starts_with n (x # xs) then i else instr_ref (i + 1) xs n)"

definition substr_ref :: "byte list \<Rightarrow> int \<Rightarrow> int option \<Rightarrow> byte list" where
  "substr_ref s i n =
     (let start = (if i < 0 then nat (int (length s) + i) else nat (i - 1));
          start = (if i < 0 \<and> int (length s) + i < 0 then 0 else start)
      in (case n of None \<Rightarrow> drop start s | Some k \<Rightarrow> take (nat k) (drop start s)))"

definition json_text_ref :: "sql_value \<Rightarrow> str" where
  "json_text_ref v = (case v of JsonV t \<Rightarrow> t | _ \<Rightarrow> [])"

definition stamp_clock :: "clock_part \<Rightarrow> int \<Rightarrow> int" where
  "stamp_clock p s =
     (case p of Hour \<Rightarrow> (s div 3600000000000) mod 24 | Minute \<Rightarrow> (s div 60000000000) mod 60)"

definition clock_ref :: "clock_part \<Rightarrow> sql_value \<Rightarrow> int" where
  "clock_ref p v = (case v of StampV s \<Rightarrow> stamp_clock p s | _ \<Rightarrow> 0)"

definition bucket_ref :: "int \<Rightarrow> int \<Rightarrow> sql_value \<Rightarrow> int" where
  "bucket_ref origin width v = (case v of StampV s \<Rightarrow> (s div 1000 - origin div 1000) div width | _ \<Rightarrow> 0)"

definition reference_engine :: "sql_dialect \<Rightarrow> sql_engine" where
  "reference_engine D =
     \<lparr>eng_like = (\<lambda>s p e. like_ref (case D of Postgres \<Rightarrow> id | SqliteText \<Rightarrow> ascii_lower) e p s),
      eng_ilike = (\<lambda>s p e. like_ref ascii_lower e p s),
      eng_glob = (\<lambda>s p. glob_ref p s),
      eng_lower = map ascii_lower,
      eng_cast_text = json_text_ref,
      eng_tokenize = tokenize_bytes,
      eng_instr = instr_ref 1,
      eng_substr = substr_ref,
      eng_clock = clock_ref,
      eng_bucket = bucket_ref\<rparr>"

lemma like_ref_tokens:
  "like_ref f (Some CHR ''^'') (concat (map like_token ps)) s
   = pat_match (map (\<lambda>t. case t of Run \<Rightarrow> Run | Lit c \<Rightarrow> Lit (f c)) ps) (map f s)"
proof (induction ps arbitrary: s)
  case Nil
  then show ?case by simp
next
  case (Cons t ps)
  show ?case
  proof (cases t)
    case (Lit c)
    then show ?thesis using Cons.IH by (cases s) (auto simp: like_token_def)
  next
    case Run
    have "like_ref f (Some CHR ''^'') (CHR ''%'' # concat (map like_token ps)) s
        = pat_match (Run # map (\<lambda>t. case t of Run \<Rightarrow> Run | Lit c \<Rightarrow> Lit (f c)) ps) (map f s)"
      by (induction s) (simp_all add: Cons.IH)
    then show ?thesis using Run by simp
  qed
qed

lemma like_ref_plain:
  assumes "plain_pat ps"
  shows "like_ref f None (concat (map plain_token ps)) s
    = pat_match (map (\<lambda>t. case t of Run \<Rightarrow> Run | Lit c \<Rightarrow> Lit (f c)) ps) (map f s)"
  using assms
proof (induction ps arbitrary: s)
  case Nil
  then show ?case by simp
next
  case (Cons t ps)
  have rest: "plain_pat ps" using Cons.prems by (auto simp: plain_pat_def)
  note IH = Cons.IH[OF rest]
  show ?case
  proof (cases t)
    case (Lit c)
    then show ?thesis using IH Cons.prems
      by (cases s) (auto simp: plain_token_def plain_pat_def)
  next
    case Run
    have "like_ref f None (CHR ''%'' # concat (map plain_token ps)) s
        = pat_match (Run # map (\<lambda>t. case t of Run \<Rightarrow> Run | Lit c \<Rightarrow> Lit (f c)) ps) (map f s)"
      by (induction s) (simp_all add: IH)
    then show ?thesis using Run by simp
  qed
qed

lemma glob_ref_tokens: "glob_ref (concat (map glob_token ps)) s = pat_match ps s"
proof (induction ps arbitrary: s)
  case Nil
  then show ?case by simp
next
  case (Cons t ps)
  show ?case
  proof (cases t)
    case (Lit c)
    then show ?thesis using Cons.IH by (cases s) (auto simp: glob_token_def)
  next
    case Run
    have "glob_ref (CHR ''*'' # concat (map glob_token ps)) s = pat_match (Run # ps) s"
      by (induction s) (simp_all add: Cons.IH)
    then show ?thesis using Run by simp
  qed
qed

lemma lower_pat_eq: "lower_pat = (\<lambda>t. case t of Run \<Rightarrow> Run | Lit c \<Rightarrow> Lit (ascii_lower c))"
  by (simp add: lower_pat_def fun_eq_iff)

lemma id_pat_eq: "(\<lambda>t. case t of Run \<Rightarrow> Run | Lit c \<Rightarrow> Lit (id c)) = (\<lambda>t. t)"
  by (auto simp: fun_eq_iff split: pat.splits)

lemma reference_like_law: "like_law D (reference_engine D)"
  by (cases D)
    (simp_all add: like_law_def reference_engine_def like_meaning_def like_ref_tokens like_ref_plain
      id_pat_eq[simplified] lower_pat_eq)

lemma reference_glob_law: "glob_law (reference_engine D)"
  by (simp add: glob_law_def reference_engine_def glob_ref_tokens)

lemma reference_ilike_law: "ilike_law (reference_engine D)"
  by (simp add: ilike_law_def reference_engine_def like_ref_tokens lower_pat_eq)

lemma reference_lower_law: "lower_law (reference_engine D)"
  by (simp add: lower_law_def reference_engine_def)

end
