(* ===== verification/Wire.thy ===== *)
theory Wire
  imports Schema Credentials Reference_Engine
begin

text \<open>
  Wire values and their parsers (\<open>filter.rs\<close>, and the \<open>latin1\<close> module of
  \<open>ceres-entities/src/records.rs\<close>). The third-party grammars the source calls (\<open>speedate\<close>,
  \<open>chrono\<close>, \<open>yaml_serde\<close>, \<open>serde_json\<close>, \<open>uuid\<close>, floating point and Unicode case and
  white space) are the fields of \<open>codecs\<close>; what the source does around them is defined.

  A timestamp (\<open>NaiveDateTime\<close>) is its number of nanoseconds from the epoch, and a
  duration its number of nanoseconds.
\<close>

section \<open>Library parameters\<close>

datatype yaml =
    YNull | YBool bool | YNumber str | YString str | YSequence "yaml list"
  | YMapping "(yaml \<times> yaml) list" | YTagged

record codecs =
  cd_datetime :: "str \<Rightarrow> (int \<times> int) option" \<comment> \<open>speedate: Unix seconds and microseconds\<close>
  cd_from_micros :: "int \<Rightarrow> int option" \<comment> \<open>chrono: the stamp of a microsecond count\<close>
  cd_date :: "str \<Rightarrow> (int \<times> int \<times> int) option" \<comment> \<open>speedate: year, month, day\<close>
  cd_midnight :: "int \<times> int \<times> int \<Rightarrow> int option" \<comment> \<open>chrono: the stamp of a day's start\<close>
  cd_duration :: "str \<Rightarrow> (bool \<times> int \<times> int \<times> int) option" \<comment> \<open>speedate: positive, days, seconds, microseconds\<close>
  cd_float_scaled :: "str \<Rightarrow> int \<Rightarrow> int option" \<comment> \<open>a finite non-negative number, scaled, rounded\<close>
  cd_trim :: "str \<Rightarrow> str"
  cd_lower :: "str \<Rightarrow> str"
  cd_yaml :: "str \<Rightarrow> yaml option"
  cd_yaml_json :: "yaml \<Rightarrow> str option" \<comment> \<open>a YAML value's JSON text\<close>
  cd_yaml_json_text :: "str \<Rightarrow> str option" \<comment> \<open>YAML text read as a JSON value, rendered\<close>
  cd_uuid_parse :: "str \<Rightarrow> 128 word option"
  cd_uuid_text :: "128 word \<Rightarrow> str"
  cd_json_string :: "str \<Rightarrow> str option"
  cd_json_bool :: "str \<Rightarrow> bool option"
  cd_json_canonical :: "str \<Rightarrow> str option" \<comment> \<open>JSON text parsed and rendered again\<close>
  cd_rfc3339 :: "str \<Rightarrow> int option"
  cd_timestamp_text :: "int \<Rightarrow> str" \<comment> \<open>chrono's rendering in the stored format\<close>
  cd_in_range :: "int \<Rightarrow> bool" \<comment> \<open>the instants a \<open>NaiveDateTime\<close> can hold\<close>
  cd_clock :: "clock_part \<Rightarrow> int \<Rightarrow> nat" \<comment> \<open>chrono: a stamp's hour and minute\<close>
  cd_email :: credential_lib

section \<open>Latin-1\<close>

text \<open>
  \<open>latin1::decode\<close> writes each byte as the character of its code point, one or two UTF-8
  bytes; \<open>latin1::encode\<close> reads characters back, dropping those above \<open>U+00FF\<close>, whose
  UTF-8 form starts with a byte from \<open>0xC4\<close>.
\<close>

definition latin1_char :: "byte \<Rightarrow> str" where
  "latin1_char b =
     (if unat b < 128 then [char_of (unat b)]
      else [char_of (192 + unat b div 64), char_of (128 + unat b mod 64)])"

definition latin1_decode :: "byte list \<Rightarrow> str" where
  "latin1_decode bs = concat (map latin1_char bs)"

fun latin1_encode :: "str \<Rightarrow> byte list" where
  "latin1_encode [] = []"
| "latin1_encode [x] = (if (of_char x :: nat) < 128 then [of_nat (of_char x)] else [])"
| "latin1_encode (x # y # s) =
     (if (of_char x :: nat) < 128 then of_nat (of_char x) # latin1_encode (y # s)
      else if (of_char x :: nat) = 194 \<or> (of_char x :: nat) = 195
        then of_nat ((of_char x - 192) * 64 + (of_char y - 128)) # latin1_encode s
      else latin1_encode (y # s))"

section \<open>Numbers\<close>

text \<open>\<open>str::parse\<close> for an unsigned integer of a width: an optional plus, digits, no overflow.\<close>

definition digit_value :: "char \<Rightarrow> nat" where
  "digit_value c = of_char c - 48"

definition parse_uint :: "nat \<Rightarrow> str \<Rightarrow> nat option" where
  "parse_uint w s =
     (let ds = (case s of c # cs \<Rightarrow> if c = CHR ''+'' then cs else s | [] \<Rightarrow> []);
          n = foldl (\<lambda>n c. n * 10 + digit_value c) 0 ds
      in if ds = [] \<or> \<not> list_all is_ascii_digit ds \<or> n \<ge> 2 ^ w then None else Some n)"

section \<open>Timestamps and durations\<close>

definition micros :: "int \<Rightarrow> int" where
  "micros n = n * 1000"

definition parse_timestamp :: "codecs \<Rightarrow> str \<Rightarrow> (refusal, int) result" where
  "parse_timestamp cd t =
     (case Option.bind (cd_datetime cd t) (\<lambda>(secs, us). cd_from_micros cd (secs * 1000000 + us)) of
        Some stamp \<Rightarrow> Ok stamp
      | None \<Rightarrow> (case Option.bind (cd_date cd t) (cd_midnight cd) of
          Some midnight \<Rightarrow> Ok midnight
        | None \<Rightarrow> Err (Invalid (InvalidTimestamp t))))"

text \<open>The suffix grammar's unit, in microseconds, with the number before it.\<close>

definition duration_unit :: "str \<Rightarrow> str \<times> int" where
  "duration_unit t =
     (case strip_suffix ''us'' t of Some n \<Rightarrow> (n, 1)
      | None \<Rightarrow> (case strip_suffix ''ms'' t of Some n \<Rightarrow> (n, 1000)
      | None \<Rightarrow> (case strip_suffix ''s'' t of Some n \<Rightarrow> (n, 1000000)
      | None \<Rightarrow> (case strip_suffix ''m'' t of Some n \<Rightarrow> (n, 60 * 1000000)
      | None \<Rightarrow> (case strip_suffix ''h'' t of Some n \<Rightarrow> (n, 3600 * 1000000)
      | None \<Rightarrow> (case strip_suffix ''d'' t of Some n \<Rightarrow> (n, 86400 * 1000000)
      | None \<Rightarrow> (t, 1000000)))))))"

definition parse_duration :: "codecs \<Rightarrow> str \<Rightarrow> (refusal, int) result" where
  "parse_duration cd t =
     (case cd_duration cd t of
        Some (positive, day, second, microsecond) \<Rightarrow>
          if \<not> positive then Err (Invalid (InvalidDuration t))
          else Ok (micros ((day * 86400 + second) * 1000000 + microsecond))
      | None \<Rightarrow>
          (let (number, scale) =
             duration_unit (cd_lower cd (filter (\<lambda>c. c \<noteq> CHR '' '') (cd_trim cd t)))
           in if number = [] then Err (Invalid (InvalidDuration t))
              else (case cd_float_scaled cd number scale of
                      None \<Rightarrow> Err (Invalid (InvalidDuration t))
                    | Some us \<Rightarrow> Ok (micros us))))"

text \<open>\<open>resolve_now\<close>: the instant, truncated to microseconds.\<close>

definition resolve_now :: "int \<Rightarrow> int" where
  "resolve_now now = now - now mod 1000"

section \<open>Wire values\<close>

datatype wire_value = WText str | WYaml yaml

definition yaml_scalar :: "yaml \<Rightarrow> str option" where
  "yaml_scalar y =
     (case y of YString t \<Rightarrow> Some t | YNull \<Rightarrow> Some ''null'' | YNumber n \<Rightarrow> Some n
      | YBool b \<Rightarrow> Some (if b then ''true'' else ''false'') | _ \<Rightarrow> None)"

definition parse_yaml :: "codecs \<Rightarrow> str \<Rightarrow> (refusal, yaml) result" where
  "parse_yaml cd t =
     (if cd_trim cd t = [] then Ok YNull
      else (case cd_yaml cd t of Some y \<Rightarrow> Ok y | None \<Rightarrow> Err (Invalid (InvalidYaml t))))"

definition json_text :: "codecs \<Rightarrow> str \<Rightarrow> (refusal, str) result" where
  "json_text cd t =
     (case cd_yaml_json_text cd t of Some j \<Rightarrow> Ok j | None \<Rightarrow> Err (Invalid (InvalidJson t)))"

definition scalar_or_refuse :: "str \<Rightarrow> yaml \<Rightarrow> (refusal, str) result" where
  "scalar_or_refuse key y =
     (case yaml_scalar y of Some t \<Rightarrow> Ok t | None \<Rightarrow> Err (Invalid (InvalidScalar key)))"

definition wire_scalar :: "str \<Rightarrow> wire_value \<Rightarrow> (refusal, str) result" where
  "wire_scalar key v = (case v of WText t \<Rightarrow> Ok t | WYaml y \<Rightarrow> scalar_or_refuse key y)"

definition wire_whole :: "codecs \<Rightarrow> str \<Rightarrow> wire_value \<Rightarrow> (refusal, str) result" where
  "wire_whole cd key v =
     (case v of WText t \<Rightarrow> json_text cd t
      | WYaml y \<Rightarrow> (case cd_yaml_json cd y of Some j \<Rightarrow> Ok j | None \<Rightarrow> Err (Invalid (InvalidScalar key))))"

definition wire_scalars :: "str \<Rightarrow> wire_value \<Rightarrow> (refusal, str list) result" where
  "wire_scalars key v =
     (case v of
        WText t \<Rightarrow> Ok [t]
      | WYaml (YSequence ys) \<Rightarrow> try_map (scalar_or_refuse key) ys
      | WYaml y \<Rightarrow> try_then (scalar_or_refuse key y) (\<lambda>t. Ok [t]))"

definition set_once :: "'a option \<Rightarrow> str \<Rightarrow> 'a \<Rightarrow> (refusal, 'a option) result" where
  "set_once slot key v =
     (case slot of Some _ \<Rightarrow> Err (Invalid (TakesSingleValue key)) | None \<Rightarrow> Ok (Some v))"

lemma set_once_Ok [simp]: "set_once slot key v = Inr x \<longleftrightarrow> slot = None \<and> x = Some v"
  by (auto simp: set_once_def split: option.splits)

section \<open>A concrete instance of the libraries\<close>

text \<open>
  Executable stand-ins, to show that what the theorems assume of the libraries can hold: a
  stamp is written as a fixed-width binary number from the year zero, so that text order
  is time order, and JSON strings are quoted verbatim.
\<close>

fun bits_text :: "nat \<Rightarrow> nat \<Rightarrow> str" where
  "bits_text 0 n = []"
| "bits_text (Suc w) n =
     (if n \<ge> 2 ^ w then CHR ''1'' # bits_text w (n - 2 ^ w) else CHR ''0'' # bits_text w n)"

definition bits_value :: "str \<Rightarrow> nat" where
  "bits_value s = foldl (\<lambda>n c. n * 2 + (if c = CHR ''1'' then 1 else 0)) 0 s"

definition stamp_origin :: int where
  "stamp_origin = - 62167219200 * 1000000000"

definition stamp_limit :: int where
  "stamp_limit = 253402300800 * 1000000000"

text \<open>The years 0 to 9999, whose rendering has a fixed width.\<close>

definition stamp_renders :: "int \<Rightarrow> bool" where
  "stamp_renders s \<longleftrightarrow> stamp_origin \<le> s \<and> s < stamp_limit"

definition stamp_text_ref :: "int \<Rightarrow> str" where
  "stamp_text_ref s = bits_text 70 (nat (s - stamp_origin))"

definition stamp_parse_ref :: "str \<Rightarrow> int option" where
  "stamp_parse_ref t = (if length t = 70 then Some (int (bits_value t) + stamp_origin) else None)"

definition unquote :: "str \<Rightarrow> str option" where
  "unquote t = Option.bind (strip_prefix [CHR 0x22] t) (strip_suffix [CHR 0x22])"

definition reference_codecs :: codecs where
  "reference_codecs =
     \<lparr>cd_datetime = (\<lambda>t. map_option (\<lambda>s. (s div 1000000000, s div 1000 mod 1000000)) (stamp_parse_ref t)),
      cd_from_micros = (\<lambda>us. Some (us * 1000)),
      cd_date = (\<lambda>_. None), cd_midnight = (\<lambda>_. None), cd_duration = (\<lambda>_. None),
      cd_float_scaled = (\<lambda>t k. map_option (\<lambda>n. int n * k) (parse_uint 64 t)),
      cd_trim = id, cd_lower = map ascii_lower,
      cd_yaml = (\<lambda>_. None), cd_yaml_json = (\<lambda>_. None), cd_yaml_json_text = Some,
      cd_uuid_parse = (\<lambda>t. if length t = 128 then Some (of_nat (bits_value t)) else None),
      cd_uuid_text = (\<lambda>u. bits_text 128 (unat u)),
      cd_json_string = unquote,
      cd_json_bool = (\<lambda>t. if t = ''true'' then Some True else if t = ''false'' then Some False else None),
      cd_json_canonical = Some, cd_rfc3339 = stamp_parse_ref, cd_timestamp_text = stamp_text_ref,
      cd_in_range = (\<lambda>_. True), cd_clock = (\<lambda>p s. nat (stamp_clock p s)), cd_email = example_lib\<rparr>"

lemma bits_text_less:
  "a < 2 ^ w \<Longrightarrow> b < 2 ^ w \<Longrightarrow> bits_text w a < bits_text w b \<longleftrightarrow> a < b"
proof (induction w arbitrary: a b)
  case (Suc w)
  have lt: "CHR ''0'' < CHR ''1''" "\<not> CHR ''1'' < CHR ''0''" by (simp_all add: less_char_def)
  show ?case
    using Suc.prems Suc.IH[of "a - 2 ^ w" "b - 2 ^ w"] Suc.IH[of a b] lt by auto
qed simp

lemma bits_value_append: "foldl (\<lambda>n c. n * 2 + (if c = CHR ''1'' then 1 else 0)) k s
    = k * 2 ^ length s + bits_value s"
proof (induction s arbitrary: k)
  case (Cons c s)
  show ?case
    using Cons.IH[of "k * 2 + (if c = CHR ''1'' then 1 else 0)"] Cons.IH[of "if c = CHR ''1'' then 1 else 0"]
    by (simp add: bits_value_def algebra_simps)
qed (simp add: bits_value_def)

lemma length_bits_text [simp]: "length (bits_text w n) = w"
  by (induction w arbitrary: n) simp_all

lemma bits_value_text [simp]: "n < 2 ^ w \<Longrightarrow> bits_value (bits_text w n) = n"
proof (induction w arbitrary: n)
  case (Suc w)
  have cons: "bits_value (c # s) = (if c = CHR ''1'' then 1 else 0) * 2 ^ length s + bits_value s" for c s
    using bits_value_append[of "if c = CHR ''1'' then 1 else 0" s] by (simp add: bits_value_def)
  show ?case using Suc by (simp add: cons)
qed (simp add: bits_value_def)

section \<open>Properties\<close>

lemma latin1_encode_char: "latin1_encode (latin1_char b @ s) = b # latin1_encode s"
proof -
  have b: "unat b < 256" using unsigned_less[of b, where ?'a = nat] by simp
  have of_c: "(of_char (char_of n) :: nat) = n" if "n < 256" for n
    using that by simp
  show ?thesis
  proof (cases "unat b < 128")
    case True
    then show ?thesis by (cases s) (auto simp: latin1_char_def of_c)
  next
    case False
    have q: "unat b div 64 = 2 \<or> unat b div 64 = 3" using b False by linarith
    have "of_nat (unat b div 64 * 64 + unat b mod 64) = b"
      by (simp only: div_mult_mod_eq) simp
    then have sum: "of_nat (unat b div 64 * 64) + of_nat (unat b mod 64) = b" by (simp only: of_nat_add)
    show ?thesis
      using False q sum by (auto simp: latin1_char_def of_c)
  qed
qed

lemma uuid_bits_inj: "bits_text 128 (unat u) = bits_text 128 (unat v) \<Longrightarrow> u = (v :: 128 word)"
proof -
  assume eq: "bits_text 128 (unat u) = bits_text 128 (unat v)"
  have "unat w < 2 ^ 128" for w :: "128 word" using unsigned_less[of w, where ?'a = nat] by simp
  then have "unat u = unat v"
    using arg_cong[OF eq, of bits_value] bits_value_text[of "unat u" 128] bits_value_text[of "unat v" 128]
    by simp
  then show ?thesis by (simp add: word_unat_eq_iff)
qed

text \<open>Message bytes survive the wire.\<close>

lemma latin1_round_trip: "latin1_encode (latin1_decode bs) = bs"
  by (induction bs) (simp_all add: latin1_decode_def latin1_encode_char)

end
