(* ===== verification/Selector.thy ===== *)
theory Selector
  imports Patterns Reference_Engine
begin

text \<open>
  \<open>ceres-entities/src/address.rs\<close> and \<open>ceres-database/src/selector.rs\<close>: component addresses
  and the selector language over them. A selector compiles to a condition on the address
  column, matches addresses in memory, and yields a scope (literal addresses and prefixes
  to walk) from which the store discovers branches. The theorems relate the three.

  An \<open>expect\<close> of the source is a \<open>Panic\<close> here; validated selectors never reach one.
\<close>

section \<open>Addresses\<close>

text \<open>\<open>is_valid_name\<close> and \<open>is_valid\<close> of \<open>address.rs\<close>.\<close>

definition name_start :: "char \<Rightarrow> bool" where
  "name_start c \<longleftrightarrow> is_ascii_alphabetic c \<or> c = CHR ''_'' \<or> c = CHR ''-''"

definition name_char :: "char \<Rightarrow> bool" where
  "name_char c \<longleftrightarrow> is_ascii_alphanumeric c \<or> c = CHR ''_'' \<or> c = CHR ''-''"

definition is_valid_name :: "str \<Rightarrow> bool" where
  "is_valid_name n = (case n of [] \<Rightarrow> False | first # rest \<Rightarrow> name_start first \<and> list_all name_char rest)"

definition is_valid :: "str \<Rightarrow> bool" where
  "is_valid t =
     (if t = ''~'' then True
      else case strip_prefix ''@'' t of None \<Rightarrow> False
           | Some path \<Rightarrow> list_all is_valid_name (split_on CHR ''.'' path))"

definition address_parse :: "str \<Rightarrow> (str, str) result" where
  "address_parse t = (if is_valid t then Ok t else Err t)"

section \<open>The selector grammar\<close>

record address_selector =
  sel_segments :: "str list"

definition selector_default :: address_selector where
  "selector_default = \<lparr>sel_segments = []\<rparr>"

datatype sel_modifier = ModAll | ModChildren | ModDescendants

definition modifier_parse :: "str \<Rightarrow> sel_modifier option" where
  "modifier_parse t =
     (if t = ''all'' then Some ModAll
      else if t = ''children'' then Some ModChildren
      else if t = ''descendants'' then Some ModDescendants
      else None)"

definition valid_name :: "str \<Rightarrow> bool" where
  "valid_name t =
     (case t of [] \<Rightarrow> False
      | first # rest \<Rightarrow>
          (if \<not> (is_ascii_alphabetic first \<or> first = CHR ''_'' \<or> first = CHR ''-'') then False
           else list_all (\<lambda>c. is_ascii_alphanumeric c \<or> c = CHR ''_'' \<or> c = CHR ''-'') rest))"

definition valid_path :: "str \<Rightarrow> bool" where
  "valid_path t \<longleftrightarrow> t \<noteq> [] \<and> list_all valid_name (split_on CHR ''.'' t)"

definition valid_optionally_absolute_path :: "str \<Rightarrow> bool" where
  "valid_optionally_absolute_path t =
     valid_path (case strip_prefix ''@'' t of None \<Rightarrow> t | Some p \<Rightarrow> p)"

definition valid_address :: "str \<Rightarrow> bool" where
  "valid_address t =
     (if t = ''~'' then True
      else case strip_prefix ''@'' t of Some path \<Rightarrow> valid_path path | None \<Rightarrow> False)"

definition valid_segment :: "str \<Rightarrow> bool" where
  "valid_segment seg =
     (if seg = ''~'' \<or> seg = ''~:all'' \<or> seg = ''~:descendants'' then True
      else case split_once CHR '':'' seg of
             Some (base, modifier) \<Rightarrow>
               (if modifier_parse modifier = None then False
                else if base = [] \<or> base = ''@'' then True
                else valid_optionally_absolute_path base)
           | None \<Rightarrow> valid_optionally_absolute_path seg)"

text \<open>\<open>AddressSelector::push\<close>: every pipe-separated segment of the value is validated.\<close>

definition selector_push :: "address_selector \<Rightarrow> str \<Rightarrow> (str, address_selector) result" where
  "selector_push S value =
     try_fold (\<lambda>seg s. if valid_segment seg then Ok (s\<lparr>sel_segments := sel_segments s @ [seg]\<rparr>)
                       else Err value)
       (split_on CHR ''|'' value) S"

section \<open>Resolution and matching\<close>

definition sel_base :: "str option \<Rightarrow> str" where
  "sel_base root = (case root of None \<Rightarrow> ''@'' | Some r \<Rightarrow> if r = ''~'' then ''@'' else r)"

definition absolute_segment :: "str \<Rightarrow> str \<Rightarrow> str" where
  "absolute_segment seg0 base =
     (let seg = (if seg0 = ''all'' then '':all'' else seg0)
      in if starts_with '':'' seg then base @ seg
         else if starts_with ''~'' seg \<or> starts_with ''@'' seg then seg
         else if base = ''@'' then base @ seg
         else base @ ''.'' @ seg)"

definition known_modifiers :: str where
  "known_modifiers = ''validation admits known modifiers only''"

definition segment_matches :: "str \<Rightarrow> str \<Rightarrow> (panic, bool) result" where
  "segment_matches seg address =
     (case split_once CHR '':'' seg of
        None \<Rightarrow> Ok (address = seg)
      | Some (base, modifier) \<Rightarrow>
          try_then (expect known_modifiers (modifier_parse modifier)) (\<lambda>m. Ok (
            if base = ''~'' then (case m of ModAll \<Rightarrow> True | _ \<Rightarrow> address \<noteq> ''~'')
            else if base = ''@'' then
              (case m of ModChildren \<Rightarrow> starts_with ''@'' address \<and> \<not> contains_str ''.'' address
               | _ \<Rightarrow> address \<noteq> ''~'')
            else
              let descendant = Option.bind (strip_prefix base address) (strip_prefix ''.'')
              in (case m of
                    ModAll \<Rightarrow> address = base \<or> descendant \<noteq> None
                  | ModDescendants \<Rightarrow> descendant \<noteq> None
                  | ModChildren \<Rightarrow> (case descendant of None \<Rightarrow> False
                                   | Some rest \<Rightarrow> \<not> contains_str ''.'' rest)))))"

definition selector_matches :: "address_selector \<Rightarrow> str \<Rightarrow> str option \<Rightarrow> (panic, bool) result" where
  "selector_matches S address root =
     try_any (\<lambda>seg. segment_matches (absolute_segment seg (sel_base root)) address) (sel_segments S)"

section \<open>Compilation\<close>

text \<open>
  \<open>prefixed\<close> of \<open>segment_condition\<close>, the pattern a depth builds under a base. On the
  SQLite family every \<open>%\<close> of the pattern becomes the \<open>GLOB\<close> wildcard.
\<close>

definition prefixed :: "str \<Rightarrow> str \<Rightarrow> sql_dialect \<Rightarrow> str \<Rightarrow> sql_cond" where
  "prefixed key base D depth =
     (case D of
        SqliteText \<Rightarrow>
          GlobC (Col key) (Val (TextV (replace_char CHR ''%'' ''*'' (glob_escape base @ ''.'' @ depth))))
      | Postgres \<Rightarrow> LikeC (Col key) (Val (TextV (like_escape base @ ''.'' @ depth))) (Some CHR ''^''))"

definition segment_condition :: "str \<Rightarrow> str \<Rightarrow> sql_dialect \<Rightarrow> (panic, sql_cond) result" where
  "segment_condition key seg D =
     (case split_once CHR '':'' seg of
        None \<Rightarrow> Ok (EqC (Col key) (Val (TextV seg)))
      | Some (base, modifier) \<Rightarrow>
          try_then (expect known_modifiers (modifier_parse modifier)) (\<lambda>m. Ok (
            if base = ''~'' then
              (case m of ModAll \<Rightarrow> BoolC True | _ \<Rightarrow> NeC (Col key) (Val (TextV ''~'')))
            else if base = ''@'' then
              (case m of
                 ModChildren \<Rightarrow>
                   AndC (LikeC (Col key) (Val (TextV ''@%'')) None)
                     (NotC (LikeC (Col key) (Val (TextV ''%.%'')) None))
               | _ \<Rightarrow> NeC (Col key) (Val (TextV ''~'')))
            else
              (case m of
                 ModAll \<Rightarrow> OrC (EqC (Col key) (Val (TextV base))) (prefixed key base D ''%'')
               | ModDescendants \<Rightarrow> prefixed key base D ''%''
               | ModChildren \<Rightarrow>
                   AndC (prefixed key base D ''%'') (NotC (prefixed key base D ''%.%''))))))"

definition selector_condition ::
  "address_selector \<Rightarrow> str \<Rightarrow> str option \<Rightarrow> sql_dialect \<Rightarrow> (panic, sql_cond) result" where
  "selector_condition S key root D =
     (if sel_segments S = [] then Err (Panic ''a selector always holds at least one segment'')
      else try_then
        (try_map (\<lambda>seg. segment_condition key (absolute_segment seg (sel_base root)) D) (sel_segments S))
        (\<lambda>cs. Ok (any_of cs)))"

section \<open>Scope\<close>

record sel_scope =
  sc_literals :: "str list"
  sc_prefixes :: "str list"
  sc_unbounded :: bool

definition scope_default :: sel_scope where
  "scope_default = \<lparr>sc_literals = [], sc_prefixes = [], sc_unbounded = False\<rparr>"

definition scope_everything :: sel_scope where
  "scope_everything = scope_default\<lparr>sc_unbounded := True\<rparr>"

text \<open>The loop of \<open>AddressSelector::scope\<close> over the remaining segments.\<close>

fun scope_walk :: "str \<Rightarrow> str list \<Rightarrow> sel_scope \<Rightarrow> (panic, sel_scope) result" where
  "scope_walk base [] sc = Ok sc"
| "scope_walk base (seg0 # segs) sc =
     (let seg = absolute_segment seg0 base
      in case split_once CHR '':'' seg of
           None \<Rightarrow> scope_walk base segs (sc\<lparr>sc_literals := sc_literals sc @ [seg]\<rparr>)
         | Some (held, modifier) \<Rightarrow>
             try_then (expect known_modifiers (modifier_parse modifier)) (\<lambda>m.
               if held = ''~'' \<or> held = ''@'' then Ok scope_everything
               else
                 let sc1 = (if m = ModAll then sc\<lparr>sc_literals := sc_literals sc @ [held]\<rparr> else sc)
                 in scope_walk base segs (sc1\<lparr>sc_prefixes := sc_prefixes sc1 @ [held @ ''.'']\<rparr>)))"

definition selector_scope :: "address_selector \<Rightarrow> str option \<Rightarrow> (panic, sel_scope) result" where
  "selector_scope S root = scope_walk (sel_base root) (sel_segments S) scope_default"

text \<open>\<open>Scope::ceiling\<close>: the last character popped, the next one pushed.\<close>

definition scope_ceiling :: "str \<Rightarrow> str" where
  "scope_ceiling p = butlast p @ ''/''"

definition scope_covers :: "sel_scope \<Rightarrow> str \<Rightarrow> bool" where
  "scope_covers sc a \<longleftrightarrow>
     sc_unbounded sc \<or> a \<in> set (sc_literals sc) \<or> (\<exists>p \<in> set (sc_prefixes sc). starts_with p a)"


section \<open>Validated selectors\<close>

definition sel_char :: "char \<Rightarrow> bool" where
  "sel_char c \<longleftrightarrow> name_char c \<or> c = CHR ''.'' \<or> c = CHR ''@'' \<or> c = CHR ''~''"

definition selector_ok :: "address_selector \<Rightarrow> bool" where
  "selector_ok S \<longleftrightarrow> sel_segments S \<noteq> [] \<and> list_all valid_segment (sel_segments S)"

definition root_ok :: "str option \<Rightarrow> bool" where
  "root_ok root = (case root of None \<Rightarrow> True | Some r \<Rightarrow> valid_address r)"

text \<open>What resolution makes of a valid segment: plain text, or a base with a known modifier.\<close>

definition absolute_ok :: "str \<Rightarrow> bool" where
  "absolute_ok seg \<longleftrightarrow>
     (case split_once CHR '':'' seg of
        None \<Rightarrow> list_all sel_char seg
      | Some (base, modifier) \<Rightarrow> list_all sel_char base \<and> modifier_parse modifier \<noteq> None)"

lemma valid_name_eq: "valid_name = is_valid_name"
  by (auto simp: fun_eq_iff valid_name_def is_valid_name_def name_start_def name_char_def[abs_def]
      split: list.splits)

lemma name_start_char: "name_start c \<Longrightarrow> name_char c"
  by (auto simp: name_start_def name_char_def is_ascii_alphanumeric_def)

lemma valid_name_chars: "valid_name n \<Longrightarrow> list_all name_char n"
  by (auto simp: valid_name_eq is_valid_name_def name_start_char split: list.splits)

lemma valid_path_chars: "valid_path p \<Longrightarrow> list_all sel_char p"
proof -
  assume p: "valid_path p"
  have "sel_char c" if c: "c \<in> set p" for c
  proof (cases "c = CHR ''.''")
    case False
    then obtain t where "t \<in> set (split_on CHR ''.'' p)" "c \<in> set t"
      using set_split_on[OF c] by blast
    then show ?thesis
      using p valid_name_chars by (auto simp: valid_path_def list_all_iff sel_char_def)
  qed (simp add: sel_char_def)
  then show ?thesis by (simp add: list_all_iff)
qed

lemma valid_opt_path_chars: "valid_optionally_absolute_path p \<Longrightarrow> list_all sel_char p"
  using valid_path_chars
  by (fastforce simp: valid_optionally_absolute_path_def strip_prefix_Some sel_char_def
      split: option.splits)

lemma valid_address_chars: "valid_address a \<Longrightarrow> list_all sel_char a"
  using valid_path_chars
  by (fastforce simp: valid_address_def strip_prefix_Some sel_char_def split: option.splits if_splits)

lemma sel_base_chars: "root_ok root \<Longrightarrow> list_all sel_char (sel_base root)"
  using valid_address_chars by (auto simp: root_ok_def sel_base_def sel_char_def split: option.splits)

lemma sel_char_not [simp]:
  "\<not> sel_char CHR '':''" "\<not> sel_char CHR ''^''" "\<not> sel_char CHR ''%''"
  "\<not> sel_char CHR ''*''" "\<not> sel_char CHR ''?''" "\<not> sel_char CHR ''[''"
  by (simp_all add: sel_char_def name_char_def is_ascii_alphanumeric_def is_ascii_alphabetic_def
      is_ascii_digit_def)

text \<open>The two forms of a valid segment.\<close>

lemma valid_segment_cases:
  assumes "valid_segment seg"
  obtains (plain) "list_all sel_char seg"
    | (modified) base m where "seg = base @ CHR '':'' # m" "list_all sel_char base"
        "modifier_parse m \<noteq> None"
proof -
  consider "seg = ''~''" | "seg = ''~:all''" | "seg = ''~:descendants''"
    | "split_once CHR '':'' seg = None" "valid_optionally_absolute_path seg"
    | b m where "split_once CHR '':'' seg = Some (b, m)" "modifier_parse m \<noteq> None"
        "b = [] \<or> b = ''@'' \<or> valid_optionally_absolute_path b"
    using assms by (auto simp: valid_segment_def split: if_splits option.splits)
  then show thesis
  proof cases
    case 1
    then show thesis by (intro plain) (simp add: sel_char_def)
  next
    case 2
    then show thesis by (intro modified[of "''~''" "''all''"]) (simp_all add: sel_char_def modifier_parse_def)
  next
    case 3
    then show thesis
      by (intro modified[of "''~''" "''descendants''"]) (simp_all add: sel_char_def modifier_parse_def)
  next
    case 4
    then show thesis using valid_opt_path_chars plain by blast
  next
    case (5 b m)
    then show thesis
      using modified[of b m] valid_opt_path_chars[of b] by (auto simp: split_once_Some sel_char_def)
  qed
qed

lemma split_once_fresh: "c \<notin> set a \<Longrightarrow> split_once c (a @ c # b) = Some (a, b)"
  by (simp add: split_once_Some)

lemma absolute_ok_modified:
  "list_all sel_char base \<Longrightarrow> modifier_parse m \<noteq> None \<Longrightarrow> absolute_ok (base @ CHR '':'' # m)"
proof -
  assume a: "list_all sel_char base" "modifier_parse m \<noteq> None"
  then have "CHR '':'' \<notin> set base" by (auto simp: list_all_iff)
  then show ?thesis using a by (simp add: absolute_ok_def split_once_fresh)
qed

lemma absolute_ok_plain: "list_all sel_char seg \<Longrightarrow> absolute_ok seg"
proof -
  assume a: "list_all sel_char seg"
  then have "split_once CHR '':'' seg = None" by (auto simp: split_once_None list_all_iff)
  then show ?thesis using a by (simp add: absolute_ok_def)
qed

lemma absolute_segment_ok:
  assumes "valid_segment seg" and "list_all sel_char base"
  shows "absolute_ok (absolute_segment seg base)"
proof (cases rule: valid_segment_cases[OF assms(1)])
  case 1
  then have colon: "\<not> starts_with '':'' seg" by (auto simp: starts_with_iff)
  show ?thesis
  proof (cases "seg = ''all''")
    case True
    then show ?thesis
      using absolute_ok_modified[OF assms(2), of "''all''"]
      by (simp add: absolute_segment_def starts_with_iff modifier_parse_def)
  next
    case False
    then show ?thesis
      using 1 assms(2) colon
      by (auto simp: absolute_segment_def Let_def sel_char_def intro!: absolute_ok_plain)
  qed
next
  case (2 b m)
  have "CHR '':'' \<in> set seg" using 2(1) by simp
  then have "seg \<noteq> ''all''" by auto
  then show ?thesis
    using 2 assms(2) absolute_ok_modified[OF _ 2(3)]
      absolute_ok_modified[of "base @ b" m] absolute_ok_modified[of "base @ ''.'' @ b" m]
    by (auto simp: absolute_segment_def Let_def starts_with_iff Cons_eq_append_conv sel_char_def)
qed


section \<open>A condition means what the matcher says\<close>

definition segment_selects :: "str \<Rightarrow> str \<Rightarrow> bool" where
  "segment_selects seg a = (case segment_matches seg a of Inr b \<Rightarrow> b | Inl _ \<Rightarrow> False)"

lemma segment_matches_total: "absolute_ok seg \<Longrightarrow> segment_matches seg a = Ok (segment_selects seg a)"
  by (auto simp: segment_selects_def absolute_ok_def segment_matches_def split: option.splits)

lemma replace_char_fresh: "c \<notin> set s \<Longrightarrow> replace_char c t s = s"
  by (induction s) auto

lemma glob_plain:
  "list_all sel_char b \<Longrightarrow> glob_escape b = b"
  by (subgoal_tac "CHR ''['' \<notin> set b \<and> CHR ''*'' \<notin> set b \<and> CHR ''?'' \<notin> set b")
    (auto simp: glob_escape_def replace_char_fresh list_all_iff)

lemma map_Lit_tokens:
  "list_all sel_char b \<Longrightarrow> concat (map glob_token (map Lit b)) = b"
  using glob_plain glob_escape_tokens by metis

text \<open>The compiled pattern under a base, against the laws of either dialect.\<close>

lemma eval_prefixed:
  assumes "like_law D E" and "glob_law E" and b: "list_all sel_char base" and "r key = Some (TextV a)"
  shows "eval_cond E rows r (prefixed key base D ''%'') = Some (starts_with (base @ ''.'') a)"
    and "eval_cond E rows r (prefixed key base D ''%.%'')
      = Some (pat_match (map Lit (base @ ''.'') @ [Run, Lit CHR ''.'', Run]) a)"
proof -
  have caret: "CHR ''^'' \<notin> set base" and pct: "CHR ''%'' \<notin> set base"
    using b by (auto simp: list_all_iff)
  let ?p1 = "map Lit (base @ ''.'') @ [Run]" and ?p2 = "map Lit (base @ ''.'') @ [Run, Lit CHR ''.'', Run]"
  have glob: "replace_char CHR ''%'' ''*'' (glob_escape base @ ''.'' @ ''%'') = concat (map glob_token ?p1)"
    "replace_char CHR ''%'' ''*'' (glob_escape base @ ''.'' @ ''%.%'') = concat (map glob_token ?p2)"
    using map_Lit_tokens[OF b] glob_plain[OF b] replace_char_fresh[OF pct]
    by (simp_all add: replace_char_append glob_token_def)
  have like: "like_escape base @ ''.'' @ ''%'' = concat (map like_token ?p1)"
    "like_escape base @ ''.'' @ ''%.%'' = concat (map like_token ?p2)"
    using like_escape_tokens[OF caret] by (simp_all add: like_token_def)
  have eval: "eval_cond E rows r (prefixed key base D depth) = Some (pat_match ps a)"
    if g: "replace_char CHR ''%'' ''*'' (glob_escape base @ ''.'' @ depth) = concat (map glob_token ps)"
      and l: "like_escape base @ ''.'' @ depth = concat (map like_token ps)" for depth ps
  proof (cases D)
    case SqliteText
    then show ?thesis
      using assms(2,4) unfolding prefixed_def sql_dialect.case g by (simp add: glob_law_def)
  next
    case Postgres
    then show ?thesis
      using assms(1,4) unfolding prefixed_def Postgres sql_dialect.case l
      by (simp add: like_law_def like_meaning_def)
  qed
  show "eval_cond E rows r (prefixed key base D ''%'') = Some (starts_with (base @ ''.'') a)"
    using eval[OF glob(1) like(1)] pat_match_prefix by metis
  show "eval_cond E rows r (prefixed key base D ''%.%'') = Some (pat_match ?p2 a)"
    by (rule eval[OF glob(2) like(2)])
qed


lemma plain_like_meaning:
  assumes "like_law D E"
  shows "eng_like E a ''@%'' None = starts_with ''@'' a"
    and "eng_like E a ''%.%'' None = contains_str ''.'' a"
proof -
  let ?at = "map Lit ''@'' @ [Run]" and ?dot = "Run # map Lit ''.'' @ [Run]"
  have plain: "plain_pat ?at" "plain_pat ?dot"
    and spell: "''@%'' = concat (map plain_token ?at)" "''%.%'' = concat (map plain_token ?dot)"
    by (simp_all add: plain_pat_def plain_token_def)
  have fixed: "map lower_pat ?at = ?at" "map lower_pat ?dot = ?dot"
    by (simp_all add: lower_pat_def ascii_lower_def)
  have nonalpha: "\<not> is_ascii_alphabetic CHR ''@''" "\<not> is_ascii_alphabetic CHR ''.''"
    by (simp_all add: is_ascii_alphabetic_def)
  have eq_at: "CHR ''@'' = ascii_lower c \<longleftrightarrow> c = CHR ''@''" for c
    using ascii_lower_eq[OF nonalpha(1)] by (metis (full_types))
  have sw: "starts_with ''@'' (map ascii_lower a) = starts_with ''@'' a"
    by (cases a) (auto simp: starts_with_def eq_at)
  have eq_dot: "CHR ''.'' = ascii_lower c \<longleftrightarrow> c = CHR ''.''" for c
    using ascii_lower_eq[OF nonalpha(2)] by (metis (full_types))
  have ct: "contains_str ''.'' (map ascii_lower a) = contains_str ''.'' a"
    unfolding contains_single set_map image_iff by (simp add: eq_dot)
  note law = assms[unfolded like_law_def, THEN conjunct2, rule_format]
  show "eng_like E a ''@%'' None = starts_with ''@'' a"
    using law[OF plain(1), of a, folded spell] sw
    unfolding like_meaning_def fixed pat_match_prefix by (cases D) simp_all
  show "eng_like E a ''%.%'' None = contains_str ''.'' a"
    using law[OF plain(2), of a, folded spell] ct
    unfolding like_meaning_def fixed pat_match_contains by (cases D) simp_all
qed

text \<open>The address below a base, as the matcher strips it.\<close>

lemma descendant_iff:
  "Option.bind (strip_prefix base a) (strip_prefix ''.'') = Some rest \<longleftrightarrow> a = base @ ''.'' @ rest"
  by (auto simp: bind_eq_Some_conv strip_prefix_Some)

lemma descendant_starts:
  "(Option.bind (strip_prefix base a) (strip_prefix ''.'') \<noteq> None) = starts_with (base @ ''.'') a"
  unfolding starts_with_iff append_assoc descendant_iff[symmetric] by auto

lemma grandchild_pattern:
  "pat_match (map Lit (base @ ''.'') @ [Run, Lit CHR ''.'', Run]) a \<longleftrightarrow>
     (\<exists>rest. a = base @ ''.'' @ rest \<and> contains_str ''.'' rest)"
  using pat_match_contains[of "''.''"] by (auto simp: pat_match_Lits simp del: map_append)

lemma eval_segment_condition:
  assumes laws: "like_law D E" "glob_law E" and ok: "absolute_ok seg" and r: "r key = Some (TextV a)"
  shows "\<exists>c. segment_condition key seg D = Ok c
    \<and> eval_cond E rows r c = Some (segment_selects seg a)"
proof (cases "split_once CHR '':'' seg")
  case None
  then show ?thesis
    using r by (auto simp: segment_condition_def segment_selects_def segment_matches_def)
next
  case (Some bm)
  obtain base modifier m where sp: "split_once CHR '':'' seg = Some (base, modifier)"
    and m: "modifier_parse modifier = Some m" and b: "list_all sel_char base"
    using ok Some by (cases bm) (auto simp: absolute_ok_def)
  note P = eval_prefixed[OF laws b, of r key a, OF r] and L = plain_like_meaning[OF laws(1)]
  have children: "(case Option.bind (strip_prefix base a) (strip_prefix ''.'') of None \<Rightarrow> False
      | Some rest \<Rightarrow> \<not> contains_str ''.'' rest)
    \<longleftrightarrow> starts_with (base @ ''.'') a
        \<and> \<not> pat_match (map Lit (base @ ''.'') @ [Run, Lit CHR ''.'', Run]) a"
    unfolding grandchild_pattern starts_with_iff
    by (auto simp: descendant_iff simp flip: not_Some_eq split: option.splits)
  have all: "sql_or (Some x) (Some y) = Some (x \<or> y)" "sql_and (Some x) (Some y) = Some (x \<and> y)" for x y
    by (cases x; cases y; simp add: sql_or_def sql_not_def)+
  show ?thesis
    unfolding segment_condition_def segment_selects_def segment_matches_def sp option.case prod.case
      m expect_simps try_then_simps sum.case Let_def descendant_starts children
    using r by (cases m) (auto simp: P L all sql_not_def)
qed


text \<open>The segments of a valid selector, resolved, are well formed.\<close>

lemma selector_segments_ok:
  "selector_ok S \<Longrightarrow> root_ok root \<Longrightarrow> seg \<in> set (sel_segments S) \<Longrightarrow>
     absolute_ok (absolute_segment seg (sel_base root))"
  using absolute_segment_ok sel_base_chars by (auto simp: selector_ok_def list_all_iff)

definition selector_selects :: "address_selector \<Rightarrow> str option \<Rightarrow> str \<Rightarrow> bool" where
  "selector_selects S root a \<longleftrightarrow>
     (\<exists>seg \<in> set (sel_segments S). segment_selects (absolute_segment seg (sel_base root)) a)"

lemma selector_matches_total:
  assumes "selector_ok S" and "root_ok root"
  shows "selector_matches S a root = Ok (selector_selects S root a)"
  unfolding selector_matches_def selector_selects_def
  using selector_segments_ok[OF assms] segment_matches_total by (blast intro: try_any_total)

lemma selector_condition_total:
  assumes "like_law D E" and "glob_law E" and "selector_ok S" and "root_ok root"
    and "r key = Some (TextV a)"
  shows "\<exists>c. selector_condition S key root D = Ok c
    \<and> (eval_cond E rows r c = Some True \<longleftrightarrow> selector_selects S root a)"
proof -
  let ?abs = "\<lambda>seg. absolute_segment seg (sel_base root)"
  define f where "f = (\<lambda>seg. SOME c. segment_condition key (?abs seg) D = Ok c
    \<and> eval_cond E rows r c = Some (segment_selects (?abs seg) a))"
  have f: "segment_condition key (?abs seg) D = Ok (f seg)
      \<and> eval_cond E rows r (f seg) = Some (segment_selects (?abs seg) a)"
    if "seg \<in> set (sel_segments S)" for seg
    using eval_segment_condition[OF assms(1,2) selector_segments_ok[OF assms(3,4) that], of r key a, OF assms(5)]
    unfolding f_def by (rule someI_ex)
  have "try_map (\<lambda>seg. segment_condition key (?abs seg) D) (sel_segments S)
      = Ok (map f (sel_segments S))"
    using f by (intro try_map_total) blast
  then have "selector_condition S key root D = Ok (any_of (map f (sel_segments S)))"
    using assms(3) by (simp add: selector_condition_def selector_ok_def)
  moreover have "eval_cond E rows r (any_of (map f (sel_segments S))) = Some True
      \<longleftrightarrow> selector_selects S root a"
    using f by (auto simp: eval_any_of selector_selects_def)
  ultimately show ?thesis by blast
qed

lemma scope_walk_total:
  assumes "\<forall>seg \<in> set segs. absolute_ok (absolute_segment seg base)"
  shows "\<exists>sc'. scope_walk base segs sc = Ok sc' \<and>
    (\<forall>a. scope_covers sc a \<or> (\<exists>seg \<in> set segs. segment_selects (absolute_segment seg base) a)
         \<longrightarrow> scope_covers sc' a)"
  using assms
proof (induction segs arbitrary: sc)
  case Nil
  then show ?case by simp
next
  case (Cons seg0 segs)
  let ?seg = "absolute_segment seg0 base"
  have ok: "absolute_ok ?seg" using Cons.prems by simp
  note IH = Cons.IH[OF ball_subset[OF Cons.prems]]
  show ?case
  proof (cases "split_once CHR '':'' ?seg")
    case None
    then have sel: "segment_selects ?seg a \<longleftrightarrow> a = ?seg" for a
      by (simp add: segment_selects_def segment_matches_def)
    show ?thesis
      using IH[of "sc\<lparr>sc_literals := sc_literals sc @ [?seg]\<rparr>"] None
      by (auto simp: sel scope_covers_def Let_def)
  next
    case (Some bm)
    obtain held modifier m where sp: "split_once CHR '':'' ?seg = Some (held, modifier)"
      and m: "modifier_parse modifier = Some m"
      using ok Some by (cases bm) (auto simp: absolute_ok_def)
    show ?thesis
    proof (cases "held = ''~'' \<or> held = ''@''")
      case True
      then show ?thesis
        using sp m by (auto simp: scope_everything_def scope_covers_def Let_def)
    next
      case False
      define sc1 where "sc1 = (if m = ModAll then sc\<lparr>sc_literals := sc_literals sc @ [held]\<rparr> else sc)"
      define sc2 where "sc2 = sc1\<lparr>sc_prefixes := sc_prefixes sc1 @ [held @ ''.'']\<rparr>"
      have walk: "scope_walk base (seg0 # segs) sc = scope_walk base segs sc2"
        using sp m False by (simp add: sc1_def sc2_def Let_def)
      have "segment_selects ?seg a \<Longrightarrow> a = held \<and> m = ModAll \<or> starts_with (held @ ''.'') a" for a
        using sp m False descendant_starts[of held a]
        by (auto simp: segment_selects_def segment_matches_def Let_def
            split: sel_modifier.splits option.splits)
      then have "scope_covers sc a \<or> segment_selects ?seg a \<Longrightarrow> scope_covers sc2 a" for a
        by (auto simp: sc2_def sc1_def scope_covers_def)
      then show ?thesis using IH[of sc2] walk by auto
    qed
  qed
qed


text \<open>Between a dotted prefix and its ceiling lie exactly the texts it starts.\<close>

lemma dot_slash: "CHR ''.'' \<le> c \<and> c < CHR ''/'' \<longleftrightarrow> c = CHR ''.''"
proof -
  have "(of_char c :: nat) = of_char CHR ''.'' \<longleftrightarrow> c = CHR ''.''"
    by (rule of_char_eq_iff)
  then show ?thesis by (auto simp: less_eq_char_def less_char_def)
qed

lemma dot_range: "''.'' \<le> s \<and> s < ''/'' \<longleftrightarrow> starts_with ''.'' s"
proof (cases s)
  case (Cons c t)
  have "''.'' \<le> s \<longleftrightarrow> CHR ''.'' \<le> c" using Cons by (cases t) (auto simp: le_less)
  moreover have "s < ''/'' \<longleftrightarrow> c < CHR ''/''" using Cons by simp
  ultimately show ?thesis using dot_slash[of c] Cons by (auto simp: starts_with_def)
qed (simp add: starts_with_def)

lemma dotted_range: "q @ ''.'' \<le> s \<and> s < q @ ''/'' \<longleftrightarrow> starts_with (q @ ''.'') s"
proof (induction q arbitrary: s)
  case Nil
  show ?case using dot_range by simp
next
  case (Cons x q)
  show ?case
  proof (cases s)
    case (Cons y t)
    then show ?thesis using \<open>\<And>s. (q @ ''.'' \<le> s \<and> s < q @ ''/'') = _ s\<close>[of t]
      by (auto simp: starts_with_def)
  qed (simp add: starts_with_def)
qed

lemma selector_push_fold:
  "try_fold (\<lambda>seg s. if valid_segment seg then Ok (s\<lparr>sel_segments := sel_segments s @ [seg]\<rparr>) else Err value)
     segs S
   = (if list_all valid_segment segs then Ok (S\<lparr>sel_segments := sel_segments S @ segs\<rparr>) else Err value)"
  by (induction segs arbitrary: S) simp_all

section \<open>Properties\<close>

text \<open>
  C7. The selector's two readings agree. For every selector built from accepted segments,
  every accepted root and either dialect, compiling never panics and the compiled
  condition is true on a row exactly when the in-memory matcher selects the row's address.
  The backend enters through the documented laws of \<open>LIKE\<close> and \<open>GLOB\<close>.
\<close>

theorem selector_condition_matches:
  assumes "like_law D E" and "glob_law E" and "selector_ok S" and "root_ok root"
    and "r key = Some (TextV a)"
  shows "\<exists>c b. selector_condition S key root D = Ok c \<and> selector_matches S a root = Ok b
    \<and> (eval_cond E rows r c = Some True \<longleftrightarrow> b)"
  using selector_condition_total[OF assms(1-4), of r key a, OF assms(5)]
    selector_matches_total[OF assms(3,4)] by auto

theorem selector_condition_matches_witness:
  "\<exists>c b. selector_condition \<lparr>sel_segments = ['':children'', ''@b:all'']\<rparr> ''address'' (Some ''@a'') SqliteText = Ok c
    \<and> selector_matches \<lparr>sel_segments = ['':children'', ''@b:all'']\<rparr> ''@a.x_1'' (Some ''@a'') = Ok b
    \<and> (eval_cond (reference_engine SqliteText) [] [''address'' \<mapsto> TextV ''@a.x_1''] c = Some True \<longleftrightarrow> b)"
  by (rule selector_condition_matches[OF reference_like_law reference_glob_law])
    (simp_all add: selector_ok_def root_ok_def valid_segment_def valid_optionally_absolute_path_def
      valid_address_def valid_path_def valid_name_def modifier_parse_def is_ascii_alphabetic_def)

text \<open>
  C29. The scope from which the store discovers branches loses nothing: it is computed
  without a panic, and every address the selector matches is a literal of the scope,
  starts with one of its prefixes, or the scope is unbounded.
\<close>

theorem selector_scope_covers:
  assumes "selector_ok S" and "root_ok root"
  shows "\<exists>sc. selector_scope S root = Ok sc
    \<and> (\<forall>a. selector_matches S a root = Ok True \<longrightarrow> scope_covers sc a)"
proof -
  have ok: "\<forall>seg \<in> set (sel_segments S). absolute_ok (absolute_segment seg (sel_base root))"
    using selector_segments_ok[OF assms] by blast
  show ?thesis
    using scope_walk_total[OF ok, of scope_default] selector_matches_total[OF assms]
    unfolding selector_scope_def selector_selects_def by auto
qed

theorem selector_scope_covers_witness:
  "\<exists>sc. selector_scope \<lparr>sel_segments = [''x:children'']\<rparr> (Some ''@a'') = Ok sc
    \<and> (\<forall>a. selector_matches \<lparr>sel_segments = [''x:children'']\<rparr> a (Some ''@a'') = Ok True
           \<longrightarrow> scope_covers sc a)"
  by (rule selector_scope_covers)
    (simp_all add: selector_ok_def root_ok_def valid_segment_def valid_optionally_absolute_path_def
      valid_address_def valid_path_def valid_name_def modifier_parse_def is_ascii_alphabetic_def)

text \<open>
  The range a prefix walk runs over is the prefix: in byte order, the texts from a
  dotted prefix up to its ceiling are exactly those that start with it.
\<close>

lemma scope_ceiling_range:
  "(q @ ''.'' \<le> s \<and> s < scope_ceiling (q @ ''.'')) = starts_with (q @ ''.'') s"
  using dotted_range by (simp add: scope_ceiling_def)

text \<open>
  Adding a wire value to a selector accepts it exactly when every pipe-separated
  segment is valid, and then appends those segments in order; a selector built by
  accepted pushes is always well formed.
\<close>

lemma selector_push_functional:
  "selector_push S value =
     (if list_all valid_segment (split_on CHR ''|'' value)
      then Ok (S\<lparr>sel_segments := sel_segments S @ split_on CHR ''|'' value\<rparr>) else Err value)"
  unfolding selector_push_def by (rule selector_push_fold)

text \<open>
  The two address validators, the entity layer's and the filter compiler's, accept the
  same texts.
\<close>

lemma valid_address_agrees: "valid_address t = is_valid t"
proof -
  have "list_all is_valid_name (split_on CHR ''.'' []) = False"
    by (simp add: is_valid_name_def)
  then show ?thesis
    by (auto simp: valid_address_def is_valid_def valid_path_def valid_name_eq split: option.splits)
qed

end
