(* ===== verification/Filter_Parse.thy ===== *)
theory Filter_Parse
  imports Wire Selector
begin

text \<open>
  The filter tree of \<open>ceres-database/src/filter.rs\<close> and its parser: \<open>FilterNode\<close>,
  \<open>FilterCore\<close>, \<open>Parsed::apply\<close>, \<open>Parsed::from_yaml\<close>, \<open>Parsed::finish\<close>,
  \<open>Schema::group_children\<close>, \<open>FilterNode::push_equality\<close> and \<open>push_operation\<close>.

  A subfilter may hold YAML text that parses to further subfilters, so the source's
  recursion is bounded only by its input. The model counts nesting with fuel: running out
  is the outcome \<open>OutOfFuel\<close>, which is not a value of the source.
\<close>

section \<open>The tree\<close>

datatype field_values =
    UuidsV "128 word list" | TextsV "str list" | StampsV "int list" | BytesListV "byte list list"
  | BooleanV bool

record operation_filter =
  of_field :: filter_field
  of_kind :: operation_kind
  of_values :: field_values

datatype subsample_select = First | Last

text \<open>A node's own conditions; its groups hang off the tree constructor.\<close>

record node_own =
  no_equalities :: "(str \<times> field_values) list"
  no_operations :: "operation_filter list"
  no_address :: "address_selector option"
  no_root :: "str option"
  no_after :: "int option"
  no_before :: "int option"
  no_timespan :: "int option"
  no_max_age :: "int option"
  no_min_age :: "int option"
  no_subsample_every :: "int option"
  no_subsample :: "nat option"
  no_subsample_select :: "subsample_select option"
  no_after_hour :: "nat option"
  no_before_hour :: "nat option"
  no_after_minute :: "nat option"
  no_before_minute :: "nat option"
  no_min_level :: "nat option"
  no_max_level :: "nat option"
  no_computed :: "(computed \<times> bool) list"
  no_impossible :: bool

datatype filter_node =
  FilterNode (node_own: node_own) (and_children: "filter_node list") (or_children: "filter_node list")

definition node_default :: node_own where
  "node_default =
     \<lparr>no_equalities = [], no_operations = [], no_address = None, no_root = None, no_after = None,
      no_before = None, no_timespan = None, no_max_age = None, no_min_age = None,
      no_subsample_every = None, no_subsample = None, no_subsample_select = None,
      no_after_hour = None, no_before_hour = None, no_after_minute = None, no_before_minute = None,
      no_min_level = None, no_max_level = None, no_computed = [], no_impossible = False\<rparr>"

record filter_core =
  fc_schema :: schema
  fc_node :: filter_node
  fc_order :: "order_term list"
  fc_limit :: "nat option"
  fc_offset :: "nat option"

text \<open>
  \<open>Parsed\<close>, before and after \<open>finish\<close>: a finished node has its groups moved into the tree,
  so only one mid-parse still carries them.
\<close>

record finished =
  fi_node :: filter_node
  fi_order :: "order_term list"
  fi_limit :: "nat option"
  fi_offset :: "nat option"

record parsing =
  pa_own :: node_own
  pa_order :: "order_term list"
  pa_limit :: "nat option"
  pa_offset :: "nat option"
  pa_and :: "finished list"
  pa_or :: "finished list"

definition parsing_default :: parsing where
  "parsing_default =
     \<lparr>pa_own = node_default, pa_order = [], pa_limit = None, pa_offset = None, pa_and = [], pa_or = []\<rparr>"

datatype failure = Refused refusal | Panicked panic | OutOfFuel

definition refusing :: "(refusal, 'a) result \<Rightarrow> (failure, 'a) result" where
  "refusing r = (case r of Inl e \<Rightarrow> Inl (Refused e) | Inr a \<Rightarrow> Inr a)"

lemma refusing_Inr [simp]: "refusing r = Inr a \<longleftrightarrow> r = Inr a"
  by (auto simp: refusing_def split: sum.splits)

abbreviation invalidly :: "invalid \<Rightarrow> (failure, 'a) result" where
  "invalidly i \<equiv> Err (Refused (Invalid i))"

section \<open>Adding conditions\<close>

definition parse_boolean :: "str \<Rightarrow> bool option" where
  "parse_boolean t =
     (if t = ''true'' \<or> t = ''True'' then Some True
      else if t = ''false'' \<or> t = ''False'' then Some False else None)"

text \<open>The typed form of one equality value, for every family but the selector's.\<close>

definition equality_value :: "codecs \<Rightarrow> filter_field \<Rightarrow> str \<Rightarrow> (refusal, field_values) result" where
  "equality_value cd field v =
     (case ff_family field of
        Uuid \<Rightarrow> (case cd_uuid_parse cd v of Some u \<Rightarrow> Ok (UuidsV [u]) | None \<Rightarrow> Err (Invalid (InvalidUuid v)))
      | Address \<Rightarrow> Err Delegated
      | Timestamp \<Rightarrow> try_then (parse_timestamp cd v) (\<lambda>s. Ok (StampsV [s]))
      | Text \<Rightarrow> Ok (TextsV [v])
      | Email \<Rightarrow> (case normalize_email (cd_email cd) v of Some e \<Rightarrow> Ok (TextsV [e]) | None \<Rightarrow> Err Delegated)
      | Values admissible \<Rightarrow>
          if v \<in> set admissible then Ok (TextsV [v]) else Err (Invalid (InvalidValue (ff_key field) v))
      | Level \<Rightarrow> if level_position v = None then Err (Invalid (InvalidLevel v)) else Ok (TextsV [v])
      | Bytes \<Rightarrow> Ok (BytesListV [latin1_encode v])
      | Json \<Rightarrow> Err Delegated
      | Boolean \<Rightarrow> (case parse_boolean v of Some b \<Rightarrow> Ok (BooleanV b) | None \<Rightarrow> Err (Invalid (InvalidBoolean v)))
      | JsonValue \<Rightarrow> try_then (json_text cd v) (\<lambda>j. Ok (TextsV [j]))
      | PlainAddress \<Rightarrow> (case address_parse v of Inr _ \<Rightarrow> Ok (TextsV [v]) | Inl e \<Rightarrow> Err (Invalid (InvalidAddress e))))"

fun merge_values :: "str \<Rightarrow> field_values \<Rightarrow> field_values \<Rightarrow> (refusal, field_values) result" where
  "merge_values key (UuidsV a) (UuidsV b) = Ok (UuidsV (a @ b))"
| "merge_values key (TextsV a) (TextsV b) = Ok (TextsV (a @ b))"
| "merge_values key (StampsV a) (StampsV b) = Ok (StampsV (a @ b))"
| "merge_values key (BytesListV a) (BytesListV b) = Ok (BytesListV (a @ b))"
| "merge_values key (BooleanV _) _ = Err (Invalid (TakesOneValue key))"
| "merge_values key _ _ = Err Delegated"

fun add_equality ::
  "str \<Rightarrow> field_values \<Rightarrow> (str \<times> field_values) list \<Rightarrow> (refusal, (str \<times> field_values) list) result" where
  "add_equality key v [] = Ok [(key, v)]"
| "add_equality key v ((k, e) # es) =
     (if k = key then try_then (merge_values key e v) (\<lambda>e'. Ok ((k, e') # es))
      else try_then (add_equality key v es) (\<lambda>es'. Ok ((k, e) # es')))"

definition push_equality :: "codecs \<Rightarrow> filter_field \<Rightarrow> str \<Rightarrow> node_own \<Rightarrow> (refusal, node_own) result" where
  "push_equality cd field v n =
     (if ff_family field = Address then
        (case selector_push (case no_address n of None \<Rightarrow> selector_default | Some S \<Rightarrow> S) v of
           Inl e \<Rightarrow> Err (Invalid (InvalidSelector e))
         | Inr S \<Rightarrow> Ok (n\<lparr>no_address := Some S\<rparr>))
      else try_then (equality_value cd field v) (\<lambda>parsed.
             try_then (add_equality (ff_key field) parsed (no_equalities n)) (\<lambda>es.
               Ok (n\<lparr>no_equalities := es\<rparr>))))"

definition operation_value :: "filter_field \<Rightarrow> str \<Rightarrow> field_values" where
  "operation_value field v =
     (if ff_family field = Bytes then BytesListV [latin1_encode v] else TextsV [v])"

fun merge_operation :: "field_values \<Rightarrow> field_values \<Rightarrow> (panic, field_values) result" where
  "merge_operation (TextsV a) (TextsV b) = Ok (TextsV (a @ b))"
| "merge_operation (BytesListV a) (BytesListV b) = Ok (BytesListV (a @ b))"
| "merge_operation _ _ = Err (Panic ''one field's operation values share a family'')"

fun add_operation ::
  "filter_field \<Rightarrow> operation_kind \<Rightarrow> field_values \<Rightarrow> operation_filter list
     \<Rightarrow> (panic, operation_filter list) result" where
  "add_operation field kind v [] = Ok [\<lparr>of_field = field, of_kind = kind, of_values = v\<rparr>]"
| "add_operation field kind v (o' # os) =
     (if ff_key (of_field o') = ff_key field \<and> of_kind o' = kind
      then try_then (merge_operation (of_values o') v) (\<lambda>w. Ok (o'\<lparr>of_values := w\<rparr> # os))
      else try_then (add_operation field kind v os) (\<lambda>os'. Ok (o' # os')))"

definition push_operation ::
  "filter_field \<Rightarrow> operation_kind \<Rightarrow> str \<Rightarrow> node_own \<Rightarrow> (panic, node_own) result" where
  "push_operation field kind v n =
     try_then (add_operation field kind (operation_value field v) (no_operations n))
       (\<lambda>os. Ok (n\<lparr>no_operations := os\<rparr>))"

definition panicking :: "(panic, 'a) result \<Rightarrow> (failure, 'a) result" where
  "panicking r = (case r of Inl e \<Rightarrow> Inl (Panicked e) | Inr a \<Rightarrow> Inr a)"

lemma panicking_Inr [simp]: "panicking r = Inr a \<longleftrightarrow> r = Inr a"
  by (auto simp: panicking_def split: sum.splits)


section \<open>Applying one wire key\<close>

abbreviation on_own :: "parsing \<Rightarrow> node_own \<Rightarrow> parsing" where
  "on_own p n \<equiv> p\<lparr>pa_own := n\<rparr>"

definition apply_equality ::
  "codecs \<Rightarrow> filter_field \<Rightarrow> str \<Rightarrow> wire_value \<Rightarrow> node_own \<Rightarrow> (refusal, node_own) result" where
  "apply_equality cd field key v n =
     (if ff_family field = JsonValue
      then try_then (wire_whole cd key v) (\<lambda>t. push_equality cd field t n)
      else try_then (wire_scalars key v) (\<lambda>ts.
        if family_scalar (ff_family field) \<and> length ts \<noteq> 1 then Err (Invalid (TakesOneValue key))
        else try_fold (push_equality cd field) ts (if ts = [] then n\<lparr>no_impossible := True\<rparr> else n)))"

definition apply_computed :: "computed \<Rightarrow> str \<Rightarrow> wire_value \<Rightarrow> node_own \<Rightarrow> (refusal, node_own) result" where
  "apply_computed predicate key v n =
     try_then (wire_scalar key v) (\<lambda>t.
       case parse_boolean t of
         None \<Rightarrow> Err (Invalid (InvalidBoolean t))
       | Some sense \<Rightarrow> Ok (n\<lparr>no_computed := no_computed n @ [(predicate, sense)]\<rparr>))"

definition apply_operation ::
  "filter_field \<Rightarrow> operation_kind \<Rightarrow> str \<Rightarrow> wire_value \<Rightarrow> node_own \<Rightarrow> (failure, node_own) result" where
  "apply_operation field kind key v n =
     try_then (refusing (wire_scalars key v)) (\<lambda>ts.
       panicking (try_fold (push_operation field kind) ts (if ts = [] then n\<lparr>no_impossible := True\<rparr> else n)))"

definition apply_root :: "str \<Rightarrow> wire_value \<Rightarrow> node_own \<Rightarrow> (refusal, node_own) result" where
  "apply_root key v n =
     try_then (wire_scalar key v) (\<lambda>t.
       if \<not> valid_address t then Err (Invalid (InvalidRoot t))
       else try_then (set_once (no_root n) key t) (\<lambda>r. Ok (n\<lparr>no_root := r\<rparr>)))"

definition apply_window ::
  "codecs \<Rightarrow> window_op \<Rightarrow> str \<Rightarrow> wire_value \<Rightarrow> node_own \<Rightarrow> (refusal, node_own) result" where
  "apply_window cd w key v n =
     try_then (wire_scalar key v) (\<lambda>t.
       case w of
         After \<Rightarrow> try_then (parse_timestamp cd t) (\<lambda>s.
           try_then (set_once (no_after n) key s) (\<lambda>x. Ok (n\<lparr>no_after := x\<rparr>)))
       | Before \<Rightarrow> try_then (parse_timestamp cd t) (\<lambda>s.
           try_then (set_once (no_before n) key s) (\<lambda>x. Ok (n\<lparr>no_before := x\<rparr>)))
       | Timespan \<Rightarrow> try_then (parse_duration cd t) (\<lambda>d.
           if d < micros 1 then Err (Invalid (NotPositive key))
           else try_then (set_once (no_timespan n) key d) (\<lambda>x. Ok (n\<lparr>no_timespan := x\<rparr>)))
       | MaxAge \<Rightarrow> try_then (parse_duration cd t) (\<lambda>d.
           try_then (set_once (no_max_age n) key d) (\<lambda>x. Ok (n\<lparr>no_max_age := x\<rparr>)))
       | MinAge \<Rightarrow> try_then (parse_duration cd t) (\<lambda>d.
           try_then (set_once (no_min_age n) key d) (\<lambda>x. Ok (n\<lparr>no_min_age := x\<rparr>))))"

definition apply_subsample ::
  "codecs \<Rightarrow> subsample_op \<Rightarrow> str \<Rightarrow> wire_value \<Rightarrow> node_own \<Rightarrow> (refusal, node_own) result" where
  "apply_subsample cd w key v n =
     try_then (wire_scalar key v) (\<lambda>t.
       case w of
         Every \<Rightarrow> try_then (parse_duration cd t) (\<lambda>d.
           if d < micros 1 then Err (Invalid (NotPositive key))
           else try_then (set_once (no_subsample_every n) key d) (\<lambda>x. Ok (n\<lparr>no_subsample_every := x\<rparr>)))
       | Count \<Rightarrow>
           (case parse_uint 64 t of
              Some c \<Rightarrow>
                if c \<ge> 1 then try_then (set_once (no_subsample n) key c) (\<lambda>x. Ok (n\<lparr>no_subsample := x\<rparr>))
                else Err (Invalid (InvalidSubsample t))
            | None \<Rightarrow> Err (Invalid (InvalidSubsample t)))
       | Select \<Rightarrow>
           try_then (if t = ''first'' then Ok First else if t = ''last'' then Ok Last
                     else Err (Invalid (InvalidSubsampleSelect t))) (\<lambda>sel.
             try_then (set_once (no_subsample_select n) key sel) (\<lambda>x. Ok (n\<lparr>no_subsample_select := x\<rparr>))))"

definition clock_cap :: "clock_op \<Rightarrow> nat" where
  "clock_cap c = (case c of AfterHour \<Rightarrow> 24 | BeforeHour \<Rightarrow> 24 | _ \<Rightarrow> 60)"

definition apply_clock :: "clock_op \<Rightarrow> str \<Rightarrow> wire_value \<Rightarrow> node_own \<Rightarrow> (refusal, node_own) result" where
  "apply_clock c key v n =
     try_then (wire_scalar key v) (\<lambda>t.
       case parse_uint 32 t of
         None \<Rightarrow> Err (Invalid (InvalidClock key t))
       | Some b \<Rightarrow>
           if b > clock_cap c then Err (Invalid (InvalidClock key t))
           else (case c of
               AfterHour \<Rightarrow> try_then (set_once (no_after_hour n) key b) (\<lambda>x. Ok (n\<lparr>no_after_hour := x\<rparr>))
             | BeforeHour \<Rightarrow> try_then (set_once (no_before_hour n) key b) (\<lambda>x. Ok (n\<lparr>no_before_hour := x\<rparr>))
             | AfterMinute \<Rightarrow> try_then (set_once (no_after_minute n) key b) (\<lambda>x. Ok (n\<lparr>no_after_minute := x\<rparr>))
             | BeforeMinute \<Rightarrow> try_then (set_once (no_before_minute n) key b) (\<lambda>x. Ok (n\<lparr>no_before_minute := x\<rparr>))))"

definition apply_bound :: "bound_op \<Rightarrow> str \<Rightarrow> wire_value \<Rightarrow> node_own \<Rightarrow> (refusal, node_own) result" where
  "apply_bound b key v n =
     try_then (wire_scalar key v) (\<lambda>t.
       case level_position t of
         None \<Rightarrow> Err (Invalid (InvalidLevel t))
       | Some i \<Rightarrow>
           (case b of
              Minimum \<Rightarrow> try_then (set_once (no_min_level n) key i) (\<lambda>x. Ok (n\<lparr>no_min_level := x\<rparr>))
            | Maximum \<Rightarrow> try_then (set_once (no_max_level n) key i) (\<lambda>x. Ok (n\<lparr>no_max_level := x\<rparr>))))"

definition apply_page_number ::
  "(nat \<Rightarrow> parsing) \<Rightarrow> nat option \<Rightarrow> (str \<Rightarrow> invalid) \<Rightarrow> str \<Rightarrow> wire_value \<Rightarrow> (refusal, parsing) result" where
  "apply_page_number put slot bad key v =
     try_then (wire_scalar key v) (\<lambda>t.
       case parse_uint 64 t of
         None \<Rightarrow> Err (Invalid (bad t))
       | Some m \<Rightarrow> try_then (set_once slot key m) (\<lambda>_. Ok (put m)))"

text \<open>
  \<open>Parsed::apply\<close>. The subfilters of a group value come from \<open>groups\<close>, which the recursion
  below supplies.
\<close>

definition apply_key ::
  "codecs \<Rightarrow> schema \<Rightarrow> (wire_value \<Rightarrow> (failure, finished list) result) \<Rightarrow> str \<Rightarrow> wire_value \<Rightarrow> parsing
     \<Rightarrow> (failure, parsing) result" where
  "apply_key cd s groups key v p =
     try_then (refusing (resolve s key)) (\<lambda>role.
       let own = (\<lambda>r. try_then (refusing r) (\<lambda>n. Ok (on_own p n))) in
       case role of
         EqualityR field \<Rightarrow> own (apply_equality cd field key v (pa_own p))
       | ComputedR predicate \<Rightarrow> own (apply_computed predicate key v (pa_own p))
       | OperationR field kind \<Rightarrow>
           try_then (apply_operation field kind key v (pa_own p)) (\<lambda>n. Ok (on_own p n))
       | RootR \<Rightarrow> own (apply_root key v (pa_own p))
       | GroupR g \<Rightarrow> try_then (groups v) (\<lambda>children.
           Ok (case g of AndGroup \<Rightarrow> p\<lparr>pa_and := pa_and p @ children\<rparr>
                | OrGroup \<Rightarrow> p\<lparr>pa_or := pa_or p @ children\<rparr>))
       | WindowR w \<Rightarrow> own (apply_window cd w key v (pa_own p))
       | SubsampleR w \<Rightarrow> own (apply_subsample cd w key v (pa_own p))
       | ClockR c \<Rightarrow> own (apply_clock c key v (pa_own p))
       | BoundR b \<Rightarrow> own (apply_bound b key v (pa_own p))
       | OrderR \<Rightarrow> try_then (refusing (wire_scalars key v)) (\<lambda>ts.
           refusing (try_fold (\<lambda>t q. try_then (parse_order s t) (\<lambda>term.
             Ok (q\<lparr>pa_order := pa_order q @ [term]\<rparr>))) ts p))
       | LimitR \<Rightarrow> refusing (apply_page_number (\<lambda>m. p\<lparr>pa_limit := Some m\<rparr>) (pa_limit p) InvalidLimit key v)
       | OffsetR \<Rightarrow> refusing (apply_page_number (\<lambda>m. p\<lparr>pa_offset := Some m\<rparr>) (pa_offset p) InvalidOffset key v))"

section \<open>Finishing a node\<close>

definition has_start :: "node_own \<Rightarrow> bool" where
  "has_start n \<longleftrightarrow> no_after n \<noteq> None \<or> no_timespan n \<noteq> None \<or> no_max_age n \<noteq> None"

definition has_end :: "node_own \<Rightarrow> bool" where
  "has_end n \<longleftrightarrow> no_before n \<noteq> None \<or> no_timespan n \<noteq> None \<or> no_min_age n \<noteq> None"

text \<open>The first query control a child carries, in the order the source looks.\<close>

definition child_control :: "finished \<Rightarrow> str option" where
  "child_control c =
     (if fi_order c \<noteq> [] then Some ''order''
      else if fi_limit c \<noteq> None then Some ''limit''
      else if fi_offset c \<noteq> None then Some ''offset'' else None)"

definition hoist :: "finished \<Rightarrow> finished \<Rightarrow> finished" where
  "hoist c p =
     \<lparr>fi_node = FilterNode (node_own (fi_node p)) (and_children (fi_node p) @ [fi_node c]) (or_children (fi_node p)),
      fi_order = (if fi_order c \<noteq> [] then fi_order c else fi_order p),
      fi_limit = (case fi_limit c of None \<Rightarrow> fi_limit p
        | Some l \<Rightarrow> Some (case fi_limit p of None \<Rightarrow> l | Some own \<Rightarrow> min own l)),
      fi_offset = (case fi_offset c of None \<Rightarrow> fi_offset p
        | Some l \<Rightarrow> Some (case fi_offset p of None \<Rightarrow> l | Some own \<Rightarrow> max own l))\<rparr>"

definition finish :: "parsing \<Rightarrow> (refusal, finished) result" where
  "finish p =
     (if no_subsample (pa_own p) \<noteq> None \<and> \<not> (has_start (pa_own p) \<and> has_end (pa_own p))
      then Err (Invalid (SubsampleRange (has_start (pa_own p)) (has_end (pa_own p))))
      else case List.map_filter child_control (pa_or p) of
             control # _ \<Rightarrow> Err (Invalid (OrControl control))
           | [] \<Rightarrow>
               Ok (foldl (\<lambda>q c. hoist c q)
                     \<lparr>fi_node = FilterNode (pa_own p) [] (map fi_node (pa_or p)),
                      fi_order = pa_order p, fi_limit = pa_limit p, fi_offset = pa_offset p\<rparr>
                     (pa_and p)))"

section \<open>Subfilters\<close>

text \<open>
  \<open>Parsed::from_yaml\<close> over one mapping and \<open>Schema::group_children\<close>, with the recursion
  between them cut by the fuel of \<open>from_yaml_fuel\<close>.
\<close>

definition from_mapping ::
  "codecs \<Rightarrow> schema \<Rightarrow> (wire_value \<Rightarrow> (failure, finished list) result) \<Rightarrow> (yaml \<times> yaml) list
     \<Rightarrow> (failure, finished) result" where
  "from_mapping cd s groups m =
     try_then
       (try_fold (\<lambda>(k, v) p.
          case k of
            YString key \<Rightarrow>
              if v = YNull \<and> \<not> nullable s key then Ok p else apply_key cd s groups key (WYaml v) p
          | _ \<Rightarrow> invalidly SubfilterKeyNotString) m parsing_default)
       (\<lambda>p. refusing (finish p))"

definition group_one ::
  "codecs \<Rightarrow> ((yaml \<times> yaml) list \<Rightarrow> (failure, finished) result) \<Rightarrow> yaml \<Rightarrow> (failure, finished) result" where
  "group_one cd sub element =
     try_then (case element of YString t \<Rightarrow> refusing (parse_yaml cd t) | _ \<Rightarrow> Ok element) (\<lambda>y.
       case y of YMapping m \<Rightarrow> sub m | _ \<Rightarrow> invalidly SubfilterNotMapping)"

definition group_children ::
  "codecs \<Rightarrow> ((yaml \<times> yaml) list \<Rightarrow> (failure, finished) result) \<Rightarrow> wire_value
     \<Rightarrow> (failure, finished list) result" where
  "group_children cd sub v =
     try_then (case v of WText t \<Rightarrow> refusing (parse_yaml cd t) | WYaml y \<Rightarrow> Ok y) (\<lambda>y.
       case y of
         YNull \<Rightarrow> Ok []
       | YSequence ys \<Rightarrow> try_map (group_one cd sub) ys
       | other \<Rightarrow> try_then (group_one cd sub other) (\<lambda>c. Ok [c]))"

fun from_yaml_fuel :: "codecs \<Rightarrow> schema \<Rightarrow> nat \<Rightarrow> (yaml \<times> yaml) list \<Rightarrow> (failure, finished) result" where
  "from_yaml_fuel cd s 0 m = Err OutOfFuel"
| "from_yaml_fuel cd s (Suc n) m = from_mapping cd s (group_children cd (from_yaml_fuel cd s n)) m"

section \<open>Parsing a filter\<close>

definition core_of :: "schema \<Rightarrow> finished \<Rightarrow> filter_core" where
  "core_of s f = \<lparr>fc_schema = s, fc_node = fi_node f, fc_order = fi_order f, fc_limit = fi_limit f,
     fc_offset = fi_offset f\<rparr>"

definition filter_parse ::
  "codecs \<Rightarrow> nat \<Rightarrow> schema \<Rightarrow> (str \<times> str) list \<Rightarrow> (failure, filter_core) result" where
  "filter_parse cd fuel s pairs =
     try_then (try_fold (\<lambda>(key, v). apply_key cd s (group_children cd (from_yaml_fuel cd s fuel)) key (WText v))
                 pairs parsing_default) (\<lambda>p.
       try_then (refusing (finish p)) (\<lambda>f. Ok (core_of s f)))"

definition filter_from_json :: "codecs \<Rightarrow> nat \<Rightarrow> schema \<Rightarrow> str \<Rightarrow> (failure, filter_core) result" where
  "filter_from_json cd fuel s t =
     try_then (refusing (parse_yaml cd t)) (\<lambda>y.
       case y of
         YMapping m \<Rightarrow> try_then (from_yaml_fuel cd s fuel m) (\<lambda>f. Ok (core_of s f))
       | _ \<Rightarrow> invalidly FilterNotMapping)"

definition with_limit_cap :: "filter_core \<Rightarrow> nat \<Rightarrow> (refusal, filter_core) result" where
  "with_limit_cap f cap =
     (case fc_limit f of
        None \<Rightarrow> Ok (f\<lparr>fc_limit := Some cap\<rparr>)
      | Some l \<Rightarrow> if l > cap then Err (Invalid (LimitAboveCap cap)) else Ok f)"

end
