(* ===== verification/Filter_Compile.thy ===== *)
theory Filter_Compile
  imports Filter_Parse Timeline
begin

text \<open>
  The two readings of a filter node in \<open>filter.rs\<close>: the matcher over a serialized record
  (\<open>FilterNode::matches\<close>) and the compiler to SQL conditions
  (\<open>FilterNode::combined_conditions\<close>), with everything they share. A record's fields are
  their raw JSON texts. Arithmetic on instants panics outside \<open>chrono\<close>'s range, as do the
  \<open>expect\<close> and \<open>unreachable\<close> branches; each is a \<open>Panic\<close> here.
\<close>

section \<open>Instants and windows\<close>

definition stamp_at :: "codecs \<Rightarrow> int \<Rightarrow> (panic, int) result" where
  "stamp_at cd x = (if cd_in_range cd x then Ok x else Err (Panic ''date and time arithmetic overflowed''))"

definition timespan_bounds :: "codecs \<Rightarrow> node_own \<Rightarrow> int \<Rightarrow> (panic, int option \<times> int option) result" where
  "timespan_bounds cd n now =
     (case no_timespan n of
        None \<Rightarrow> Ok (None, None)
      | Some span \<Rightarrow>
          (case no_after n of
             Some after \<Rightarrow> try_then (stamp_at cd (after + span)) (\<lambda>e. Ok (None, Some e))
           | None \<Rightarrow>
               (case no_before n of
                  Some before \<Rightarrow> try_then (stamp_at cd (before - span)) (\<lambda>b. Ok (Some b, None))
                | None \<Rightarrow> try_then (stamp_at cd (now - span)) (\<lambda>b. Ok (Some b, Some now)))))"

definition clock_window :: "nat option \<Rightarrow> nat option \<Rightarrow> nat \<Rightarrow> (nat \<times> nat \<times> bool) option" where
  "clock_window after before span =
     (if after = None \<and> before = None then None
      else
        let minimum = (case after of None \<Rightarrow> 0 | Some a \<Rightarrow> a);
            maximum = (case before of None \<Rightarrow> span | Some b \<Rightarrow> b)
        in Some (minimum, maximum, minimum \<le> maximum))"

definition clock_holds :: "(nat \<times> nat \<times> bool) option \<Rightarrow> nat \<Rightarrow> bool" where
  "clock_holds w value =
     (case w of None \<Rightarrow> True
      | Some (minimum, maximum, contiguous) \<Rightarrow>
          if contiguous then value \<ge> minimum \<and> value < maximum else value \<ge> minimum \<or> value < maximum)"

definition hour_window :: "node_own \<Rightarrow> (nat \<times> nat \<times> bool) option" where
  "hour_window n = clock_window (no_after_hour n) (no_before_hour n) 24"

definition minute_window :: "node_own \<Rightarrow> (nat \<times> nat \<times> bool) option" where
  "minute_window n = clock_window (no_after_minute n) (no_before_minute n) 60"

definition at_least :: "int option \<Rightarrow> int \<Rightarrow> bool" where
  "at_least b s = (case b of None \<Rightarrow> True | Some x \<Rightarrow> \<not> s < x)"

definition below :: "int option \<Rightarrow> int \<Rightarrow> bool" where
  "below b s = (case b of None \<Rightarrow> True | Some x \<Rightarrow> \<not> s \<ge> x)"

text \<open>\<open>timestamp_matches\<close>: the source's checks in order, each returning early.\<close>

definition timestamp_matches :: "codecs \<Rightarrow> node_own \<Rightarrow> int \<Rightarrow> int \<Rightarrow> (panic, bool) result" where
  "timestamp_matches cd n stamp now =
     try_conj
       [Ok (at_least (no_after n) stamp),
        Ok (below (no_before n) stamp),
        try_then (timespan_bounds cd n now) (\<lambda>(s, e). Ok (at_least s stamp \<and> below e stamp)),
        (case no_max_age n of None \<Rightarrow> Ok True
         | Some age \<Rightarrow> try_then (stamp_at cd (now - age)) (\<lambda>b. Ok (\<not> stamp \<le> b))),
        (case no_min_age n of None \<Rightarrow> Ok True
         | Some age \<Rightarrow> try_then (stamp_at cd (now - age)) (\<lambda>b. Ok (\<not> stamp > b))),
        Ok (clock_holds (hour_window n) (cd_clock cd Hour stamp)),
        Ok (clock_holds (minute_window n) (cd_clock cd Minute stamp))]"

definition needs_timestamp :: "node_own \<Rightarrow> bool" where
  "needs_timestamp n \<longleftrightarrow>
     no_after n \<noteq> None \<or> no_before n \<noteq> None \<or> no_timespan n \<noteq> None \<or> no_max_age n \<noteq> None
     \<or> no_min_age n \<noteq> None \<or> no_after_hour n \<noteq> None \<or> no_before_hour n \<noteq> None
     \<or> no_after_minute n \<noteq> None \<or> no_before_minute n \<noteq> None"

section \<open>Matching a record\<close>

type_synonym json_fields = "str \<Rightarrow> str option"

definition shape_holds :: "codecs \<Rightarrow> cshape \<Rightarrow> str \<Rightarrow> bool" where
  "shape_holds cd shape raw =
     (case shape of
        Internal \<Rightarrow> (case cd_json_string cd raw of None \<Rightarrow> False
          | Some name \<Rightarrow> starts_with ''__'' name \<and> ends_with ''__'' name)
      | Literal wanted \<Rightarrow> cd_json_string cd raw = Some wanted
      | Present \<Rightarrow> raw \<noteq> ''null'')"

definition values_of :: "node_own \<Rightarrow> filter_field \<Rightarrow> field_values option" where
  "values_of n f = map_of (no_equalities n) (ff_key f)"

definition operation_of :: "node_own \<Rightarrow> filter_field \<Rightarrow> operation_kind \<Rightarrow> operation_filter option" where
  "operation_of n f kind =
     find (\<lambda>o'. ff_key (of_field o') = ff_key f \<and> of_kind o' = kind) (no_operations n)"

definition record_timestamp :: "codecs \<Rightarrow> str option \<Rightarrow> int option" where
  "record_timestamp cd t = Option.bind t (cd_rfc3339 cd)"

definition option_holds :: "('a \<Rightarrow> bool) \<Rightarrow> 'a option \<Rightarrow> bool" where
  "option_holds P x = (case x of None \<Rightarrow> False | Some v \<Rightarrow> P v)"

definition values_hold ::
  "codecs \<Rightarrow> field_values \<Rightarrow> field_family \<Rightarrow> str option \<Rightarrow> str option \<Rightarrow> bool" where
  "values_hold cd v family raw t =
     (case v of
        UuidsV ids \<Rightarrow> option_holds (\<lambda>t. list_ex (\<lambda>u. cd_uuid_text cd u = t) ids) t
      | StampsV stamps \<Rightarrow> option_holds (\<lambda>s. s \<in> set stamps) (record_timestamp cd t)
      | BytesListV patterns \<Rightarrow> option_holds (\<lambda>t. latin1_encode t \<in> set patterns) t
      | TextsV texts \<Rightarrow>
          if family = JsonValue
          then option_holds (\<lambda>held. held \<in> set texts) (Option.bind raw (cd_json_canonical cd))
          else option_holds (\<lambda>t. t \<in> set texts) t
      | BooleanV wanted \<Rightarrow> option_holds (\<lambda>held. held = wanted) (Option.bind raw (cd_json_bool cd)))"

definition fold_case :: "codecs \<Rightarrow> str \<Rightarrow> bool \<Rightarrow> str" where
  "fold_case cd t insensitive = (if insensitive then cd_lower cd t else t)"

definition bytes_match :: "byte list \<Rightarrow> operation_kind \<Rightarrow> byte list \<Rightarrow> bool" where
  "bytes_match value kind p =
     (case kind of Contains \<Rightarrow> contains_str p value | Prefix \<Rightarrow> starts_with p value | Suffix \<Rightarrow> ends_with p value)"

definition operation_holds ::
  "codecs \<Rightarrow> filter_field \<Rightarrow> field_operation \<Rightarrow> operation_filter \<Rightarrow> str option \<Rightarrow> str option \<Rightarrow> bool" where
  "operation_holds cd f op held raw t =
     (case of_values held of
        TextsV patterns \<Rightarrow>
          option_holds (\<lambda>subject. list_ex (\<lambda>p. text_matches (fold_case cd subject (op_insensitive op))
              (of_kind held) (fold_case cd p (op_insensitive op))) patterns)
            (if ff_family f = Json then raw else t)
      | BytesListV patterns \<Rightarrow>
          option_holds (\<lambda>t. list_ex (bytes_match (latin1_encode t) (of_kind held)) patterns) t
      | _ \<Rightarrow> False)"

definition level_holds :: "node_own \<Rightarrow> str option \<Rightarrow> bool" where
  "level_holds n t =
     (let position = Option.bind t level_position
      in (case no_min_level n of None \<Rightarrow> True | Some m \<Rightarrow> option_holds (\<lambda>p. m \<le> p) position)
         \<and> (case no_max_level n of None \<Rightarrow> True | Some m \<Rightarrow> option_holds (\<lambda>p. p \<le> m) position))"

text \<open>The checks \<open>matches_own\<close> makes for one field, in order.\<close>

definition field_checks ::
  "codecs \<Rightarrow> node_own \<Rightarrow> json_fields \<Rightarrow> int \<Rightarrow> filter_field \<Rightarrow> (panic, bool) result list" where
  "field_checks cd n js now f =
     (let raw = js (ff_key f); t = Option.bind raw (cd_json_string cd)
      in [(case values_of n f of None \<Rightarrow> Ok True | Some v \<Rightarrow> Ok (values_hold cd v (ff_family f) raw t)),
          (if ff_family f = Address
           then (case no_address n of None \<Rightarrow> Ok True
                 | Some S \<Rightarrow> (case t of None \<Rightarrow> Ok False | Some a \<Rightarrow> selector_matches S a (no_root n)))
           else Ok True)]
         @ map (\<lambda>op. case operation_of n f (op_kind op) of None \<Rightarrow> Ok True
              | Some held \<Rightarrow> Ok (operation_holds cd f op held raw t)) (ff_operations f)
         @ [(case ff_family f of
               Timestamp \<Rightarrow>
                 (case record_timestamp cd t of None \<Rightarrow> Ok (\<not> needs_timestamp n)
                  | Some stamp \<Rightarrow> timestamp_matches cd n stamp now)
             | Level \<Rightarrow> Ok (level_holds n t)
             | _ \<Rightarrow> Ok True)])"

definition computed_checks :: "codecs \<Rightarrow> node_own \<Rightarrow> json_fields \<Rightarrow> (panic, bool) result list" where
  "computed_checks cd n js =
     map (\<lambda>(q, sense). Ok (option_holds (shape_holds cd (cp_shape q)) (js (cp_column q)) = sense))
       (no_computed n)"

definition matches_own :: "codecs \<Rightarrow> schema \<Rightarrow> node_own \<Rightarrow> json_fields \<Rightarrow> int \<Rightarrow> (panic, bool) result" where
  "matches_own cd s n js now =
     (if no_impossible n then Ok False
      else try_conj (computed_checks cd n js @ concat (map (field_checks cd n js now) (sch_fields s))))"

function node_matches :: "codecs \<Rightarrow> schema \<Rightarrow> json_fields \<Rightarrow> int \<Rightarrow> filter_node \<Rightarrow> (panic, bool) result" where
  "node_matches cd s js now (FilterNode n ands ors) =
     try_then
       (try_then (matches_own cd s n js now)
          (\<lambda>b. if b then try_all (node_matches cd s js now) ands else Ok False))
       (\<lambda>b. if b then Ok True else try_any (node_matches cd s js now) ors)"
  by pat_completeness auto
termination
  by (relation "measure (\<lambda>(cd, s, js, now, t). size t)")
    (auto dest: size_list_estimation'[where f = size, OF _ order_refl] simp: less_Suc_eq_le)

definition filter_matches :: "codecs \<Rightarrow> filter_core \<Rightarrow> json_fields \<Rightarrow> int \<Rightarrow> (panic, bool) result" where
  "filter_matches cd f js now = node_matches cd (fc_schema f) js (resolve_now now) (fc_node f)"


section \<open>Compiling conditions\<close>

definition id_value :: "codecs \<Rightarrow> 128 word \<Rightarrow> sql_dialect \<Rightarrow> sql_value" where
  "id_value cd u D = (case D of SqliteText \<Rightarrow> TextV (cd_uuid_text cd u) | Postgres \<Rightarrow> UuidV u)"

definition timestamp_value :: "codecs \<Rightarrow> int \<Rightarrow> sql_dialect \<Rightarrow> sql_value" where
  "timestamp_value cd s D = (case D of SqliteText \<Rightarrow> TextV (cd_timestamp_text cd s) | Postgres \<Rightarrow> StampV s)"

definition match_values :: "sql_expr \<Rightarrow> sql_value list \<Rightarrow> sql_cond" where
  "match_values e vs = (case vs of [v] \<Rightarrow> EqC e (Val v) | _ \<Rightarrow> InC e vs)"

definition values_condition :: "codecs \<Rightarrow> sql_dialect \<Rightarrow> filter_field \<Rightarrow> field_values \<Rightarrow> sql_cond" where
  "values_condition cd D f v =
     (let column = Col (ff_key f) in
      case v of
        TextsV texts \<Rightarrow>
          match_values (if ff_family f = JsonValue then CastText column else column) (map TextV texts)
      | UuidsV ids \<Rightarrow> match_values column (map (\<lambda>u. id_value cd u D) ids)
      | StampsV stamps \<Rightarrow> match_values column (map (\<lambda>s. timestamp_value cd s D) stamps)
      | BytesListV patterns \<Rightarrow> match_values column (map BytesV patterns)
      | BooleanV wanted \<Rightarrow> EqC column (Val (BoolV wanted)))"

definition text_pattern :: "sql_expr \<Rightarrow> operation_kind \<Rightarrow> sql_dialect \<Rightarrow> bool \<Rightarrow> str \<Rightarrow> sql_cond" where
  "text_pattern subject kind D insensitive p =
     (let escaped = Val (TextV (with_wildcards (like_escape p) kind CHR ''%'')) in
      case (D, insensitive) of
        (SqliteText, True) \<Rightarrow> LikeC (Lower subject) (Lower escaped) (Some CHR ''^'')
      | (Postgres, True) \<Rightarrow> ILikeC subject escaped (Some CHR ''^'')
      | (SqliteText, False) \<Rightarrow>
          GlobC subject (Val (TextV (with_wildcards (glob_escape p) kind CHR ''*'')))
      | (Postgres, False) \<Rightarrow> LikeC subject escaped (Some CHR ''^''))"

definition match_text_patterns ::
  "sql_expr \<Rightarrow> operation_kind \<Rightarrow> str list \<Rightarrow> sql_dialect \<Rightarrow> bool \<Rightarrow> sql_cond" where
  "match_text_patterns subject kind patterns D insensitive =
     (if list_all (\<lambda>p. p = []) patterns then BoolC True
      else any_of (map (text_pattern subject kind D insensitive) patterns))"

definition bytes_pattern :: "str \<Rightarrow> operation_kind \<Rightarrow> sql_dialect \<Rightarrow> byte list \<Rightarrow> sql_cond" where
  "bytes_pattern key kind D p =
     (if p = [] then BoolC True
      else case D of
        SqliteText \<Rightarrow>
          (case kind of
             Contains \<Rightarrow> GtC (Instr (Col key) (Val (BytesV p))) (Val (IntV 0))
           | Prefix \<Rightarrow> EqC (Substr (Col key) 1 (Some (int (length p)))) (Val (BytesV p))
           | Suffix \<Rightarrow> EqC (Substr (Col key) (- int (length p)) None) (Val (BytesV p)))
      | Postgres \<Rightarrow>
          LikeC (TokenizeBytes (Col key))
            (Val (TextV (with_wildcards (like_escape (tokenize_bytes p)) kind CHR ''%''))) (Some CHR ''^''))"

definition match_bytes_patterns :: "str \<Rightarrow> operation_kind \<Rightarrow> byte list list \<Rightarrow> sql_dialect \<Rightarrow> sql_cond" where
  "match_bytes_patterns key kind patterns D = any_of (map (bytes_pattern key kind D) patterns)"

definition operation_condition ::
  "sql_dialect \<Rightarrow> filter_field \<Rightarrow> field_operation \<Rightarrow> operation_filter \<Rightarrow> (panic, sql_cond list) result" where
  "operation_condition D f op held =
     (case of_values held of
        TextsV patterns \<Rightarrow>
          Ok [match_text_patterns (if ff_family f = Json then CastText (Col (ff_key f)) else Col (ff_key f))
                (of_kind held) patterns D (op_insensitive op)]
      | BytesListV patterns \<Rightarrow> Ok [match_bytes_patterns (ff_key f) (of_kind held) patterns D]
      | _ \<Rightarrow> Err (Panic ''operation values are text or bytes''))"

definition operation_conditions ::
  "sql_dialect \<Rightarrow> node_own \<Rightarrow> filter_field \<Rightarrow> (panic, sql_cond list) result" where
  "operation_conditions D n f =
     try_concat (map (\<lambda>op. case operation_of n f (op_kind op) of None \<Rightarrow> Ok []
        | Some held \<Rightarrow> operation_condition D f op held) (ff_operations f))"

definition shape_condition :: "computed \<Rightarrow> sql_dialect \<Rightarrow> sql_cond" where
  "shape_condition q D =
     (let column = Col (cp_column q) in
      case cp_shape q of
        Internal \<Rightarrow>
          AndC (match_text_patterns column Prefix [''__''] D False)
            (match_text_patterns column Suffix [''__''] D False)
      | Literal wanted \<Rightarrow> EqC column (Val (TextV wanted))
      | Present \<Rightarrow> IsNotNullC column)"

definition computed_conditions :: "node_own \<Rightarrow> sql_dialect \<Rightarrow> sql_cond list" where
  "computed_conditions n D =
     map (\<lambda>(q, sense). if sense then shape_condition q D else NotC (shape_condition q D)) (no_computed n)"

definition stamp_cond ::
  "(sql_expr \<Rightarrow> sql_expr \<Rightarrow> sql_cond) \<Rightarrow> codecs \<Rightarrow> sql_dialect \<Rightarrow> str \<Rightarrow> int \<Rightarrow> sql_cond" where
  "stamp_cond cmp cd D key s = cmp (Col key) (Val (timestamp_value cd s D))"

definition option_list :: "'a option \<Rightarrow> 'a list" where
  "option_list x = (case x of None \<Rightarrow> [] | Some v \<Rightarrow> [v])"

definition window_conditions ::
  "codecs \<Rightarrow> sql_dialect \<Rightarrow> node_own \<Rightarrow> str \<Rightarrow> int \<Rightarrow> (panic, sql_cond list) result" where
  "window_conditions cd D n key now =
     try_concat
       [Ok (map (stamp_cond GeC cd D key) (option_list (no_after n))),
        Ok (map (stamp_cond LtC cd D key) (option_list (no_before n))),
        try_then (timespan_bounds cd n now) (\<lambda>(b, e).
          Ok (map (stamp_cond GeC cd D key) (option_list b) @ map (stamp_cond LtC cd D key) (option_list e))),
        (case no_max_age n of None \<Rightarrow> Ok []
         | Some age \<Rightarrow> try_then (stamp_at cd (now - age)) (\<lambda>b. Ok [stamp_cond GtC cd D key b])),
        (case no_min_age n of None \<Rightarrow> Ok []
         | Some age \<Rightarrow> try_then (stamp_at cd (now - age)) (\<lambda>b. Ok [stamp_cond LeC cd D key b]))]"

definition clock_condition :: "str \<Rightarrow> clock_part \<Rightarrow> nat \<times> nat \<times> bool \<Rightarrow> sql_cond" where
  "clock_condition key part w =
     (case w of (minimum, maximum, contiguous) \<Rightarrow>
        let value = ClockPart part (Col key);
            within_minimum = GeC value (Val (IntV (int minimum)));
            within_maximum = LtC value (Val (IntV (int maximum)))
        in if contiguous then AndC within_minimum within_maximum else OrC within_minimum within_maximum)"

definition clock_conditions :: "node_own \<Rightarrow> str \<Rightarrow> sql_cond list" where
  "clock_conditions n key =
     map (clock_condition key Hour) (option_list (hour_window n))
     @ map (clock_condition key Minute) (option_list (minute_window n))"

section \<open>Subsampling\<close>

text \<open>\<open>time_bounds\<close>: the tightest bound on each side.\<close>

definition time_bounds :: "codecs \<Rightarrow> node_own \<Rightarrow> int \<Rightarrow> (panic, int option \<times> int option) result" where
  "time_bounds cd n now =
     try_then (timespan_bounds cd n now) (\<lambda>(span_start, span_end).
     try_then (case no_max_age n of None \<Rightarrow> Ok None
       | Some age \<Rightarrow> try_then (stamp_at cd (now - age)) (\<lambda>b. Ok (Some b))) (\<lambda>oldest.
     try_then (case no_min_age n of None \<Rightarrow> Ok None
       | Some age \<Rightarrow> try_then (stamp_at cd (now - age)) (\<lambda>b. Ok (Some b))) (\<lambda>newest.
       let starts = option_list (no_after n) @ option_list span_start @ option_list oldest;
           ends = option_list (no_before n) @ option_list span_end @ option_list newest
       in Ok (if starts = [] then None else Some (Max (set starts)),
              if ends = [] then None else Some (Min (set ends))))))"

definition rem_euclid :: "int \<Rightarrow> int \<Rightarrow> int" where
  "rem_euclid a b = a mod \<bar>b\<bar>"

definition div_euclid :: "int \<Rightarrow> int \<Rightarrow> int" where
  "div_euclid a b = sgn b * (a div \<bar>b\<bar>)"

definition divide_rounding_half_even :: "int \<Rightarrow> int \<Rightarrow> int" where
  "divide_rounding_half_even amount divisor =
     (let quotient = div_euclid amount divisor;
          remainder = rem_euclid amount divisor;
          doubled = wrap_i64 (remainder * 2)
      in if doubled > divisor \<or> (doubled = divisor \<and> quotient mod 2 \<noteq> 0) then wrap_i64 (quotient + 1)
         else quotient)"

text \<open>\<open>Duration::num_microseconds\<close>, \<open>None\<close> outside 64 bits.\<close>

definition num_microseconds :: "int \<Rightarrow> int option" where
  "num_microseconds d = (let us = trunc_div d 1000 in if in_i64 us then Some us else None)"

definition day_start :: "int \<Rightarrow> int" where
  "day_start now = now - now mod (86400 * 1000000000)"

definition bucket_condition ::
  "codecs \<Rightarrow> sql_dialect \<Rightarrow> str \<Rightarrow> int \<Rightarrow> int \<Rightarrow> int option \<Rightarrow> int option \<Rightarrow> subsample_select \<Rightarrow> sql_cond" where
  "bucket_condition cd D key origin width start end select =
     InBuckets key (select = First) origin width
       (map_option (\<lambda>s. timestamp_value cd s D) start) (map_option (\<lambda>s. timestamp_value cd s D) end)"

definition subsample_conditions ::
  "codecs \<Rightarrow> sql_dialect \<Rightarrow> node_own \<Rightarrow> str \<Rightarrow> int \<Rightarrow> (panic, sql_cond list) result" where
  "subsample_conditions cd D n key now =
     (if no_subsample_every n = None \<and> no_subsample n = None then Ok []
      else try_then (time_bounds cd n now) (\<lambda>(start, end).
        let select = (case no_subsample_select n of None \<Rightarrow> First | Some s \<Rightarrow> s)
        in try_concat
          [(case no_subsample_every n of None \<Rightarrow> Ok []
            | Some every \<Rightarrow>
                let origin = (case start of Some s \<Rightarrow> s | None \<Rightarrow> day_start now)
                in try_then (expect ''durations parse within range'' (num_microseconds every)) (\<lambda>us.
                     Ok [bucket_condition cd D key origin (max us 1) start end select])),
           (case no_subsample n of None \<Rightarrow> Ok []
            | Some count \<Rightarrow>
                (case (start, end) of
                   (Some s, Some e) \<Rightarrow>
                     let span = (case num_microseconds (e - s) of Some us \<Rightarrow> us | None \<Rightarrow> 0);
                         width = max (divide_rounding_half_even span (wrap_i64 (int (max count 1)))) 1
                     in Ok [bucket_condition cd D key s width (Some s) (Some e) select]
                 | _ \<Rightarrow> Ok []))]))"

section \<open>A node's conditions\<close>

definition level_conditions :: "node_own \<Rightarrow> str \<Rightarrow> (panic, sql_cond list) result" where
  "level_conditions n key =
     try_concat
       [(case no_min_level n of None \<Rightarrow> Ok []
         | Some m \<Rightarrow> if m \<le> length level_values
             then Ok [InC (Col key) (map TextV (drop m level_values))]
             else Err (Panic ''range start index out of range'')),
        (case no_max_level n of None \<Rightarrow> Ok []
         | Some m \<Rightarrow> if m < length level_values
             then Ok [InC (Col key) (map TextV (take (Suc m) level_values))]
             else Err (Panic ''range end index out of range''))]"

definition field_conditions ::
  "codecs \<Rightarrow> sql_dialect \<Rightarrow> node_own \<Rightarrow> int \<Rightarrow> bool \<Rightarrow> filter_field \<Rightarrow> (panic, sql_cond list) result" where
  "field_conditions cd D n now address f =
     try_concat
       [Ok (map (values_condition cd D f) (option_list (values_of n f))),
        operation_conditions D n f,
        (if address \<and> ff_family f = Address
         then (case no_address n of None \<Rightarrow> Ok []
               | Some S \<Rightarrow> try_then (selector_condition S (ff_key f) (no_root n) D) (\<lambda>c. Ok [c]))
         else Ok []),
        (case ff_family f of
           Timestamp \<Rightarrow>
             try_concat [window_conditions cd D n (ff_key f) now,
               subsample_conditions cd D n (ff_key f) now, Ok (clock_conditions n (ff_key f))]
         | Level \<Rightarrow> level_conditions n (ff_key f)
         | _ \<Rightarrow> Ok [])]"

definition conditions_with_address ::
  "codecs \<Rightarrow> schema \<Rightarrow> sql_dialect \<Rightarrow> int \<Rightarrow> bool \<Rightarrow> node_own \<Rightarrow> (panic, sql_cond list) result" where
  "conditions_with_address cd s D now address n =
     try_concat
       ([Ok (if no_impossible n then [BoolC False] else []), Ok (computed_conditions n D)]
        @ map (field_conditions cd D n now address) (sch_fields s))"

function combined_conditions ::
  "codecs \<Rightarrow> schema \<Rightarrow> sql_dialect \<Rightarrow> int \<Rightarrow> bool \<Rightarrow> filter_node \<Rightarrow> (panic, sql_cond list) result" where
  "combined_conditions cd s D now address (FilterNode n ands ors) =
     try_then (conditions_with_address cd s D now address n) (\<lambda>own.
     try_then (try_map (combined_conditions cd s D now True) ands) (\<lambda>more.
       let conj = own @ concat more in
       if ors = [] then Ok conj
       else try_then (try_map (combined_conditions cd s D now True) ors) (\<lambda>groups.
         Ok [any_of ((if conj = [] then [] else [all_of conj])
               @ map (\<lambda>g. if g = [] then BoolC True else all_of g) groups)])))"
  by pat_completeness auto
termination
  by (relation "measure (\<lambda>(cd, s, D, now, address, t). size t)")
    (auto dest: size_list_estimation'[where f = size, OF _ order_refl] simp: less_Suc_eq_le)

end
