(* ===== verification/Filter_Wf.thy ===== *)
theory Filter_Wf
  imports Filter_Parse
begin

text \<open>
  What every parsed filter satisfies: the invariant \<open>node_ok\<close> and its preservation by each
  step of the parser, the hoisting rules of \<open>finish\<close>, and the fuel of the subfilter
  recursion. The compiler and the matcher rely on the invariant to reach none of their
  panics.
\<close>

section \<open>The invariant\<close>

definition values_ok :: "filter_field \<Rightarrow> field_values \<Rightarrow> bool" where
  "values_ok f v =
     (case v of
        UuidsV us \<Rightarrow> us \<noteq> [] \<and> ff_family f = Uuid
      | StampsV ss \<Rightarrow> ss \<noteq> [] \<and> ff_family f = Timestamp
      | BytesListV bs \<Rightarrow> bs \<noteq> [] \<and> ff_family f = Bytes
      | BooleanV _ \<Rightarrow> ff_family f = Boolean
      | TextsV ts \<Rightarrow> ts \<noteq> [] \<and>
          (case ff_family f of Text \<Rightarrow> True | Email \<Rightarrow> True | Values vs \<Rightarrow> set ts \<subseteq> set vs
           | Level \<Rightarrow> set ts \<subseteq> set level_values | JsonValue \<Rightarrow> True | PlainAddress \<Rightarrow> True | _ \<Rightarrow> False))"

definition operation_ok :: "operation_filter \<Rightarrow> bool" where
  "operation_ok o' =
     (case of_values o' of
        TextsV ts \<Rightarrow> ts \<noteq> [] \<and> ff_family (of_field o') \<noteq> Bytes
      | BytesListV bs \<Rightarrow> bs \<noteq> [] \<and> ff_family (of_field o') = Bytes
      | _ \<Rightarrow> False)"

definition bounds_ok :: "node_own \<Rightarrow> bool" where
  "bounds_ok n \<longleftrightarrow>
     (\<forall>x. no_timespan n = Some x \<longrightarrow> micros 1 \<le> x)
     \<and> (\<forall>x. no_subsample_every n = Some x \<longrightarrow> micros 1 \<le> x)
     \<and> (\<forall>x. no_subsample n = Some x \<longrightarrow> 1 \<le> x \<and> x < 2 ^ 64)
     \<and> (\<forall>x. no_after_hour n = Some x \<longrightarrow> x \<le> 24) \<and> (\<forall>x. no_before_hour n = Some x \<longrightarrow> x \<le> 24)
     \<and> (\<forall>x. no_after_minute n = Some x \<longrightarrow> x \<le> 60) \<and> (\<forall>x. no_before_minute n = Some x \<longrightarrow> x \<le> 60)
     \<and> (\<forall>x. no_min_level n = Some x \<longrightarrow> x < length level_values)
     \<and> (\<forall>x. no_max_level n = Some x \<longrightarrow> x < length level_values)"

definition equalities_ok :: "schema \<Rightarrow> (str \<times> field_values) list \<Rightarrow> bool" where
  "equalities_ok s es \<longleftrightarrow>
     (\<forall>(k, v) \<in> set es. \<exists>f \<in> set (sch_fields s). ff_key f = k \<and> values_ok f v)"

definition operations_ok :: "schema \<Rightarrow> operation_filter list \<Rightarrow> bool" where
  "operations_ok s os \<longleftrightarrow> (\<forall>o' \<in> set os. of_field o' \<in> set (sch_fields s) \<and> operation_ok o')"

definition computed_ok :: "schema \<Rightarrow> (computed \<times> bool) list \<Rightarrow> bool" where
  "computed_ok s cs \<longleftrightarrow> list_all (\<lambda>(q, _). q \<in> set (sch_computed s)) cs"

definition own_ok :: "schema \<Rightarrow> node_own \<Rightarrow> bool" where
  "own_ok s n \<longleftrightarrow>
     equalities_ok s (no_equalities n) \<and> operations_ok s (no_operations n)
     \<and> (\<forall>S. no_address n = Some S \<longrightarrow> selector_ok S) \<and> root_ok (no_root n)
     \<and> computed_ok s (no_computed n) \<and> bounds_ok n"

definition range_ok :: "node_own \<Rightarrow> bool" where
  "range_ok n \<longleftrightarrow> no_subsample n \<noteq> None \<longrightarrow> has_start n \<and> has_end n"

fun node_ok :: "schema \<Rightarrow> filter_node \<Rightarrow> bool" where
  "node_ok s (FilterNode n ands ors) \<longleftrightarrow>
     own_ok s n \<and> range_ok n \<and> (\<forall>c \<in> set ands. node_ok s c) \<and> (\<forall>c \<in> set ors. node_ok s c)"

definition terms_ok :: "schema \<Rightarrow> order_term list \<Rightarrow> bool" where
  "terms_ok s ts \<longleftrightarrow>
     (\<forall>t \<in> set ts. ot_field t \<in> set (sch_fields s) \<and> family_native (ff_family (ot_field t)))"

definition finished_ok :: "schema \<Rightarrow> finished \<Rightarrow> bool" where
  "finished_ok s f \<longleftrightarrow> node_ok s (fi_node f) \<and> terms_ok s (fi_order f)"

definition parsing_ok :: "schema \<Rightarrow> parsing \<Rightarrow> bool" where
  "parsing_ok s p \<longleftrightarrow>
     own_ok s (pa_own p) \<and> terms_ok s (pa_order p)
     \<and> (\<forall>f \<in> set (pa_and p). finished_ok s f) \<and> (\<forall>f \<in> set (pa_or p). finished_ok s f)"

section \<open>Preservation\<close>

lemma own_ok_default: "own_ok s node_default"
  by (simp add: own_ok_def node_default_def equalities_ok_def operations_ok_def root_ok_def bounds_ok_def computed_ok_def)

lemma parsing_ok_default: "parsing_ok s parsing_default"
  by (simp add: parsing_ok_def parsing_default_def own_ok_default terms_ok_def)

lemma own_ok_impossible: "own_ok s n \<Longrightarrow> own_ok s (n\<lparr>no_impossible := True\<rparr>)"
  by (simp add: own_ok_def bounds_ok_def)

lemma position_bound: "position x xs = Some i \<Longrightarrow> i < length xs \<and> xs ! i = x"
  by (induction xs arbitrary: i) (auto split: if_splits)

lemma position_None: "position x xs = None \<longleftrightarrow> x \<notin> set xs"
  by (induction xs) auto

lemma equality_value_ok: "equality_value cd f v = Ok w \<Longrightarrow> values_ok f w"
  by (auto simp: equality_value_def values_ok_def try_then_Inr_iff level_position_def position_None
      split: field_family.splits option.splits if_splits sum.splits)

lemma merge_values_ok:
  assumes "merge_values key a b = Ok c" and "values_ok f a" and "values_ok f b"
  shows "values_ok f c"
  using assms
  by (cases "(key, a, b)" rule: merge_values.cases) (auto simp: values_ok_def split: field_family.splits)

lemma add_equality_ok:
  assumes "add_equality key v es = Ok es'" and "equalities_ok s es" and "fields_distinct s"
    and "f \<in> set (sch_fields s)" and "ff_key f = key" and "values_ok f v"
  shows "equalities_ok s es'"
  using assms
proof (induction key v es arbitrary: es' rule: add_equality.induct)
  case (1 key v)
  then show ?case by (auto simp: equalities_ok_def)
next
  case (2 key v k e es)
  have rest: "equalities_ok s es" using 2(3) by (simp add: equalities_ok_def)
  obtain g where g: "g \<in> set (sch_fields s)" "ff_key g = k" "values_ok g e"
    using 2(3) by (auto simp: equalities_ok_def)
  show ?case
  proof (cases "k = key")
    case True
    then have "g = f" using g 2(4-6) by (auto simp: fields_distinct_def distinct_map inj_on_def)
    then obtain e' where e': "merge_values key e v = Ok e'" "es' = (k, e') # es"
      using 2(2) True by (auto simp: try_then_Inr_iff)
    have "values_ok f e'" using merge_values_ok[OF e'(1)] g(3) 2(7) \<open>g = f\<close> by simp
    then show ?thesis using rest e'(2) True 2(5,6) unfolding equalities_ok_def by auto
  next
    case False
    then show ?thesis
      using 2(1)[OF False _ rest 2(4-7)] 2(2) g by (auto simp: try_then_Inr_iff equalities_ok_def)
  qed
qed

lemma selector_push_ok:
  assumes "selector_push S v = Ok S'" and "list_all valid_segment (sel_segments S)"
  shows "selector_ok S'"
proof -
  have v: "list_all valid_segment (split_on CHR ''|'' v)"
    "S' = S\<lparr>sel_segments := sel_segments S @ split_on CHR ''|'' v\<rparr>"
    using assms(1) by (simp_all add: selector_push_def selector_push_fold split: if_splits)
  then show ?thesis using assms(2) by (simp add: selector_ok_def)
qed

lemma push_equality_ok:
  assumes "push_equality cd f v n = Ok n'" and "own_ok s n" and "fields_distinct s" and "f \<in> set (sch_fields s)"
  shows "own_ok s n'"
proof (cases "ff_family f = Address")
  case True
  obtain S where S: "selector_push (case no_address n of None \<Rightarrow> selector_default | Some S \<Rightarrow> S) v = Ok S"
    "n' = n\<lparr>no_address := Some S\<rparr>"
    using assms(1) True by (auto simp: push_equality_def split: sum.splits)
  have "list_all valid_segment (sel_segments (case no_address n of None \<Rightarrow> selector_default | Some S \<Rightarrow> S))"
    using assms(2) by (auto simp: own_ok_def selector_ok_def selector_default_def split: option.splits)
  then have "selector_ok S" using S(1) by (blast intro: selector_push_ok)
  then show ?thesis using assms(2) S(2) by (simp add: own_ok_def bounds_ok_def)
next
  case False
  then obtain w es where w: "equality_value cd f v = Ok w"
    "add_equality (ff_key f) w (no_equalities n) = Ok es" "n' = n\<lparr>no_equalities := es\<rparr>"
    using assms(1) by (auto simp: push_equality_def try_then_Inr_iff)
  have "equalities_ok s es"
    using add_equality_ok[OF w(2) _ assms(3,4) refl equality_value_ok[OF w(1)]] assms(2)
    by (simp add: own_ok_def)
  then show ?thesis using assms(2) w(3) by (simp add: own_ok_def bounds_ok_def)
qed


lemma add_operation_ok:
  assumes "add_operation f kind v os = Ok os'" and "operations_ok s os" and "f \<in> set (sch_fields s)"
    and "operation_ok \<lparr>of_field = f, of_kind = kind, of_values = v\<rparr>"
  shows "operations_ok s os'"
  using assms
proof (induction f kind v os arbitrary: os' rule: add_operation.induct)
  case (1 f kind v)
  then show ?case by (auto simp: operations_ok_def)
next
  case (2 f kind v o' os)
  have rest: "operations_ok s os" and o': "of_field o' \<in> set (sch_fields s)" "operation_ok o'"
    using 2(3) by (auto simp: operations_ok_def)
  show ?case
  proof (cases "ff_key (of_field o') = ff_key f \<and> of_kind o' = kind")
    case True
    then obtain w where w: "merge_operation (of_values o') v = Ok w" "os' = o'\<lparr>of_values := w\<rparr> # os"
      using 2(2) by (auto simp: try_then_Inr_iff)
    have "operation_ok (o'\<lparr>of_values := w\<rparr>)"
      using o'(2) w(1) by (cases "(of_values o', v)" rule: merge_operation.cases) (auto simp: operation_ok_def)
    then show ?thesis using rest o' w(2) by (simp add: operations_ok_def)
  next
    case False
    then show ?thesis
      using 2(1)[OF False _ rest 2(4,5)] 2(2) o' by (auto simp: try_then_Inr_iff operations_ok_def)
  qed
qed

lemma push_operation_ok:
  assumes "push_operation f kind v n = Ok n'" and "own_ok s n" and "f \<in> set (sch_fields s)"
  shows "own_ok s n'"
proof -
  obtain os where os: "add_operation f kind (operation_value f v) (no_operations n) = Ok os"
    "n' = n\<lparr>no_operations := os\<rparr>"
    using assms(1) by (auto simp: push_operation_def try_then_Inr_iff)
  have "operation_ok \<lparr>of_field = f, of_kind = kind, of_values = operation_value f v\<rparr>"
    by (simp add: operation_ok_def operation_value_def)
  then have "operations_ok s os"
    using add_operation_ok[OF os(1) _ assms(3)] assms(2) by (simp add: own_ok_def)
  then show ?thesis using assms(2) os(2) by (simp add: own_ok_def bounds_ok_def)
qed

text \<open>A well-formed node never reaches the panic of \<open>push_operation\<close>.\<close>

lemma add_operation_total:
  assumes "operations_ok s os" and "f \<in> set (sch_fields s)" and "fields_distinct s"
  shows "\<exists>os'. add_operation f kind (operation_value f v) os = Ok os'"
  using assms(1)
proof (induction os)
  case Nil
  then show ?case by simp
next
  case (Cons o' os)
  then have o': "of_field o' \<in> set (sch_fields s)" "operation_ok o'" and rest: "operations_ok s os"
    by (auto simp: operations_ok_def)
  have same: "ff_key (of_field o') = ff_key f \<Longrightarrow> of_field o' = f"
    using o'(1) assms(2,3) by (auto simp: fields_distinct_def distinct_map inj_on_def)
  show ?case
  proof (cases "ff_key (of_field o') = ff_key f \<and> of_kind o' = kind")
    case True
    then have "\<exists>w. merge_operation (of_values o') (operation_value f v) = Ok w"
      using o'(2) same by (cases "of_values o'") (auto simp: operation_ok_def operation_value_def)
    then show ?thesis using True by auto
  next
    case False
    then show ?thesis using Cons.IH[OF rest] by auto
  qed
qed

lemma apply_equality_ok:
  assumes "apply_equality cd f key v n = Ok n'" and "own_ok s n" and "fields_distinct s" and "f \<in> set (sch_fields s)"
  shows "own_ok s n'"
proof -
  have fold: "own_ok s m'" if "try_fold (push_equality cd f) ts m = Ok m'" "own_ok s m" for ts m m'
    using that(1,2) by (rule try_fold_invariant) (blast intro: push_equality_ok assms(3,4))
  show ?thesis
    using assms(1,2) push_equality_ok[OF _ _ assms(3,4)] fold own_ok_impossible
    by (auto simp: apply_equality_def try_then_Inr_iff split: if_splits)
qed

lemma apply_operation_ok:
  assumes "apply_operation f kind key v n = Ok n'" and "own_ok s n" and "f \<in> set (sch_fields s)"
  shows "own_ok s n'"
proof -
  have fold: "own_ok s m'" if "try_fold (push_operation f kind) ts m = Ok m'" "own_ok s m" for ts m m'
    using that(1,2) by (rule try_fold_invariant) (blast intro: push_operation_ok assms(3))
  show ?thesis
    using assms(1,2) fold own_ok_impossible
    by (auto simp: apply_operation_def try_then_Inr_iff split: if_splits)
qed

lemma apply_computed_ok:
  "apply_computed q key v n = Ok n' \<Longrightarrow> own_ok s n \<Longrightarrow> q \<in> set (sch_computed s) \<Longrightarrow> own_ok s n'"
  by (auto simp: apply_computed_def try_then_Inr_iff own_ok_def bounds_ok_def computed_ok_def split: option.splits)

lemma apply_root_ok: "apply_root key v n = Ok n' \<Longrightarrow> own_ok s n \<Longrightarrow> own_ok s n'"
  by (auto simp: apply_root_def try_then_Inr_iff own_ok_def bounds_ok_def root_ok_def split: if_splits)

text \<open>The setters of scalar bounds: each changes one slot, within its range.\<close>

lemma bounds_update_ok:
  "own_ok s n \<Longrightarrow> bounds_ok n' \<Longrightarrow> no_equalities n' = no_equalities n \<Longrightarrow> no_operations n' = no_operations n
   \<Longrightarrow> no_address n' = no_address n \<Longrightarrow> no_root n' = no_root n \<Longrightarrow> no_computed n' = no_computed n
   \<Longrightarrow> own_ok s n'"
  by (simp add: own_ok_def)

lemma own_ok_bounds: "own_ok s n \<Longrightarrow> bounds_ok n"
  by (simp add: own_ok_def)

lemma level_position_bound: "level_position t = Some i \<Longrightarrow> i < length level_values"
  by (auto simp: level_position_def dest: position_bound)

lemma parse_uint_bound: "parse_uint w t = Some m \<Longrightarrow> m < 2 ^ w"
  by (auto simp: parse_uint_def Let_def split: if_splits)

lemma apply_window_ok: "apply_window cd w key v n = Ok n' \<Longrightarrow> own_ok s n \<Longrightarrow> own_ok s n'"
  by (rule bounds_update_ok[of s n], assumption; drule own_ok_bounds; cases w)
    (auto simp: apply_window_def try_then_Inr_iff bounds_ok_def split: if_splits)

lemma apply_subsample_count:
  assumes "apply_subsample cd Count key v n = Ok n'"
  shows "\<exists>c. 1 \<le> c \<and> c < 2 ^ 64 \<and> n' = n\<lparr>no_subsample := Some c\<rparr>"
proof -
  obtain t where t: "(case parse_uint 64 t of
      Some c \<Rightarrow>
        if c \<ge> 1 then try_then (set_once (no_subsample n) key c) (\<lambda>x. Ok (n\<lparr>no_subsample := x\<rparr>))
        else Err (Invalid (InvalidSubsample t))
    | None \<Rightarrow> Err (Invalid (InvalidSubsample t))) = Ok n'"
    using assms by (auto simp: apply_subsample_def try_then_Inr_iff)
  then obtain c where c: "parse_uint 64 t = Some c" "1 \<le> c" "n' = n\<lparr>no_subsample := Some c\<rparr>"
    by (auto simp: try_then_Inr_iff split: option.splits if_splits)
  then show ?thesis using parse_uint_bound by blast
qed

lemma apply_subsample_other:
  assumes "apply_subsample cd w key v n = Ok n'" and "w \<noteq> Count"
  shows "(\<exists>x. n' = n\<lparr>no_subsample_select := x\<rparr>)
    \<or> (\<exists>d. micros 1 \<le> d \<and> n' = n\<lparr>no_subsample_every := Some d\<rparr>)"
proof (cases w)
  case Every
  then obtain d where "\<not> d < micros 1" "n' = n\<lparr>no_subsample_every := Some d\<rparr>"
    using assms by (auto simp: apply_subsample_def try_then_Inr_iff split: if_splits)
  then show ?thesis by (metis not_less)
next
  case Select
  then show ?thesis using assms by (auto simp: apply_subsample_def try_then_Inr_iff)
qed (use assms in simp)

lemma apply_subsample_ok: "apply_subsample cd w key v n = Ok n' \<Longrightarrow> own_ok s n \<Longrightarrow> own_ok s n'"
  using apply_subsample_count[of cd key v n n'] apply_subsample_other[of cd w key v n n']
  by (cases "w = Count") (auto simp: own_ok_def bounds_ok_def)

lemma apply_clock_ok: "apply_clock c key v n = Ok n' \<Longrightarrow> own_ok s n \<Longrightarrow> own_ok s n'"
  by (rule bounds_update_ok[of s n], assumption; drule own_ok_bounds; cases c)
    (auto simp: apply_clock_def try_then_Inr_iff bounds_ok_def clock_cap_def split: if_splits option.splits)

lemma apply_bound_level:
  assumes "apply_bound b key v n = Ok n'"
  shows "\<exists>i < length level_values. n' = n\<lparr>no_min_level := Some i\<rparr> \<or> n' = n\<lparr>no_max_level := Some i\<rparr>"
proof -
  obtain t i where "level_position t = Some i"
    "n' = n\<lparr>no_min_level := Some i\<rparr> \<or> n' = n\<lparr>no_max_level := Some i\<rparr>"
    using assms
    by (cases b) (auto simp: apply_bound_def try_then_Inr_iff split: option.splits)
  then show ?thesis using level_position_bound by blast
qed

lemma apply_bound_ok: "apply_bound b key v n = Ok n' \<Longrightarrow> own_ok s n \<Longrightarrow> own_ok s n'"
  using apply_bound_level[of b key v n n'] by (auto simp: own_ok_def bounds_ok_def)

lemma first_role_field:
  "first_role fs key = Some role \<Longrightarrow> \<exists>f \<in> set fs. field_role f key = Some role"
  by (induction fs) (auto split: option.splits)

lemma find_Some_member: "find P xs = Some x \<Longrightarrow> x \<in> set xs \<and> P x"
  by (induction xs) (auto split: if_splits)

lemma resolve_field:
  assumes "resolve s key = Ok role"
  shows "role = EqualityR f \<Longrightarrow> f \<in> set (sch_fields s)"
    and "role = OperationR f kind \<Longrightarrow> f \<in> set (sch_fields s)"
    and "role = ComputedR q \<Longrightarrow> q \<in> set (sch_computed s)"
proof -
  have fam: "family_role fam key \<noteq> Some (EqualityR f)" "family_role fam key \<noteq> Some (OperationR f kind)"
    "family_role fam key \<noteq> Some (ComputedR q)" for fam
    by (auto simp: family_role_def split: field_family.splits option.splits if_splits)
  have fld: "field_role g key = Some (EqualityR f) \<Longrightarrow> f = g"
    "field_role g key = Some (OperationR f kind) \<Longrightarrow> f = g" "field_role g key \<noteq> Some (ComputedR q)" for g
    using fam by (auto simp: field_role_def split: if_splits option.splits)
  have cases: "query_role key = Some role \<or> (\<exists>q. find (\<lambda>p. cp_key p = key) (sch_computed s) = Some q \<and> role = ComputedR q)
      \<or> first_role (sch_fields s) key = Some role"
    using assms by (auto simp: resolve_def split: option.splits if_splits)
  have q: "query_role key \<noteq> Some (EqualityR f)" "query_role key \<noteq> Some (OperationR f kind)"
    "query_role key \<noteq> Some (ComputedR q)"
    by (auto simp: query_role_def)
  show "role = EqualityR f \<Longrightarrow> f \<in> set (sch_fields s)" "role = OperationR f kind \<Longrightarrow> f \<in> set (sch_fields s)"
    using cases q fld by (auto dest!: first_role_field)
  show "role = ComputedR q \<Longrightarrow> q \<in> set (sch_computed s)"
    using cases q fld(3) by (auto dest!: first_role_field find_Some_member)
qed

lemma parse_order_ok:
  assumes "parse_order s t = Ok term"
  shows "terms_ok s [term]"
proof -
  obtain base asc where "(case find (\<lambda>f. ff_key f = base) (sch_fields s) of
        None \<Rightarrow> Err (Invalid (InvalidOrder t))
      | Some f \<Rightarrow> if \<not> family_native (ff_family f) then Err Delegated
                  else Ok \<lparr>ot_field = f, ot_ascending = asc\<rparr>) = Ok term"
    using assms unfolding parse_order_def try_then_Inr_iff by fastforce
  then show ?thesis
    by (auto simp: terms_ok_def split: option.splits if_splits dest: find_Some_member)
qed

lemma parsing_ok_own: "parsing_ok s p \<Longrightarrow> own_ok s n \<Longrightarrow> parsing_ok s (on_own p n)"
  by (simp add: parsing_ok_def)

lemma apply_key_ok:
  assumes ap: "apply_key cd s groups key v p = Ok p'" and ok: "parsing_ok s p" and fd: "fields_distinct s"
    and groups: "\<And>v cs. groups v = Ok cs \<Longrightarrow> \<forall>c \<in> set cs. finished_ok s c"
  shows "parsing_ok s p'"
proof -
  obtain role where role: "resolve s key = Ok role" using ap by (auto simp: apply_key_def try_then_Inr_iff)
  have own: "own_ok s (pa_own p)" using ok by (simp add: parsing_ok_def)
  note body = ap[unfolded apply_key_def role refusing_def sum.case try_then_simps Let_def]
  note field = resolve_field[OF role]
  show ?thesis
  proof (cases role)
    case (OrderR)
    have "parsing_ok s q'" if "parsing_ok s q"
      "try_fold (\<lambda>t q. try_then (parse_order s t) (\<lambda>term. Ok (q\<lparr>pa_order := pa_order q @ [term]\<rparr>))) ts q = Ok q'"
      for ts q q'
      using that(2,1)
      by (rule try_fold_invariant)
        (auto simp: try_then_Inr_iff parsing_ok_def terms_ok_def dest!: parse_order_ok)
    then show ?thesis using body OrderR ok by (auto simp: try_then_Inr_iff split: sum.splits)
  next
    case (GroupR g)
    then show ?thesis
      using body ok groups
      by (cases g) (auto simp: try_then_Inr_iff parsing_ok_def ball_Un split: sum.splits)
  next
    case LimitR
    then show ?thesis
      using body ok by (auto simp: apply_page_number_def try_then_Inr_iff parsing_ok_def split: sum.splits option.splits)
  next
    case OffsetR
    then show ?thesis
      using body ok by (auto simp: apply_page_number_def try_then_Inr_iff parsing_ok_def split: sum.splits option.splits)
  qed (use body own field fd in \<open>auto simp: try_then_Inr_iff intro!: parsing_ok_own[OF ok]
        dest: apply_equality_ok apply_computed_ok apply_operation_ok apply_root_ok apply_window_ok
          apply_subsample_ok apply_clock_ok apply_bound_ok split: sum.splits\<close>)
qed


section \<open>Finishing\<close>

text \<open>What hoisting an \<open>and\<close> group amounts to.\<close>

definition tightest :: "nat option list \<Rightarrow> nat option" where
  "tightest ls = (let xs = List.map_filter id ls in if xs = [] then None else Some (Min (set xs)))"

definition deepest :: "nat option list \<Rightarrow> nat option" where
  "deepest ls = (let xs = List.map_filter id ls in if xs = [] then None else Some (Max (set xs)))"

definition winning_order :: "order_term list list \<Rightarrow> order_term list" where
  "winning_order os = (let xs = filter (\<lambda>o'. o' \<noteq> []) os in if xs = [] then [] else List.last xs)"

lemma tightest_step:
  "tightest ((case l of None \<Rightarrow> k | Some x \<Rightarrow> Some (case k of None \<Rightarrow> x | Some y \<Rightarrow> min y x)) # ls)
   = tightest (k # l # ls)"
  by (cases k; cases l; cases "List.map_filter id ls")
    (auto simp: tightest_def List.map_filter_simps Let_def min.assoc)

lemma deepest_step:
  "deepest ((case l of None \<Rightarrow> k | Some x \<Rightarrow> Some (case k of None \<Rightarrow> x | Some y \<Rightarrow> max y x)) # ls)
   = deepest (k # l # ls)"
  by (cases k; cases l; cases "List.map_filter id ls")
    (auto simp: deepest_def List.map_filter_simps Let_def max.assoc)

lemma winning_order_step: "winning_order ((if b \<noteq> [] then b else a) # os) = winning_order (a # b # os)"
  by (auto simp: winning_order_def Let_def)

lemma hoist_fold:
  "foldl (\<lambda>q c. hoist c q) q cs =
     \<lparr>fi_node = FilterNode (node_own (fi_node q)) (and_children (fi_node q) @ map fi_node cs) (or_children (fi_node q)),
      fi_order = winning_order (fi_order q # map fi_order cs),
      fi_limit = tightest (fi_limit q # map fi_limit cs),
      fi_offset = deepest (fi_offset q # map fi_offset cs)\<rparr>"
proof (induction cs arbitrary: q)
  case Nil
  have "winning_order [x] = x" "tightest [l] = l" "deepest [l] = l" for x l
    by (cases l; auto simp: winning_order_def tightest_def deepest_def List.map_filter_simps)+
  then show ?case by (cases "fi_node q") simp
next
  case (Cons c cs)
  show ?case
    using Cons.IH[of "hoist c q"]
    by (simp add: hoist_def tightest_step deepest_step winning_order_step)
qed

lemma finish_Ok:
  assumes "finish p = Ok f"
  shows "f = \<lparr>fi_node = FilterNode (pa_own p) (map fi_node (pa_and p)) (map fi_node (pa_or p)),
      fi_order = winning_order (pa_order p # map fi_order (pa_and p)),
      fi_limit = tightest (pa_limit p # map fi_limit (pa_and p)),
      fi_offset = deepest (pa_offset p # map fi_offset (pa_and p))\<rparr>"
    and "range_ok (pa_own p)"
    and "c \<in> set (pa_or p) \<Longrightarrow> child_control c = None"
proof -
  have no: "List.map_filter child_control (pa_or p) = []"
    and rng: "\<not> (no_subsample (pa_own p) \<noteq> None \<and> \<not> (has_start (pa_own p) \<and> has_end (pa_own p)))"
    using assms by (auto simp: finish_def split: if_splits list.splits)
  show "f = \<lparr>fi_node = FilterNode (pa_own p) (map fi_node (pa_and p)) (map fi_node (pa_or p)),
      fi_order = winning_order (pa_order p # map fi_order (pa_and p)),
      fi_limit = tightest (pa_limit p # map fi_limit (pa_and p)),
      fi_offset = deepest (pa_offset p # map fi_offset (pa_and p))\<rparr>"
    using assms no rng by (auto simp: finish_def hoist_fold split: if_splits)
  show "range_ok (pa_own p)" using rng by (auto simp: range_ok_def)
  show "c \<in> set (pa_or p) \<Longrightarrow> child_control c = None"
    using no by (auto simp: List.map_filter_def filter_empty_conv)
qed

lemma winning_order_ok: "\<forall>o' \<in> set os. terms_ok s o' \<Longrightarrow> terms_ok s (winning_order os)"
proof -
  assume a: "\<forall>o' \<in> set os. terms_ok s o'"
  show ?thesis
  proof (cases "filter (\<lambda>o'. o' \<noteq> []) os = []")
    case False
    then have "List.last (filter (\<lambda>o'. o' \<noteq> []) os) \<in> set os"
      using last_in_set[of "filter (\<lambda>o'. o' \<noteq> []) os"] by (simp only: set_filter) blast
    then have "terms_ok s (List.last (filter (\<lambda>o'. o' \<noteq> []) os))" using a by blast
    then show ?thesis unfolding winning_order_def Let_def if_not_P[OF False] .
  qed (simp add: winning_order_def terms_ok_def Let_def)
qed

lemma finish_finished_ok: "finish p = Ok f \<Longrightarrow> parsing_ok s p \<Longrightarrow> finished_ok s f"
  using finish_Ok(1)[of p f] finish_Ok(2)[of p f]
    winning_order_ok[of "pa_order p # map fi_order (pa_and p)" s]
  by (auto simp: finished_ok_def parsing_ok_def)

section \<open>The whole parser\<close>

lemma from_mapping_ok:
  assumes "from_mapping cd s groups m = Ok f" and fd: "fields_distinct s"
    and groups: "\<And>v cs. groups v = Ok cs \<Longrightarrow> \<forall>c \<in> set cs. finished_ok s c"
  shows "finished_ok s f"
proof -
  obtain p where p: "try_fold (\<lambda>(k, v) p.
          case k of
            YString key \<Rightarrow>
              if v = YNull \<and> \<not> nullable s key then Ok p else apply_key cd s groups key (WYaml v) p
          | _ \<Rightarrow> invalidly SubfilterKeyNotString) m parsing_default = Ok p" and f: "finish p = Ok f"
    using assms(1) by (auto simp: from_mapping_def try_then_Inr_iff)
  have "parsing_ok s p"
    using p parsing_ok_default
    by (rule try_fold_invariant)
      (auto split: yaml.splits if_splits elim: apply_key_ok[OF _ _ fd groups])
  then show ?thesis by (rule finish_finished_ok[OF f])
qed

lemma group_one_ok:
  assumes "group_one cd sub y = Ok c" and "\<And>m c. sub m = Ok c \<Longrightarrow> finished_ok s c"
  shows "finished_ok s c"
proof -
  obtain z where "(case z of YMapping m \<Rightarrow> sub m | _ \<Rightarrow> invalidly SubfilterNotMapping) = Ok c"
    using assms(1) by (auto simp: group_one_def try_then_Inr_iff)
  then show ?thesis using assms(2) by (cases z) auto
qed

lemma group_children_ok:
  assumes "group_children cd sub v = Ok cs" and sub: "\<And>m c. sub m = Ok c \<Longrightarrow> finished_ok s c"
  shows "\<forall>c \<in> set cs. finished_ok s c"
proof -
  have many: "\<forall>c \<in> set cs. finished_ok s c" if "try_map (group_one cd sub) ys = Ok cs" for ys
    using that group_one_ok[OF _ sub] by (auto simp: try_map_Inr dest!: list_all2_member)
  obtain y where "(case y of YNull \<Rightarrow> Ok [] | YSequence ys \<Rightarrow> try_map (group_one cd sub) ys
      | other \<Rightarrow> try_then (group_one cd sub other) (\<lambda>c. Ok [c])) = Ok cs"
    using assms(1) by (auto simp: group_children_def try_then_Inr_iff)
  then show ?thesis
    using many group_one_ok[OF _ sub] by (cases y) (auto simp: try_then_Inr_iff)
qed

lemma from_yaml_fuel_ok:
  "fields_distinct s \<Longrightarrow> from_yaml_fuel cd s n m = Ok f \<Longrightarrow> finished_ok s f"
proof (induction n arbitrary: m f)
  case (Suc n)
  have "from_mapping cd s (group_children cd (from_yaml_fuel cd s n)) m = Ok f"
    using Suc.prems(2) by simp
  then show ?case
    by (rule from_mapping_ok[OF _ Suc.prems(1)])
      (erule group_children_ok, rule Suc.IH[OF Suc.prems(1)])
qed simp

lemma filter_parse_node_ok:
  assumes "filter_parse cd fuel s pairs = Ok f" and fd: "fields_distinct s"
  shows "fc_schema f = s \<and> node_ok s (fc_node f) \<and> terms_ok s (fc_order f)"
proof -
  let ?groups = "group_children cd (from_yaml_fuel cd s fuel)"
  obtain p g where p: "try_fold (\<lambda>(key, v). apply_key cd s ?groups key (WText v)) pairs parsing_default = Ok p"
    and g: "finish p = Ok g" and f: "f = core_of s g"
    using assms(1) by (auto simp: filter_parse_def try_then_Inr_iff)
  have groups: "\<forall>c \<in> set cs. finished_ok s c" if "?groups v = Ok cs" for v cs
    using that by (rule group_children_ok) (blast intro: from_yaml_fuel_ok fd)
  have "parsing_ok s p"
    using p parsing_ok_default
    by (rule try_fold_invariant) (auto elim: apply_key_ok[OF _ _ fd groups])
  then show ?thesis
    using finish_finished_ok[OF g] f by (simp add: core_of_def finished_ok_def)
qed


section \<open>No panic\<close>

text \<open>A result that is none of a set of failures, and how the parser's combinators keep that.\<close>

definition avoids :: "failure set \<Rightarrow> (failure, 'a) result \<Rightarrow> bool" where
  "avoids F r \<longleftrightarrow> (\<forall>e \<in> F. r \<noteq> Err e)"

abbreviation no_panic :: "(failure, 'a) result \<Rightarrow> bool" where
  "no_panic \<equiv> avoids (range Panicked)"

abbreviation fuelled :: "(failure, 'a) result \<Rightarrow> bool" where
  "fuelled \<equiv> avoids {OutOfFuel}"

lemma avoids_Ok [simp]: "avoids F (Ok x)"
  by (simp add: avoids_def)

lemma avoids_refusing [simp]: "no_panic (refusing r)" "fuelled (refusing r)"
  by (auto simp: avoids_def refusing_def split: sum.splits)

lemma avoids_panicking [simp]: "fuelled (panicking r)"
  by (auto simp: avoids_def panicking_def split: sum.splits)

lemma avoids_invalidly [simp]: "no_panic (invalidly i)" "fuelled (invalidly i)" "no_panic (Err OutOfFuel)"
  by (auto simp: avoids_def)

lemma avoids_try_then: "avoids F r \<Longrightarrow> (\<And>x. r = Ok x \<Longrightarrow> avoids F (f x)) \<Longrightarrow> avoids F (try_then r f)"
  by (cases r) (auto simp: avoids_def)

lemma avoids_try_map: "(\<And>x. x \<in> set xs \<Longrightarrow> avoids F (f x)) \<Longrightarrow> avoids F (try_map f xs)"
  by (induction xs) (auto intro!: avoids_try_then)

lemma avoids_try_fold:
  assumes "P s" and "\<And>x s. x \<in> set xs \<Longrightarrow> P s \<Longrightarrow> avoids F (f x s)"
    and "\<And>x s s'. x \<in> set xs \<Longrightarrow> P s \<Longrightarrow> f x s = Ok s' \<Longrightarrow> P s'"
  shows "avoids F (try_fold f xs s)"
  using assms
proof (induction xs arbitrary: s)
  case (Cons x xs)
  have "avoids F (try_fold f xs t)" if "f x s = Ok t" for t
  proof (rule Cons.IH)
    show "P t" using Cons.prems(1,3) that by (meson list.set_intros(1))
  qed (use Cons.prems(2,3) in \<open>meson list.set_intros(2)\<close>)+
  then show ?case using Cons.prems(1,2) by (auto intro!: avoids_try_then)
qed simp

lemma apply_operation_no_panic:
  assumes "own_ok s n" and fd: "fields_distinct s" and f: "f \<in> set (sch_fields s)"
  shows "no_panic (apply_operation f kind key v n)"
proof -
  have step: "\<exists>n'. push_operation f kind t m = Ok n'" if "own_ok s m" for t m
    using add_operation_total[OF _ f fd, of "no_operations m" kind t] that
    by (auto simp: push_operation_def own_ok_def)
  have fold: "\<exists>m'. try_fold (push_operation f kind) ts m = Ok m'" if "own_ok s m" for ts m
    using that
  proof (induction ts arbitrary: m)
    case (Cons t ts)
    obtain m' where "push_operation f kind t m = Ok m'" using step[OF Cons.prems] by blast
    then show ?case using Cons.IH[of m'] push_operation_ok[OF _ Cons.prems f] by simp
  qed simp
  have "no_panic (panicking (try_fold (push_operation f kind) ts m))" if "own_ok s m" for ts m
    using fold[OF that, of ts] by (auto simp: panicking_def)
  then show ?thesis
    using assms(1) own_ok_impossible by (auto simp: apply_operation_def intro!: avoids_try_then)
qed

lemma apply_key_no_panic:
  assumes "parsing_ok s p" and fd: "fields_distinct s" and "\<And>v. no_panic (groups v)"
  shows "no_panic (apply_key cd s groups key v p)"
proof -
  have own: "own_ok s (pa_own p)" using assms(1) by (simp add: parsing_ok_def)
  show ?thesis
    unfolding apply_key_def Let_def
    by (rule avoids_try_then, simp, rename_tac role, case_tac role)
      (auto intro!: avoids_try_then assms(3) apply_operation_no_panic[OF own fd]
        dest: resolve_field(2)[OF _ refl])
qed


lemma group_one_no_panic: "(\<And>m. no_panic (sub m)) \<Longrightarrow> no_panic (group_one cd sub y)"
  by (auto simp: group_one_def intro!: avoids_try_then split: yaml.splits)

lemma group_children_no_panic: "(\<And>m. no_panic (sub m)) \<Longrightarrow> no_panic (group_children cd sub v)"
  by (auto simp: group_children_def intro!: avoids_try_then avoids_try_map group_one_no_panic
      split: yaml.splits wire_value.splits)

lemma from_yaml_fuel_no_panic: "fields_distinct s \<Longrightarrow> no_panic (from_yaml_fuel cd s n m)"
proof (induction n arbitrary: m)
  case (Suc n)
  let ?groups = "group_children cd (from_yaml_fuel cd s n)"
  have np: "no_panic (?groups v)" for v
    using Suc.IH[OF Suc.prems] by (rule group_children_no_panic)
  have ok: "\<forall>c \<in> set cs. finished_ok s c" if "?groups v = Ok cs" for v cs
    using that by (rule group_children_ok) (rule from_yaml_fuel_ok[OF Suc.prems])
  show ?case
    unfolding from_yaml_fuel.simps from_mapping_def
    by (rule avoids_try_then, rule avoids_try_fold[where P = "parsing_ok s"])
      (auto simp: parsing_ok_default intro: apply_key_no_panic[OF _ Suc.prems np]
        elim: apply_key_ok[OF _ _ Suc.prems ok] split: yaml.splits if_splits)
qed simp

lemma filter_parse_no_panic:
  assumes "fields_distinct s"
  shows "no_panic (filter_parse cd fuel s pairs)"
proof -
  let ?groups = "group_children cd (from_yaml_fuel cd s fuel)"
  have np: "no_panic (?groups v)" for v
    using from_yaml_fuel_no_panic[OF assms] by (rule group_children_no_panic)
  have ok: "\<forall>c \<in> set cs. finished_ok s c" if "?groups v = Ok cs" for v cs
    using that by (rule group_children_ok) (rule from_yaml_fuel_ok[OF assms])
  show ?thesis
    unfolding filter_parse_def
    by (rule avoids_try_then, rule avoids_try_fold[where P = "parsing_ok s"])
      (auto simp: parsing_ok_default intro!: avoids_try_then intro: apply_key_no_panic[OF _ assms np]
        elim: apply_key_ok[OF _ _ assms ok])
qed

section \<open>Fuel\<close>

text \<open>More fuel never changes an answer: one result refines another that ran out.\<close>

definition refines :: "(failure, 'a) result \<Rightarrow> (failure, 'a) result \<Rightarrow> bool" where
  "refines r r' \<longleftrightarrow> r = Err OutOfFuel \<or> r' = r"

lemma refines_refl [simp]: "refines r r"
  by (simp add: refines_def)

lemma refines_try_then: "refines r r' \<Longrightarrow> (\<And>x. refines (f x) (f' x)) \<Longrightarrow> refines (try_then r f) (try_then r' f')"
  by (cases r) (auto simp: refines_def)

lemma refines_try_map: "(\<And>x. refines (f x) (f' x)) \<Longrightarrow> refines (try_map f xs) (try_map f' xs)"
  by (induction xs) (auto intro!: refines_try_then)

lemma refines_try_fold: "(\<And>x s. refines (f x s) (f' x s)) \<Longrightarrow> refines (try_fold f xs s) (try_fold f' xs s)"
  by (induction xs arbitrary: s) (auto intro!: refines_try_then)

lemma refines_apply_key:
  "(\<And>v. refines (g v) (g' v)) \<Longrightarrow> refines (apply_key cd s g key v p) (apply_key cd s g' key v p)"
  by (auto simp: apply_key_def Let_def intro!: refines_try_then split: key_role.splits)

lemma refines_from_mapping:
  "(\<And>v. refines (g v) (g' v)) \<Longrightarrow> refines (from_mapping cd s g m) (from_mapping cd s g' m)"
  by (auto simp: from_mapping_def intro!: refines_try_then refines_try_fold refines_apply_key
      split: yaml.splits)

lemma refines_group_children:
  assumes "\<And>m. refines (sub m) (sub' m)"
  shows "refines (group_children cd sub v) (group_children cd sub' v)"
proof -
  have one: "refines (group_one cd sub y) (group_one cd sub' y)" for y
    using assms by (auto simp: group_one_def intro!: refines_try_then split: yaml.splits)
  show ?thesis
    by (auto simp: group_children_def intro!: refines_try_then refines_try_map one split: yaml.splits)
qed

lemma from_yaml_fuel_mono: "refines (from_yaml_fuel cd s n m) (from_yaml_fuel cd s (n + k) m)"
proof (induction n arbitrary: m k)
  case 0
  then show ?case by (simp add: refines_def)
next
  case (Suc n)
  then show ?case by (auto intro!: refines_from_mapping refines_group_children)
qed


text \<open>
  The mappings a group value holds or embeds as text, and with them the subfilters one
  step below a mapping.
\<close>

definition value_mappings :: "codecs \<Rightarrow> yaml \<Rightarrow> (yaml \<times> yaml) list list" where
  "value_mappings cd v =
     List.map_filter (\<lambda>e. case (case e of YString t \<Rightarrow> parse_yaml cd t | _ \<Rightarrow> Ok e) of
         Inr (YMapping m) \<Rightarrow> Some m | _ \<Rightarrow> None)
       (case v of YSequence ys \<Rightarrow> ys | _ \<Rightarrow> [v])"

definition subfilters :: "codecs \<Rightarrow> (yaml \<times> yaml) list \<Rightarrow> (yaml \<times> yaml) list list" where
  "subfilters cd m = concat (map (\<lambda>(k, v). value_mappings cd v) m)"

lemma group_one_fuelled:
  assumes "\<And>m. (case (case e of YString t \<Rightarrow> parse_yaml cd t | _ \<Rightarrow> Ok e) of
      Inr (YMapping m) \<Rightarrow> Some m | _ \<Rightarrow> None) = Some m \<Longrightarrow> fuelled (sub m)"
  shows "fuelled (group_one cd sub e)"
  using assms unfolding group_one_def
  by (auto intro!: avoids_try_then split: yaml.splits)

lemma group_children_fuelled:
  assumes "\<And>m. m \<in> set (value_mappings cd v) \<Longrightarrow> fuelled (sub m)"
  shows "fuelled (group_children cd sub (WYaml v))"
proof -
  have one: "fuelled (group_one cd sub e)" if "e \<in> set (case v of YSequence ys \<Rightarrow> ys | _ \<Rightarrow> [v])" for e
    using assms that
    by (intro group_one_fuelled) (force simp: value_mappings_def List.map_filter_def image_iff)
  then show ?thesis
    unfolding group_children_def by (cases v) (auto intro!: avoids_try_then avoids_try_map)
qed

lemma apply_key_fuelled: "fuelled (groups v) \<Longrightarrow> fuelled (apply_key cd s groups key v p)"
  by (auto simp: apply_key_def Let_def apply_operation_def intro!: avoids_try_then split: key_role.splits)

lemma from_mapping_fuelled:
  assumes "\<And>k v. (k, v) \<in> set m \<Longrightarrow> fuelled (groups (WYaml v))"
  shows "fuelled (from_mapping cd s groups m)"
  unfolding from_mapping_def
  by (rule avoids_try_then, rule avoids_try_fold[where P = "\<lambda>_. True"])
    (auto split: yaml.splits intro!: apply_key_fuelled assms)

lemma from_yaml_fuelled_more: "fuelled (from_yaml_fuel cd s n m) \<Longrightarrow> n \<le> k \<Longrightarrow> fuelled (from_yaml_fuel cd s k m)"
  using from_yaml_fuel_mono[of cd s n m "k - n"] by (auto simp: refines_def avoids_def)

lemma from_yaml_terminates:
  assumes "wf {(m', m). m' \<in> set (subfilters cd m)}"
  shows "\<exists>n. fuelled (from_yaml_fuel cd s n m)"
  using assms
proof (induction m rule: wf_induct_rule)
  case (less m)
  then obtain n where n: "\<And>m'. m' \<in> set (subfilters cd m) \<Longrightarrow> fuelled (from_yaml_fuel cd s (n m') m')"
    by simp metis
  define N where "N = Max (insert 0 (n ` set (subfilters cd m)))"
  have "fuelled (from_yaml_fuel cd s N m')" if "m' \<in> set (subfilters cd m)" for m'
    using n[OF that] by (rule from_yaml_fuelled_more) (simp add: N_def that)
  then have "fuelled (from_yaml_fuel cd s (Suc N) m)"
    by (auto simp: subfilters_def intro!: from_mapping_fuelled group_children_fuelled)
  then show ?case by blast
qed


section \<open>Properties\<close>

text \<open>
  C3. Parsing a filter's wire pairs never panics, on any table, whatever the pairs hold and
  whatever the libraries answer: the one unreachable branch of the parser is unreachable.
\<close>

theorem filter_parse_never_panics:
  "filter_parse cd fuel (table_schema t) pairs \<noteq> Err (Panicked e)"
  using filter_parse_no_panic[OF table_fields_distinct, of cd fuel t pairs] by (auto simp: avoids_def)

text \<open>
  C2. Every filter the parser accepts is well formed, at the root and in every nested
  group: equality and operation values are non-empty and of the type their field's family
  asks for, selectors and roots are valid, level, clock and subsample bounds are in range,
  a counted subsample has both ends of its time range, and every ordering is over a
  natively ordered field of the table.
\<close>

theorem filter_parse_well_formed:
  assumes "filter_parse cd fuel (table_schema t) pairs = Ok f"
  shows "fc_schema f = table_schema t \<and> node_ok (table_schema t) (fc_node f)
    \<and> terms_ok (table_schema t) (fc_order f)"
  by (rule filter_parse_node_ok[OF assms table_fields_distinct])

definition example_filter :: filter_core where
  "example_filter =
     \<lparr>fc_schema = table_schema (EntityTable Groups),
      fc_node = FilterNode (node_default\<lparr>no_equalities := [(''name'', TextsV [''a'', ''b''])]\<rparr>) [] [],
      fc_order = [], fc_limit = Some 5, fc_offset = None\<rparr>"

lemma groups_fields:
  "sch_fields (table_schema (EntityTable Groups)) =
     [\<lparr>ff_key = ''id'', ff_family = Uuid, ff_operations = [], ff_hidden = False\<rparr>,
      \<lparr>ff_key = ''name'', ff_family = Text, ff_operations =
         [\<lparr>op_key = ''name_contains'', op_kind = Contains, op_insensitive = False\<rparr>,
          \<lparr>op_key = ''name_prefix'', op_kind = Prefix, op_insensitive = False\<rparr>,
          \<lparr>op_key = ''name_suffix'', op_kind = Suffix, op_insensitive = False\<rparr>], ff_hidden = False\<rparr>]"
  "sch_delegated (table_schema (EntityTable Groups)) = []"
  "sch_computed (table_schema (EntityTable Groups)) = []"
  by (simp_all add: table_schema_def schema_defs List.map_filter_simps)

lemma example_filter_parses:
  "filter_parse reference_codecs 0 (table_schema (EntityTable Groups))
     [(''name'', ''a''), (''limit'', ''5''), (''name'', ''b'')] = Ok example_filter"
proof -
  have limit: "parse_uint 64 ''5'' = Some 5"
    by (simp add: parse_uint_def is_ascii_digit_def digit_value_def)
  have role: "resolve (table_schema (EntityTable Groups)) ''name''
      = Ok (EqualityR (sch_fields (table_schema (EntityTable Groups)) ! 1))"
    "resolve (table_schema (EntityTable Groups)) ''limit'' = Ok LimitR"
    by (simp_all add: resolve_def query_role_def groups_fields field_role_def family_native_def
        family_role_def)
  show ?thesis
    by (simp add: filter_parse_def apply_key_def refusing_def role groups_fields(1) apply_equality_def
        wire_scalars_def family_scalar_def push_equality_def equality_value_def parsing_default_def
        node_default_def apply_page_number_def wire_scalar_def limit set_once_def finish_def
        List.map_filter_simps core_of_def example_filter_def)
qed

theorem filter_parse_well_formed_witness:
  "filter_parse reference_codecs 0 (table_schema (EntityTable Groups))
     [(''name'', ''a''), (''limit'', ''5''), (''name'', ''b'')] = Ok example_filter
   \<and> node_ok (table_schema (EntityTable Groups)) (fc_node example_filter)"
  using example_filter_parses filter_parse_well_formed[OF example_filter_parses] by simp

text \<open>
  Query controls in subfilters follow the documented rules: an \<open>and\<close> group hoists its
  children's, the last ordering winning, the tightest limit and the deepest offset
  holding, while an accepted \<open>or\<close> group's children carry none; and the groups' conditions
  become the node's children in order.
\<close>

theorem finish_hoists:
  assumes "finish p = Ok f"
  shows "fi_node f = FilterNode (pa_own p) (map fi_node (pa_and p)) (map fi_node (pa_or p))
    \<and> fi_order f = winning_order (pa_order p # map fi_order (pa_and p))
    \<and> fi_limit f = tightest (pa_limit p # map fi_limit (pa_and p))
    \<and> fi_offset f = deepest (pa_offset p # map fi_offset (pa_and p))
    \<and> (\<forall>c \<in> set (pa_or p). fi_order c = [] \<and> fi_limit c = None \<and> fi_offset c = None)"
proof -
  have "fi_order c = [] \<and> fi_limit c = None \<and> fi_offset c = None" if "c \<in> set (pa_or p)" for c
    using finish_Ok(3)[OF assms that] by (auto simp: child_control_def split: if_splits)
  then show ?thesis using finish_Ok(1)[OF assms] by simp
qed

definition example_child :: "nat option \<Rightarrow> nat option \<Rightarrow> finished" where
  "example_child limit offset =
     \<lparr>fi_node = FilterNode node_default [] [], fi_order = [], fi_limit = limit, fi_offset = offset\<rparr>"

theorem finish_hoists_witness:
  "\<exists>f. finish (parsing_default\<lparr>pa_limit := Some 9,
       pa_and := [example_child (Some 4) (Some 1), example_child (Some 7) (Some 3)],
       pa_or := [example_child None None]\<rparr>) = Ok f
     \<and> fi_limit f = Some 4 \<and> fi_offset f = Some 3"
proof -
  let ?p = "parsing_default\<lparr>pa_limit := Some 9,
       pa_and := [example_child (Some 4) (Some 1), example_child (Some 7) (Some 3)],
       pa_or := [example_child None None]\<rparr>"
  obtain f where f: "finish ?p = Ok f"
    by (simp add: finish_def parsing_default_def node_default_def example_child_def child_control_def
        List.map_filter_simps)
  show ?thesis
    using f finish_hoists[OF f]
    by (simp add: parsing_default_def example_child_def tightest_def deepest_def List.map_filter_simps)
qed


lemma value_mappings_smaller:
  assumes "m' \<in> set (value_mappings reference_codecs v)"
  shows "size (YMapping m') \<le> size v"
proof -
  obtain e where e: "e \<in> set (case v of YSequence ys \<Rightarrow> ys | _ \<Rightarrow> [v])"
    and m': "(case (case e of YString t \<Rightarrow> parse_yaml reference_codecs t | _ \<Rightarrow> Ok e) of
         Inr (YMapping m) \<Rightarrow> Some m | _ \<Rightarrow> None) = Some m'"
    using assms by (auto simp: value_mappings_def List.map_filter_def)
  have "e = YMapping m'"
    using m' by (cases e) (auto simp: parse_yaml_def reference_codecs_def split: if_splits)
  then show ?thesis
    using e by (cases v) (auto dest: size_list_estimation'[where f = size, OF _ order_refl])
qed

lemma reference_subfilters_wf: "wf {(m', m). m' \<in> set (subfilters reference_codecs m)}"
proof (rule wf_subset[OF wf_measure])
  show "{(m', m). m' \<in> set (subfilters reference_codecs m)} \<subseteq> measure (\<lambda>m. size (YMapping m))"
  proof (clarsimp simp: subfilters_def)
    fix m' m :: "(yaml \<times> yaml) list" and k v
    assume kv: "(k, v) \<in> set m" and m': "m' \<in> set (value_mappings reference_codecs v)"
    have "size_prod size size (k, v) \<le> size_list (size_prod size size) m"
      using kv by (rule size_list_estimation') simp
    then have "size v < Suc (size_list (size_prod size size) m)" by simp
    then show "size_list (size_prod size size) m' < size_list (size_prod size size) m"
      using value_mappings_smaller[OF m'] by simp
  qed
qed


end
