(* ===== verification/Ordering.thy ===== *)
theory Ordering
  imports Prelude "HOL-Library.Multiset"
begin

text \<open>
  What a backend promises of \<open>ORDER BY\<close>, \<open>LIMIT\<close> and \<open>OFFSET\<close>, as an interface: rows
  compared by a total preorder, an ordered answer being any permutation that respects it.
  The client facts proved here, the merge of ordered branches above all, are what the
  branch expansion of \<open>filter.rs\<close> relies on; \<open>Statements\<close> interprets the interface on the
  row order that the compiled order terms denote.
\<close>

section \<open>Pages\<close>

definition page_rows :: "nat option \<Rightarrow> nat option \<Rightarrow> 'r list \<Rightarrow> 'r list" where
  "page_rows limit offset xs =
     (let ys = drop (case offset of None \<Rightarrow> 0 | Some k \<Rightarrow> k) xs
      in case limit of None \<Rightarrow> ys | Some k \<Rightarrow> take k ys)"

lemma page_rows_append:
  assumes "k + (case offset of None \<Rightarrow> 0 | Some k \<Rightarrow> k) \<le> length xs"
  shows "page_rows (Some k) offset (xs @ ys) = page_rows (Some k) offset xs"
  using assms by (auto simp: page_rows_def Let_def split: option.splits)

lemma length_page_rows_mset:
  "mset xs = mset ys \<Longrightarrow> length (page_rows limit offset xs) = length (page_rows limit offset ys)"
  by (auto simp: page_rows_def Let_def dest: mset_eq_length split: option.splits)

section \<open>Branches\<close>

text \<open>Rows split by a key that takes only the listed values, each once.\<close>

lemma mset_branches:
  assumes "distinct bs" and "\<And>x. x \<in> set xs \<Longrightarrow> P x \<Longrightarrow> k x \<in> set bs"
  shows "mset (concat (map (\<lambda>b. filter (\<lambda>x. P x \<and> k x = b) xs) bs)) = mset (filter P xs)"
proof -
  have "mset (concat (map (\<lambda>b. filter (\<lambda>x. P x \<and> k x = b) xs) bs)) = mset (filter (\<lambda>x. P x \<and> k x \<in> set bs) xs)"
    using assms(1)
  proof (induction bs)
    case (Cons b bs)
    have "mset (filter (\<lambda>x. P x \<and> k x \<in> set (b # bs)) xs)
        = mset (filter (\<lambda>x. P x \<and> k x = b) xs) + mset (filter (\<lambda>x. P x \<and> k x \<in> set bs) xs)"
      using Cons.prems by (induction xs) auto
    then show ?case using Cons by simp
  qed simp
  also have "filter (\<lambda>x. P x \<and> k x \<in> set bs) xs = filter P xs"
    using assms(2) by (intro filter_cong) auto
  finally show ?thesis .
qed

lemma list_all2_reordered:
  assumes "list_all2 (\<lambda>b out. \<exists>ys. R b ys \<and> mset out = mset ys) bs outs"
  shows "\<exists>yss. list_all2 R bs yss \<and> mset (concat outs) = mset (concat yss)"
  using assms
proof (induction rule: list_all2_induct)
  case Nil
  then show ?case by simp
next
  case (Cons b bs out outs)
  then obtain ys yss where "R b ys" "mset out = mset ys" "list_all2 R bs yss"
    "mset (concat outs) = mset (concat yss)" by blast
  then show ?case by (intro exI[of _ "ys # yss"]) simp
qed

section \<open>Ordered answers\<close>

locale row_preorder =
  fixes le :: "'r \<Rightarrow> 'r \<Rightarrow> bool"
  assumes le_total: "le a b \<or> le b a"
    and le_trans: "le a b \<Longrightarrow> le b c \<Longrightarrow> le a c"
begin

lemma insert_ordered:
  "sorted_wrt le xs \<Longrightarrow> \<exists>ys. mset ys = add_mset x (mset xs) \<and> sorted_wrt le ys"
proof (induction xs)
  case Nil
  then show ?case by (intro exI[of _ "[x]"]) simp
next
  case (Cons y xs)
  show ?case
  proof (cases "le x y")
    case True
    then have "sorted_wrt le (x # y # xs)" using Cons.prems le_trans by auto
    then show ?thesis by (intro exI[of _ "x # y # xs"]) (simp add: add_mset_commute)
  next
    case False
    then have "le y x" using le_total by blast
    obtain zs where zs: "mset zs = add_mset x (mset xs)" "sorted_wrt le zs"
      using Cons by auto
    then have "set zs = insert x (set xs)" by (metis set_mset_add_mset_insert set_mset_mset)
    then show ?thesis
      using zs Cons.prems \<open>le y x\<close> by (intro exI[of _ "y # zs"]) auto
  qed
qed

lemma ordered_exists: "\<exists>ys. mset ys = mset xs \<and> sorted_wrt le ys"
proof (induction xs)
  case (Cons x xs)
  then obtain ys where "mset ys = mset xs" "sorted_wrt le ys" by blast
  then show ?case using insert_ordered[of ys x] by simp
qed simp

text \<open>When enough rows lie below \<open>r\<close>, all the leading rows of an ordering do.\<close>

lemma leading_below:
  assumes S: "sorted_wrt le S" and n: "n \<le> length (filter (\<lambda>s. le s r) S)" and j: "j < n" "j < length S"
  shows "le (S ! j) r"
proof (rule ccontr)
  assume above: "\<not> le (S ! j) r"
  have "\<not> le s r" if s: "s \<in> set (drop j S)" for s
  proof -
    obtain k where k: "k < length S - j" "s = S ! (j + k)"
      using s j(2) by (auto simp: in_set_conv_nth)
    have "s = S ! j \<or> le (S ! j) s"
      using S j(2) k by (cases "k = 0") (auto simp: sorted_wrt_iff_nth_less)
    then show ?thesis using above le_trans by blast
  qed
  then have "filter (\<lambda>s. le s r) (drop j S) = []" by (simp add: filter_empty_conv)
  then have "filter (\<lambda>s. le s r) S = filter (\<lambda>s. le s r) (take j S)"
    using append_take_drop_id[of j S] filter_append[of "\<lambda>s. le s r" "take j S" "drop j S"] by simp
  then have "length (filter (\<lambda>s. le s r) S) \<le> j"
    using length_filter_le[of "\<lambda>s. le s r" "take j S"] by simp
  then show False using n j(1) by simp
qed

text \<open>
  The merge of branches: each branch offers its \<open>depth\<close> leading rows of an ordering of its
  own, and an ordering of what they offer starts like an ordering of everything.
\<close>

definition offers :: "nat \<Rightarrow> 'r list \<Rightarrow> 'r list \<Rightarrow> bool" where
  "offers depth branch ys \<longleftrightarrow>
     (\<exists>zs. mset zs = mset branch \<and> sorted_wrt le zs \<and> ys = take depth zs)"

lemma offers_rest:
  assumes "list_all2 (offers depth) branches offered"
  shows "\<exists>rest. mset (concat branches) = mset (concat offered) + mset rest
    \<and> (\<forall>r \<in> set rest. depth \<le> length (filter (\<lambda>s. le s r) (concat offered)))"
  using assms
proof (induction rule: list_all2_induct)
  case Nil
  then show ?case by simp
next
  case (Cons branch branches ys offered)
  obtain rest where rest: "mset (concat branches) = mset (concat offered) + mset rest"
    "\<forall>r \<in> set rest. depth \<le> length (filter (\<lambda>s. le s r) (concat offered))"
    using Cons.IH by blast
  obtain zs where zs: "mset zs = mset branch" "sorted_wrt le zs" "ys = take depth zs"
    using Cons.hyps(1) by (auto simp: offers_def)
  have below: "filter (\<lambda>s. le s r) ys = ys" "length ys = depth" if "r \<in> set (drop depth zs)" for r
  proof -
    have "sorted_wrt le (take depth zs @ drop depth zs)" using zs(2) by simp
    then have "\<forall>s \<in> set ys. le s r" using that zs(3) by (auto simp only: sorted_wrt_append)
    then show "filter (\<lambda>s. le s r) ys = ys" by (simp add: filter_id_conv)
    have "drop depth zs \<noteq> []" using that by auto
    then show "length ys = depth" using zs(3) by simp
  qed
  have "mset (concat (branch # branches)) = mset (concat (ys # offered)) + mset (drop depth zs @ rest)"
    using rest(1) zs(1,3) append_take_drop_id[of depth zs] mset_append[of "take depth zs" "drop depth zs"]
    by (simp add: ac_simps)
  moreover have "\<forall>r \<in> set (drop depth zs @ rest).
      depth \<le> length (filter (\<lambda>s. le s r) (concat (ys # offered)))"
    using rest(2) below by (auto intro: trans_le_add2)
  ultimately show ?case by blast
qed

lemma merged_ordering:
  assumes branches: "list_all2 (offers depth) branches offered"
    and S: "mset S = mset (concat offered)" "sorted_wrt le S"
  shows "\<exists>T. mset T = mset (concat branches) \<and> sorted_wrt le T
    \<and> take depth T = take depth S \<and> (length S < depth \<longrightarrow> T = S)"
proof -
  obtain rest where rest: "mset (concat branches) = mset (concat offered) + mset rest"
    "\<forall>r \<in> set rest. depth \<le> length (filter (\<lambda>s. le s r) (concat offered))"
    using offers_rest[OF branches] by blast
  have count: "length (filter P (concat offered)) = length (filter P S)" for P
    using S(1) by (metis mset_filter mset_eq_length)
  obtain U where U: "mset U = mset (drop depth S @ rest)" "sorted_wrt le U"
    using ordered_exists by blast
  have short: "rest = []" if "length S < depth"
  proof (rule ccontr)
    assume "rest \<noteq> []"
    then obtain r where "r \<in> set rest" by (cases rest) auto
    then have "depth \<le> length (filter (\<lambda>s. le s r) S)" using rest(2) count by auto
    then show False using that length_filter_le[of "\<lambda>s. le s r" S] by linarith
  qed
  have "le s u" if s: "s \<in> set (take depth S)" and u: "u \<in> set U" for s u
  proof -
    have "u \<in> set (drop depth S) \<or> u \<in> set rest" using u U(1) by (metis Un_iff mset_eq_setD set_append)
    then show ?thesis
    proof
      assume "u \<in> set (drop depth S)"
      moreover have "sorted_wrt le (take depth S @ drop depth S)" using S(2) by simp
      ultimately show ?thesis using s by (auto simp only: sorted_wrt_append)
    next
      assume "u \<in> set rest"
      then have enough: "depth \<le> length (filter (\<lambda>s. le s u) S)" using rest(2) count by auto
      obtain j where "j < depth" "j < length S" "s = S ! j"
        using s by (auto simp: in_set_conv_nth)
      then show ?thesis using leading_below[OF S(2) enough] by simp
    qed
  qed
  then have "sorted_wrt le (take depth S @ U)"
    using S(2) U(2) by (auto simp: sorted_wrt_append sorted_wrt_take)
  moreover have "mset (take depth S @ U) = mset (concat branches)"
    using U(1) rest(1) S(1) append_take_drop_id[of depth S] mset_append[of "take depth S" "drop depth S"]
    by simp
  moreover have "take depth (take depth S @ U) = take depth S"
    using short U(1) by (cases "length S < depth") auto
  moreover have "take depth S @ U = S" if "length S < depth"
    using short[OF that] U(1) that by simp
  ultimately show ?thesis by blast
qed

text \<open>A page no deeper than the branches is a page of everything.\<close>

lemma merged_page:
  assumes branches: "list_all2 (offers depth) branches offered"
    and S: "mset S = mset (concat offered)" "sorted_wrt le S"
    and deep: "k + (case offset of None \<Rightarrow> 0 | Some j \<Rightarrow> j) \<le> depth \<or> length (concat branches) < depth"
  shows "\<exists>T. mset T = mset (concat branches) \<and> sorted_wrt le T
    \<and> page_rows (Some k) offset T = page_rows (Some k) offset S"
proof -
  obtain T where T: "mset T = mset (concat branches)" "sorted_wrt le T"
    "take depth T = take depth S" "length S < depth \<longrightarrow> T = S"
    using merged_ordering[OF branches S] by blast
  show ?thesis
  proof (cases "length S < depth")
    case False
    have "length (concat offered) \<le> length (concat branches)"
      using offers_rest[OF branches] by (metis le_add1 mset_append mset_eq_length length_append)
    then have "k + (case offset of None \<Rightarrow> 0 | Some j \<Rightarrow> j) \<le> depth"
      using deep False mset_eq_length[OF S(1)] by auto
    moreover have len: "length (take depth S) = depth" "length (take depth T) = depth"
      using False T(3) by simp_all
    ultimately have "page_rows (Some k) offset (take depth T @ drop depth T)
        = page_rows (Some k) offset (take depth S @ drop depth S)"
      using T(3) by (simp only: page_rows_append)
    then have "page_rows (Some k) offset T = page_rows (Some k) offset S"
      by (simp only: append_take_drop_id)
    then show ?thesis using T(1,2) by blast
  qed (use T in auto)
qed

end

end
