(* ===== verification/Statements.thy ===== *)
theory Statements
  imports Filter_Compile Filter_Wf Ordering
begin

text \<open>
  The statements \<open>FilterCore\<close> builds (\<open>filter.rs\<close>): the listing, its expansion over
  branches, the count, the existence check, and the paged delete and update. A statement
  is a term of an abstract syntax for the \<open>sea_query\<close> calls the source makes, and what a
  backend may answer is a relation, because \<open>ORDER BY\<close> leaves the order of equal rows open.
\<close>

section \<open>Statements\<close>

text \<open>One \<open>ORDER BY\<close> term: the column, whether it collates by code point, the direction.\<close>

datatype sql_order = OrderBy str bool bool

datatype projection = AllColumns | KeyColumns "str list"

datatype select =
    Select projection select_from "sql_cond list" "sql_order list" "nat option" "nat option"
and select_from = FromTable str | FromSelect select | FromUnionAll "select list"

datatype count_query = CountTable str "sql_cond list" | CountRows select

datatype exists_query = ExistsRows select

text \<open>What a write applies to: the rows meeting conditions, or those whose key a page names.\<close>

datatype narrowing = ByConditions "sql_cond list" | ByKeys "str list" select

datatype delete_query = DeleteFrom str narrowing

datatype update_query = Update str "(str \<times> sql_value option) list" narrowing

section \<open>Building them\<close>

definition order_terms :: "filter_core \<Rightarrow> order_term list" where
  "order_terms f = (if fc_order f \<noteq> [] then fc_order f else default_order_terms (fc_schema f))"

fun text_family :: "field_family \<Rightarrow> bool" where
  "text_family Address = True"
| "text_family PlainAddress = True"
| "text_family Text = True"
| "text_family (Values _) = True"
| "text_family Level = True"
| "text_family _ = False"

definition order_by :: "sql_dialect \<Rightarrow> order_term \<Rightarrow> sql_order" where
  "order_by D term =
     OrderBy (ff_key (ot_field term)) (D = Postgres \<and> text_family (ff_family (ot_field term))) (ot_ascending term)"

abbreviation orders :: "sql_dialect \<Rightarrow> filter_core \<Rightarrow> sql_order list" where
  "orders D f \<equiv> map (order_by D) (order_terms f)"

definition page_limit :: "filter_core \<Rightarrow> sql_dialect \<Rightarrow> nat option" where
  "page_limit f D =
     (case fc_limit f of
        Some l \<Rightarrow> Some l
      | None \<Rightarrow> if fc_offset f \<noteq> None \<and> D = SqliteText then Some (2 ^ 63 - 1) else None)"

definition conditions_of :: "codecs \<Rightarrow> filter_core \<Rightarrow> sql_dialect \<Rightarrow> int \<Rightarrow> (panic, sql_cond list) result" where
  "conditions_of cd f D now = combined_conditions cd (fc_schema f) D (resolve_now now) True (fc_node f)"

definition statement :: "codecs \<Rightarrow> filter_core \<Rightarrow> sql_dialect \<Rightarrow> int \<Rightarrow> (panic, select) result" where
  "statement cd f D now = try_then (conditions_of cd f D now) (\<lambda>cs.
     Ok (Select AllColumns (FromTable (sch_name (fc_schema f))) cs (orders D f) (page_limit f D) (fc_offset f)))"

definition expansion_scope :: "filter_core \<Rightarrow> (panic, sel_scope option) result" where
  "expansion_scope f =
     (if fc_limit f = None \<or> or_children (fc_node f) \<noteq> [] then Ok None
      else (case no_address (node_own (fc_node f)) of
          None \<Rightarrow> Ok None
        | Some S \<Rightarrow> try_then (selector_scope S (no_root (node_own (fc_node f)))) (\<lambda>sc.
            Ok (if sc_prefixes sc \<noteq> [] \<or> sc_unbounded sc then Some sc else None))))"

definition address_key :: "schema \<Rightarrow> str" where
  "address_key s =
     (case find (\<lambda>f. ff_family f = Address) (sch_fields s) of Some f \<Rightarrow> ff_key f | None \<Rightarrow> ''address'')"

text \<open>How many rows a branch offers: \<open>u64::saturating_add\<close> of the limit and the offset.\<close>

definition branch_depth :: "filter_core \<Rightarrow> nat" where
  "branch_depth f =
     min ((case fc_limit f of None \<Rightarrow> 0 | Some l \<Rightarrow> l) + (case fc_offset f of None \<Rightarrow> 0 | Some k \<Rightarrow> k)) (2 ^ 64 - 1)"

definition admitted_branches :: "filter_core \<Rightarrow> str list \<Rightarrow> (panic, str list) result" where
  "admitted_branches f branches = try_concat (map (\<lambda>b.
     case no_address (node_own (fc_node f)) of
       None \<Rightarrow> Ok []
     | Some S \<Rightarrow> try_then (selector_matches S b (no_root (node_own (fc_node f)))) (\<lambda>held.
         Ok (if held then [b] else []))) branches)"

definition branch_seek :: "filter_core \<Rightarrow> sql_dialect \<Rightarrow> sql_cond list \<Rightarrow> str \<Rightarrow> select" where
  "branch_seek f D cs b =
     Select AllColumns (FromSelect
       (Select AllColumns (FromTable (sch_name (fc_schema f)))
          (cs @ [EqC (Col (address_key (fc_schema f))) (Val (TextV b))])
          (orders D f) (Some (branch_depth f)) None)) [] [] None None"

definition statement_over ::
  "codecs \<Rightarrow> filter_core \<Rightarrow> str list \<Rightarrow> sql_dialect \<Rightarrow> int \<Rightarrow> (panic, select) result" where
  "statement_over cd f branches D now =
     try_then (admitted_branches f branches) (\<lambda>admitted.
       if admitted = [] then statement cd f D (resolve_now now)
       else try_then (combined_conditions cd (fc_schema f) D (resolve_now now) False (fc_node f)) (\<lambda>cs.
         Ok (Select AllColumns (FromUnionAll (map (branch_seek f D cs) admitted)) []
               (orders D f) (page_limit f D) (fc_offset f))))"

definition keys_page :: "filter_core \<Rightarrow> sql_dialect \<Rightarrow> sql_cond list \<Rightarrow> select" where
  "keys_page f D cs =
     Select (KeyColumns (sch_key (fc_schema f))) (FromTable (sch_name (fc_schema f))) cs (orders D f)
       (page_limit f D) (fc_offset f)"

definition count_statement :: "codecs \<Rightarrow> filter_core \<Rightarrow> sql_dialect \<Rightarrow> int \<Rightarrow> (panic, count_query) result" where
  "count_statement cd f D now = try_then (conditions_of cd f D now) (\<lambda>cs.
     Ok (if fc_limit f = None \<and> fc_offset f = None then CountTable (sch_name (fc_schema f)) cs
         else CountRows (keys_page f D cs)))"

definition exists_statement :: "codecs \<Rightarrow> filter_core \<Rightarrow> sql_dialect \<Rightarrow> int \<Rightarrow> (panic, exists_query) result" where
  "exists_statement cd f D now = try_then (conditions_of cd f D now) (\<lambda>cs.
     Ok (ExistsRows (Select AllColumns (FromTable (sch_name (fc_schema f))) cs [] (page_limit f D) (fc_offset f))))"

definition paged_keys :: "codecs \<Rightarrow> filter_core \<Rightarrow> sql_dialect \<Rightarrow> int \<Rightarrow> (panic, select option) result" where
  "paged_keys cd f D now =
     (if fc_limit f = None \<and> fc_offset f = None then Ok None
      else try_then (conditions_of cd f D now) (\<lambda>cs. Ok (Some (keys_page f D cs))))"

definition write_narrowing :: "codecs \<Rightarrow> filter_core \<Rightarrow> sql_dialect \<Rightarrow> int \<Rightarrow> (panic, narrowing) result" where
  "write_narrowing cd f D now = try_then (paged_keys cd f D now) (\<lambda>keys.
     case keys of
       Some q \<Rightarrow> Ok (ByKeys (sch_key (fc_schema f)) q)
     | None \<Rightarrow> try_then (conditions_of cd f D now) (\<lambda>cs. Ok (ByConditions cs)))"

definition delete_statement :: "codecs \<Rightarrow> filter_core \<Rightarrow> sql_dialect \<Rightarrow> int \<Rightarrow> (panic, delete_query) result" where
  "delete_statement cd f D now = try_then (write_narrowing cd f D now) (\<lambda>w.
     Ok (DeleteFrom (sch_name (fc_schema f)) w))"

definition update_statement ::
  "codecs \<Rightarrow> filter_core \<Rightarrow> (str \<times> sql_value option) list \<Rightarrow> sql_dialect \<Rightarrow> int \<Rightarrow> (panic, update_query) result" where
  "update_statement cd f set_clauses D now = try_then (write_narrowing cd f D now) (\<lambda>w.
     Ok (Update (sch_name (fc_schema f)) set_clauses w))"

section \<open>What a backend may answer\<close>

text \<open>
  The order of cells. Values of one column have one type; across types the SQLite storage
  classes decide, which a column of one type never shows. A null sorts below every value
  on SQLite and above every value on PostgreSQL.
\<close>

fun value_rank :: "sql_value \<Rightarrow> nat" where
  "value_rank (BoolV _) = 0"
| "value_rank (IntV _) = 1"
| "value_rank (StampV _) = 2"
| "value_rank (UuidV _) = 3"
| "value_rank (TextV _) = 4"
| "value_rank (JsonV _) = 5"
| "value_rank (BytesV _) = 6"

definition value_le :: "sql_value \<Rightarrow> sql_value \<Rightarrow> bool" where
  "value_le a b \<longleftrightarrow> value_rank a < value_rank b \<or> value_rank a = value_rank b \<and> \<not> sql_less b a"

fun cell_le :: "sql_dialect \<Rightarrow> sql_value option \<Rightarrow> sql_value option \<Rightarrow> bool" where
  "cell_le D None None = True"
| "cell_le D None (Some _) = (D = SqliteText)"
| "cell_le D (Some _) None = (D = Postgres)"
| "cell_le D (Some a) (Some b) = value_le a b"

fun row_le :: "sql_dialect \<Rightarrow> sql_order list \<Rightarrow> row \<Rightarrow> row \<Rightarrow> bool" where
  "row_le D [] r s = True"
| "row_le D (OrderBy c _ ascending # terms) r s =
     (let (a, b) = (if ascending then (r c, s c) else (s c, r c))
      in if cell_le D a b \<and> cell_le D b a then row_le D terms r s else cell_le D a b)"

fun project_row :: "projection \<Rightarrow> row \<Rightarrow> row" where
  "project_row AllColumns r = r"
| "project_row (KeyColumns ks) r = (\<lambda>c. if c \<in> set ks then r c else None)"

inductive select_answer and from_answer
  for E :: sql_engine and D :: sql_dialect and rows :: "row list"
where
  answer_select:
    "from_answer E D rows src base \<Longrightarrow> mset zs = mset (filter (where_holds E rows cs) base)
     \<Longrightarrow> sorted_wrt (row_le D os) zs
     \<Longrightarrow> select_answer E D rows (Select p src cs os limit offset)
           (map (project_row p) (page_rows limit offset zs))"
| answer_table: "from_answer E D rows (FromTable t) rows"
| answer_sub: "select_answer E D rows q out \<Longrightarrow> from_answer E D rows (FromSelect q) out"
| answer_union:
    "list_all2 (select_answer E D rows) qs outs \<Longrightarrow> from_answer E D rows (FromUnionAll qs) (concat outs)"

inductive_cases select_answerE: "select_answer E D rows (Select p src cs os limit offset) out"
inductive_cases from_tableE: "from_answer E D rows (FromTable t) base"
inductive_cases from_selectE: "from_answer E D rows (FromSelect q) base"
inductive_cases from_unionE: "from_answer E D rows (FromUnionAll qs) base"

inductive_simps from_table_simp [simp]: "from_answer E D rows (FromTable t) base"
inductive_simps from_select_simp [simp]: "from_answer E D rows (FromSelect q) base"
inductive_simps from_union_simp [simp]: "from_answer E D rows (FromUnionAll qs) base"

fun count_answer :: "sql_engine \<Rightarrow> sql_dialect \<Rightarrow> row list \<Rightarrow> count_query \<Rightarrow> nat \<Rightarrow> bool" where
  "count_answer E D rows (CountTable t cs) n \<longleftrightarrow> n = length (filter (where_holds E rows cs) rows)"
| "count_answer E D rows (CountRows q) n \<longleftrightarrow> (\<exists>out. select_answer E D rows q out \<and> n = length out)"

fun exists_answer :: "sql_engine \<Rightarrow> sql_dialect \<Rightarrow> row list \<Rightarrow> exists_query \<Rightarrow> bool \<Rightarrow> bool" where
  "exists_answer E D rows (ExistsRows q) b \<longleftrightarrow> (\<exists>out. select_answer E D rows q out \<and> b = (out \<noteq> []))"

text \<open>
  The rows a write touches. A key comparison with a null is never true, so only rows whose
  key is complete are named by a page.
\<close>

definition key_of :: "str list \<Rightarrow> row \<Rightarrow> sql_value option list" where
  "key_of ks r = map r ks"

fun narrows :: "sql_engine \<Rightarrow> sql_dialect \<Rightarrow> row list \<Rightarrow> narrowing \<Rightarrow> (row \<Rightarrow> bool) \<Rightarrow> bool" where
  "narrows E D rows (ByConditions cs) P \<longleftrightarrow> P = where_holds E rows cs"
| "narrows E D rows (ByKeys ks q) P \<longleftrightarrow>
     (\<exists>out. select_answer E D rows q out
        \<and> P = (\<lambda>r. None \<notin> set (key_of ks r) \<and> key_of ks r \<in> key_of ks ` set out))"

definition delete_effect :: "sql_engine \<Rightarrow> sql_dialect \<Rightarrow> row list \<Rightarrow> delete_query \<Rightarrow> row list \<Rightarrow> row list \<Rightarrow> bool" where
  "delete_effect E D rows q kept deleted \<longleftrightarrow>
     (case q of DeleteFrom t w \<Rightarrow> \<exists>P. narrows E D rows w P
        \<and> kept = filter (\<lambda>r. \<not> P r) rows \<and> deleted = filter P rows)"

definition assign :: "(str \<times> sql_value option) list \<Rightarrow> row \<Rightarrow> row" where
  "assign sets r = foldl (\<lambda>r (c, v). r(c := v)) r sets"

definition update_effect :: "sql_engine \<Rightarrow> sql_dialect \<Rightarrow> row list \<Rightarrow> update_query \<Rightarrow> row list \<Rightarrow> bool" where
  "update_effect E D rows q rows' \<longleftrightarrow>
     (case q of Update t sets w \<Rightarrow> \<exists>P. narrows E D rows w P
        \<and> rows' = map (\<lambda>r. if P r then assign sets r else r) rows)"

section \<open>The row order is a total preorder\<close>

lemma sql_less_same_rank:
  assumes "value_rank a = value_rank b"
  shows "\<not> (sql_less a b \<and> sql_less b a)"
  using assms by (cases a; cases b) auto

lemma value_le_total: "value_le a b \<or> value_le b a"
  using sql_less_same_rank[of a b] by (auto simp: value_le_def)

lemma value_le_trans: "value_le a b \<Longrightarrow> value_le b c \<Longrightarrow> value_le a c"
  by (cases a; cases b; cases c) (auto simp: value_le_def)

lemma cell_le_total: "cell_le D a b \<or> cell_le D b a"
  by (cases D; cases a; cases b) (auto simp: value_le_total)

lemma cell_le_trans: "cell_le D a b \<Longrightarrow> cell_le D b c \<Longrightarrow> cell_le D a c"
  by (cases D; cases a; cases b; cases c) (auto intro: value_le_trans)

lemma row_le_total: "row_le D os r s \<or> row_le D os s r"
proof (induction os)
  case (Cons o' os)
  obtain c k asc where "o' = OrderBy c k asc" by (cases o')
  then show ?case using Cons cell_le_total[of D "r c" "s c"] by (auto split: if_splits)
qed simp

lemma row_le_Cons:
  "row_le D (OrderBy c k asc # os) r s \<longleftrightarrow>
     (if asc then cell_le D (r c) (s c) else cell_le D (s c) (r c))
     \<and> ((if asc then cell_le D (s c) (r c) else cell_le D (r c) (s c)) \<longrightarrow> row_le D os r s)"
  by auto

lemma row_le_trans: "row_le D os r s \<Longrightarrow> row_le D os s u \<Longrightarrow> row_le D os r u"
proof (induction os)
  case (Cons o' os)
  obtain c k asc where o': "o' = OrderBy c k asc" by (cases o')
  show ?case
  proof (cases asc)
    case True
    then have "cell_le D (r c) (s c)" "cell_le D (s c) (u c)"
      "cell_le D (s c) (r c) \<longrightarrow> row_le D os r s" "cell_le D (u c) (s c) \<longrightarrow> row_le D os s u"
      using Cons.prems unfolding o' row_le_Cons by simp_all
    then show ?thesis
      using Cons.IH True cell_le_trans unfolding o' row_le_Cons by (meson)
  next
    case False
    then have "cell_le D (s c) (r c)" "cell_le D (u c) (s c)"
      "cell_le D (r c) (s c) \<longrightarrow> row_le D os r s" "cell_le D (s c) (u c) \<longrightarrow> row_le D os s u"
      using Cons.prems unfolding o' row_le_Cons by simp_all
    then show ?thesis
      using Cons.IH False cell_le_trans unfolding o' row_le_Cons by (meson)
  qed
qed simp

interpretation rows_by: row_preorder "row_le D os"
  for D :: sql_dialect and os :: "sql_order list"
  by unfold_locales (rule row_le_total, rule row_le_trans)

section \<open>Dropping the selector's own condition\<close>

lemma where_holds_concat: "where_holds E rows (concat css) r \<longleftrightarrow> (\<forall>cs \<in> set css. where_holds E rows cs r)"
  by (induction css) (auto simp: where_holds_append)

lemma try_concat_Ok:
  "try_concat rs = Inr cs \<longleftrightarrow> (\<exists>css. rs = map Inr css \<and> cs = concat css)"
proof -
  have "list_all2 (\<lambda>x y. x = Inr y) rs css \<longleftrightarrow> rs = map Inr css" for css :: "'b list list"
    by (induction rs arbitrary: css) (auto simp: list_all2_Cons1 Cons_eq_map_conv)
  then show ?thesis by (auto simp: try_concat_def try_then_Inr_iff try_map_Inr)
qed

text \<open>The selector's condition at one field, when the field is the address.\<close>

definition selector_holds ::
  "sql_engine \<Rightarrow> sql_dialect \<Rightarrow> row list \<Rightarrow> node_own \<Rightarrow> filter_field \<Rightarrow> row \<Rightarrow> bool" where
  "selector_holds E D rows n f r \<longleftrightarrow>
     (\<forall>S. ff_family f = Address \<longrightarrow> no_address n = Some S \<longrightarrow>
        (\<exists>c. selector_condition S (ff_key f) (no_root n) D = Ok c \<and> eval_cond E rows r c = Some True))"

lemma field_conditions_drop:
  assumes "field_conditions cd D n now True f = Ok cs"
  shows "\<exists>ds. field_conditions cd D n now False f = Ok ds
    \<and> (\<forall>r. where_holds E rows cs r \<longleftrightarrow> where_holds E rows ds r \<and> selector_holds E D rows n f r)"
proof -
  let ?sel = "\<lambda>a. (if a \<and> ff_family f = Address
         then (case no_address n of None \<Rightarrow> Ok []
               | Some S \<Rightarrow> try_then (selector_condition S (ff_key f) (no_root n) D) (\<lambda>c. Ok [c]))
         else Ok []) :: (panic, sql_cond list) result"
  obtain vs os ss fs where parts: "Ok (map (values_condition cd D f) (option_list (values_of n f))) = (Ok vs :: (panic, sql_cond list) result)"
    "operation_conditions D n f = Ok os" "?sel True = Ok ss"
    "(case ff_family f of
           Timestamp \<Rightarrow>
             try_concat [window_conditions cd D n (ff_key f) now,
               subsample_conditions cd D n (ff_key f) now, Ok (clock_conditions n (ff_key f))]
         | Level \<Rightarrow> level_conditions n (ff_key f)
         | _ \<Rightarrow> Ok []) = Ok fs" and cs: "cs = vs @ os @ ss @ fs"
    using assms unfolding field_conditions_def by (auto simp: try_concat_Ok Cons_eq_map_conv)
  have "field_conditions cd D n now False f = Ok (vs @ os @ fs)"
    unfolding field_conditions_def using parts by (simp add: try_concat_def)
  moreover have "where_holds E rows ss r \<longleftrightarrow> selector_holds E D rows n f r" for r
    using parts(3) by (auto simp: selector_holds_def try_then_Inr_iff split: if_splits option.splits)
  ultimately show ?thesis by (auto simp: cs where_holds_append)
qed

lemma fields_conditions_drop:
  assumes "list_all2 (\<lambda>f cs. field_conditions cd D n now True f = Ok cs) fs css"
  shows "\<exists>dss. list_all2 (\<lambda>f ds. field_conditions cd D n now False f = Ok ds) fs dss
    \<and> (\<forall>r. where_holds E rows (concat css) r \<longleftrightarrow>
          where_holds E rows (concat dss) r \<and> (\<forall>f \<in> set fs. selector_holds E D rows n f r))"
  using assms
proof (induction rule: list_all2_induct)
  case Nil
  then show ?case by (auto simp: where_holds_def)
next
  case (Cons f fs cs css)
  obtain ds where "field_conditions cd D n now False f = Ok ds"
    "\<forall>r. where_holds E rows cs r \<longleftrightarrow> where_holds E rows ds r \<and> selector_holds E D rows n f r"
    using field_conditions_drop[OF Cons.hyps(1)] by blast
  moreover obtain dss where "list_all2 (\<lambda>f ds. field_conditions cd D n now False f = Ok ds) fs dss"
    "\<forall>r. where_holds E rows (concat css) r \<longleftrightarrow>
          where_holds E rows (concat dss) r \<and> (\<forall>f \<in> set fs. selector_holds E D rows n f r)"
    using Cons.IH by blast
  ultimately show ?case
    by (intro exI[of _ "ds # dss"]) (auto simp: where_holds_append)
qed

lemma conditions_drop:
  assumes "conditions_with_address cd s D now True n = Ok cs"
  shows "\<exists>ds. conditions_with_address cd s D now False n = Ok ds
    \<and> (\<forall>r. where_holds E rows cs r \<longleftrightarrow>
          where_holds E rows ds r \<and> (\<forall>f \<in> set (sch_fields s). selector_holds E D rows n f r))"
proof -
  let ?imp = "if no_impossible n then [BoolC False] else []"
  obtain css where css: "map (field_conditions cd D n now True) (sch_fields s) = map Inr css"
    and cs: "cs = ?imp @ computed_conditions n D @ concat css"
    using assms unfolding conditions_with_address_def by (auto simp: try_concat_Ok Cons_eq_map_conv)
  have "list_all2 (\<lambda>f cs. field_conditions cd D n now True f = Ok cs) (sch_fields s) css"
    using css by (auto simp: list_all2_conv_all_nth list_eq_iff_nth_eq)
  then obtain dss where dss: "list_all2 (\<lambda>f ds. field_conditions cd D n now False f = Ok ds) (sch_fields s) dss"
    "\<forall>r. where_holds E rows (concat css) r \<longleftrightarrow>
          where_holds E rows (concat dss) r \<and> (\<forall>f \<in> set (sch_fields s). selector_holds E D rows n f r)"
    using fields_conditions_drop by blast
  have "map (field_conditions cd D n now False) (sch_fields s) = map Inr dss"
    using dss(1) by (auto simp: list_all2_conv_all_nth list_eq_iff_nth_eq)
  then have "conditions_with_address cd s D now False n = Ok (?imp @ computed_conditions n D @ concat dss)"
    unfolding conditions_with_address_def try_concat_Ok
    by (intro exI[of _ "[?imp, computed_conditions n D] @ dss"]) simp
  then show ?thesis using dss(2) by (auto simp: cs where_holds_append)
qed

lemma combined_drop:
  assumes "combined_conditions cd s D now True (FilterNode n ands []) = Ok cs"
  shows "\<exists>ds. combined_conditions cd s D now False (FilterNode n ands []) = Ok ds
    \<and> (\<forall>r. where_holds E rows cs r \<longleftrightarrow>
          where_holds E rows ds r \<and> (\<forall>f \<in> set (sch_fields s). selector_holds E D rows n f r))"
proof -
  obtain own more where own: "conditions_with_address cd s D now True n = Ok own"
    and more: "try_map (combined_conditions cd s D now True) ands = Ok more" and cs: "cs = own @ concat more"
    using assms by (auto simp: try_then_Inr_iff)
  obtain ds where "conditions_with_address cd s D now False n = Ok ds"
    "\<forall>r. where_holds E rows own r \<longleftrightarrow>
          where_holds E rows ds r \<and> (\<forall>f \<in> set (sch_fields s). selector_holds E D rows n f r)"
    using conditions_drop[OF own] by blast
  then show ?thesis using more by (auto simp: cs where_holds_append)
qed

section \<open>The expansion refines the listing\<close>

lemma resolve_now_idem [simp]: "resolve_now (resolve_now now) = resolve_now now"
proof -
  have "(now - now mod 1000) mod 1000 = 0" by (simp add: minus_mod_eq_mult_div)
  then show ?thesis by (simp add: resolve_now_def)
qed

lemma filter_no_conditions [simp]: "filter (where_holds E rows []) xs = xs"
  by (simp add: filter_id_conv)

lemma map_project_all [simp]: "map (project_row AllColumns) xs = xs"
  by (simp add: map_idI)

lemma select_answer_iff:
  "select_answer E D rows (Select AllColumns src cs os limit offset) out \<longleftrightarrow>
     (\<exists>base zs. from_answer E D rows src base \<and> mset zs = mset (filter (where_holds E rows cs) base)
        \<and> sorted_wrt (row_le D os) zs \<and> out = page_rows limit offset zs)"
proof
  assume "select_answer E D rows (Select AllColumns src cs os limit offset) out"
  then show "\<exists>base zs. from_answer E D rows src base \<and> mset zs = mset (filter (where_holds E rows cs) base)
        \<and> sorted_wrt (row_le D os) zs \<and> out = page_rows limit offset zs"
    by (rule select_answerE) (auto simp: map_project_all)
next
  assume "\<exists>base zs. from_answer E D rows src base \<and> mset zs = mset (filter (where_holds E rows cs) base)
        \<and> sorted_wrt (row_le D os) zs \<and> out = page_rows limit offset zs"
  then obtain base zs where "from_answer E D rows src base"
    "mset zs = mset (filter (where_holds E rows cs) base)" "sorted_wrt (row_le D os) zs"
    "out = page_rows limit offset zs" by blast
  then show "select_answer E D rows (Select AllColumns src cs os limit offset) out"
    using answer_select[of E D rows src base zs cs os AllColumns limit offset] by simp
qed

lemma select_answered:
  "\<exists>out. select_answer E D rows q out"
  "\<exists>base. from_answer E D rows src base"
proof (induction q and src)
  case (Select p src cs os limit offset)
  then obtain base where base: "from_answer E D rows src base" by blast
  obtain zs where zs: "mset zs = mset (filter (where_holds E rows cs) base)" "sorted_wrt (row_le D os) zs"
    using rows_by.ordered_exists by blast
  show ?case using answer_select[OF base zs] by blast
next
  case (FromUnionAll qs)
  then have "\<exists>outs. list_all2 (select_answer E D rows) qs outs"
  proof (induction qs)
    case (Cons q qs)
    then obtain out outs where "select_answer E D rows q out" "list_all2 (select_answer E D rows) qs outs"
      by (metis list.set_intros)
    then show ?case by (intro exI[of _ "out # outs"]) simp
  qed (auto intro: exI[of _ "[]"])
  then show ?case by auto
qed auto

lemma branch_seek_offers:
  assumes "select_answer E D rows (branch_seek f D cs b) out"
  shows "\<exists>ys. rows_by.offers D (orders D f) (branch_depth f)
      (filter (\<lambda>r. where_holds E rows cs r \<and> r (address_key (fc_schema f)) = Some (TextV b)) rows) ys
    \<and> mset out = mset ys"
proof -
  obtain zs where zs: "mset zs = mset (filter (where_holds E rows
        (cs @ [EqC (Col (address_key (fc_schema f))) (Val (TextV b))])) rows)"
    "sorted_wrt (row_le D (orders D f)) zs" "mset out = mset (take (branch_depth f) zs)"
    using assms unfolding branch_seek_def by (auto simp: select_answer_iff page_rows_def)
  have "where_holds E rows (cs @ [EqC (Col k) (Val (TextV b))]) r \<longleftrightarrow>
      where_holds E rows cs r \<and> r k = Some (TextV b)" for r k
    by (cases "r k") (auto simp: where_holds_append)
  then show ?thesis using zs unfolding rows_by.offers_def by auto
qed

text \<open>The address column is the one the selector reads, and holds text in every row.\<close>

definition addressed :: "schema \<Rightarrow> row list \<Rightarrow> bool" where
  "addressed s rows \<longleftrightarrow>
     (\<exists>g \<in> set (sch_fields s). ff_family g = Address)
     \<and> (\<forall>g \<in> set (sch_fields s). ff_family g = Address \<longrightarrow> ff_key g = address_key s)
     \<and> (\<forall>r \<in> set rows. \<exists>a. r (address_key s) = Some (TextV a))"

lemma selector_holds_selects:
  assumes laws: "like_law D E" "glob_law E" and S: "no_address n = Some S" "selector_ok S" "root_ok (no_root n)"
    and a: "addressed s rows" "r \<in> set rows" "r (address_key s) = Some (TextV a)"
  shows "(\<forall>f \<in> set (sch_fields s). selector_holds E D rows n f r) \<longleftrightarrow> selector_selects S (no_root n) a"
proof -
  obtain c where c: "selector_condition S (address_key s) (no_root n) D = Ok c"
    "eval_cond E rows r c = Some True \<longleftrightarrow> selector_selects S (no_root n) a"
    using selector_condition_total[OF laws S(2,3), of r "address_key s" a rows, OF a(3)] by blast
  then show ?thesis using a(1) S(1) by (auto simp: selector_holds_def addressed_def)
qed

lemma admitted_branches_total:
  assumes "no_address (node_own (fc_node f)) = Some S" "selector_ok S" "root_ok (no_root (node_own (fc_node f)))"
  shows "admitted_branches f bs = Ok (filter (selector_selects S (no_root (node_own (fc_node f)))) bs)"
proof -
  have "admitted_branches f bs
      = try_concat (map Inr (map (\<lambda>b. if selector_selects S (no_root (node_own (fc_node f))) b then [b] else []) bs))"
    using assms selector_matches_total[OF assms(2,3)] by (simp add: admitted_branches_def comp_def)
  also have "\<dots> = Ok (concat (map (\<lambda>b. if selector_selects S (no_root (node_own (fc_node f))) b then [b] else []) bs))"
    by (simp only: try_concat_Ok) blast
  also have "concat (map (\<lambda>b. if P b then [b] else []) bs) = filter P bs" for P
    by (induction bs) auto
  finally show ?thesis .
qed

lemma statement_over_answers:
  assumes laws: "like_law D E" "glob_law E"
    and node: "fc_node f = FilterNode n ands []" and S: "no_address n = Some S" "selector_ok S" "root_ok (no_root n)"
    and limit: "fc_limit f = Some l"
    and rows: "addressed (fc_schema f) rows" "length rows < 2 ^ 64 - 1"
    and bs: "distinct bs"
      "\<And>r a. r \<in> set rows \<Longrightarrow> r (address_key (fc_schema f)) = Some (TextV a) \<Longrightarrow> selector_selects S (no_root n) a
         \<Longrightarrow> a \<in> set bs"
    and plain: "statement cd f D now = Ok p"
  shows "\<exists>q. statement_over cd f bs D now = Ok q
    \<and> (\<forall>out. select_answer E D rows q out \<longrightarrow> select_answer E D rows p out)"
proof -
  let ?k = "address_key (fc_schema f)" and ?sel = "selector_selects S (no_root n)"
  let ?adm = "filter ?sel bs"
  obtain cs where cs: "combined_conditions cd (fc_schema f) D (resolve_now now) True (FilterNode n ands []) = Ok cs"
    and p: "p = Select AllColumns (FromTable (sch_name (fc_schema f))) cs (orders D f) (Some l) (fc_offset f)"
    using plain limit by (auto simp: statement_def conditions_of_def node try_then_Inr_iff page_limit_def)
  have adm: "admitted_branches f bs = Ok ?adm"
    using admitted_branches_total[of f S] S by (simp add: node)
  show ?thesis
  proof (cases "?adm = []")
    case True
    have "statement cd f D (resolve_now now) = Ok p"
      using plain by (simp add: statement_def conditions_of_def)
    then show ?thesis using adm True by (simp add: statement_over_def)
  next
    case False
    obtain ds where ds: "combined_conditions cd (fc_schema f) D (resolve_now now) False (FilterNode n ands []) = Ok ds"
      "\<And>r. where_holds E rows cs r \<longleftrightarrow> where_holds E rows ds r
         \<and> (\<forall>g \<in> set (sch_fields (fc_schema f)). selector_holds E D rows n g r)"
      using combined_drop[OF cs, of E rows] by blast
    define q where "q = Select AllColumns (FromUnionAll (map (branch_seek f D ds) ?adm)) [] (orders D f)
      (Some l) (fc_offset f)"
    have q: "statement_over cd f bs D now = Ok q"
      using adm False ds(1) limit by (simp add: statement_over_def node q_def page_limit_def)
    let ?branch = "\<lambda>b. filter (\<lambda>r. where_holds E rows ds r \<and> r ?k = Some (TextV b)) rows"
    have sel: "where_holds E rows cs r \<longleftrightarrow> where_holds E rows ds r \<and> ?sel a"
      if "r \<in> set rows" "r ?k = Some (TextV a)" for r a
      using ds(2) selector_holds_selects[OF laws S rows(1) that] by blast
    have texts: "\<exists>a. r ?k = Some (TextV a)" if "r \<in> set rows" for r
      using rows(1) that by (auto simp: addressed_def)
    have branch: "?branch b = filter (\<lambda>r. where_holds E rows cs r \<and> r ?k = Some (TextV b)) rows"
      if "b \<in> set ?adm" for b
      using that sel by (intro filter_cong) auto
    have all: "mset (concat (map ?branch ?adm)) = mset (filter (where_holds E rows cs) rows)"
    proof -
      have "map ?branch ?adm
          = map (\<lambda>v. filter (\<lambda>r. where_holds E rows cs r \<and> r ?k = v) rows) (map (\<lambda>b. Some (TextV b)) ?adm)"
        using branch by simp
      moreover have "distinct (map (\<lambda>b. Some (TextV b)) ?adm)"
        using bs(1) by (simp add: distinct_map inj_on_def)
      moreover have "r ?k \<in> set (map (\<lambda>b. Some (TextV b)) ?adm)" if "r \<in> set rows" "where_holds E rows cs r" for r
        using texts[OF that(1)] that sel bs(2) by fastforce
      ultimately show ?thesis by (simp only: mset_branches)
    qed
    have "select_answer E D rows p out" if out: "select_answer E D rows q out" for out
    proof -
      obtain outs zs where outs: "list_all2 (select_answer E D rows) (map (branch_seek f D ds) ?adm) outs"
        and zs: "mset zs = mset (concat outs)" "sorted_wrt (row_le D (orders D f)) zs"
          "out = page_rows (Some l) (fc_offset f) zs"
        using out by (auto simp: q_def select_answer_iff)
      have "list_all2 (\<lambda>b out. \<exists>ys. rows_by.offers D (orders D f) (branch_depth f) (?branch b) ys \<and> mset out = mset ys)
          ?adm outs"
        using outs unfolding list_all2_map1 by (rule list_all2_mono) (rule branch_seek_offers)
      then obtain yss where yss: "list_all2 (\<lambda>b ys. rows_by.offers D (orders D f) (branch_depth f) (?branch b) ys) ?adm yss"
        "mset (concat outs) = mset (concat yss)"
        using list_all2_reordered[where R = "\<lambda>b. rows_by.offers D (orders D f) (branch_depth f) (?branch b)"]
        by blast
      have offered: "list_all2 (rows_by.offers D (orders D f) (branch_depth f)) (map ?branch ?adm) yss"
        using yss(1) by (simp add: list_all2_map1)
      have "length (concat (map ?branch ?adm)) \<le> length rows"
        using mset_eq_length[OF all] by simp
      then have "l + (case fc_offset f of None \<Rightarrow> 0 | Some j \<Rightarrow> j) \<le> branch_depth f
          \<or> length (concat (map ?branch ?adm)) < branch_depth f"
        using rows(2) limit by (auto simp: branch_depth_def min_def)
      then obtain T where "mset T = mset (concat (map ?branch ?adm))" "sorted_wrt (row_le D (orders D f)) T"
        "page_rows (Some l) (fc_offset f) T = page_rows (Some l) (fc_offset f) zs"
        using rows_by.merged_page[OF offered zs(1)[unfolded yss(2)] zs(2)] by blast
      then show ?thesis using all zs(3) unfolding p select_answer_iff by auto
    qed
    then show ?thesis using q by blast
  qed
qed

section \<open>Writes touch the page a listing shows\<close>

lemma key_of_project [simp]: "key_of ks (project_row (KeyColumns ks) r) = key_of ks r"
  by (simp add: key_of_def)

lemma page_rows_split: "\<exists>xs ys. zs = xs @ page_rows limit offset zs @ ys"
proof -
  let ?o = "case offset of None \<Rightarrow> 0 | Some k \<Rightarrow> k"
  have "zs = take ?o zs @ page_rows limit offset zs @
      (case limit of None \<Rightarrow> [] | Some k \<Rightarrow> drop k (drop ?o zs))"
    using append_take_drop_id[of ?o zs] append_take_drop_id[of _ "drop ?o zs"]
    by (simp add: page_rows_def Let_def del: drop_drop append_take_drop_id split: option.splits)
  then show ?thesis by blast
qed

text \<open>Rows with distinct keys are named one by one by the keys of a page.\<close>

lemma rows_by_key:
  assumes "distinct (map k rows)" and "mset zs = mset (filter P rows)"
  shows "mset (filter (\<lambda>r. k r \<in> k ` set (page_rows limit offset zs)) rows) = mset (page_rows limit offset zs)"
proof -
  let ?pg = "page_rows limit offset zs"
  have rows: "distinct rows" "inj_on k (set rows)" using assms(1) by (simp_all add: distinct_map)
  have "distinct (filter P rows)" "set zs \<subseteq> set rows"
    using rows assms(2) mset_eq_setD[OF assms(2)] by auto
  moreover have "distinct zs" using \<open>distinct (filter P rows)\<close> assms(2) by (metis mset_eq_imp_distinct_iff)
  ultimately have "distinct ?pg" "set ?pg \<subseteq> set rows"
    using page_rows_split[of zs limit offset] by (metis distinct_append, metis Un_iff set_append subset_iff)
  moreover from this have "set (filter (\<lambda>r. k r \<in> k ` set ?pg) rows) = set ?pg"
    using rows(2) by (auto simp: inj_on_def)
  ultimately show ?thesis using rows(1) by (intro set_eq_iff_mset_eq_distinct[THEN iffD1]) auto
qed

lemma narrows_page:
  assumes "statement cd f D now = Ok p" and "write_narrowing cd f D now = Ok w"
    and keys: "distinct (map (key_of (sch_key (fc_schema f))) rows)"
      "\<And>r. r \<in> set rows \<Longrightarrow> None \<notin> set (key_of (sch_key (fc_schema f)) r)"
    and P: "narrows E D rows w P"
  shows "\<exists>out. select_answer E D rows p out \<and> mset (filter P rows) = mset out"
proof -
  let ?k = "key_of (sch_key (fc_schema f))"
  obtain cs where cs: "conditions_of cd f D now = Ok cs"
    and p: "p = Select AllColumns (FromTable (sch_name (fc_schema f))) cs (orders D f) (page_limit f D) (fc_offset f)"
    using assms(1) by (auto simp: statement_def try_then_Inr_iff)
  show ?thesis
  proof (cases "fc_limit f = None \<and> fc_offset f = None")
    case True
    then have "w = ByConditions cs"
      using assms(2) cs by (simp add: write_narrowing_def paged_keys_def)
    moreover obtain zs where "mset zs = mset (filter (where_holds E rows cs) rows)" "sorted_wrt (row_le D (orders D f)) zs"
      using rows_by.ordered_exists by blast
    ultimately show ?thesis
      using P True unfolding p select_answer_iff by (auto simp: page_limit_def page_rows_def)
  next
    case False
    then have "w = ByKeys (sch_key (fc_schema f)) (keys_page f D cs)"
      using assms(2) cs by (auto simp: write_narrowing_def paged_keys_def)
    then obtain outk where outk: "select_answer E D rows (keys_page f D cs) outk"
      and P': "P = (\<lambda>r. None \<notin> set (?k r) \<and> ?k r \<in> ?k ` set outk)"
      using P by auto
    obtain zs where zs: "mset zs = mset (filter (where_holds E rows cs) rows)" "sorted_wrt (row_le D (orders D f)) zs"
      "outk = map (project_row (KeyColumns (sch_key (fc_schema f)))) (page_rows (page_limit f D) (fc_offset f) zs)"
      using outk unfolding keys_page_def by (rule select_answerE) auto
    have "?k ` set outk = ?k ` set (page_rows (page_limit f D) (fc_offset f) zs)"
      by (simp add: zs(3) image_image del: project_row.simps)
    then have "filter P rows = filter (\<lambda>r. ?k r \<in> ?k ` set (page_rows (page_limit f D) (fc_offset f) zs)) rows"
      using keys(2) by (auto simp: P' intro!: filter_cong)
    then have "mset (filter P rows) = mset (page_rows (page_limit f D) (fc_offset f) zs)"
      using rows_by_key[OF keys(1) zs(1)] by simp
    then show ?thesis using zs unfolding p select_answer_iff by auto
  qed
qed

section \<open>Properties\<close>

lemma record_address_fields:
  "list_all (\<lambda>t. map ff_key (filter (\<lambda>g. ff_family g = Address) (sch_fields (record_schema t))) = [''address''])
     record_table_all"
  by code_simp

lemma record_address_key:
  "address_key (record_schema t) = ''address''"
  "\<exists>g \<in> set (sch_fields (record_schema t)). ff_family g = Address"
  "g \<in> set (sch_fields (record_schema t)) \<Longrightarrow> ff_family g = Address \<Longrightarrow> ff_key g = ''address''"
proof -
  have "t \<in> set record_table_all" by (cases t) (simp_all add: record_table_all_def)
  then have keys: "map ff_key (filter (\<lambda>g. ff_family g = Address) (sch_fields (record_schema t))) = [''address'']"
    using record_address_fields by (simp add: list_all_iff)
  then obtain h where h: "filter (\<lambda>g. ff_family g = Address) (sch_fields (record_schema t)) = [h]" "ff_key h = ''address''"
    by auto
  then have addresses: "{g \<in> set (sch_fields (record_schema t)). ff_family g = Address} = {h}"
    by (metis list.set(1,2) set_filter)
  then show "\<exists>g \<in> set (sch_fields (record_schema t)). ff_family g = Address" by blast
  have only: "g = h" if "g \<in> set (sch_fields (record_schema t))" "ff_family g = Address" for g
    using that addresses by blast
  then show "g \<in> set (sch_fields (record_schema t)) \<Longrightarrow> ff_family g = Address \<Longrightarrow> ff_key g = ''address''"
    using h(2) by blast
  show "address_key (record_schema t) = ''address''"
    using only h(2) by (auto simp: address_key_def find_Some_iff in_set_conv_nth split: option.splits)
qed

lemma selector_scope_total:
  assumes "selector_ok S" and "root_ok root" and "selector_scope S root = Ok sc" and "selector_selects S root a"
  shows "scope_covers sc a"
proof -
  have "\<forall>seg \<in> set (sel_segments S). absolute_ok (absolute_segment seg (sel_base root))"
    using selector_segments_ok[OF assms(1,2)] by blast
  from scope_walk_total[OF this, of scope_default] show ?thesis
    using assms(3,4) by (auto simp: selector_scope_def selector_selects_def)
qed

lemma expansion_scope_Some:
  assumes "expansion_scope f = Ok (Some sc)"
  shows "\<exists>n ands S l. fc_node f = FilterNode n ands [] \<and> no_address n = Some S \<and> fc_limit f = Some l
    \<and> selector_scope S (no_root n) = Ok sc"
  using assms by (cases "fc_node f")
    (auto simp: expansion_scope_def try_then_Inr_iff split: if_splits option.splits)

lemma parsed_expansion_refines:
  assumes "filter_parse cd fuel (table_schema (RecordTable t)) pairs = Ok f"
    and "like_law D E" and "glob_law E"
    and "expansion_scope f = Ok (Some sc)"
    and "\<forall>r \<in> set rows. \<exists>a. r ''address'' = Some (TextV a) \<and> (scope_covers sc a \<longrightarrow> a \<in> set branches)"
    and "distinct branches" and "length rows < 2 ^ 64 - 1"
    and "statement cd f D now = Ok p"
  shows "\<exists>q. statement_over cd f branches D now = Ok q
    \<and> (\<forall>out. select_answer E D rows q out \<longrightarrow> select_answer E D rows p out)"
proof -
  have f: "fc_schema f = record_schema t" "node_ok (record_schema t) (fc_node f)"
    using filter_parse_node_ok[OF assms(1) table_fields_distinct] by (simp_all add: table_schema_def)
  obtain n ands S l where node: "fc_node f = FilterNode n ands []" "no_address n = Some S" "fc_limit f = Some l"
    "selector_scope S (no_root n) = Ok sc"
    using expansion_scope_Some[OF assms(4)] by blast
  have S: "selector_ok S" "root_ok (no_root n)"
    using f(2) node(1,2) by (auto simp: own_ok_def)
  have "addressed (fc_schema f) rows"
    using assms(5) record_address_key by (auto simp: addressed_def f(1))
  moreover have "a \<in> set branches"
    if "r \<in> set rows" "r (address_key (fc_schema f)) = Some (TextV a)" "selector_selects S (no_root n) a" for r a
    using that assms(5) selector_scope_total[OF S node(4)] by (auto simp: f(1) record_address_key(1))
  ultimately show ?thesis
    using statement_over_answers[OF assms(2,3) node(1,2) S node(3)] assms(6-8) by blast
qed


definition expanded_filter :: filter_core where
  "expanded_filter =
     \<lparr>fc_schema = record_schema Logs,
      fc_node = FilterNode (node_default\<lparr>no_address := Some \<lparr>sel_segments = [''@a:descendants'']\<rparr>\<rparr>) [] [],
      fc_order = [], fc_limit = Some 5, fc_offset = None\<rparr>"

lemma logs_roles:
  "resolve (record_schema Logs) ''address''
     = Ok (EqualityR \<lparr>ff_key = ''address'', ff_family = Address, ff_operations = [], ff_hidden = False\<rparr>)"
  "resolve (record_schema Logs) ''limit'' = Ok LimitR"
  by code_simp+

lemma expanded_filter_parses:
  "filter_parse reference_codecs 0 (table_schema (RecordTable Logs))
     [(''address'', ''@a:descendants''), (''limit'', ''5'')] = Ok expanded_filter"
proof -
  have limit: "parse_uint 64 ''5'' = Some 5"
    by (simp add: parse_uint_def is_ascii_digit_def digit_value_def)
  have segs: "selector_push selector_default ''@a:descendants'' = Ok \<lparr>sel_segments = [''@a:descendants'']\<rparr>"
    by code_simp
  show ?thesis
    by (simp add: filter_parse_def table_schema_def apply_key_def refusing_def logs_roles apply_equality_def
        wire_scalars_def family_scalar_def push_equality_def parsing_default_def segs
        node_default_def apply_page_number_def wire_scalar_def limit set_once_def finish_def
        List.map_filter_simps core_of_def expanded_filter_def)
qed

definition log_row :: "str \<Rightarrow> int \<Rightarrow> row" where
  "log_row a n = (\<lambda>k. if k = ''address'' then Some (TextV a) else if k = ''timestamp'' then Some (StampV n) else None)"

lemma logs_fields:
  "sch_fields (record_schema Logs) =
     [\<lparr>ff_key = ''id'', ff_family = Uuid, ff_operations = [], ff_hidden = False\<rparr>,
      \<lparr>ff_key = ''address'', ff_family = Address, ff_operations = [], ff_hidden = False\<rparr>,
      \<lparr>ff_key = ''timestamp'', ff_family = Timestamp, ff_operations = [], ff_hidden = False\<rparr>,
      \<lparr>ff_key = ''level'', ff_family = Level, ff_operations = [], ff_hidden = False\<rparr>,
      \<lparr>ff_key = ''content'', ff_family = Text, ff_operations =
         [\<lparr>op_key = ''contains'', op_kind = Contains, op_insensitive = False\<rparr>,
          \<lparr>op_key = ''prefix'', op_kind = Prefix, op_insensitive = False\<rparr>,
          \<lparr>op_key = ''suffix'', op_kind = Suffix, op_insensitive = False\<rparr>], ff_hidden = False\<rparr>]"
  by (simp add: schema_defs List.map_filter_simps)

lemma expanded_statement: "\<exists>p. statement reference_codecs expanded_filter Postgres 0 = Ok p"
proof -
  have "case selector_condition \<lparr>sel_segments = [''@a:descendants'']\<rparr> ''address'' None Postgres of
      Inr _ \<Rightarrow> True | Inl _ \<Rightarrow> False"
    by code_simp
  then obtain c where "selector_condition \<lparr>sel_segments = [''@a:descendants'']\<rparr> ''address'' None Postgres = Ok c"
    by (auto split: sum.splits)
  then show ?thesis
    by (simp add: statement_def conditions_of_def expanded_filter_def node_default_def conditions_with_address_def
        computed_conditions_def logs_fields field_conditions_def values_of_def operation_of_def
        operation_conditions_def window_conditions_def timespan_bounds_def subsample_conditions_def
        clock_conditions_def hour_window_def minute_window_def clock_window_def level_conditions_def
        option_list_def try_concat_def)
qed


text \<open>
  Counting and probing agree with listing: whatever page the backend answers to the
  listing, the count statement's only answer is the page's length and the existence
  check's only answer is whether it holds a row, on either backend and for every limit and
  offset.
\<close>

theorem count_and_exists_agree:
  assumes "statement cd f D now = Ok p" and "select_answer E D rows p out"
  shows "\<exists>c e. count_statement cd f D now = Ok c \<and> exists_statement cd f D now = Ok e
    \<and> (\<forall>n. count_answer E D rows c n \<longleftrightarrow> n = length out)
    \<and> (\<forall>b. exists_answer E D rows e b \<longleftrightarrow> b = (out \<noteq> []))"
proof -
  obtain cs where cs: "conditions_of cd f D now = Ok cs"
    and p: "p = Select AllColumns (FromTable (sch_name (fc_schema f))) cs (orders D f) (page_limit f D) (fc_offset f)"
    using assms(1) by (auto simp: statement_def try_then_Inr_iff)
  let ?hit = "filter (where_holds E rows cs) rows"
  have len: "length (page_rows (page_limit f D) (fc_offset f) zs) = length out" if "mset zs = mset ?hit" for zs
    using assms(2) that length_page_rows_mset unfolding p select_answer_iff from_table_simp by metis
  have keys: "select_answer E D rows (keys_page f D cs) o' \<Longrightarrow> length o' = length out" for o'
    unfolding keys_page_def by (erule select_answerE) (use len in auto)
  obtain zs where zs: "mset zs = mset ?hit" "sorted_wrt (row_le D (orders D f)) zs"
    using rows_by.ordered_exists by blast
  have some: "select_answer E D rows (keys_page f D cs)
      (map (project_row (KeyColumns (sch_key (fc_schema f)))) (page_rows (page_limit f D) (fc_offset f) zs))"
    unfolding keys_page_def using answer_table zs by (rule answer_select)
  have unpaged: "length ?hit = length out" if "fc_limit f = None" "fc_offset f = None"
    using len[OF refl] that by (simp add: page_limit_def page_rows_def)
  have "count_answer E D rows (if fc_limit f = None \<and> fc_offset f = None then CountTable (sch_name (fc_schema f)) cs
         else CountRows (keys_page f D cs)) n \<longleftrightarrow> n = length out" for n
  proof (cases "fc_limit f = None \<and> fc_offset f = None")
    case False
    then have "?thesis \<longleftrightarrow> ((\<exists>o'. select_answer E D rows (keys_page f D cs) o' \<and> n = length o') \<longleftrightarrow> n = length out)"
      by auto
    then show ?thesis using keys some by metis
  qed (use unpaged in auto)
  moreover have "exists_answer E D rows (ExistsRows
      (Select AllColumns (FromTable (sch_name (fc_schema f))) cs [] (page_limit f D) (fc_offset f))) b
      \<longleftrightarrow> b = (out \<noteq> [])" for b
  proof -
    have "select_answer E D rows (Select AllColumns (FromTable (sch_name (fc_schema f))) cs [] (page_limit f D) (fc_offset f)) o'
        \<Longrightarrow> length o' = length out" for o'
      using len by (auto simp: select_answer_iff)
    moreover have "select_answer E D rows (Select AllColumns (FromTable (sch_name (fc_schema f))) cs [] (page_limit f D) (fc_offset f))
        (page_rows (page_limit f D) (fc_offset f) ?hit)"
      unfolding select_answer_iff by (intro exI[of _ rows] exI[of _ ?hit]) (simp add: sorted_wrt_iff_nth_less)
    ultimately show ?thesis by (metis exists_answer.simps length_greater_0_conv)
  qed
  ultimately show ?thesis using cs by (simp add: count_statement_def exists_statement_def)
qed

theorem count_and_exists_agree_witness:
  "\<exists>p out c e. statement reference_codecs expanded_filter Postgres 0 = Ok p
    \<and> select_answer (reference_engine Postgres) Postgres [log_row ''@a.b'' 1] p out
    \<and> count_statement reference_codecs expanded_filter Postgres 0 = Ok c
    \<and> exists_statement reference_codecs expanded_filter Postgres 0 = Ok e
    \<and> (\<forall>n. count_answer (reference_engine Postgres) Postgres [log_row ''@a.b'' 1] c n \<longleftrightarrow> n = length out)
    \<and> (\<forall>b. exists_answer (reference_engine Postgres) Postgres [log_row ''@a.b'' 1] e b \<longleftrightarrow> b = (out \<noteq> []))"
proof -
  obtain p where p: "statement reference_codecs expanded_filter Postgres 0 = Ok p"
    using expanded_statement by blast
  obtain out where out: "select_answer (reference_engine Postgres) Postgres [log_row ''@a.b'' 1] p out"
    using select_answered(1) by blast
  obtain c e where "count_statement reference_codecs expanded_filter Postgres 0 = Ok c"
    "exists_statement reference_codecs expanded_filter Postgres 0 = Ok e"
    "\<forall>n. count_answer (reference_engine Postgres) Postgres [log_row ''@a.b'' 1] c n \<longleftrightarrow> n = length out"
    "\<forall>b. exists_answer (reference_engine Postgres) Postgres [log_row ''@a.b'' 1] e b \<longleftrightarrow> b = (out \<noteq> [])"
    using count_and_exists_agree[OF p out] by (elim exE conjE)
  with p out show ?thesis by (intro exI conjI)
qed

text \<open>
  C28. A paged delete removes the page a listing would show. On a table whose primary keys
  are complete and distinct, whatever the backend does with the delete statement, the rows
  it removes are, as a multiset, one of the answers to the filter's listing, and the rows it
  keeps are all the others in their order.
\<close>

theorem delete_removes_listing:
  assumes "statement cd f D now = Ok p" and "delete_statement cd f D now = Ok q"
    and "distinct (map (key_of (sch_key (fc_schema f))) rows)"
    and "\<forall>r \<in> set rows. None \<notin> set (key_of (sch_key (fc_schema f)) r)"
    and "delete_effect E D rows q kept deleted"
  shows "\<exists>out. select_answer E D rows p out \<and> mset deleted = mset out
    \<and> kept = filter (\<lambda>r. r \<notin> set out) rows"
proof -
  obtain w where w: "write_narrowing cd f D now = Ok w" "q = DeleteFrom (sch_name (fc_schema f)) w"
    using assms(2) by (auto simp: delete_statement_def try_then_Inr_iff)
  obtain P where P: "narrows E D rows w P" "kept = filter (\<lambda>r. \<not> P r) rows" "deleted = filter P rows"
    using assms(5) w(2) by (auto simp: delete_effect_def)
  obtain out where out: "select_answer E D rows p out" "mset (filter P rows) = mset out"
    using narrows_page[OF assms(1) w(1) assms(3) _ P(1)] assms(4) by blast
  moreover have "kept = filter (\<lambda>r. r \<notin> set out) rows"
    using mset_eq_setD[OF out(2)] by (auto simp: P(2) intro!: filter_cong)
  ultimately show ?thesis using P(3) by auto
qed

text \<open>
  A paged update assigns to the page a listing would show: every row of one answer to
  the filter's listing has the set clauses applied, and every other row is untouched.
\<close>

theorem update_changes_listing:
  assumes "statement cd f D now = Ok p" and "update_statement cd f sets D now = Ok q"
    and "distinct (map (key_of (sch_key (fc_schema f))) rows)"
    and "\<forall>r \<in> set rows. None \<notin> set (key_of (sch_key (fc_schema f)) r)"
    and "update_effect E D rows q rows'"
  shows "\<exists>out. select_answer E D rows p out
    \<and> rows' = map (\<lambda>r. if r \<in> set out then assign sets r else r) rows"
proof -
  obtain w where w: "write_narrowing cd f D now = Ok w" "q = Update (sch_name (fc_schema f)) sets w"
    using assms(2) by (auto simp: update_statement_def try_then_Inr_iff)
  obtain P where P: "narrows E D rows w P" "rows' = map (\<lambda>r. if P r then assign sets r else r) rows"
    using assms(5) w(2) by (auto simp: update_effect_def)
  obtain out where out: "select_answer E D rows p out" "mset (filter P rows) = mset out"
    using narrows_page[OF assms(1) w(1) assms(3) _ P(1)] assms(4) by blast
  moreover have "rows' = map (\<lambda>r. if r \<in> set out then assign sets r else r) rows"
    using mset_eq_setD[OF out(2)] by (auto simp: P(2))
  ultimately show ?thesis by blast
qed

text \<open>One log row with its key, and the filter's delete and update on the table that holds it.\<close>

definition keyed_row :: row where
  "keyed_row = (log_row ''@a.b'' 1)(''id'' \<mapsto> UuidV 7)"

lemma logs_key: "sch_key (fc_schema expanded_filter) = [''id'']"
  by (simp add: expanded_filter_def schema_defs)

lemma keyed_row_keys:
  "distinct (map (key_of (sch_key (fc_schema expanded_filter))) [keyed_row])"
  "\<forall>r \<in> set [keyed_row]. None \<notin> set (key_of (sch_key (fc_schema expanded_filter)) r)"
  by (simp_all add: logs_key key_of_def keyed_row_def)

lemma expanded_narrowing:
  assumes "statement reference_codecs expanded_filter Postgres 0 = Ok p"
  shows "\<exists>w P. write_narrowing reference_codecs expanded_filter Postgres 0 = Ok w
    \<and> narrows E Postgres rows w P"
proof -
  obtain cs where cs: "conditions_of reference_codecs expanded_filter Postgres 0 = Ok cs"
    using assms by (auto simp: statement_def try_then_Inr_iff)
  obtain zs where zs: "mset zs = mset (filter (where_holds E rows cs) rows)"
    "sorted_wrt (row_le Postgres (orders Postgres expanded_filter)) zs"
    using rows_by.ordered_exists by blast
  have "select_answer E Postgres rows (keys_page expanded_filter Postgres cs)
      (map (project_row (KeyColumns (sch_key (fc_schema expanded_filter))))
        (page_rows (page_limit expanded_filter Postgres) (fc_offset expanded_filter) zs))"
    unfolding keys_page_def using answer_table zs by (rule answer_select)
  then have "\<exists>P. narrows E Postgres rows
      (ByKeys (sch_key (fc_schema expanded_filter)) (keys_page expanded_filter Postgres cs)) P"
    unfolding narrows.simps by blast
  moreover have "write_narrowing reference_codecs expanded_filter Postgres 0
      = Ok (ByKeys (sch_key (fc_schema expanded_filter)) (keys_page expanded_filter Postgres cs))"
    using cs by (simp add: write_narrowing_def paged_keys_def) (simp add: expanded_filter_def)
  ultimately show ?thesis by blast
qed

theorem delete_removes_listing_witness:
  "\<exists>p q kept deleted. statement reference_codecs expanded_filter Postgres 0 = Ok p
    \<and> delete_statement reference_codecs expanded_filter Postgres 0 = Ok q
    \<and> delete_effect (reference_engine Postgres) Postgres [keyed_row] q kept deleted
    \<and> (\<exists>out. select_answer (reference_engine Postgres) Postgres [keyed_row] p out \<and> mset deleted = mset out)"
proof -
  obtain p where p: "statement reference_codecs expanded_filter Postgres 0 = Ok p"
    using expanded_statement by blast
  obtain w P where w: "write_narrowing reference_codecs expanded_filter Postgres 0 = Ok w"
    "narrows (reference_engine Postgres) Postgres [keyed_row] w P"
    using expanded_narrowing[OF p] by blast
  have q: "delete_statement reference_codecs expanded_filter Postgres 0
      = Ok (DeleteFrom (sch_name (fc_schema expanded_filter)) w)"
    by (simp add: delete_statement_def w(1))
  have eff: "delete_effect (reference_engine Postgres) Postgres [keyed_row]
      (DeleteFrom (sch_name (fc_schema expanded_filter)) w) (filter (\<lambda>r. \<not> P r) [keyed_row]) (filter P [keyed_row])"
    using w(2) by (auto simp: delete_effect_def)
  show ?thesis using p q eff delete_removes_listing[OF p q keyed_row_keys eff] by blast
qed

theorem update_changes_listing_witness:
  "\<exists>p q rows'. statement reference_codecs expanded_filter Postgres 0 = Ok p
    \<and> update_statement reference_codecs expanded_filter [(''level'', Some (TextV ''info''))] Postgres 0 = Ok q
    \<and> update_effect (reference_engine Postgres) Postgres [keyed_row] q rows'
    \<and> (\<exists>out. select_answer (reference_engine Postgres) Postgres [keyed_row] p out
        \<and> rows' = map (\<lambda>r. if r \<in> set out then assign [(''level'', Some (TextV ''info''))] r else r) [keyed_row])"
proof -
  let ?sets = "[(''level'', Some (TextV ''info''))]"
  obtain p where p: "statement reference_codecs expanded_filter Postgres 0 = Ok p"
    using expanded_statement by blast
  obtain w P where w: "write_narrowing reference_codecs expanded_filter Postgres 0 = Ok w"
    "narrows (reference_engine Postgres) Postgres [keyed_row] w P"
    using expanded_narrowing[OF p] by blast
  have q: "update_statement reference_codecs expanded_filter ?sets Postgres 0
      = Ok (Update (sch_name (fc_schema expanded_filter)) ?sets w)"
    by (simp add: update_statement_def w(1))
  have eff: "update_effect (reference_engine Postgres) Postgres [keyed_row]
      (Update (sch_name (fc_schema expanded_filter)) ?sets w)
      (map (\<lambda>r. if P r then assign ?sets r else r) [keyed_row])"
    using w(2) by (auto simp: update_effect_def)
  show ?thesis using p q eff update_changes_listing[OF p q keyed_row_keys eff] by blast
qed

end
