(* ===== verification/Store.thy ===== *)
theory Store
  imports Statements
begin

text \<open>
  The read side of \<open>RecordStore\<close> (\<open>store.rs\<close>): discovering the branches a selector reaches
  by hopping over an ordered index, choosing between the expanded and the plain listing,
  and fetching. A table is its list of rows; a query the store runs while discovering is
  answered from the text values of the address column.
\<close>

section \<open>Walking an index\<close>

definition branch_cap :: nat where
  "branch_cap = 256"

text \<open>\<open>SELECT min(column)\<close>, null over no rows.\<close>

definition min_text :: "str list \<Rightarrow> str option" where
  "min_text xs = (case xs of [] \<Rightarrow> None | y # ys \<Rightarrow> Some (foldl min y ys))"

definition in_window :: "str option \<Rightarrow> bool \<Rightarrow> str option \<Rightarrow> str \<Rightarrow> bool" where
  "in_window cursor inclusive ceiling v \<longleftrightarrow>
     (case cursor of None \<Rightarrow> True | Some c \<Rightarrow> if inclusive then c \<le> v else c < v)
     \<and> (case ceiling of None \<Rightarrow> True | Some e \<Rightarrow> v < e)"

text \<open>The loop of \<open>walk_distinct\<close>, with the rounds it may still run.\<close>

fun walk_loop :: "str list \<Rightarrow> str option \<Rightarrow> nat \<Rightarrow> str option \<Rightarrow> bool \<Rightarrow> str list" where
  "walk_loop vals ceiling 0 cursor inclusive = []"
| "walk_loop vals ceiling (Suc n) cursor inclusive =
     (case min_text (filter (in_window cursor inclusive ceiling) vals) of
        None \<Rightarrow> []
      | Some v \<Rightarrow> v # walk_loop vals ceiling n (Some v) False)"

definition walk_distinct :: "str list \<Rightarrow> str option \<Rightarrow> str option \<Rightarrow> str list" where
  "walk_distinct vals floor ceiling = walk_loop vals ceiling (Suc branch_cap) floor (floor \<noteq> None)"

section \<open>Discovering branches\<close>

definition scope_ranges :: "sel_scope \<Rightarrow> (str option \<times> str option) list" where
  "scope_ranges sc =
     (if sc_unbounded sc then [(None, None)]
      else map (\<lambda>p. (Some p, Some (scope_ceiling p))) (sc_prefixes sc))"

fun discover_loop :: "str list \<Rightarrow> str list \<Rightarrow> (str option \<times> str option) list \<Rightarrow> str list" where
  "discover_loop vals found [] = found"
| "discover_loop vals found ((floor, ceiling) # ranges) =
     (let found' = found @ walk_distinct vals floor ceiling
      in if length found' > branch_cap then found' else discover_loop vals found' ranges)"

definition discover_found :: "str list \<Rightarrow> sel_scope \<Rightarrow> str list" where
  "discover_found vals sc = discover_loop vals (sc_literals sc) (scope_ranges sc)"

text \<open>\<open>Vec::sort\<close> and \<open>Vec::dedup\<close>.\<close>

definition discover_branches :: "str list \<Rightarrow> sel_scope \<Rightarrow> str list" where
  "discover_branches vals sc = remdups_adj (sort (discover_found vals sc))"

section \<open>Listing and fetching\<close>

definition text_column :: "row list \<Rightarrow> str \<Rightarrow> str list" where
  "text_column rows c = List.map_filter (\<lambda>r. case r c of Some (TextV t) \<Rightarrow> Some t | _ \<Rightarrow> None) rows"

definition listing_statement ::
  "codecs \<Rightarrow> filter_core \<Rightarrow> row list \<Rightarrow> sql_dialect \<Rightarrow> int \<Rightarrow> (panic, select) result" where
  "listing_statement cd f rows D now =
     try_then (expansion_scope f) (\<lambda>scope.
       case scope of
         None \<Rightarrow> statement cd f D now
       | Some sc \<Rightarrow>
           (let branches = discover_branches (text_column rows ''address'') sc
            in if branches = [] \<or> length branches > branch_cap then statement cd f D now
               else statement_over cd f branches D now))"

text \<open>What \<open>fetch_filter\<close> may return; a statement whose building panics returns nothing.\<close>

definition fetch_filter ::
  "codecs \<Rightarrow> sql_engine \<Rightarrow> filter_core \<Rightarrow> row list \<Rightarrow> sql_dialect \<Rightarrow> int \<Rightarrow> row list \<Rightarrow> bool" where
  "fetch_filter cd E f rows D now out \<longleftrightarrow>
     (if fc_limit f = Some 0 then out = []
      else \<exists>q. listing_statement cd f rows D now = Ok q \<and> select_answer E D rows q out)"

section \<open>The read-only guard\<close>

definition starts_with_keyword :: "str \<Rightarrow> str \<Rightarrow> bool" where
  "starts_with_keyword t keyword \<longleftrightarrow>
     length keyword \<le> length t \<and> map ascii_lower (take (length keyword) t) = map ascii_lower keyword"

definition assert_readonly :: "(str \<Rightarrow> str) \<Rightarrow> str \<Rightarrow> bool" where
  "assert_readonly trim_start sql \<longleftrightarrow>
     starts_with_keyword (trim_start sql) ''select'' \<or> starts_with_keyword (trim_start sql) ''with''"

section \<open>The walk finds the distinct values in range\<close>

lemma foldl_min: "foldl min (y :: 'a :: linorder) ys = Min (set (y # ys))"
proof (induction ys arbitrary: y)
  case (Cons z ys)
  show ?case using Cons.IH[of "min y z"] by (cases ys) (simp_all add: min.assoc)
qed simp

lemma min_text_Some: "min_text xs = (if xs = [] then None else Some (Min (set xs)))"
  by (cases xs) (simp_all add: min_text_def foldl_min del: list.set)

lemma window_advance:
  assumes "in_window cursor inclusive ceiling m"
  shows "in_window (Some m) False ceiling v \<longleftrightarrow> m < v \<and> in_window cursor inclusive ceiling v"
  using assms by (auto simp: in_window_def split: option.splits if_splits)

text \<open>The walk against its specification: the first distinct values in range, in order.\<close>

lemma walk_loop_spec:
  "walk_loop vals ceiling n cursor inclusive
   = take n (sorted_list_of_set {v \<in> set vals. in_window cursor inclusive ceiling v})"
proof (induction n arbitrary: cursor inclusive)
  case (Suc n)
  let ?A = "{v \<in> set vals. in_window cursor inclusive ceiling v}"
  have set: "set (filter (in_window cursor inclusive ceiling) vals) = ?A" by auto
  show ?case
  proof (cases "?A = {}")
    case True
    then have "filter (in_window cursor inclusive ceiling) vals = []" using set by simp
    then show ?thesis using True by (simp add: min_text_Some)
  next
    case False
    then have "filter (in_window cursor inclusive ceiling) vals \<noteq> []"
      by (metis (no_types, lifting) set list.set(1))
    then have least: "min_text (filter (in_window cursor inclusive ceiling) vals) = Some (Min ?A)"
      by (simp add: min_text_Some set)
    have fin: "finite ?A" by simp
    have "in_window cursor inclusive ceiling (Min ?A)" using Min_in[OF fin False] by blast
    then have "{v \<in> set vals. in_window (Some (Min ?A)) False ceiling v} = {v \<in> ?A. Min ?A < v}"
      by (auto simp: window_advance)
    also have "\<dots> = ?A - {Min ?A}"
      using Min_le[OF fin] by (auto simp: less_le)
    finally have "{v \<in> set vals. in_window (Some (Min ?A)) False ceiling v} = ?A - {Min ?A}" .
    then show ?thesis
      using False least Suc.IH[of "Some (Min ?A)" False]
      by (simp add: sorted_list_of_set_nonempty)
  qed
qed simp

lemma walk_distinct_spec:
  "walk_distinct vals floor ceiling
   = take (Suc branch_cap) (sorted_list_of_set {v \<in> set vals. in_window floor (floor \<noteq> None) ceiling v})"
  by (simp add: walk_distinct_def walk_loop_spec)

text \<open>Unless the cap cut it short, the loop has collected the literals and every range.\<close>

lemma walk_distinct_complete:
  assumes "length (walk_distinct vals floor ceiling) \<le> branch_cap"
  shows "set (walk_distinct vals floor ceiling) = {v \<in> set vals. in_window floor (floor \<noteq> None) ceiling v}"
proof -
  let ?L = "sorted_list_of_set {v \<in> set vals. in_window floor (floor \<noteq> None) ceiling v}"
  have "take (Suc branch_cap) ?L = ?L" using assms by (simp add: walk_distinct_spec)
  then show ?thesis by (simp add: walk_distinct_spec)
qed

lemma discover_loop_extends: "\<exists>more. discover_loop vals found ranges = found @ more"
proof (induction vals found ranges rule: discover_loop.induct)
  case (2 vals found floor ceiling ranges)
  then show ?case by (auto simp: Let_def)
qed simp

lemma discover_loop_complete:
  assumes "length (discover_loop vals found ranges) \<le> branch_cap"
  shows "set (discover_loop vals found ranges)
    = set found \<union> (\<Union>(floor, ceiling) \<in> set ranges. {v \<in> set vals. in_window floor (floor \<noteq> None) ceiling v})"
  using assms
proof (induction vals found ranges rule: discover_loop.induct)
  case (2 vals found floor ceiling ranges)
  let ?found = "found @ walk_distinct vals floor ceiling"
  have short: "length ?found \<le> branch_cap"
    using "2.prems" by (auto simp: Let_def split: if_splits)
  then have "set (walk_distinct vals floor ceiling) = {v \<in> set vals. in_window floor (floor \<noteq> None) ceiling v}"
    by (intro walk_distinct_complete) simp
  then show ?case using "2.IH"[OF refl] "2.prems" short by (auto simp: Let_def)
qed simp

lemma scope_ranges_cover:
  assumes "\<forall>p \<in> set (sc_prefixes sc). \<exists>q. p = q @ ''.''"
  shows "(\<exists>(floor, ceiling) \<in> set (scope_ranges sc). in_window floor (floor \<noteq> None) ceiling a)
    \<longleftrightarrow> sc_unbounded sc \<or> (\<exists>p \<in> set (sc_prefixes sc). starts_with p a)"
proof -
  have "in_window (Some p) True (Some (scope_ceiling p)) a \<longleftrightarrow> starts_with p a" if "p \<in> set (sc_prefixes sc)" for p
    using assms that dotted_range by (fastforce simp: in_window_def scope_ceiling_def)
  then show ?thesis by (auto simp: scope_ranges_def in_window_def[of None])
qed

lemma set_text_column: "set (text_column rows c) = {t. \<exists>r \<in> set rows. r c = Some (TextV t)}"
  by (induction rows) (auto simp: text_column_def List.map_filter_simps split: option.splits sql_value.splits)

text \<open>The prefixes of a selector's scope all end in the separator.\<close>

lemma scope_walk_dotted:
  "scope_walk base segs sc = Ok sc' \<Longrightarrow> \<forall>p \<in> set (sc_prefixes sc). \<exists>q. p = q @ ''.''
   \<Longrightarrow> \<forall>p \<in> set (sc_prefixes sc'). \<exists>q. p = q @ ''.''"
proof (induction segs arbitrary: sc)
  case (Cons seg segs)
  show ?case
  proof (cases "split_once CHR '':'' (absolute_segment seg base)")
    case None
    then show ?thesis
      using Cons.IH[of "sc\<lparr>sc_literals := sc_literals sc @ [absolute_segment seg base]\<rparr>"] Cons.prems by simp
  next
    case (Some split)
    obtain held modifier where held: "split = (held, modifier)" by (cases split)
    obtain m where m: "expect known_modifiers (modifier_parse modifier) = Ok m"
      using Cons.prems(1) Some held by (auto simp: Let_def try_then_Inr_iff)
    let ?sc1 = "if m = ModAll then sc\<lparr>sc_literals := sc_literals sc @ [held]\<rparr> else sc"
    show ?thesis
    proof (cases "held = ''~'' \<or> held = ''@''")
      case True
      then show ?thesis using Cons.prems(1) Some held m
        by (auto simp: Let_def scope_everything_def scope_default_def)
    next
      case False
      then show ?thesis
        using Cons.IH[of "?sc1\<lparr>sc_prefixes := sc_prefixes ?sc1 @ [held @ ''.'']\<rparr>"] Cons.prems Some held m
        by (simp add: Let_def split: if_splits)
    qed
  qed
qed simp

lemma discover_branches_set: "set (discover_branches vals sc) = set (discover_found vals sc)"
  by (simp add: discover_branches_def)

lemma discover_branches_distinct: "distinct (discover_branches vals sc)"
proof -
  have "distinct (remdups_adj ys)" if "sorted ys" for ys :: "str list"
    using that by (induction ys rule: remdups_adj.induct) (auto simp: order.order_iff_strict)
  then show ?thesis by (simp add: discover_branches_def)
qed

section \<open>Fetching refines the plain listing\<close>

text \<open>
  The walk is complete unless the cap cut it while duplicates were still to be dropped:
  the lists it found are short enough, or hold no duplicate.
\<close>

definition walk_complete :: "str list \<Rightarrow> sel_scope \<Rightarrow> bool" where
  "walk_complete vals sc \<longleftrightarrow>
     length (discover_found vals sc) \<le> branch_cap \<or> distinct (discover_found vals sc)"

lemma discovered_covers:
  assumes "walk_complete vals sc" and "length (discover_branches vals sc) \<le> branch_cap"
    and dots: "\<forall>p \<in> set (sc_prefixes sc). \<exists>q. p = q @ ''.''"
    and a: "a \<in> set vals" "scope_covers sc a"
  shows "a \<in> set (discover_branches vals sc)"
proof -
  have "length (discover_branches vals sc) = length (discover_found vals sc)" if "distinct (discover_found vals sc)"
    using that discover_branches_distinct[of vals sc]
    by (metis discover_branches_set distinct_card)
  then have "length (discover_found vals sc) \<le> branch_cap"
    using assms(1,2) by (auto simp: walk_complete_def)
  then have "set (discover_found vals sc) = set (sc_literals sc) \<union>
      (\<Union>(floor, ceiling) \<in> set (scope_ranges sc). {v \<in> set vals. in_window floor (floor \<noteq> None) ceiling v})"
    unfolding discover_found_def by (rule discover_loop_complete)
  moreover have "a \<in> set (sc_literals sc)
      \<or> (\<exists>(floor, ceiling) \<in> set (scope_ranges sc). in_window floor (floor \<noteq> None) ceiling a)"
    using a(2) scope_ranges_cover[OF dots, of a] by (auto simp: scope_covers_def)
  ultimately show ?thesis using a(1) unfolding discover_branches_set by blast
qed

lemma expansion_scope_dotted:
  assumes "expansion_scope f = Ok (Some sc)"
  shows "\<forall>p \<in> set (sc_prefixes sc). \<exists>q. p = q @ ''.''"
proof -
  obtain n :: node_own and S where "selector_scope S (no_root n) = Ok sc"
    using expansion_scope_Some[OF assms] by blast
  then show ?thesis
    unfolding selector_scope_def by (rule scope_walk_dotted) (simp add: scope_default_def)
qed

lemma expansion_scope_total:
  assumes "filter_parse cd fuel (table_schema (RecordTable t)) pairs = Ok f"
  shows "\<exists>scope. expansion_scope f = Ok scope"
proof -
  have "node_ok (table_schema (RecordTable t)) (fc_node f)"
    using filter_parse_node_ok[OF assms table_fields_distinct] by simp
  then have S: "selector_ok S \<and> root_ok (no_root (node_own (fc_node f)))"
    if "no_address (node_own (fc_node f)) = Some S" for S
    using that by (cases "fc_node f") (auto simp: own_ok_def)
  have "\<exists>sc. selector_scope S (no_root (node_own (fc_node f))) = Ok sc"
    if "no_address (node_own (fc_node f)) = Some S" for S
    using scope_walk_total[of "sel_segments S" "sel_base (no_root (node_own (fc_node f)))" scope_default]
      selector_segments_ok S[OF that] unfolding selector_scope_def by blast
  then show ?thesis by (auto simp: expansion_scope_def split: option.splits)
qed

text \<open>Discovery that walked every range in full names each address of the scope.\<close>

lemma discovered_rows:
  assumes "expansion_scope f = Ok (Some sc)"
    and "\<forall>r \<in> set rows. \<exists>a. r ''address'' = Some (TextV a)"
    and "walk_complete (text_column rows ''address'') sc"
    and "length (discover_branches (text_column rows ''address'') sc) \<le> branch_cap"
  shows "\<forall>r \<in> set rows. \<exists>a. r ''address'' = Some (TextV a)
    \<and> (scope_covers sc a \<longrightarrow> a \<in> set (discover_branches (text_column rows ''address'') sc))"
proof
  fix r assume r: "r \<in> set rows"
  then obtain a where a: "r ''address'' = Some (TextV a)" using assms(2) by blast
  then have "a \<in> set (text_column rows ''address'')" using r by (auto simp: set_text_column)
  then show "\<exists>a. r ''address'' = Some (TextV a)
      \<and> (scope_covers sc a \<longrightarrow> a \<in> set (discover_branches (text_column rows ''address'') sc))"
    using a discovered_covers[OF _ _ expansion_scope_dotted[OF assms(1)]] assms(3,4) by auto
qed

lemma listing_refines:
  assumes "filter_parse cd fuel (table_schema (RecordTable t)) pairs = Ok f"
    and "like_law D E" and "glob_law E"
    and "\<forall>r \<in> set rows. \<exists>a. r ''address'' = Some (TextV a)" and "length rows < 2 ^ 64 - 1"
    and "\<forall>sc. expansion_scope f = Ok (Some sc) \<longrightarrow> walk_complete (text_column rows ''address'') sc"
    and "statement cd f D now = Ok p"
  shows "\<exists>q. listing_statement cd f rows D now = Ok q
    \<and> (\<forall>out. select_answer E D rows q out \<longrightarrow> select_answer E D rows p out)"
proof -
  obtain scope where scope: "expansion_scope f = Ok scope" using expansion_scope_total[OF assms(1)] by blast
  show ?thesis
  proof (cases scope)
    case None
    then show ?thesis using scope assms(7) by (simp add: listing_statement_def)
  next
    case (Some sc)
    let ?bs = "discover_branches (text_column rows ''address'') sc"
    have sc: "expansion_scope f = Ok (Some sc)" using scope Some by simp
    show ?thesis
    proof (cases "?bs = [] \<or> length ?bs > branch_cap")
      case True
      then show ?thesis using sc assms(7) by (auto simp: listing_statement_def)
    next
      case False
      have "\<forall>r \<in> set rows. \<exists>a. r ''address'' = Some (TextV a) \<and> (scope_covers sc a \<longrightarrow> a \<in> set ?bs)"
        using discovered_rows[OF sc assms(4)] assms(6) sc False by simp
      then show ?thesis
        using parsed_expansion_refines[OF assms(1-3) sc _ discover_branches_distinct assms(5,7)] sc False
        by (auto simp: listing_statement_def)
    qed
  qed
qed

lemma empty_page:
  assumes "statement cd f D now = Ok p" and "fc_limit f = Some 0" and "select_answer E D rows p out"
  shows "out = []"
proof -
  obtain cs where "p = Select AllColumns (FromTable (sch_name (fc_schema f))) cs (orders D f) (Some 0) (fc_offset f)"
    using assms(1,2) by (auto simp: statement_def try_then_Inr_iff page_limit_def)
  then show ?thesis using assms(3) by (auto simp: select_answer_iff page_rows_def Let_def)
qed

section \<open>Properties\<close>

text \<open>
  Discovery against its specification: hopping from value to value with \<open>min\<close> over a
  range returns the distinct values in the range, in order, up to one more than the cap.
\<close>

theorem walk_distinct_ordered:
  "walk_distinct vals floor ceiling
   = take (Suc branch_cap) (sorted_list_of_set {v \<in> set vals. in_window floor (floor \<noteq> None) ceiling v})"
  by (rule walk_distinct_spec)

text \<open>
  C9. What the store fetches is a page of the plain listing. For every parsed record
  filter, on either backend, choosing between the expanded and the plain statement by the
  branches discovered in the table itself never changes what may be answered: a fetch
  returns, and everything it may return is an answer to the plain listing, provided the
  discovery was not cut short by the cap.
\<close>

theorem fetch_filter_refines:
  assumes "filter_parse cd fuel (table_schema (RecordTable t)) pairs = Ok f"
    and "like_law D E" and "glob_law E"
    and "\<forall>r \<in> set rows. \<exists>a. r ''address'' = Some (TextV a)" and "length rows < 2 ^ 64 - 1"
    and "\<forall>sc. expansion_scope f = Ok (Some sc) \<longrightarrow> walk_complete (text_column rows ''address'') sc"
    and "statement cd f D now = Ok p"
  shows "(\<exists>out. fetch_filter cd E f rows D now out)
    \<and> (\<forall>out. fetch_filter cd E f rows D now out \<longrightarrow> select_answer E D rows p out)"
proof (cases "fc_limit f = Some 0")
  case True
  obtain out where out: "select_answer E D rows p out" using select_answered(1) by blast
  show ?thesis using True out empty_page[OF assms(7) True] by (auto simp: fetch_filter_def)
next
  case False
  obtain q where q: "listing_statement cd f rows D now = Ok q"
    "\<forall>out. select_answer E D rows q out \<longrightarrow> select_answer E D rows p out"
    using listing_refines[OF assms] by blast
  show ?thesis using False q select_answered(1)[of E D rows q] by (auto simp: fetch_filter_def)
qed

theorem fetch_filter_refines_witness:
  "\<exists>p. statement reference_codecs expanded_filter Postgres 0 = Ok p
    \<and> (\<exists>out. fetch_filter reference_codecs (reference_engine Postgres) expanded_filter [log_row ''@a.b'' 1] Postgres 0 out)
    \<and> (\<forall>out. fetch_filter reference_codecs (reference_engine Postgres) expanded_filter [log_row ''@a.b'' 1] Postgres 0 out
         \<longrightarrow> select_answer (reference_engine Postgres) Postgres [log_row ''@a.b'' 1] p out)"
proof -
  obtain p where p: "statement reference_codecs expanded_filter Postgres 0 = Ok p"
    using expanded_statement by blast
  have rows: "\<forall>r \<in> set [log_row ''@a.b'' 1]. \<exists>a. r ''address'' = Some (TextV a)"
    by (simp add: log_row_def)
  have scope: "expansion_scope expanded_filter = Ok (Some \<lparr>sc_literals = [], sc_prefixes = [''@a.''], sc_unbounded = False\<rparr>)"
    by code_simp
  have vals: "text_column [log_row ''@a.b'' 1] ''address'' = [''@a.b'']"
    by (simp add: text_column_def log_row_def List.map_filter_simps)
  have "distinct (walk_distinct vals floor ceiling)" for vals floor ceiling
    by (simp add: walk_distinct_spec distinct_take)
  then have "\<forall>sc. expansion_scope expanded_filter = Ok (Some sc)
      \<longrightarrow> walk_complete (text_column [log_row ''@a.b'' 1] ''address'') sc"
    by (simp add: scope vals walk_complete_def discover_found_def scope_ranges_def Let_def)
  then show ?thesis
    using p fetch_filter_refines[OF expanded_filter_parses reference_like_law reference_glob_law rows _ _ p]
    by simp
qed

text \<open>
  Where the cap cuts discovery short: three segments of which two reach the same hundred
  and fifty addresses. The duplicates push the count over the cap before the third range
  is walked, and dropping them afterwards brings the list back under it, so the listing is
  expanded over branches that miss every address of the third segment.
\<close>

definition crowded :: "str list" where
  "crowded = map (\<lambda>i. ''@a.'' @ replicate i CHR ''x'') [1..<151] @ [''@c.x'']"

definition crowded_scope :: sel_scope where
  "crowded_scope = \<lparr>sc_literals = [], sc_prefixes = [''@a.'', ''@a.'', ''@c.''], sc_unbounded = False\<rparr>"

lemma crowded_walk:
  "length (walk_distinct crowded (Some ''@a.'') (Some ''@a/'')) = 150"
  "set (walk_distinct crowded (Some ''@a.'') (Some ''@a/'')) = set (map (\<lambda>i. ''@a.'' @ replicate i CHR ''x'') [1..<151])"
proof -
  have window: "in_window (Some ''@a.'') True (Some ''@a/'') v \<longleftrightarrow> starts_with ''@a.'' v" for v
    using dotted_range[of "''@a''" v] by (simp add: in_window_def)
  let ?A = "set (map (\<lambda>i. ''@a.'' @ replicate i CHR ''x'') [1..<151])"
  have A: "{v \<in> set crowded. in_window (Some ''@a.'') True (Some ''@a/'') v} = ?A"
    by (auto simp: window crowded_def starts_with_iff)
  have "inj_on (\<lambda>i. ''@a.'' @ replicate i CHR ''x'') (set [1..<151])"
    by (rule inj_onI) (metis same_append_eq length_replicate)
  then have card: "card ?A = 150" by (simp only: set_map card_image) simp
  then have "length (sorted_list_of_set ?A) = 150" by simp
  then have walk: "walk_distinct crowded (Some ''@a.'') (Some ''@a/'') = sorted_list_of_set ?A"
    by (simp only: walk_distinct_spec A option.distinct not_False_eq_True simp_thms branch_cap_def) simp
  show "length (walk_distinct crowded (Some ''@a.'') (Some ''@a/'')) = 150"
    "set (walk_distinct crowded (Some ''@a.'') (Some ''@a/'')) = ?A"
    using card by (simp_all only: walk length_sorted_list_of_set set_sorted_list_of_set[OF List.finite_set])
qed

lemma discovery_cut_short:
  "selector_scope \<lparr>sel_segments = [''@a:descendants'', ''@a:descendants'', ''@c:descendants'']\<rparr> None = Ok crowded_scope
   \<and> ''@c.x'' \<in> set crowded \<and> scope_covers crowded_scope ''@c.x''
   \<and> length (discover_branches crowded crowded_scope) \<le> branch_cap
   \<and> ''@c.x'' \<notin> set (discover_branches crowded crowded_scope)"
proof -
  let ?w = "walk_distinct crowded (Some ''@a.'') (Some ''@a/'')"
  have scope: "selector_scope \<lparr>sel_segments = [''@a:descendants'', ''@a:descendants'', ''@c:descendants'']\<rparr> None = Ok crowded_scope"
    unfolding crowded_scope_def by code_simp
  have found: "discover_found crowded crowded_scope = ?w @ ?w"
    using crowded_walk(1)
    by (simp add: discover_found_def crowded_scope_def scope_ranges_def scope_ceiling_def Let_def branch_cap_def)
  then have set: "set (discover_branches crowded crowded_scope) = set ?w"
    by (simp add: discover_branches_set)
  have "length (discover_branches crowded crowded_scope) = card (set ?w)"
    using discover_branches_distinct set by (metis distinct_card)
  also have "\<dots> \<le> length ?w" by (rule card_length)
  finally have "length (discover_branches crowded crowded_scope) \<le> branch_cap"
    using crowded_walk(1) by (simp add: branch_cap_def)
  moreover have "''@c.x'' \<notin> set (discover_branches crowded crowded_scope)"
    by (auto simp: set crowded_walk(2))
  moreover have "scope_covers crowded_scope ''@c.x''"
    by (simp add: crowded_scope_def scope_covers_def starts_with_def)
  ultimately show ?thesis using scope by (simp add: crowded_def)
qed

end
