(* ===== verification/Writer.thy ===== *)
theory Writer
  imports Store "HOL-Library.AList"
begin

text \<open>
  \<open>ceres-database/src/writer.rs\<close>: the rows entities and records bind, the multi-row upserts of
  a flush and the inserts of a load, with what a backend does with an insert. A table is the
  map from its primary key to its rows; a failed statement rolls its transaction back, so a
  transaction is a value or an error. JSON documents are their rendered text.
\<close>

section \<open>Records and entities\<close>

datatype message_direction = Send | Receive
datatype level = Debug | Info | Warning | Error | Critical
datatype permission_target_type = TargetComponent | TargetTag | TargetAll
datatype grant_level = View | Operate | Manage

record message =
  ms_id :: "128 word"
  ms_address :: str
  ms_timestamp :: int
  ms_connection :: "str option"
  ms_direction :: message_direction
  ms_data :: "byte list"

record particle =
  pa_id :: "128 word"
  pa_address :: str
  pa_timestamp :: int
  pa_connection :: "str option"
  pa_kind :: str
  pa_data :: str
  pa_span :: "(int \<times> int) option"

record alert =
  al_id :: "128 word"
  al_address :: str
  al_timestamp :: int
  al_level :: level
  al_kind :: str
  al_data :: str

record log_entry =
  le_id :: "128 word"
  le_address :: str
  le_timestamp :: int
  le_level :: level
  le_content :: str

datatype records =
    MessagesR "message list"
  | ParticlesR "particle list"
  | AlertsR "alert list"
  | LogEntriesR "log_entry list"

datatype entity =
    UserE "128 word" str str str bool bool
  | VariableE str str str
  | SettingE "128 word" str str
  | WorkspaceE "128 word" str str "128 word option" bool str
  | WorkspaceEditE "128 word" "128 word" str
  | GroupE "128 word" str str
  | GroupMembershipE "128 word" "128 word"
  | UserPermissionE "128 word" permission_target_type str grant_level
  | GroupPermissionE "128 word" permission_target_type str grant_level

definition level_text :: "level \<Rightarrow> str" where
  "level_text l = (case l of Debug \<Rightarrow> ''debug'' | Info \<Rightarrow> ''info'' | Warning \<Rightarrow> ''warning''
     | Error \<Rightarrow> ''error'' | Critical \<Rightarrow> ''critical'')"

definition target_type_text :: "permission_target_type \<Rightarrow> str" where
  "target_type_text t = (case t of TargetComponent \<Rightarrow> ''component'' | TargetTag \<Rightarrow> ''tag'' | TargetAll \<Rightarrow> ''all'')"

definition grant_level_text :: "grant_level \<Rightarrow> str" where
  "grant_level_text g = (case g of View \<Rightarrow> ''view'' | Operate \<Rightarrow> ''operate'' | Manage \<Rightarrow> ''manage'')"

section \<open>The row each one binds\<close>

type_synonym bound_row = "sql_value option list"

definition json_bound :: "str \<Rightarrow> sql_dialect \<Rightarrow> sql_value" where
  "json_bound t D = (case D of SqliteText \<Rightarrow> TextV t | Postgres \<Rightarrow> JsonV t)"

definition message_row :: "codecs \<Rightarrow> sql_dialect \<Rightarrow> message \<Rightarrow> bound_row" where
  "message_row cd D m =
     [Some (id_value cd (ms_id m) D), Some (TextV (ms_address m)), Some (timestamp_value cd (ms_timestamp m) D),
      map_option TextV (ms_connection m),
      Some (TextV (case ms_direction m of Send \<Rightarrow> ''send'' | Receive \<Rightarrow> ''receive'')),
      Some (BytesV (ms_data m))]"

definition particle_row :: "codecs \<Rightarrow> sql_dialect \<Rightarrow> particle \<Rightarrow> bound_row" where
  "particle_row cd D p =
     [Some (id_value cd (pa_id p) D), Some (TextV (pa_address p)), Some (timestamp_value cd (pa_timestamp p) D),
      map_option TextV (pa_connection p), Some (TextV (pa_kind p)), Some (json_bound (pa_data p) D)]"

definition alert_row :: "codecs \<Rightarrow> sql_dialect \<Rightarrow> alert \<Rightarrow> bound_row" where
  "alert_row cd D a =
     [Some (id_value cd (al_id a) D), Some (TextV (al_address a)), Some (timestamp_value cd (al_timestamp a) D),
      Some (TextV (level_text (al_level a))), Some (TextV (al_kind a)), Some (json_bound (al_data a) D)]"

definition log_entry_row :: "codecs \<Rightarrow> sql_dialect \<Rightarrow> log_entry \<Rightarrow> bound_row" where
  "log_entry_row cd D e =
     [Some (id_value cd (le_id e) D), Some (TextV (le_address e)), Some (timestamp_value cd (le_timestamp e) D),
      Some (TextV (level_text (le_level e))), Some (TextV (le_content e))]"

fun entity_row :: "codecs \<Rightarrow> sql_dialect \<Rightarrow> entity \<Rightarrow> bound_row" where
  "entity_row cd D (UserE i name email password admin disabled) =
     [Some (id_value cd i D), Some (TextV name), Some (TextV email), Some (TextV password),
      Some (BoolV admin), Some (BoolV disabled)]"
| "entity_row cd D (VariableE address name value) =
     [Some (TextV address), Some (TextV name), Some (json_bound value D)]"
| "entity_row cd D (SettingE user name value) =
     [Some (id_value cd user D), Some (TextV name), Some (json_bound value D)]"
| "entity_row cd D (WorkspaceE i name scope owner shown data) =
     [Some (id_value cd i D), Some (TextV name), Some (TextV scope), map_option (\<lambda>u. id_value cd u D) owner,
      Some (BoolV shown), Some (json_bound data D)]"
| "entity_row cd D (WorkspaceEditE user workspace data) =
     [Some (id_value cd user D), Some (id_value cd workspace D), Some (json_bound data D)]"
| "entity_row cd D (GroupE i name description) =
     [Some (id_value cd i D), Some (TextV name), Some (TextV description)]"
| "entity_row cd D (GroupMembershipE user grp) = [Some (id_value cd user D), Some (id_value cd grp D)]"
| "entity_row cd D (UserPermissionE user target_type target lvl) =
     [Some (id_value cd user D), Some (TextV (target_type_text target_type)), Some (TextV target),
      Some (TextV (grant_level_text lvl))]"
| "entity_row cd D (GroupPermissionE grp target_type target lvl) =
     [Some (id_value cd grp D), Some (TextV (target_type_text target_type)), Some (TextV target),
      Some (TextV (grant_level_text lvl))]"

fun entity_table_of :: "entity \<Rightarrow> entity_table" where
  "entity_table_of (UserE _ _ _ _ _ _) = Users"
| "entity_table_of (VariableE _ _ _) = Variables"
| "entity_table_of (SettingE _ _ _) = Settings"
| "entity_table_of (WorkspaceE _ _ _ _ _ _) = Workspaces"
| "entity_table_of (WorkspaceEditE _ _ _) = WorkspaceEdits"
| "entity_table_of (GroupE _ _ _) = Groups"
| "entity_table_of (GroupMembershipE _ _) = GroupMemberships"
| "entity_table_of (UserPermissionE _ _ _ _) = UserPermissions"
| "entity_table_of (GroupPermissionE _ _ _ _) = GroupPermissions"

definition column_names :: "record_table \<Rightarrow> str list" where
  "column_names t =
     (case t of
        Messages \<Rightarrow> [''id'', ''address'', ''timestamp'', ''connection'', ''direction'', ''data'']
      | Particles \<Rightarrow> [''id'', ''address'', ''timestamp'', ''connection'', ''type'', ''data'']
      | Alerts \<Rightarrow> [''id'', ''address'', ''timestamp'', ''level'', ''type'', ''data'']
      | Logs \<Rightarrow> [''id'', ''address'', ''timestamp'', ''level'', ''content''])"

definition entity_struct :: "entity_table \<Rightarrow> field_decl list" where
  "entity_struct t =
     (case t of Users \<Rightarrow> user_struct | Variables \<Rightarrow> variable_struct | Settings \<Rightarrow> setting_struct
      | Workspaces \<Rightarrow> workspace_struct | WorkspaceEdits \<Rightarrow> workspace_edit_struct | Groups \<Rightarrow> group_struct
      | GroupMemberships \<Rightarrow> group_membership_struct | UserPermissions \<Rightarrow> user_permission_struct
      | GroupPermissions \<Rightarrow> group_permission_struct)"

definition entity_columns :: "entity_table \<Rightarrow> str list" where
  "entity_columns t = derive_wire_keys (entity_struct t)"


section \<open>Keeping the last of each key\<close>

text \<open>The hash map of last indexes is an association list; its values are sorted, so their order is immaterial.\<close>

definition last_indexes :: "('a \<Rightarrow> 'k) \<Rightarrow> 'a list \<Rightarrow> ('k \<times> nat) list" where
  "last_indexes key rs = foldl (\<lambda>al (i, r). AList.update (key r) i al) [] (enumerate 0 rs)"

definition dedupe_last :: "('a \<Rightarrow> 'k) \<Rightarrow> 'a list \<Rightarrow> 'a list" where
  "dedupe_last key rs = map (\<lambda>i. rs ! i) (sort (map snd (last_indexes key rs)))"

text \<open>What it computes: a record goes when a later one has its key.\<close>

fun keep_last :: "('a \<Rightarrow> 'k) \<Rightarrow> 'a list \<Rightarrow> 'a list" where
  "keep_last key [] = []"
| "keep_last key (r # rs) = (if key r \<in> key ` set rs then keep_last key rs else r # keep_last key rs)"

definition latest :: "('a \<Rightarrow> 'k) \<Rightarrow> 'a list \<Rightarrow> nat \<Rightarrow> bool" where
  "latest key rs i \<longleftrightarrow> key (rs ! i) \<notin> key ` set (drop (Suc i) rs)"

lemma last_indexes_snoc:
  "last_indexes key (rs @ [r]) = AList.update (key r) (length rs) (last_indexes key rs)"
  by (simp add: last_indexes_def enumerate_append_eq)

lemma last_indexes_distinct: "distinct (map fst (last_indexes key rs))"
  by (induction rs rule: rev_induct) (simp add: last_indexes_def, simp add: last_indexes_snoc AList.distinct_update)

lemma last_indexes_lookup:
  "map_of (last_indexes key rs) k = Some i \<longleftrightarrow> i < length rs \<and> key (rs ! i) = k \<and> latest key rs i"
proof (induction rs arbitrary: i rule: rev_induct)
  case Nil
  then show ?case by (simp add: last_indexes_def)
next
  case (snoc r rs)
  show ?case
  proof (cases "i < length rs")
    case True
    then have "latest key (rs @ [r]) i \<longleftrightarrow> latest key rs i \<and> key (rs ! i) \<noteq> key r"
      by (auto simp: latest_def nth_append)
    then show ?thesis
      using snoc.IH[of i] True by (auto simp: last_indexes_snoc AList.update_conv' nth_append)
  next
    case False
    have "\<not> map_of (last_indexes key rs) k = Some i" using False snoc.IH[of i] by simp
    then show ?thesis
      using False by (auto simp: last_indexes_snoc AList.update_conv' nth_append less_Suc_eq latest_def)
  qed
qed

lemma last_indexes_values:
  "set (map snd (last_indexes key rs)) = {i. i < length rs \<and> latest key rs i}"
  "distinct (map snd (last_indexes key rs))"
proof -
  have mem: "(k, i) \<in> set (last_indexes key rs) \<longleftrightarrow> i < length rs \<and> key (rs ! i) = k \<and> latest key rs i" for k i
    using last_indexes_lookup[of key rs k i] last_indexes_distinct[of key rs] by (simp add: map_of_eq_Some_iff)
  show "set (map snd (last_indexes key rs)) = {i. i < length rs \<and> latest key rs i}"
    using mem by force
  have "inj_on snd (set (last_indexes key rs))"
    using mem by (auto simp: inj_on_def)
  moreover have "distinct (last_indexes key rs)" using last_indexes_distinct[of key rs] by (simp add: distinct_map)
  ultimately show "distinct (map snd (last_indexes key rs))" by (simp add: distinct_map)
qed

lemma keep_last_indexes: "map (\<lambda>i. rs ! i) (filter (latest key rs) [0..<length rs]) = keep_last key rs"
proof (induction rs)
  case (Cons r rs)
  have "[0..<length (r # rs)] = 0 # map Suc [0..<length rs]" by (simp add: upt_conv_Cons map_Suc_upt del: upt_Suc)
  moreover have "latest key (r # rs) (Suc i) = latest key rs i" for i by (simp add: latest_def)
  ultimately show ?case using Cons.IH by (simp add: latest_def filter_map comp_def del: upt_Suc)
qed simp

lemma dedupe_last_keeps: "dedupe_last key rs = keep_last key rs"
proof -
  have "sort (map snd (last_indexes key rs)) = filter (latest key rs) [0..<length rs]"
    using last_indexes_values[of key rs]
    by (intro sorted_distinct_set_unique) (auto intro: sorted_wrt_filter simp: sorted_wrt_upt)
  then show ?thesis by (simp add: dedupe_last_def keep_last_indexes)
qed

lemma keep_last_set: "set (keep_last key rs) \<subseteq> set rs" "key ` set (keep_last key rs) = key ` set rs"
  by (induction rs) auto

lemma keep_last_distinct: "distinct (map key (keep_last key rs))"
  by (induction rs) (auto simp: keep_last_set)

text \<open>Writing only the last of each key writes the same map.\<close>

definition put_all :: "('a \<Rightarrow> 'k) \<Rightarrow> ('a \<Rightarrow> 'v) \<Rightarrow> ('k \<Rightarrow> 'v option) \<Rightarrow> 'a list \<Rightarrow> 'k \<Rightarrow> 'v option" where
  "put_all key val t rs = foldl (\<lambda>t r. t(key r \<mapsto> val r)) t rs"

lemma put_all_simps [simp]:
  "put_all key val t [] = t"
  "put_all key val t (r # rs) = put_all key val (t(key r \<mapsto> val r)) rs"
  "put_all key val t (rs @ qs) = put_all key val (put_all key val t rs) qs"
  by (simp_all add: put_all_def)

lemma put_overwritten: "k \<in> key ` set rs \<Longrightarrow> put_all key val (t(k \<mapsto> x)) rs = put_all key val t rs"
proof (induction rs arbitrary: t)
  case (Cons q qs)
  show ?case
  proof (cases "key q = k")
    case False
    then have k: "k \<in> key ` set qs" using Cons.prems by auto
    have "(t(k \<mapsto> x))(key q \<mapsto> val q) = (t(key q \<mapsto> val q))(k \<mapsto> x)"
      using False by (rule fun_upd_twist[OF not_sym])
    then show ?thesis using Cons.IH[OF k, of "t(key q \<mapsto> val q)"] by (simp only: put_all_simps)
  qed (simp only: put_all_simps fun_upd_upd)
qed simp

lemma put_keep_last: "put_all key val t (keep_last key rs) = put_all key val t rs"
proof (induction rs arbitrary: t)
  case (Cons r rs)
  show ?case
  proof (cases "key r \<in> key ` set rs")
    case True
    then show ?thesis using Cons.IH[of t] by (simp only: keep_last.simps put_all_simps put_overwritten if_True)
  next
    case False
    then show ?thesis using Cons.IH by (simp only: keep_last.simps put_all_simps if_False)
  qed
qed simp


section \<open>Inserts\<close>

datatype conflict_clause = DoNothing "str list" | DoUpdate "str list" "str list"

record insert_statement =
  ins_table :: str
  ins_columns :: "str list"
  ins_rows :: "bound_row list"
  ins_conflict :: "conflict_clause option"

text \<open>\<open>values_panic\<close> panics on a row that does not have a value per column.\<close>

definition open_insert :: "str \<Rightarrow> str list \<Rightarrow> bound_row list \<Rightarrow> (panic, insert_statement option) result" where
  "open_insert table columns rows =
     (if rows = [] then Ok None
      else if list_all (\<lambda>r. length r = length columns) rows
        then Ok (Some \<lparr>ins_table = table, ins_columns = columns, ins_rows = rows, ins_conflict = None\<rparr>)
      else Err (Panic ''values_panic''))"

definition insert_into :: "record_table \<Rightarrow> bound_row list \<Rightarrow> (panic, insert_statement option) result" where
  "insert_into t rows = open_insert (record_table_name t) (column_names t) rows"

definition upsert_statement :: "record_table \<Rightarrow> bound_row list \<Rightarrow> (panic, insert_statement option) result" where
  "upsert_statement t rows = try_then (insert_into t rows) (\<lambda>s.
     Ok (map_option (\<lambda>s. s\<lparr>ins_conflict := Some (DoUpdate [''id''] (filter (\<lambda>c. c \<noteq> ''id'') (column_names t)))\<rparr>) s))"

definition batch_size :: nat where
  "batch_size = 1000"

function chunks :: "nat \<Rightarrow> 'a list \<Rightarrow> 'a list list" where
  "chunks n xs = (if n = 0 \<or> xs = [] then [] else take n xs # chunks n (drop n xs))"
  by pat_completeness auto
termination by (relation "measure (\<lambda>(n, xs). length xs)") auto

declare chunks.simps [simp del]

fun record_table_of :: "records \<Rightarrow> record_table" where
  "record_table_of (MessagesR _) = Messages"
| "record_table_of (ParticlesR _) = Particles"
| "record_table_of (AlertsR _) = Alerts"
| "record_table_of (LogEntriesR _) = Logs"

fun deduped_rows :: "codecs \<Rightarrow> sql_dialect \<Rightarrow> records \<Rightarrow> bound_row list" where
  "deduped_rows cd D (MessagesR ms) = map (message_row cd D) (dedupe_last ms_id ms)"
| "deduped_rows cd D (ParticlesR ps) = map (particle_row cd D) (dedupe_last pa_id ps)"
| "deduped_rows cd D (AlertsR as) = map (alert_row cd D) (dedupe_last al_id as)"
| "deduped_rows cd D (LogEntriesR es) = map (log_entry_row cd D) (dedupe_last le_id es)"

fun all_rows :: "codecs \<Rightarrow> sql_dialect \<Rightarrow> records \<Rightarrow> bound_row list" where
  "all_rows cd D (MessagesR ms) = map (message_row cd D) ms"
| "all_rows cd D (ParticlesR ps) = map (particle_row cd D) ps"
| "all_rows cd D (AlertsR as) = map (alert_row cd D) as"
| "all_rows cd D (LogEntriesR es) = map (log_entry_row cd D) es"

definition upsert_statements :: "codecs \<Rightarrow> sql_dialect \<Rightarrow> records \<Rightarrow> (panic, (insert_statement \<times> nat) list) result" where
  "upsert_statements cd D rs =
     try_concat (map (\<lambda>chunk. try_then (upsert_statement (record_table_of rs) chunk) (\<lambda>s.
       Ok (case s of None \<Rightarrow> [] | Some s \<Rightarrow> [(s, length chunk)])))
       (chunks batch_size (deduped_rows cd D rs)))"

definition load_statement :: "codecs \<Rightarrow> sql_dialect \<Rightarrow> records \<Rightarrow> (panic, insert_statement option) result" where
  "load_statement cd D rs = insert_into (record_table_of rs) (all_rows cd D rs)"

definition entity_load_statement ::
  "codecs \<Rightarrow> sql_dialect \<Rightarrow> entity_table \<Rightarrow> entity list \<Rightarrow> (panic, insert_statement option) result" where
  "entity_load_statement cd D t es =
     open_insert (entity_table_name t) (entity_columns t) (map (entity_row cd D) es)"

section \<open>What a backend does with an insert\<close>

text \<open>
  A table is a map from key to row. A collision without a conflict clause fails the statement;
  \<open>DO NOTHING\<close> skips the row; \<open>DO UPDATE\<close> takes the named columns from it. PostgreSQL refuses
  to update a row the same statement already wrote.
\<close>

type_synonym stored = "bound_row \<Rightarrow> row option"

datatype db_error = Collision | TouchedTwice | Refused str

definition bind_row :: "str list \<Rightarrow> bound_row \<Rightarrow> row" where
  "bind_row columns vs = (\<lambda>c. Option.bind (map_of (zip columns vs) c) (\<lambda>v. v))"

definition insert_row ::
  "sql_dialect \<Rightarrow> str list \<Rightarrow> conflict_clause option \<Rightarrow> row \<Rightarrow> stored \<times> bound_row set \<Rightarrow> (db_error, stored \<times> bound_row set) result" where
  "insert_row D key conflict r st =
     (let (t, touched) = st; k = key_of key r
      in case t k of
           None \<Rightarrow> Ok (t(k \<mapsto> r), insert k touched)
         | Some old \<Rightarrow>
             (case conflict of
                None \<Rightarrow> Err Collision
              | Some (DoNothing _) \<Rightarrow> Ok st
              | Some (DoUpdate _ cs) \<Rightarrow>
                  if D = Postgres \<and> k \<in> touched then Err TouchedTwice
                  else Ok (t(k \<mapsto> (\<lambda>c. if c \<in> set cs then r c else old c)), insert k touched)))"

definition run_insert :: "sql_dialect \<Rightarrow> str list \<Rightarrow> insert_statement \<Rightarrow> stored \<Rightarrow> (db_error, stored) result" where
  "run_insert D key s t =
     try_then (try_fold (insert_row D key (ins_conflict s)) (map (bind_row (ins_columns s)) (ins_rows s)) (t, {}))
       (\<lambda>(t', _). Ok t')"

text \<open>
  \<open>DatabaseBackend::insert_all\<close> on the tables by name: every batch in one transaction, an error
  rolling it back. \<open>keys\<close> names each table's primary key.
\<close>

type_synonym database = "str \<Rightarrow> stored"

fun insert_batches ::
  "sql_dialect \<Rightarrow> (str \<Rightarrow> str list) \<Rightarrow> (str, insert_statement \<times> nat) result list
     \<Rightarrow> database \<times> nat \<Rightarrow> (db_error, database \<times> nat) result" where
  "insert_batches D keys [] st = Ok st"
| "insert_batches D keys (Inl reason # bs) st = Err (Refused reason)"
| "insert_batches D keys (Inr (s, n) # bs) (db, written) =
     try_then (run_insert D (keys (ins_table s)) s (db (ins_table s))) (\<lambda>t'.
       insert_batches D keys bs (db(ins_table s := t'), written + n))"

definition insert_all ::
  "sql_dialect \<Rightarrow> (str \<Rightarrow> str list) \<Rightarrow> (str, insert_statement \<times> nat) result list \<Rightarrow> database
     \<Rightarrow> database \<times> (db_error, nat) result" where
  "insert_all D keys bs db =
     (case insert_batches D keys bs (db, 0) of Inl e \<Rightarrow> (db, Err e) | Inr (db', n) \<Rightarrow> (db', Ok n))"

text \<open>\<open>RecordWriter::upsert\<close>: a flush of buffered records.\<close>

definition upsert ::
  "codecs \<Rightarrow> sql_dialect \<Rightarrow> records list \<Rightarrow> database \<Rightarrow> (panic, database \<times> (db_error, unit) result) result" where
  "upsert cd D batches db =
     try_then (try_concat (map (upsert_statements cd D) batches)) (\<lambda>stmts.
       Ok (case insert_all D (\<lambda>_. [''id'']) (map Ok stmts) db of (db', outcome) \<Rightarrow>
             (db', try_then outcome (\<lambda>_. Ok ()))))"

section \<open>Rows fit their columns\<close>

lemma all_rows_fit: "r \<in> set (all_rows cd D rs) \<Longrightarrow> length r = length (column_names (record_table_of rs))"
  by (cases rs)
    (auto simp: column_names_def message_row_def particle_row_def alert_row_def log_entry_row_def)

lemma deduped_rows_subset: "set (deduped_rows cd D rs) \<subseteq> set (all_rows cd D rs)"
  by (cases rs) (simp_all add: dedupe_last_keeps image_mono keep_last_set(1))

lemma entity_rows_fit: "length (entity_row cd D e) = length (entity_columns (entity_table_of e))"
  by (cases e) (simp_all add: entity_columns_def entity_struct_def derive_wire_keys_def struct_defs)

lemma chunks_concat: "n \<noteq> 0 \<Longrightarrow> concat (chunks n xs) = xs"
proof (induction n xs rule: chunks.induct)
  case (1 n xs)
  then show ?case by (cases "xs = []") (simp_all add: chunks.simps[of n xs] chunks.simps[of n "[]"])
qed

lemma chunks_small: "c \<in> set (chunks n xs) \<Longrightarrow> c \<noteq> [] \<and> length c \<le> n"
proof (induction n xs rule: chunks.induct)
  case (1 n xs)
  then show ?case by (cases "n = 0 \<or> xs = []") (auto simp: chunks.simps[of n xs])
qed

lemma chunks_members: "n \<noteq> 0 \<Longrightarrow> c \<in> set (chunks n xs) \<Longrightarrow> set c \<subseteq> set xs"
  using chunks_concat[of n xs] by (metis UN_upper set_concat)

definition upsert_of :: "record_table \<Rightarrow> bound_row list \<Rightarrow> insert_statement" where
  "upsert_of t rows = \<lparr>ins_table = record_table_name t, ins_columns = column_names t, ins_rows = rows,
     ins_conflict = Some (DoUpdate [''id''] (filter (\<lambda>c. c \<noteq> ''id'') (column_names t)))\<rparr>"

lemma upsert_statements_total:
  "upsert_statements cd D rs =
     Ok (map (\<lambda>chunk. (upsert_of (record_table_of rs) chunk, length chunk)) (chunks batch_size (deduped_rows cd D rs)))"
proof -
  let ?f = "\<lambda>chunk. try_then (upsert_statement (record_table_of rs) chunk) (\<lambda>s.
       Ok (case s of None \<Rightarrow> [] | Some s \<Rightarrow> [(s, length chunk)]))"
  have "?f c = Ok [(upsert_of (record_table_of rs) c, length c)]" if c: "c \<in> set (chunks batch_size (deduped_rows cd D rs))" for c
  proof -
    have "list_all (\<lambda>r. length r = length (column_names (record_table_of rs))) c"
      using chunks_members[OF _ c] deduped_rows_subset[of cd D rs] all_rows_fit[of _ cd D rs]
      by (auto simp: list_all_iff batch_size_def subset_iff)
    then show ?thesis
      using chunks_small[OF c] by (simp add: upsert_statement_def insert_into_def open_insert_def upsert_of_def)
  qed
  then have eq: "map ?f (chunks batch_size (deduped_rows cd D rs))
      = map Inr (map (\<lambda>c. [(upsert_of (record_table_of rs) c, length c)]) (chunks batch_size (deduped_rows cd D rs)))"
    by simp
  show ?thesis
    unfolding upsert_statements_def try_concat_Ok by (intro exI conjI, rule eq) (simp add: concat_map_singleton)
qed

section \<open>An upsert is the last write of each key\<close>

abbreviation by_id :: "row \<Rightarrow> bound_row" where
  "by_id \<equiv> key_of [''id'']"

text \<open>A record table: each row under its own id, with nothing outside the table's columns.\<close>

definition stored_ok :: "str list \<Rightarrow> stored \<Rightarrow> bool" where
  "stored_ok columns t \<longleftrightarrow> (\<forall>k r. t k = Some r \<longrightarrow> by_id r = k \<and> (\<forall>c. c \<notin> set columns \<longrightarrow> r c = None))"

definition within_columns :: "str list \<Rightarrow> row \<Rightarrow> bool" where
  "within_columns columns r \<longleftrightarrow> (\<forall>c. c \<notin> set columns \<longrightarrow> r c = None)"

lemma bind_row_within: "within_columns columns (bind_row columns vs)"
  by (auto simp: within_columns_def bind_row_def bind_eq_None_conv map_of_eq_None_iff dest: set_zip_leftD)

lemma stored_ok_put: "stored_ok columns t \<Longrightarrow> within_columns columns r \<Longrightarrow> stored_ok columns (t(by_id r \<mapsto> r))"
  by (simp add: stored_ok_def within_columns_def)

lemma stored_ok_put_all:
  "stored_ok columns t \<Longrightarrow> list_all (within_columns columns) rs \<Longrightarrow> stored_ok columns (put_all by_id (\<lambda>r. r) t rs)"
proof (induction rs arbitrary: t)
  case (Cons r rs)
  then show ?case using stored_ok_put[of columns t r] by (simp del: fun_upd_apply)
qed simp

lemma insert_row_upsert:
  assumes "stored_ok columns t" and "within_columns columns r" and "by_id r \<notin> T"
  shows "insert_row D [''id''] (Some (DoUpdate [''id''] (filter (\<lambda>c. c \<noteq> ''id'') columns))) r (t, T)
    = Ok (t(by_id r \<mapsto> r), insert (by_id r) T)"
proof (cases "t (by_id r)")
  case None
  then show ?thesis by (simp add: insert_row_def Let_def)
next
  case (Some old)
  have "by_id old = by_id r" "within_columns columns old"
    using assms(1) Some by (auto simp: stored_ok_def within_columns_def)
  then have "(\<lambda>c. if c \<in> set (filter (\<lambda>c. c \<noteq> ''id'') columns) then r c else old c) = r"
    using assms(2) by (intro ext) (auto simp: within_columns_def key_of_def)
  then show ?thesis using Some assms(3) by (simp add: insert_row_def Let_def)
qed

lemma insert_rows_upsert:
  assumes "stored_ok columns t" and "list_all (within_columns columns) rs" and "distinct (map by_id rs)"
    and "by_id ` set rs \<inter> T = {}"
  shows "try_fold (insert_row D [''id''] (Some (DoUpdate [''id''] (filter (\<lambda>c. c \<noteq> ''id'') columns)))) rs (t, T)
    = Ok (put_all by_id (\<lambda>r. r) t rs, by_id ` set rs \<union> T)"
  using assms
proof (induction rs arbitrary: t T)
  case (Cons r rs)
  have head: "insert_row D [''id''] (Some (DoUpdate [''id''] (filter (\<lambda>c. c \<noteq> ''id'') columns))) r (t, T)
      = Ok (t(by_id r \<mapsto> r), insert (by_id r) T)"
    using Cons.prems by (intro insert_row_upsert) auto
  have tail: "try_fold (insert_row D [''id''] (Some (DoUpdate [''id''] (filter (\<lambda>c. c \<noteq> ''id'') columns)))) rs
      (t(by_id r \<mapsto> r), insert (by_id r) T)
      = Ok (put_all by_id (\<lambda>r. r) (t(by_id r \<mapsto> r)) rs, by_id ` set rs \<union> insert (by_id r) T)"
    using Cons.prems stored_ok_put[of columns t r]
    by (intro Cons.IH[of "t(by_id r \<mapsto> r)" "insert (by_id r) T"]) (auto simp del: fun_upd_apply)
  show ?case
    unfolding try_fold.simps head try_then_simps tail put_all_simps by simp
qed simp


abbreviation table_rows :: "record_table \<Rightarrow> bound_row list \<Rightarrow> row list" where
  "table_rows t vs \<equiv> map (bind_row (column_names t)) vs"

lemma run_upsert:
  assumes "stored_ok (column_names t) tbl" and "distinct (map by_id (table_rows t vs))"
  shows "run_insert D [''id''] (upsert_of t vs) tbl = Ok (put_all by_id (\<lambda>r. r) tbl (table_rows t vs))"
proof -
  have "list_all (within_columns (column_names t)) (table_rows t vs)"
    by (simp add: list_all_iff bind_row_within)
  then show ?thesis
    using insert_rows_upsert[OF assms(1) _ assms(2), of "{}"] by (simp add: run_insert_def upsert_of_def)
qed

lemma insert_chunks:
  assumes "stored_ok (column_names t) (db (record_table_name t))"
    and "distinct (map by_id (table_rows t (concat css)))"
  shows "insert_batches D (\<lambda>_. [''id'']) (map (\<lambda>c. Ok (upsert_of t c, length c)) css @ rest) (db, n)
    = insert_batches D (\<lambda>_. [''id'']) rest
        (db(record_table_name t := put_all by_id (\<lambda>r. r) (db (record_table_name t)) (table_rows t (concat css))),
         n + length (concat css))"
  using assms
proof (induction css arbitrary: db n)
  case (Cons c css)
  let ?tbl = "put_all by_id (\<lambda>r. r) (db (record_table_name t)) (table_rows t c)"
  have run: "run_insert D [''id''] (upsert_of t c) (db (record_table_name t)) = Ok ?tbl"
    using Cons.prems by (intro run_upsert) auto
  have "stored_ok (column_names t) ?tbl"
    using Cons.prems(1) by (intro stored_ok_put_all) (simp_all add: list_all_iff bind_row_within)
  then have "insert_batches D (\<lambda>_. [''id'']) (map (\<lambda>c. Ok (upsert_of t c, length c)) css @ rest)
      (db(record_table_name t := ?tbl), n + length c)
    = insert_batches D (\<lambda>_. [''id'']) rest
        ((db(record_table_name t := ?tbl))(record_table_name t := put_all by_id (\<lambda>r. r) ?tbl (table_rows t (concat css))),
         n + length c + length (concat css))"
    using Cons.IH[of "db(record_table_name t := ?tbl)" "n + length c"] Cons.prems(2)
    by (simp del: fun_upd_apply fun_upd_upd add: fun_upd_same)
  moreover have "ins_table (upsert_of t c) = record_table_name t" by (simp add: upsert_of_def)
  ultimately show ?case using run by (simp add: add.assoc del: fun_upd_apply)
qed simp

lemma keep_last_map:
  assumes "\<And>r q. r \<in> set rs \<Longrightarrow> q \<in> set rs \<Longrightarrow> K (f r) = K (f q) \<longleftrightarrow> key r = key q"
  shows "keep_last K (map f rs) = map f (keep_last key rs)"
  using assms
proof (induction rs)
  case (Cons r rs)
  have "K (f r) \<in> K ` f ` set rs \<longleftrightarrow> key r \<in> key ` set rs" using Cons.prems by auto
  then show ?case using Cons by (simp add: image_image)
qed simp

lemma id_value_inj: "inj (cd_uuid_text cd) \<Longrightarrow> id_value cd u D = id_value cd v D \<longleftrightarrow> u = v"
  by (cases D) (auto simp: id_value_def dest: injD)

lemma by_id_row: "by_id (bind_row (''id'' # cs) (v # vs)) = [v]"
  by (simp add: key_of_def bind_row_def)

lemma by_id_record:
  "by_id (bind_row (column_names Messages) (message_row cd D m)) = [Some (id_value cd (ms_id m) D)]"
  "by_id (bind_row (column_names Particles) (particle_row cd D p)) = [Some (id_value cd (pa_id p) D)]"
  "by_id (bind_row (column_names Alerts) (alert_row cd D a)) = [Some (id_value cd (al_id a) D)]"
  "by_id (bind_row (column_names Logs) (log_entry_row cd D e)) = [Some (id_value cd (le_id e) D)]"
  by (simp_all only: column_names_def record_table.case message_row_def particle_row_def alert_row_def
      log_entry_row_def by_id_row)

lemma deduped_rows_keep:
  assumes "inj (cd_uuid_text cd)"
  shows "deduped_rows cd D rs = keep_last (\<lambda>v. by_id (bind_row (column_names (record_table_of rs)) v)) (all_rows cd D rs)"
  by (cases rs)
    (simp_all add: dedupe_last_keeps id_value_inj[OF assms] by_id_record keep_last_map[symmetric])


text \<open>One batch written record by record, each replacing what its id held.\<close>

definition write_batch :: "codecs \<Rightarrow> sql_dialect \<Rightarrow> database \<Rightarrow> records \<Rightarrow> database" where
  "write_batch cd D db rs =
     (let t = record_table_of rs
      in db(record_table_name t :=
              put_all by_id (\<lambda>r. r) (db (record_table_name t)) (table_rows t (all_rows cd D rs))))"

lemma put_all_map: "put_all key val t (map f xs) = put_all (\<lambda>x. key (f x)) (\<lambda>x. val (f x)) t xs"
  by (induction xs arbitrary: t) simp_all

lemma put_deduped:
  assumes "inj (cd_uuid_text cd)"
  shows "put_all by_id (\<lambda>r. r) tbl (table_rows (record_table_of rs) (deduped_rows cd D rs))
    = put_all by_id (\<lambda>r. r) tbl (table_rows (record_table_of rs) (all_rows cd D rs))"
  unfolding put_all_map deduped_rows_keep[OF assms] by (rule put_keep_last)

lemma distinct_deduped:
  assumes "inj (cd_uuid_text cd)"
  shows "distinct (map by_id (table_rows (record_table_of rs) (deduped_rows cd D rs)))"
  unfolding deduped_rows_keep[OF assms]
  using keep_last_distinct[of "\<lambda>v. by_id (bind_row (column_names (record_table_of rs)) v)" "all_rows cd D rs"]
  by (simp add: comp_def)

lemma record_table_name_inj: "record_table_name t = record_table_name u \<longleftrightarrow> t = u"
  by (cases t; cases u) (simp_all add: record_table_name_def)

lemma write_batch_ok:
  assumes "\<forall>t. stored_ok (column_names t) (db (record_table_name t))"
  shows "\<forall>t. stored_ok (column_names t) (write_batch cd D db rs (record_table_name t))"
proof
  fix t
  have "stored_ok (column_names (record_table_of rs)) (put_all by_id (\<lambda>r. r)
      (db (record_table_name (record_table_of rs))) (table_rows (record_table_of rs) (all_rows cd D rs)))"
    using assms by (intro stored_ok_put_all) (simp_all add: list_all_iff bind_row_within)
  then show "stored_ok (column_names t) (write_batch cd D db rs (record_table_name t))"
    using assms by (cases "t = record_table_of rs") (simp_all add: write_batch_def Let_def record_table_name_inj)
qed

lemma upsert_batches:
  assumes "inj (cd_uuid_text cd)" and "\<forall>t. stored_ok (column_names t) (db (record_table_name t))"
  shows "\<exists>m. insert_batches D (\<lambda>_. [''id'']) (map Ok (concat (map (\<lambda>rs. map (\<lambda>c. (upsert_of (record_table_of rs) c, length c))
      (chunks batch_size (deduped_rows cd D rs))) batches))) (db, n)
    = Ok (foldl (write_batch cd D) db batches, m)"
  using assms(2)
proof (induction batches arbitrary: db n)
  case (Cons rs batches)
  let ?css = "chunks batch_size (deduped_rows cd D rs)"
  have flat: "concat ?css = deduped_rows cd D rs" by (simp add: chunks_concat batch_size_def)
  have step: "insert_batches D (\<lambda>_. [''id'']) (map (\<lambda>c. Ok (upsert_of (record_table_of rs) c, length c)) ?css @ rest) (db, n)
      = insert_batches D (\<lambda>_. [''id'']) rest (write_batch cd D db rs, n + length (deduped_rows cd D rs))" for rest
    using insert_chunks[of "record_table_of rs" db ?css D rest n] Cons.prems distinct_deduped[OF assms(1), of rs D]
    unfolding flat by (simp add: write_batch_def Let_def put_deduped[OF assms(1)] del: fun_upd_apply)
  show ?case
    using Cons.IH[OF write_batch_ok[OF Cons.prems], of cd D rs "n + length (deduped_rows cd D rs)"]
    by (simp add: step comp_def)
qed simp

section \<open>Properties\<close>

lemma upsert_total:
  assumes "inj (cd_uuid_text cd)" and "\<forall>t. stored_ok (column_names t) (db (record_table_name t))"
  shows "upsert cd D batches db = Ok (foldl (write_batch cd D) db batches, Ok ())"
proof -
  let ?stmts = "map (\<lambda>rs. map (\<lambda>c. (upsert_of (record_table_of rs) c, length c))
      (chunks batch_size (deduped_rows cd D rs))) batches"
  have "try_concat (map (upsert_statements cd D) batches) = Ok (concat ?stmts)"
    unfolding try_concat_Ok by (intro exI[of _ ?stmts]) (simp add: upsert_statements_total)
  then show ?thesis
    using upsert_batches[OF assms, of D batches 0] by (auto simp: upsert_def insert_all_def)
qed

text \<open>
  C20. A flush writes every record, the last of each id winning. Whatever is buffered, in
  whichever tables and with whatever repeated ids, and on either backend, the multi-row upserts
  of one flush succeed and leave exactly what writing the records one by one in order would:
  collapsing repeats and cutting into statements changes nothing. UUIDs render distinctly, and
  a stored row is under its own id.
\<close>

theorem upsert_last_write_wins:
  assumes "inj (cd_uuid_text cd)" and "\<forall>t. stored_ok (column_names t) (db (record_table_name t))"
  shows "upsert cd D batches db = Ok (foldl (write_batch cd D) db batches, Ok ())"
  by (rule upsert_total[OF assms])

definition example_entry :: "str \<Rightarrow> log_entry" where
  "example_entry content =
     \<lparr>le_id = 7, le_address = ''@a'', le_timestamp = 0, le_level = Info, le_content = content\<rparr>"

lemma reference_uuid_text_inj: "inj (cd_uuid_text reference_codecs)"
  by (auto simp: reference_codecs_def inj_def uuid_bits_inj)

theorem upsert_last_write_wins_witness:
  "\<exists>db. upsert reference_codecs Postgres [LogEntriesR [example_entry ''first'', example_entry ''second'']] (\<lambda>_ _. None)
       = Ok (db, Ok ())
     \<and> map_option (\<lambda>r. r ''content'') (db ''logs'' [Some (UuidV 7)]) = Some (Some (TextV ''second''))"
proof -
  have "\<forall>t. stored_ok (column_names t) ((\<lambda>_ _. None) (record_table_name t))" by (simp add: stored_ok_def)
  from upsert_last_write_wins[OF reference_uuid_text_inj this, of Postgres
      "[LogEntriesR [example_entry ''first'', example_entry ''second'']]"]
  show ?thesis
    by (simp add: write_batch_def Let_def example_entry_def log_entry_row_def column_names_def record_table_name_def
        key_of_def bind_row_def id_value_def)
qed

text \<open>
  Building a write never panics: every record and every entity binds one value per column
  of its table, so the statement builder's length check never fails, and no upsert binds more
  than 6000 values.
\<close>

theorem writes_never_panic:
  "(\<exists>s. load_statement cd D rs = Ok s)
   \<and> (\<exists>s. entity_load_statement cd D t (filter (\<lambda>e. entity_table_of e = t) es) = Ok s)
   \<and> (\<exists>stmts. upsert_statements cd D rs = Ok stmts
        \<and> list_all (\<lambda>(s, n). length (concat (ins_rows s)) \<le> 6000 \<and> n \<le> 1000) stmts)"
proof (intro conjI)
  have "list_all (\<lambda>r. length r = length (column_names (record_table_of rs))) (all_rows cd D rs)"
    using all_rows_fit by (simp add: list_all_iff)
  then show "\<exists>s. load_statement cd D rs = Ok s"
    by (simp add: load_statement_def insert_into_def open_insert_def)
  have "list_all (\<lambda>r. length r = length (entity_columns t)) (map (entity_row cd D) (filter (\<lambda>e. entity_table_of e = t) es))"
    using entity_rows_fit by (auto simp: list_all_iff)
  then show "\<exists>s. entity_load_statement cd D t (filter (\<lambda>e. entity_table_of e = t) es) = Ok s"
    by (simp add: entity_load_statement_def open_insert_def)
  have "length (concat c) \<le> 6000 \<and> length c \<le> 1000" if c: "c \<in> set (chunks batch_size (deduped_rows cd D rs))" for c
  proof -
    have "length (column_names u) \<le> 6" for u by (cases u) (simp_all add: column_names_def)
    then have "\<forall>r \<in> set c. length r \<le> 6"
      using chunks_members[OF _ c] deduped_rows_subset[of cd D rs] all_rows_fit[of _ cd D rs]
      by (auto simp: batch_size_def subset_iff)
    then have "length (concat c) \<le> 6 * length c" by (induction c) auto
    then show ?thesis using chunks_small[OF c] by (simp add: batch_size_def)
  qed
  then show "\<exists>stmts. upsert_statements cd D rs = Ok stmts
      \<and> list_all (\<lambda>(s, n). length (concat (ins_rows s)) \<le> 6000 \<and> n \<le> 1000) stmts"
    by (auto simp: upsert_statements_total list_all_iff upsert_of_def)
qed

end
