(* ===== verification/Tokens.thy ===== *)
theory Tokens
  imports Filter_Compile
begin

text \<open>
  PostgreSQL matches message bytes through their hex tokens (\<open>tokenize_bytes\<close> and the stored
  function it mirrors). Every token ends in a space, so a text match over tokens can only
  fall on token boundaries: it is the byte match.
\<close>

lemma hex_digit_inj: "a < 16 \<Longrightarrow> b < 16 \<Longrightarrow> hex_digit a = hex_digit b \<Longrightarrow> a = b"
proof -
  assume ab: "a < 16" "b < 16" "hex_digit a = hex_digit b"
  have "distinct ''0123456789abcdef''" "length ''0123456789abcdef'' = 16" by simp_all
  then show ?thesis
    using ab unfolding hex_digit_def by (metis nth_eq_iff_index_eq)
qed

lemma hex_digit_set: "a < 16 \<Longrightarrow> hex_digit a \<in> set ''0123456789abcdef''"
  unfolding hex_digit_def by (rule nth_mem) simp

lemma hex_digit_plain:
  assumes "a < 16"
  shows "hex_digit a \<noteq> CHR '' ''" and "hex_digit a \<noteq> CHR ''^''"
proof -
  have "CHR '' '' \<notin> set ''0123456789abcdef''" "CHR ''^'' \<notin> set ''0123456789abcdef''" by simp_all
  then show "hex_digit a \<noteq> CHR '' ''" "hex_digit a \<noteq> CHR ''^''"
    using hex_digit_set[OF assms] by metis+
qed

lemma byte_halves: "unat (b :: byte) div 16 < 16" "unat b mod 16 < 16"
  using unsigned_less[of b, where ?'a = nat] by (simp_all add: less_mult_imp_div_less)

lemma byte_token_inj: "byte_token a = byte_token b \<Longrightarrow> a = b"
proof -
  assume eq: "byte_token a = byte_token b"
  have "unat a div 16 = unat b div 16" "unat a mod 16 = unat b mod 16"
    using eq hex_digit_inj[OF byte_halves(1) byte_halves(1)] hex_digit_inj[OF byte_halves(2) byte_halves(2)]
    by (simp_all add: byte_token_def)
  then have "unat a = unat b" by (metis div_mult_mod_eq)
  then show ?thesis by (rule unsigned_word_eqI)
qed

lemma tokenize_simps [simp]:
  "tokenize_bytes [] = []"
  "tokenize_bytes (b # bs) = byte_token b @ tokenize_bytes bs"
  "tokenize_bytes (bs @ cs) = tokenize_bytes bs @ tokenize_bytes cs"
  by (simp_all add: tokenize_bytes_def)

lemma length_byte_token [simp]: "length (byte_token b) = 3"
  by (simp add: byte_token_def)

lemma length_tokenize [simp]: "length (tokenize_bytes bs) = 3 * length bs"
  by (induction bs) simp_all

lemma tokenize_inj: "tokenize_bytes xs = tokenize_bytes ys \<Longrightarrow> xs = ys"
proof (induction xs arbitrary: ys)
  case Nil
  then show ?case by (cases ys) (auto dest: arg_cong[where f = length])
next
  case (Cons x xs)
  then obtain y ys' where ys: "ys = y # ys'" by (cases ys) (auto dest: arg_cong[where f = length])
  then show ?case
    using Cons byte_token_inj[of x y] by (auto simp: append_eq_append_conv)
qed

lemma no_caret_tokens: "CHR ''^'' \<notin> set (tokenize_bytes bs)"
  using hex_digit_plain(2)[OF byte_halves(1), symmetric] hex_digit_plain(2)[OF byte_halves(2), symmetric]
  by (induction bs) (simp_all add: byte_token_def)

lemma tokenize_space: "i < 3 * length bs \<Longrightarrow> tokenize_bytes bs ! i = CHR '' '' \<longleftrightarrow> i mod 3 = 2"
proof (induction bs arbitrary: i)
  case (Cons b bs)
  show ?case
  proof (cases "i < 3")
    case True
    then have "i = 0 \<or> i = 1 \<or> i = 2" by linarith
    then show ?thesis
      using hex_digit_plain(1)[OF byte_halves(1)] hex_digit_plain(1)[OF byte_halves(2)]
      by (auto simp: byte_token_def)
  next
    case False
    then have "(i - 3) mod 3 = i mod 3" by (metis mod_add_self2 le_add_diff_inverse2 not_less)
    then show ?thesis
      using False Cons.IH[of "i - 3"] Cons.prems by (simp add: nth_append)
  qed
qed simp

text \<open>Where a token text splits at a multiple of three, the bytes split too.\<close>

lemma tokenize_split:
  assumes "tokenize_bytes bs = a @ b" and "length a = 3 * k"
  shows "k \<le> length bs" and "a = tokenize_bytes (take k bs)" and "b = tokenize_bytes (drop k bs)"
proof -
  have "length (tokenize_bytes bs) = length (a @ b)" using assms(1) by simp
  then show k: "k \<le> length bs" using assms(2) by simp
  have "a @ b = tokenize_bytes (take k bs) @ tokenize_bytes (drop k bs)"
    using assms(1) by (metis append_take_drop_id tokenize_simps(3))
  moreover have "length a = length (tokenize_bytes (take k bs))" using assms(2) k by simp
  ultimately show "a = tokenize_bytes (take k bs)" "b = tokenize_bytes (drop k bs)"
    by (simp_all add: append_eq_append_conv)
qed

lemma tokenize_prefix: "starts_with (tokenize_bytes p) (tokenize_bytes s) \<longleftrightarrow> starts_with p s"
proof
  assume "starts_with (tokenize_bytes p) (tokenize_bytes s)"
  then obtain r where r: "tokenize_bytes s = tokenize_bytes p @ r" by (auto simp: starts_with_iff)
  then have "p = take (length p) s"
    using tokenize_split(2)[OF r, of "length p"] tokenize_inj by simp
  then show "starts_with p s" by (metis append_take_drop_id starts_with_iff)
qed (auto simp: starts_with_iff)

lemma tokenize_contains:
  assumes "p \<noteq> []"
  shows "contains_str (tokenize_bytes p) (tokenize_bytes s) \<longleftrightarrow> contains_str p s"
proof
  assume "contains_str (tokenize_bytes p) (tokenize_bytes s)"
  then obtain a b where ab: "tokenize_bytes s = a @ tokenize_bytes p @ b" by (auto simp: contains_str_iff)
  have len: "length a + 3 * length p \<le> 3 * length s"
    using arg_cong[OF ab, of length] by simp
  have p2: "2 < 3 * length p" using assms by (cases p) simp_all
  have "tokenize_bytes s ! (length a + 2) = tokenize_bytes p ! 2"
    using ab p2 by (simp add: nth_append)
  moreover have "tokenize_bytes p ! 2 = CHR '' ''" using tokenize_space[of 2 p] p2 by simp
  ultimately have "(length a + 2) mod 3 = 2"
    using tokenize_space[of "length a + 2" s] len p2 by simp
  then have "length a mod 3 = 0" by presburger
  then obtain k where k: "length a = 3 * k" by (auto simp: mod_eq_0_iff_dvd elim: dvdE)
  then have "tokenize_bytes (drop k s) = tokenize_bytes p @ b"
    using tokenize_split(3)[OF ab k] by simp
  then have "starts_with p (drop k s)"
    using tokenize_prefix[of p "drop k s"] by (auto simp: starts_with_iff)
  then show "contains_str p s"
    by (metis append_take_drop_id contains_str_iff starts_with_iff)
next
  assume "contains_str p s"
  then obtain a b where "s = a @ p @ b" by (auto simp: contains_str_iff)
  then have "tokenize_bytes s = tokenize_bytes a @ tokenize_bytes p @ tokenize_bytes b" by simp
  then show "contains_str (tokenize_bytes p) (tokenize_bytes s)" unfolding contains_str_iff by blast
qed

lemma tokenize_suffix: "ends_with (tokenize_bytes p) (tokenize_bytes s) \<longleftrightarrow> ends_with p s"
proof
  assume "ends_with (tokenize_bytes p) (tokenize_bytes s)"
  then obtain r where r: "tokenize_bytes s = r @ tokenize_bytes p" by (auto simp: ends_with_iff)
  have len: "length r + 3 * length p = 3 * length s" using arg_cong[OF r, of length] by simp
  then have "length r = 3 * (length s - length p)" by simp
  then have "tokenize_bytes p = tokenize_bytes (drop (length s - length p) s)"
    using tokenize_split(3)[OF r] by simp
  then have "p = drop (length s - length p) s" by (rule tokenize_inj)
  then show "ends_with p s" by (metis append_take_drop_id ends_with_iff)
qed (auto simp: ends_with_iff)

lemma tokenize_matches:
  "p \<noteq> [] \<Longrightarrow> text_matches (tokenize_bytes s) kind (tokenize_bytes p) = bytes_match s kind p"
  by (cases kind)
    (simp_all add: text_matches_def bytes_match_def tokenize_contains tokenize_prefix tokenize_suffix)

text \<open>
  Matching message bytes by their hex tokens is exact: for every non-empty pattern and
  each kind of operation, the escaped \<open>LIKE\<close> the compiler emits over a value's tokens holds
  exactly when the bytes contain, start or end with the pattern, never across a byte
  boundary.
\<close>

theorem token_match_is_byte_match:
  assumes "like_law Postgres E" and "p \<noteq> []"
  shows "eng_like E (tokenize_bytes s) (with_wildcards (like_escape (tokenize_bytes p)) kind CHR ''%'')
      (Some CHR ''^'') = bytes_match s kind p"
  using like_pattern_meaning[OF assms(1) no_caret_tokens] tokenize_matches[OF assms(2)] by simp

theorem token_match_is_byte_match_witness:
  "eng_like (reference_engine Postgres) (tokenize_bytes [0x1A, 0xB2])
     (with_wildcards (like_escape (tokenize_bytes [0xAB])) Contains CHR ''%'') (Some CHR ''^'')
   = bytes_match [0x1A, 0xB2] Contains [0xAB]"
  by (rule token_match_is_byte_match[OF reference_like_law]) simp

end
