(* ===== verification/Filter_Agree.thy ===== *)
theory Filter_Agree
  imports Filter_Wf Filter_Compile Tokens
begin

text \<open>
  The compiler and the matcher of \<open>filter.rs\<close> agree: on a row and the serialized record it
  decodes to, the compiled \<open>WHERE\<close> clause is true exactly when the matcher accepts. This
  theory states what the agreement rests on: the documented laws of the backend
  (\<open>engine_ok\<close>) and of the libraries (\<open>codecs_ok\<close>), that the row and the record are two
  forms of one entity (\<open>represents\<close>), and the corners where the two readings are known to
  differ (\<open>comparable\<close>).
\<close>

section \<open>The laws\<close>

definition engine_ok :: "codecs \<Rightarrow> sql_dialect \<Rightarrow> sql_engine \<Rightarrow> bool" where
  "engine_ok cd D E \<longleftrightarrow>
     like_law D E \<and> glob_law E \<and> ilike_law E \<and> lower_law E
     \<and> eng_tokenize E = tokenize_bytes
     \<and> (\<forall>s p. p \<noteq> [] \<longrightarrow> (eng_instr E s p > 0 \<longleftrightarrow> contains_str p s))
     \<and> (\<forall>s k. eng_substr E s 1 (Some (int k)) = take k s)
     \<and> (\<forall>s k. 0 < k \<longrightarrow> eng_substr E s (- int k) None = drop (length s - k) s)
     \<and> (\<forall>part s. stamp_renders s \<longrightarrow> eng_clock E part (timestamp_value cd s D) = int (cd_clock cd part s))"

definition codecs_ok :: "codecs \<Rightarrow> bool" where
  "codecs_ok cd \<longleftrightarrow>
     inj (cd_uuid_text cd)
     \<and> (\<forall>a b. stamp_renders a \<longrightarrow> stamp_renders b \<longrightarrow> a mod 1000 = 0 \<longrightarrow> b mod 1000 = 0 \<longrightarrow>
          (cd_timestamp_text cd a < cd_timestamp_text cd b \<longleftrightarrow> a < b))
     \<and> (\<forall>s. is_ascii s \<longrightarrow> cd_lower cd s = map ascii_lower s)"

text \<open>The stamps the databases store: four-digit years, whole microseconds.\<close>

definition stamp_ok :: "int \<Rightarrow> bool" where
  "stamp_ok s \<longleftrightarrow> stamp_renders s \<and> s mod 1000 = 0"

section \<open>One entity, two forms\<close>

definition column_represents ::
  "codecs \<Rightarrow> sql_engine \<Rightarrow> sql_dialect \<Rightarrow> field_family \<Rightarrow> sql_value option \<Rightarrow> str option \<Rightarrow> bool" where
  "column_represents cd E D family v raw =
     (let t = Option.bind raw (cd_json_string cd) in
      case family of
        Uuid \<Rightarrow> (\<exists>u. v = map_option (\<lambda>u. id_value cd u D) u \<and> t = map_option (cd_uuid_text cd) u)
      | Timestamp \<Rightarrow> (\<exists>s. stamp_ok s \<and> v = Some (timestamp_value cd s D) \<and> record_timestamp cd t = Some s)
      | Bytes \<Rightarrow> v = map_option (\<lambda>t. BytesV (latin1_encode t)) t
      | Boolean \<Rightarrow> v = map_option BoolV (Option.bind raw (cd_json_bool cd))
      | JsonValue \<Rightarrow> map_option (eng_cast_text E) v = Option.bind raw (cd_json_canonical cd)
      | Json \<Rightarrow> map_option (eng_cast_text E) v = raw
      | Address \<Rightarrow> (\<exists>a. v = Some (TextV a) \<and> t = Some a)
      | _ \<Rightarrow> v = map_option TextV t)"

definition represents ::
  "codecs \<Rightarrow> sql_engine \<Rightarrow> sql_dialect \<Rightarrow> schema \<Rightarrow> row \<Rightarrow> json_fields \<Rightarrow> bool" where
  "represents cd E D s row js \<longleftrightarrow>
     (\<forall>f \<in> set (sch_fields s). column_represents cd E D (ff_family f) (row (ff_key f)) (js (ff_key f)))
     \<and> (\<forall>q \<in> set (sch_computed s).
          (case cp_shape q of
             Present \<Rightarrow> (row (cp_column q) \<noteq> None) = option_holds (\<lambda>raw. raw \<noteq> ''null'') (js (cp_column q))
           | _ \<Rightarrow> (\<exists>x. row (cp_column q) = Some (TextV x)
                   \<and> Option.bind (js (cp_column q)) (cd_json_string cd) = Some x)))"

section \<open>Where the readings may be compared\<close>

text \<open>
  An operation's subject is the text of a JSON column or the field's own text. The two
  readings differ on a null subject when every pattern is empty (SQL says true), on
  patterns with the \<open>LIKE\<close> escape character, and on case folding outside ASCII.
\<close>

definition operation_subject :: "codecs \<Rightarrow> filter_field \<Rightarrow> str option \<Rightarrow> str option" where
  "operation_subject cd f raw = (if ff_family f = Json then raw else Option.bind raw (cd_json_string cd))"

definition operation_comparable ::
  "codecs \<Rightarrow> sql_dialect \<Rightarrow> filter_field \<Rightarrow> field_operation \<Rightarrow> field_values \<Rightarrow> str option \<Rightarrow> bool" where
  "operation_comparable cd D f op v raw =
     (case v of
        TextsV patterns \<Rightarrow>
          (operation_subject cd f raw = None \<longrightarrow> \<not> list_all (\<lambda>p. p = []) patterns)
          \<and> (\<forall>p \<in> set patterns. (D = Postgres \<or> op_insensitive op \<longrightarrow> CHR ''^'' \<notin> set p))
          \<and> (op_insensitive op \<longrightarrow> (\<forall>p \<in> set patterns. is_ascii p)
               \<and> (\<forall>x. operation_subject cd f raw = Some x \<longrightarrow> is_ascii x))
      | BytesListV patterns \<Rightarrow>
          (operation_subject cd f raw = None \<longrightarrow> [] \<notin> set patterns)
      | _ \<Rightarrow> True)"

definition bounds_comparable :: "codecs \<Rightarrow> node_own \<Rightarrow> int \<Rightarrow> bool" where
  "bounds_comparable cd n now \<longleftrightarrow>
     (\<exists>b e. timespan_bounds cd n now = Ok (b, e)
        \<and> (\<forall>x. b = Some x \<longrightarrow> stamp_ok x) \<and> (\<forall>x. e = Some x \<longrightarrow> stamp_ok x))
     \<and> (\<forall>x. no_after n = Some x \<longrightarrow> stamp_ok x) \<and> (\<forall>x. no_before n = Some x \<longrightarrow> stamp_ok x)
     \<and> (\<forall>x. no_max_age n = Some x \<longrightarrow> cd_in_range cd (now - x) \<and> stamp_ok (now - x))
     \<and> (\<forall>x. no_min_age n = Some x \<longrightarrow> cd_in_range cd (now - x) \<and> stamp_ok (now - x))"

definition own_comparable ::
  "codecs \<Rightarrow> sql_dialect \<Rightarrow> schema \<Rightarrow> json_fields \<Rightarrow> int \<Rightarrow> node_own \<Rightarrow> bool" where
  "own_comparable cd D s js now n \<longleftrightarrow>
     no_subsample_every n = None \<and> no_subsample n = None \<and> bounds_comparable cd n now
     \<and> (\<forall>f \<in> set (sch_fields s).
          (\<forall>ss. values_of n f = Some (StampsV ss) \<longrightarrow> (\<forall>x \<in> set ss. stamp_ok x))
          \<and> (\<forall>op \<in> set (ff_operations f). \<forall>held. operation_of n f (op_kind op) = Some held \<longrightarrow>
               operation_comparable cd D f op (of_values held) (js (ff_key f))))"

fun comparable :: "codecs \<Rightarrow> sql_dialect \<Rightarrow> schema \<Rightarrow> json_fields \<Rightarrow> int \<Rightarrow> filter_node \<Rightarrow> bool" where
  "comparable cd D s js now (FilterNode n ands ors) \<longleftrightarrow>
     own_comparable cd D s js now n
     \<and> (ors = [] \<or> conditions_with_address cd s D now True n \<noteq> Ok []
          \<or> list_ex (\<lambda>c. combined_conditions cd s D now True c \<noteq> Ok []) ands)
     \<and> (\<forall>c \<in> set ands. comparable cd D s js now c) \<and> (\<forall>c \<in> set ors. comparable cd D s js now c)"

section \<open>Parts that agree\<close>

text \<open>A compiled part and a check agree when both succeed and say the same of the row.\<close>

definition agrees ::
  "sql_engine \<Rightarrow> row list \<Rightarrow> row \<Rightarrow> (panic, sql_cond list) result \<Rightarrow> bool \<Rightarrow> bool" where
  "agrees E rows row r b \<longleftrightarrow> (\<exists>cs. r = Ok cs \<and> (where_holds E rows cs row \<longleftrightarrow> b))"

lemma agrees_Ok: "agrees E rows row (Ok cs) b \<longleftrightarrow> (where_holds E rows cs row \<longleftrightarrow> b)"
  by (auto simp: agrees_def)

lemma agrees_try_concat:
  "list_all2 (agrees E rows row) rs bs \<Longrightarrow> agrees E rows row (try_concat rs) (\<forall>b \<in> set bs. b)"
proof (induction rule: list_all2_induct)
  case Nil
  then show ?case by (simp add: agrees_def try_concat_def)
next
  case (Cons r rs b bs)
  then show ?case
    by (auto simp: agrees_def try_concat_def try_then_Inr_iff where_holds_append)
qed

lemma eval_match_values:
  assumes "vs \<noteq> []"
  shows "eval_cond E rows row (match_values e vs) = Some True \<longleftrightarrow>
    option_holds (\<lambda>v. v \<in> set vs) (eval_expr E row e)"
  using assms
  by (cases "eval_expr E row e"; cases vs rule: remdups_adj.cases)
    (auto simp: match_values_def option_holds_def)

lemma timestamp_value_less:
  assumes "codecs_ok cd" and "stamp_ok a" and "stamp_ok b"
  shows "sql_less (timestamp_value cd a D) (timestamp_value cd b D) \<longleftrightarrow> a < b"
  using assms by (cases D) (auto simp: timestamp_value_def codecs_ok_def stamp_ok_def)

lemma timestamp_value_eq:
  assumes "codecs_ok cd" and "stamp_ok a" and "stamp_ok b"
  shows "timestamp_value cd a D = timestamp_value cd b D \<longleftrightarrow> a = b"
proof
  assume eq: "timestamp_value cd a D = timestamp_value cd b D"
  have "\<not> sql_less x x" for x by (cases x) auto
  then have "\<not> a < b" "\<not> b < a"
    using eq timestamp_value_less[OF assms, of D] timestamp_value_less[OF assms(1,3,2), of D] by metis+
  then show "a = b" by simp
qed simp

lemma id_value_eq: "codecs_ok cd \<Longrightarrow> id_value cd u D = id_value cd w D \<longleftrightarrow> u = w"
  by (cases D) (auto simp: id_value_def codecs_ok_def inj_def)

lemma eval_values_condition:
  assumes cd: "codecs_ok cd" and rep: "column_represents cd E D (ff_family f) (row (ff_key f)) raw"
    and ok: "values_ok f v" and st: "\<And>ss. v = StampsV ss \<Longrightarrow> \<forall>x \<in> set ss. stamp_ok x"
  shows "eval_cond E rows row (values_condition cd D f v) = Some True \<longleftrightarrow>
    values_hold cd v (ff_family f) raw (Option.bind raw (cd_json_string cd))"
proof (cases v)
  case (UuidsV ids)
  then obtain u where u: "row (ff_key f) = map_option (\<lambda>u. id_value cd u D) u"
    "Option.bind raw (cd_json_string cd) = map_option (cd_uuid_text cd) u" and "ids \<noteq> []"
    using ok rep by (auto simp: values_ok_def column_represents_def Let_def)
  have "cd_uuid_text cd a = cd_uuid_text cd b \<longleftrightarrow> a = b" for a b
    using cd by (auto simp: codecs_ok_def inj_def)
  then show ?thesis
    using UuidsV u \<open>ids \<noteq> []\<close> id_value_eq[OF cd]
    by (cases u) (auto simp: values_condition_def eval_match_values values_hold_def option_holds_def
        list_ex_iff image_iff)
next
  case (StampsV ss)
  then obtain x where x: "stamp_ok x" "row (ff_key f) = Some (timestamp_value cd x D)"
    "record_timestamp cd (Option.bind raw (cd_json_string cd)) = Some x" and "ss \<noteq> []"
    using ok rep by (auto simp: values_ok_def column_represents_def Let_def)
  have "timestamp_value cd x D \<in> (\<lambda>s. timestamp_value cd s D) ` set ss \<longleftrightarrow> x \<in> set ss"
    using timestamp_value_eq[OF cd x(1)] st[OF StampsV] by blast
  then show ?thesis
    using StampsV x \<open>ss \<noteq> []\<close>
    by (simp add: values_condition_def eval_match_values values_hold_def option_holds_def)
next
  case (BytesListV bs)
  then show ?thesis
    using ok rep
    by (cases "Option.bind raw (cd_json_string cd)")
      (auto simp: values_ok_def column_represents_def values_condition_def eval_match_values
        values_hold_def option_holds_def)
next
  case (BooleanV b)
  then show ?thesis
    using ok rep
    by (cases "Option.bind raw (cd_json_bool cd)")
      (auto simp: values_ok_def column_represents_def values_condition_def values_hold_def option_holds_def)
next
  case (TextsV ts)
  then have ts: "ts \<noteq> []" using ok by (simp add: values_ok_def)
  show ?thesis
  proof (cases "ff_family f = JsonValue")
    case True
    then show ?thesis
      using TextsV ts rep
      by (cases "row (ff_key f)")
        (auto simp: column_represents_def values_condition_def eval_match_values values_hold_def option_holds_def
          split: option.splits)
  next
    case False
    then have "row (ff_key f) = map_option TextV (Option.bind raw (cd_json_string cd))"
      using ok rep TextsV by (auto simp: values_ok_def column_represents_def split: field_family.splits)
    then show ?thesis
      using TextsV ts False
      by (cases "Option.bind raw (cd_json_string cd)")
        (auto simp: values_condition_def eval_match_values values_hold_def option_holds_def)
  qed
qed


section \<open>Operations\<close>

lemma ascii_lower_idem [simp]: "ascii_lower (ascii_lower c) = ascii_lower c"
proof -
  have "(of_char (char_of (of_char c + 32 :: nat) :: char) :: nat) = of_char c + 32"
    if "(of_char c :: nat) \<le> 90"
    using that by (simp add: of_char_of)
  then show ?thesis by (auto simp: ascii_lower_def Let_def)
qed

lemma lower_token: "map ascii_lower (like_token (Lit c)) = like_token (Lit (ascii_lower c))"
proof -
  have "\<not> is_ascii_alphabetic CHR ''%''" "\<not> is_ascii_alphabetic CHR ''_''" "\<not> is_ascii_alphabetic CHR ''^''"
    by (simp_all add: is_ascii_alphabetic_def)
  note eqs = this[THEN ascii_lower_eq]
  have "ascii_lower CHR ''^'' = CHR ''^''" by (simp add: ascii_lower_def)
  then show ?thesis by (simp add: like_token_def eqs)
qed

lemma lower_like_pattern:
  assumes "CHR ''^'' \<notin> set p"
  shows "map ascii_lower (with_wildcards (like_escape p) kind CHR ''%'')
    = concat (map like_token (kind_pat kind (map ascii_lower p)))"
proof -
  have lits: "map ascii_lower (concat (map like_token (map Lit p))) = concat (map like_token (map Lit (map ascii_lower p)))"
    by (induction p) (simp_all add: lower_token)
  have "ascii_lower CHR ''%'' = CHR ''%''" by (simp add: ascii_lower_def)
  then show ?thesis
    using lits unfolding like_pattern_tokens[OF assms] by (cases kind) (simp_all add: kind_pat_def)
qed

lemma ascii_like_pattern: "is_ascii p \<Longrightarrow> is_ascii (with_wildcards (like_escape p) kind CHR ''%'')"
proof -
  assume p: "is_ascii p"
  have "is_ascii (like_escape p)"
    using p by (induction p) (auto simp: like_escape_def is_ascii_def replace_char_append)
  then show ?thesis by (cases kind) (auto simp: with_wildcards_def is_ascii_def)
qed

lemma eval_text_pattern:
  assumes E: "engine_ok cd D E" and cd: "codecs_ok cd"
    and e: "eval_expr E row e = map_option TextV subject"
    and caret: "D = Postgres \<or> ins \<Longrightarrow> CHR ''^'' \<notin> set p"
    and ascii: "ins \<Longrightarrow> is_ascii p" "\<And>x. ins \<Longrightarrow> subject = Some x \<Longrightarrow> is_ascii x"
  shows "eval_cond E rows row (text_pattern e kind D ins p) = Some True \<longleftrightarrow>
    option_holds (\<lambda>x. text_matches (fold_case cd x ins) kind (fold_case cd p ins)) subject"
proof (cases subject)
  case None
  then show ?thesis
    using e by (cases D; cases ins) (simp_all add: text_pattern_def option_holds_def Let_def)
next
  case (Some x)
  have laws: "like_law D E" "glob_law E" "ilike_law E" "lower_law E"
    using E by (auto simp: engine_ok_def)
  show ?thesis
  proof (cases ins)
    case False
    then show ?thesis
      using e Some laws(1) glob_pattern_meaning[OF laws(2)] like_pattern_meaning[of E p x kind] caret
      by (cases D) (simp_all add: text_pattern_def option_holds_def fold_case_def Let_def)
  next
    case True
    have x: "is_ascii x" "is_ascii p" "CHR ''^'' \<notin> set p" using ascii caret Some True by auto
    have low: "cd_lower cd x = map ascii_lower x" "cd_lower cd p = map ascii_lower p"
      using cd x by (simp_all add: codecs_ok_def)
    have pat: "pat_match (map lower_pat (kind_pat kind p)) (map ascii_lower x)
        = text_matches (map ascii_lower x) kind (map ascii_lower p)"
      by (simp add: map_lower_kind pat_match_kind)
    have il: "eng_ilike E x (with_wildcards (like_escape p) kind CHR ''%'') (Some CHR ''^'')
        = text_matches (map ascii_lower x) kind (map ascii_lower p)"
      using laws(3) x pat unfolding ilike_law_def like_pattern_tokens[OF x(3)]
      by (auto simp: set_kind_pat is_ascii_def)
    have lk: "eng_like E (eng_lower E x) (eng_lower E (with_wildcards (like_escape p) kind CHR ''%''))
        (Some CHR ''^'') = text_matches (map ascii_lower x) kind (map ascii_lower p)" if "D = SqliteText"
      using laws(1,4) x ascii_like_pattern[OF x(2), of kind] that
      by (simp add: lower_law_def lower_like_pattern like_law_def like_meaning_def map_lower_kind
          pat_match_kind comp_def)
    show ?thesis
      using e Some True low il lk
      by (cases D) (simp_all add: text_pattern_def option_holds_def fold_case_def Let_def)
  qed
qed

lemma starts_with_Nil [simp]: "starts_with [] s"
  by (simp add: starts_with_def)

lemma ends_with_Nil [simp]: "ends_with [] s"
  by (simp add: ends_with_iff)

lemma contains_Nil [simp]: "contains_str [] s"
  by (cases s) simp_all

lemma text_matches_Nil [simp]: "text_matches s kind []"
  by (cases kind) (simp_all add: text_matches_def)

lemma bytes_match_Nil [simp]: "bytes_match s kind []"
  by (cases kind) (simp_all add: bytes_match_def)

lemma eval_match_text_patterns:
  assumes E: "engine_ok cd D E" and cd: "codecs_ok cd"
    and e: "eval_expr E row e = map_option TextV subject"
    and caret: "\<And>p. p \<in> set ps \<Longrightarrow> D = Postgres \<or> ins \<Longrightarrow> CHR ''^'' \<notin> set p"
    and ascii: "\<And>p. p \<in> set ps \<Longrightarrow> ins \<Longrightarrow> is_ascii p" "\<And>x. ins \<Longrightarrow> subject = Some x \<Longrightarrow> is_ascii x"
    and ne: "ps \<noteq> []" and null: "subject = None \<Longrightarrow> \<not> list_all (\<lambda>p. p = []) ps"
  shows "eval_cond E rows row (match_text_patterns e kind ps D ins) = Some True \<longleftrightarrow>
    option_holds (\<lambda>x. list_ex (\<lambda>p. text_matches (fold_case cd x ins) kind (fold_case cd p ins)) ps) subject"
proof (cases "list_all (\<lambda>p. p = []) ps")
  case True
  then obtain x where x: "subject = Some x" using null by (cases subject) auto
  have "fold_case cd [] ins = []"
    using cd by (auto simp: fold_case_def codecs_ok_def is_ascii_def)
  moreover obtain q where "q \<in> set ps" "q = []" using True ne by (cases ps) auto
  ultimately show ?thesis
    using True x by (auto simp: match_text_patterns_def option_holds_def list_ex_iff intro!: bexI[of _ q])
next
  case False
  have "eval_cond E rows row (text_pattern e kind D ins p) = Some True \<longleftrightarrow>
      option_holds (\<lambda>x. text_matches (fold_case cd x ins) kind (fold_case cd p ins)) subject"
    if "p \<in> set ps" for p
    using caret[OF that] ascii(1)[OF that] ascii(2) by (intro eval_text_pattern[OF E cd e]) auto
  then show ?thesis
    using False
    by (cases subject) (auto simp: match_text_patterns_def eval_any_of option_holds_def list_ex_iff)
qed


lemma take_starts_with: "take (length p) s = p \<longleftrightarrow> starts_with p s"
  by (metis append_eq_conv_conj append_take_drop_id starts_with_iff)

lemma drop_ends_with: "drop (length s - length p) s = p \<longleftrightarrow> ends_with p s"
proof
  assume "ends_with p s"
  then show "drop (length s - length p) s = p" by (auto simp: ends_with_iff)
qed (metis append_take_drop_id ends_with_iff)

lemma eval_bytes_pattern:
  assumes E: "engine_ok cd D E" and v: "row key = map_option BytesV b" and null: "b = None \<Longrightarrow> p \<noteq> []"
  shows "eval_cond E rows row (bytes_pattern key kind D p) = Some True \<longleftrightarrow>
    option_holds (\<lambda>x. bytes_match x kind p) b"
proof (cases "p = [] \<or> b = None")
  case True
  then show ?thesis
    using v null
    by (cases b; cases D; cases kind) (auto simp: bytes_pattern_def option_holds_def)
next
  case False
  then obtain x where x: "b = Some x" and p: "p \<noteq> []" by auto
  have like: "D = Postgres \<Longrightarrow> like_law Postgres E" and tok: "eng_tokenize E = tokenize_bytes"
    and ins: "eng_instr E x p > 0 \<longleftrightarrow> contains_str p x"
    and pre: "eng_substr E x 1 (Some (int (length p))) = take (length p) x"
    and suf: "eng_substr E x (- int (length p)) None = drop (length x - length p) x"
    using E p by (auto simp: engine_ok_def)
  have pg: "D = Postgres \<Longrightarrow> eng_like E (tokenize_bytes x)
      (with_wildcards (like_escape (tokenize_bytes p)) kind CHR ''%'') (Some CHR ''^'') = bytes_match x kind p"
    using like_pattern_meaning[OF like no_caret_tokens] tokenize_matches[OF p] by simp
  show ?thesis
    using v x p ins pre suf pg tok take_starts_with[of p x] drop_ends_with[of x p]
    by (cases D; cases kind) (simp_all add: bytes_pattern_def option_holds_def bytes_match_def)
qed

lemma column_represents_text:
  assumes "column_represents cd E D family v raw" and "family \<notin> {Uuid, Timestamp, Bytes, Boolean, JsonValue, Json}"
  shows "v = map_option TextV (Option.bind raw (cd_json_string cd))"
  using assms by (cases family) (auto simp: column_represents_def Let_def)

text \<open>The families the derive gives operations to.\<close>

definition operations_declared :: "filter_field \<Rightarrow> bool" where
  "operations_declared f \<longleftrightarrow> (ff_operations f \<noteq> [] \<longrightarrow> family_carries_operations (ff_family f))"

lemma operation_agrees:
  assumes E: "engine_ok cd D E" and cd: "codecs_ok cd"
    and rep: "column_represents cd E D (ff_family f) (row (ff_key f)) raw"
    and decl: "family_carries_operations (ff_family f)"
    and held: "operation_ok held" "ff_family (of_field held) = ff_family f"
    and comp: "operation_comparable cd D f op (of_values held) raw"
  shows "agrees E rows row (operation_condition D f op held)
    (operation_holds cd f op held raw (Option.bind raw (cd_json_string cd)))"
proof (cases "of_values held")
  case (TextsV ps)
  let ?e = "if ff_family f = Json then CastText (Col (ff_key f)) else Col (ff_key f)"
  have fam: "ff_family f \<noteq> Bytes" and ne: "ps \<noteq> []"
    using held TextsV by (auto simp: operation_ok_def)
  have e: "eval_expr E row ?e = map_option TextV (operation_subject cd f raw)"
  proof (cases "ff_family f = Json")
    case True
    then show ?thesis
      using rep by (cases "row (ff_key f)") (auto simp: column_represents_def operation_subject_def)
  next
    case False
    then show ?thesis
      using column_represents_text[OF rep] decl fam
      by (auto simp: operation_subject_def family_carries_operations_def)
  qed
  have "eval_cond E rows row (match_text_patterns ?e (of_kind held) ps D (op_insensitive op)) = Some True
      \<longleftrightarrow> option_holds (\<lambda>x. list_ex (\<lambda>p. text_matches (fold_case cd x (op_insensitive op)) (of_kind held)
            (fold_case cd p (op_insensitive op))) ps) (operation_subject cd f raw)"
    using comp TextsV ne by (intro eval_match_text_patterns[OF E cd e]) (auto simp: operation_comparable_def)
  then show ?thesis
    using TextsV by (simp add: operation_condition_def operation_holds_def agrees_Ok operation_subject_def)
next
  case (BytesListV ps)
  have fam: "ff_family f = Bytes" using held BytesListV by (simp add: operation_ok_def)
  let ?t = "Option.bind raw (cd_json_string cd)"
  have v: "row (ff_key f) = map_option BytesV (map_option latin1_encode ?t)"
    using rep fam by (cases ?t) (auto simp: column_represents_def)
  have null: "[] \<notin> set ps" if "?t = None"
    using comp BytesListV fam that by (simp add: operation_comparable_def operation_subject_def)
  have "eval_cond E rows row (bytes_pattern (ff_key f) (of_kind held) D p) = Some True \<longleftrightarrow>
      option_holds (\<lambda>x. bytes_match x (of_kind held) p) (map_option latin1_encode ?t)" if "p \<in> set ps" for p
    using null that by (intro eval_bytes_pattern[OF E, of row "ff_key f", OF v]) auto
  then show ?thesis
    using BytesListV
    by (cases ?t) (auto simp: operation_condition_def operation_holds_def agrees_Ok match_bytes_patterns_def
        eval_any_of option_holds_def list_ex_iff)
qed (use held in \<open>simp_all add: operation_ok_def\<close>)

section \<open>Windows, clocks and levels\<close>

lemma stamp_cond_holds:
  assumes cd: "codecs_ok cd" and s: "stamp_ok s" and row: "row key = Some (timestamp_value cd s D)"
    and x: "stamp_ok x"
  shows "eval_cond E rows row (stamp_cond GeC cd D key x) = Some True \<longleftrightarrow> x \<le> s"
    and "eval_cond E rows row (stamp_cond LtC cd D key x) = Some True \<longleftrightarrow> s < x"
    and "eval_cond E rows row (stamp_cond GtC cd D key x) = Some True \<longleftrightarrow> x < s"
    and "eval_cond E rows row (stamp_cond LeC cd D key x) = Some True \<longleftrightarrow> s \<le> x"
  using row timestamp_value_less[OF cd s x, of D] timestamp_value_less[OF cd x s, of D]
    timestamp_value_eq[OF cd s x, of D]
  by (auto simp: stamp_cond_def)

lemma stamp_options_hold:
  assumes cd: "codecs_ok cd" and s: "stamp_ok s" and row: "row key = Some (timestamp_value cd s D)"
    and x: "\<And>y. b = Some y \<Longrightarrow> stamp_ok y"
  shows "where_holds E rows (map (stamp_cond GeC cd D key) (option_list b)) row \<longleftrightarrow> at_least b s"
    and "where_holds E rows (map (stamp_cond LtC cd D key) (option_list b)) row \<longleftrightarrow> below b s"
  using x stamp_cond_holds[OF cd s, of row key D, OF row]
  by (auto simp: option_list_def at_least_def below_def split: option.splits)

lemma eval_clock_condition:
  assumes E: "engine_ok cd D E" and s: "stamp_ok s" and row: "row key = Some (timestamp_value cd s D)"
  shows "eval_cond E rows row (clock_condition key part w) = Some True \<longleftrightarrow>
    clock_holds (Some w) (cd_clock cd part s)"
proof -
  have "eng_clock E part (timestamp_value cd s D) = int (cd_clock cd part s)"
    using E s by (auto simp: engine_ok_def stamp_ok_def)
  then show ?thesis
    using row by (cases w) (auto simp: clock_condition_def clock_holds_def Let_def)
qed


lemma clock_conditions_hold:
  assumes "engine_ok cd D E" and "stamp_ok s" and "row key = Some (timestamp_value cd s D)"
  shows "where_holds E rows (clock_conditions n key) row \<longleftrightarrow>
    clock_holds (hour_window n) (cd_clock cd Hour s) \<and> clock_holds (minute_window n) (cd_clock cd Minute s)"
  using eval_clock_condition[OF assms(1,2), of row key, OF assms(3)]
  by (cases "hour_window n"; cases "minute_window n")
    (simp_all add: clock_conditions_def option_list_def where_holds_append, simp_all add: clock_holds_def)

text \<open>The window of a node around a stored stamp: the checks and the conditions.\<close>

definition window_holds :: "codecs \<Rightarrow> node_own \<Rightarrow> int \<Rightarrow> int \<Rightarrow> bool" where
  "window_holds cd n now s \<longleftrightarrow>
     at_least (no_after n) s \<and> below (no_before n) s
     \<and> (\<exists>b e. timespan_bounds cd n now = Ok (b, e) \<and> at_least b s \<and> below e s)
     \<and> (\<forall>age. no_max_age n = Some age \<longrightarrow> \<not> s \<le> now - age)
     \<and> (\<forall>age. no_min_age n = Some age \<longrightarrow> \<not> s > now - age)"

lemma timestamp_matches_total:
  assumes "bounds_comparable cd n now"
  shows "timestamp_matches cd n s now = Ok (window_holds cd n now s
    \<and> clock_holds (hour_window n) (cd_clock cd Hour s) \<and> clock_holds (minute_window n) (cd_clock cd Minute s))"
proof -
  obtain b e where "timespan_bounds cd n now = Ok (b, e)"
    using assms by (auto simp: bounds_comparable_def)
  then show ?thesis
    using assms
    by (cases "no_max_age n"; cases "no_min_age n")
      (auto simp: timestamp_matches_def window_holds_def stamp_at_def bounds_comparable_def)
qed

lemma window_conditions_agree:
  assumes cd: "codecs_ok cd" and s: "stamp_ok s" and row: "row key = Some (timestamp_value cd s D)"
    and ok: "bounds_comparable cd n now"
  shows "agrees E rows row (window_conditions cd D n key now) (window_holds cd n now s)"
proof -
  obtain b e where be: "timespan_bounds cd n now = Ok (b, e)"
    and sb: "\<And>x. b = Some x \<Longrightarrow> stamp_ok x" "\<And>x. e = Some x \<Longrightarrow> stamp_ok x"
    using ok by (auto simp: bounds_comparable_def)
  have ab: "\<And>x. no_after n = Some x \<Longrightarrow> stamp_ok x" "\<And>x. no_before n = Some x \<Longrightarrow> stamp_ok x"
    and ages: "\<And>x. no_max_age n = Some x \<Longrightarrow> cd_in_range cd (now - x) \<and> stamp_ok (now - x)"
      "\<And>x. no_min_age n = Some x \<Longrightarrow> cd_in_range cd (now - x) \<and> stamp_ok (now - x)"
    using ok by (auto simp: bounds_comparable_def)
  note opts = stamp_options_hold[OF cd s, of row key D, OF row]
  note one = stamp_cond_holds[OF cd s, of row key D, OF row]
  let ?checks = "[at_least (no_after n) s, below (no_before n) s, at_least b s \<and> below e s,
    (\<forall>age. no_max_age n = Some age \<longrightarrow> \<not> s \<le> now - age), (\<forall>age. no_min_age n = Some age \<longrightarrow> \<not> s > now - age)]"
  have "agrees E rows row (window_conditions cd D n key now) (\<forall>c \<in> set ?checks. c)"
    unfolding window_conditions_def
  proof (rule agrees_try_concat, intro list_all2_Cons[THEN iffD2] conjI)
    show "agrees E rows row (case no_max_age n of None \<Rightarrow> Ok []
         | Some age \<Rightarrow> try_then (stamp_at cd (now - age)) (\<lambda>b. Ok [stamp_cond GtC cd D key b]))
      (\<forall>age. no_max_age n = Some age \<longrightarrow> \<not> s \<le> now - age)"
      using ages(1) one(3) by (cases "no_max_age n") (auto simp: agrees_def stamp_at_def)
    show "agrees E rows row (case no_min_age n of None \<Rightarrow> Ok []
         | Some age \<Rightarrow> try_then (stamp_at cd (now - age)) (\<lambda>b. Ok [stamp_cond LeC cd D key b]))
      (\<forall>age. no_min_age n = Some age \<longrightarrow> \<not> s > now - age)"
      using ages(2) one(4) by (cases "no_min_age n") (auto simp: agrees_def stamp_at_def)
  qed (auto simp: agrees_def be where_holds_append opts ab sb)
  then show ?thesis using be by (simp add: window_holds_def)
qed

lemma position_nth: "distinct xs \<Longrightarrow> i < length xs \<Longrightarrow> position (xs ! i) xs = Some i"
proof (induction xs arbitrary: i)
  case (Cons x xs)
  then show ?case by (cases i) auto
qed simp

lemma in_drop_position:
  assumes "distinct xs"
  shows "x \<in> set (drop m xs) \<longleftrightarrow> option_holds (\<lambda>p. m \<le> p) (position x xs)"
proof (cases "position x xs")
  case None
  then have "x \<notin> set (drop m xs)" using in_set_dropD[of x m xs] by (auto simp: position_None)
  then show ?thesis using None by (simp add: option_holds_def)
next
  case (Some i)
  then have i: "i < length xs" "xs ! i = x" using position_bound[of x xs i] by simp_all
  have "x \<in> set (drop m xs) \<longleftrightarrow> (\<exists>j. m \<le> j \<and> j < length xs \<and> xs ! j = x)"
  proof
    assume "x \<in> set (drop m xs)"
    then obtain k where "k < length xs - m" "xs ! (m + k) = x" by (auto simp: in_set_conv_nth)
    then show "\<exists>j. m \<le> j \<and> j < length xs \<and> xs ! j = x" by (intro exI[of _ "m + k"]) auto
  next
    assume "\<exists>j. m \<le> j \<and> j < length xs \<and> xs ! j = x"
    then obtain j where "m \<le> j" "j < length xs" "xs ! j = x" by blast
    then show "x \<in> set (drop m xs)" by (auto simp: in_set_conv_nth intro!: exI[of _ "j - m"])
  qed
  then show ?thesis
    using i assms Some by (auto simp: option_holds_def nth_eq_iff_index_eq)
qed

lemma in_take_position:
  assumes "distinct xs"
  shows "x \<in> set (take (Suc m) xs) \<longleftrightarrow> option_holds (\<lambda>p. p \<le> m) (position x xs)"
proof (cases "position x xs")
  case None
  then have "x \<notin> set (take (Suc m) xs)" using in_set_takeD[of x "Suc m" xs] by (auto simp: position_None)
  then show ?thesis using None by (simp add: option_holds_def)
next
  case (Some i)
  then have i: "i < length xs" "xs ! i = x" using position_bound[of x xs i] by simp_all
  have "x \<in> set (take (Suc m) xs) \<longleftrightarrow> (\<exists>j. j \<le> m \<and> j < length xs \<and> xs ! j = x)"
    by (auto simp: in_set_conv_nth less_Suc_eq_le)
  then show ?thesis
    using i assms Some by (auto simp: option_holds_def nth_eq_iff_index_eq)
qed

lemma level_conditions_agree:
  assumes v: "row key = map_option TextV t" and ok: "bounds_ok n"
  shows "agrees E rows row (level_conditions n key) (level_holds n t)"
proof -
  have d: "distinct level_values" by (simp add: level_values_def)
  have inn: "eval_cond E rows row (InC (Col key) (map TextV xs)) = Some True \<longleftrightarrow>
      option_holds (\<lambda>x. x \<in> set xs) t" for xs
    using v by (cases t) (auto simp: option_holds_def)
  have pos: "option_holds (\<lambda>x. option_holds P (position x level_values)) t
      = option_holds P (Option.bind t level_position)" for P
    by (cases t) (simp_all add: option_holds_def level_position_def)
  let ?lo = "case no_min_level n of None \<Rightarrow> Ok []
     | Some m \<Rightarrow> if m \<le> length level_values then Ok [InC (Col key) (map TextV (drop m level_values))]
         else Err (Panic ''range start index out of range'')"
  let ?hi = "case no_max_level n of None \<Rightarrow> Ok []
     | Some m \<Rightarrow> if m < length level_values then Ok [InC (Col key) (map TextV (take (Suc m) level_values))]
         else Err (Panic ''range end index out of range'')"
  let ?min = "case no_min_level n of None \<Rightarrow> True
     | Some m \<Rightarrow> option_holds (\<lambda>p. m \<le> p) (Option.bind t level_position)"
  let ?max = "case no_max_level n of None \<Rightarrow> True
     | Some m \<Rightarrow> option_holds (\<lambda>p. p \<le> m) (Option.bind t level_position)"
  have "agrees E rows row ?lo ?min"
  proof (cases "no_min_level n")
    case (Some m)
    then have "m \<le> length level_values" using ok by (simp add: bounds_ok_def)
    then show ?thesis
      using Some by (simp add: agrees_Ok inn in_drop_position[OF d] pos del: eval_cond.simps)
  qed (simp add: agrees_Ok)
  moreover have "agrees E rows row ?hi ?max"
  proof (cases "no_max_level n")
    case (Some m)
    then have "m < length level_values" using ok by (simp add: bounds_ok_def)
    then show ?thesis
      using Some by (simp add: agrees_Ok inn in_take_position[OF d] pos del: eval_cond.simps)
  qed (simp add: agrees_Ok)
  ultimately have "agrees E rows row (try_concat [?lo, ?hi]) (\<forall>b \<in> set [?min, ?max]. b)"
    by (intro agrees_try_concat) simp
  then show ?thesis by (simp add: level_conditions_def level_holds_def Let_def)
qed


section \<open>Computed predicates\<close>

lemma eval_shape_condition:
  assumes E: "engine_ok cd D E" and cd: "codecs_ok cd" and rep: "represents cd E D s row js"
    and q: "q \<in> set (sch_computed s)"
  shows "eval_cond E rows row (shape_condition q D) = Some (option_holds (shape_holds cd (cp_shape q)) (js (cp_column q)))"
proof (cases "cp_shape q = Present")
  case True
  then show ?thesis
    using rep q
    by (force simp: represents_def shape_condition_def shape_holds_def option_holds_def split: option.splits)
next
  case False
  then obtain x where x: "row (cp_column q) = Some (TextV x)"
    "Option.bind (js (cp_column q)) (cd_json_string cd) = Some x"
    using conjunct2[OF rep[unfolded represents_def], rule_format, OF q] by (cases "cp_shape q") auto
  then obtain raw where raw: "js (cp_column q) = Some raw" "cd_json_string cd raw = Some x"
    by (auto simp: bind_eq_Some_conv)
  have pat: "eval_cond E rows row (match_text_patterns (Col (cp_column q)) kind [''__''] D False)
      = Some (text_matches x kind ''__'')" for kind
  proof -
    have "eval_expr E row (Col (cp_column q)) = map_option TextV (Some x)" using x by simp
    from eval_text_pattern[OF E cd this, of False "''__''" rows kind]
    have iff: "eval_cond E rows row (text_pattern (Col (cp_column q)) kind D False ''__'') = Some True
        \<longleftrightarrow> text_matches x kind ''__''"
      by (simp add: option_holds_def fold_case_def)
    have "\<exists>b. eval_cond E rows row (text_pattern (Col (cp_column q)) kind D False ''__'') = Some b"
      using x by (cases D) (simp_all add: text_pattern_def Let_def)
    then show ?thesis using iff by (auto simp: match_text_patterns_def any_of_def)
  qed
  have conj: "sql_and (Some a) (Some b) = Some (a \<and> b)" for a b by (cases a; cases b) simp_all
  show ?thesis
    using False x raw
    by (cases "cp_shape q")
      (auto simp: shape_condition_def shape_holds_def option_holds_def pat conj text_matches_def Let_def)
qed

lemma computed_agree:
  assumes E: "engine_ok cd D E" and cd: "codecs_ok cd" and rep: "represents cd E D s row js"
    and ok: "computed_ok s (no_computed n)"
  shows "try_conj (computed_checks cd n js) = Ok (where_holds E rows (computed_conditions n D) row)"
proof -
  let ?check = "\<lambda>(q, sense). Ok (option_holds (shape_holds cd (cp_shape q)) (js (cp_column q)) = sense)
    :: (panic, bool) result"
  let ?cond = "\<lambda>(q, sense). if sense then shape_condition q D else NotC (shape_condition q D)"
  have one: "?check qs = Ok (eval_cond E rows row (?cond qs) = Some True)" if "qs \<in> set (no_computed n)" for qs
  proof -
    obtain q sense where qs: "qs = (q, sense)" by (cases qs)
    have "q \<in> set (sch_computed s)" using ok that qs by (auto simp: computed_ok_def list_all_iff)
    then show ?thesis
      using eval_shape_condition[OF E cd rep, of q rows] qs by (cases sense) (simp_all add: sql_not_def)
  qed
  have "try_conj (map ?check qss) = Ok (where_holds E rows (map ?cond qss) row)"
    if "set qss \<subseteq> set (no_computed n)" for qss
    using that by (induction qss) (simp_all add: one)
  then show ?thesis by (simp add: computed_checks_def computed_conditions_def)
qed

section \<open>Fields and nodes\<close>

definition schema_declared :: "schema \<Rightarrow> bool" where
  "schema_declared s \<longleftrightarrow> fields_distinct s \<and> (\<forall>f \<in> set (sch_fields s). operations_declared f)"

lemma values_of_ok:
  assumes "own_ok s n" and "fields_distinct s" and "f \<in> set (sch_fields s)" and "values_of n f = Some v"
  shows "values_ok f v"
proof -
  have "(ff_key f, v) \<in> set (no_equalities n)"
    using assms(4) by (auto simp: values_of_def dest: map_of_SomeD)
  then obtain g where "g \<in> set (sch_fields s)" "ff_key g = ff_key f" "values_ok g v"
    using assms(1) by (auto simp: own_ok_def equalities_ok_def)
  then show ?thesis using assms(2,3) by (auto simp: fields_distinct_def distinct_map inj_on_def)
qed

lemma operation_of_ok:
  assumes "own_ok s n" and "fields_distinct s" and "f \<in> set (sch_fields s)" and "operation_of n f kind = Some held"
  shows "operation_ok held \<and> of_field held = f \<and> of_kind held = kind"
proof -
  have "held \<in> set (no_operations n)" "ff_key (of_field held) = ff_key f" "of_kind held = kind"
    using assms(4) find_Some_member by (fastforce simp: operation_of_def)+
  moreover have "of_field held \<in> set (sch_fields s)" "operation_ok held"
    using assms(1) calculation(1) by (auto simp: own_ok_def operations_ok_def)
  ultimately show ?thesis using assms(2,3) by (auto simp: fields_distinct_def distinct_map inj_on_def)
qed

text \<open>Everything a field's agreement needs, in one place.\<close>

definition agreement ::
  "codecs \<Rightarrow> sql_engine \<Rightarrow> sql_dialect \<Rightarrow> schema \<Rightarrow> row \<Rightarrow> json_fields \<Rightarrow> bool" where
  "agreement cd E D s row js \<longleftrightarrow>
     engine_ok cd D E \<and> codecs_ok cd \<and> schema_declared s \<and> represents cd E D s row js"

lemma agreementD:
  assumes "agreement cd E D s row js"
  shows "engine_ok cd D E" and "codecs_ok cd" and "schema_declared s" and "represents cd E D s row js"
    and "fields_distinct s"
  using assms by (simp_all add: agreement_def schema_declared_def)

lemma agreement_field:
  "agreement cd E D s row js \<Longrightarrow> f \<in> set (sch_fields s) \<Longrightarrow>
     column_represents cd E D (ff_family f) (row (ff_key f)) (js (ff_key f))"
  by (simp add: agreement_def represents_def)

abbreviation field_text :: "codecs \<Rightarrow> json_fields \<Rightarrow> filter_field \<Rightarrow> str option" where
  "field_text cd js f \<equiv> Option.bind (js (ff_key f)) (cd_json_string cd)"

lemma values_part_agrees:
  assumes A: "agreement cd E D s row js" and ok: "own_ok s n" and comp: "own_comparable cd D s js now n"
    and f: "f \<in> set (sch_fields s)"
  shows "agrees E rows row (Ok (map (values_condition cd D f) (option_list (values_of n f))))
    (case values_of n f of None \<Rightarrow> True | Some v \<Rightarrow> values_hold cd v (ff_family f) (js (ff_key f)) (field_text cd js f))"
proof (cases "values_of n f")
  case (Some v)
  have "eval_cond E rows row (values_condition cd D f v) = Some True \<longleftrightarrow>
      values_hold cd v (ff_family f) (js (ff_key f)) (field_text cd js f)"
    using agreementD(2)[OF A] agreement_field[OF A f] values_of_ok[OF ok agreementD(5)[OF A] f Some]
    by (rule eval_values_condition) (use comp f Some in \<open>auto simp: own_comparable_def\<close>)
  then show ?thesis using Some by (simp add: agrees_Ok option_list_def)
qed (simp add: agrees_Ok option_list_def)

lemma operations_part_agrees:
  assumes A: "agreement cd E D s row js" and ok: "own_ok s n" and comp: "own_comparable cd D s js now n"
    and f: "f \<in> set (sch_fields s)"
  shows "agrees E rows row (operation_conditions D n f)
    (\<forall>op \<in> set (ff_operations f). case operation_of n f (op_kind op) of None \<Rightarrow> True
       | Some held \<Rightarrow> operation_holds cd f op held (js (ff_key f)) (field_text cd js f))"
proof -
  let ?cond = "\<lambda>op. case operation_of n f (op_kind op) of None \<Rightarrow> Ok [] | Some held \<Rightarrow> operation_condition D f op held"
  let ?check = "\<lambda>op. case operation_of n f (op_kind op) of None \<Rightarrow> True
       | Some held \<Rightarrow> operation_holds cd f op held (js (ff_key f)) (field_text cd js f)"
  have one: "agrees E rows row (?cond op) (?check op)" if op: "op \<in> set (ff_operations f)" for op
  proof (cases "operation_of n f (op_kind op)")
    case (Some held)
    have carries: "family_carries_operations (ff_family f)"
      using agreementD(3)[OF A] f op by (auto simp: schema_declared_def operations_declared_def)
    have cmp: "operation_comparable cd D f op (of_values held) (js (ff_key f))"
      using comp f op Some by (simp add: own_comparable_def)
    have "operation_ok held" "ff_family (of_field held) = ff_family f"
      using operation_of_ok[OF ok agreementD(5)[OF A] f Some] by simp_all
    then have "agrees E rows row (operation_condition D f op held)
        (operation_holds cd f op held (js (ff_key f)) (field_text cd js f))"
      using agreementD(1,2)[OF A] agreement_field[OF A f] carries cmp by (intro operation_agrees)
    then show ?thesis using Some by simp
  qed (simp add: agrees_Ok)
  have "list_all2 (agrees E rows row) (map ?cond (ff_operations f)) (map ?check (ff_operations f))"
    using one by (simp add: list_all2_conv_all_nth)
  from agrees_try_concat[OF this] show ?thesis by (simp add: operation_conditions_def)
qed


lemma address_part_agrees:
  assumes A: "agreement cd E D s row js" and ok: "own_ok s n" and f: "f \<in> set (sch_fields s)"
  shows "\<exists>b. (if ff_family f = Address
       then (case no_address n of None \<Rightarrow> Ok True
             | Some S \<Rightarrow> (case field_text cd js f of None \<Rightarrow> Ok False | Some a \<Rightarrow> selector_matches S a (no_root n)))
       else Ok True) = Ok b
    \<and> agrees E rows row (if True \<and> ff_family f = Address
         then (case no_address n of None \<Rightarrow> Ok []
               | Some S \<Rightarrow> try_then (selector_condition S (ff_key f) (no_root n) D) (\<lambda>c. Ok [c]))
         else Ok []) b"
proof (cases "ff_family f = Address \<and> no_address n \<noteq> None")
  case True
  then obtain S where S: "no_address n = Some S" "selector_ok S" "root_ok (no_root n)"
    using ok by (auto simp: own_ok_def)
  obtain a where a: "row (ff_key f) = Some (TextV a)" "field_text cd js f = Some a"
    using agreement_field[OF A f] True by (auto simp: column_represents_def)
  have laws: "like_law D E" "glob_law E" using agreementD(1)[OF A] by (auto simp: engine_ok_def)
  show ?thesis
    using selector_condition_total[OF laws S(2,3), of row "ff_key f" a rows, OF a(1)]
      selector_matches_total[OF S(2,3), of a] S(1) a(2) True
    by (auto simp: agrees_def)
next
  case False
  then show ?thesis by (auto simp: agrees_Ok)
qed

lemma family_part_agrees:
  assumes A: "agreement cd E D s row js" and ok: "own_ok s n" and comp: "own_comparable cd D s js now n"
    and f: "f \<in> set (sch_fields s)"
  shows "\<exists>b. (case ff_family f of
         Timestamp \<Rightarrow>
           (case record_timestamp cd (field_text cd js f) of None \<Rightarrow> Ok (\<not> needs_timestamp n)
            | Some stamp \<Rightarrow> timestamp_matches cd n stamp now)
       | Level \<Rightarrow> Ok (level_holds n (field_text cd js f))
       | _ \<Rightarrow> Ok True) = Ok b
    \<and> agrees E rows row (case ff_family f of
           Timestamp \<Rightarrow>
             try_concat [window_conditions cd D n (ff_key f) now,
               subsample_conditions cd D n (ff_key f) now, Ok (clock_conditions n (ff_key f))]
         | Level \<Rightarrow> level_conditions n (ff_key f)
         | _ \<Rightarrow> Ok []) b"
proof -
  note rep = agreement_field[OF A f]
  have bc: "bounds_comparable cd n now" and sub: "no_subsample_every n = None" "no_subsample n = None"
    using comp by (auto simp: own_comparable_def)
  consider "ff_family f = Timestamp" | "ff_family f = Level" | "ff_family f \<notin> {Timestamp, Level}" by auto
  then show ?thesis
  proof cases
    case 1
    then obtain x where x: "stamp_ok x" "row (ff_key f) = Some (timestamp_value cd x D)"
      "record_timestamp cd (field_text cd js f) = Some x"
      using rep by (auto simp: column_represents_def Let_def)
    let ?clock = "clock_holds (hour_window n) (cd_clock cd Hour x) \<and> clock_holds (minute_window n) (cd_clock cd Minute x)"
    have "agrees E rows row (try_concat [window_conditions cd D n (ff_key f) now,
        subsample_conditions cd D n (ff_key f) now, Ok (clock_conditions n (ff_key f))])
        (\<forall>b \<in> set [window_holds cd n now x, True, ?clock]. b)"
    proof (rule agrees_try_concat, intro list_all2_Cons[THEN iffD2] conjI)
      show "agrees E rows row (window_conditions cd D n (ff_key f) now) (window_holds cd n now x)"
        using agreementD(2)[OF A] x(1,2) bc by (rule window_conditions_agree)
      show "agrees E rows row (Ok (clock_conditions n (ff_key f))) ?clock"
        using clock_conditions_hold[OF agreementD(1)[OF A] x(1), of row "ff_key f", OF x(2)]
        by (simp add: agrees_Ok)
    qed (simp_all add: agrees_Ok subsample_conditions_def sub)
    then show ?thesis using 1 x(3) timestamp_matches_total[OF bc, of x] by simp
  next
    case 2
    then have "row (ff_key f) = map_option TextV (field_text cd js f)"
      using column_represents_text[OF rep] by simp
    then have "agrees E rows row (level_conditions n (ff_key f)) (level_holds n (field_text cd js f))"
      using own_ok_bounds[OF ok] by (rule level_conditions_agree)
    then show ?thesis using 2 by simp
  next
    case 3
    then have "(case ff_family f of Timestamp \<Rightarrow> x | Level \<Rightarrow> y | _ \<Rightarrow> z) = z"
      for x y and z :: "(panic, 'z) result"
      by (cases "ff_family f") auto
    then show ?thesis using 3 by (cases "ff_family f") (auto simp: agrees_Ok)
  qed
qed

lemma field_agrees:
  assumes A: "agreement cd E D s row js" and ok: "own_ok s n" and comp: "own_comparable cd D s js now n"
    and f: "f \<in> set (sch_fields s)"
  shows "\<exists>b. try_conj (field_checks cd n js now f) = Ok b
    \<and> agrees E rows row (field_conditions cd D n now True f) b"
proof -
  obtain ba where ba: "(if ff_family f = Address
       then (case no_address n of None \<Rightarrow> Ok True
             | Some S \<Rightarrow> (case field_text cd js f of None \<Rightarrow> Ok False | Some a \<Rightarrow> selector_matches S a (no_root n)))
       else Ok True) = Ok ba"
    and aa: "agrees E rows row (if True \<and> ff_family f = Address
         then (case no_address n of None \<Rightarrow> Ok []
               | Some S \<Rightarrow> try_then (selector_condition S (ff_key f) (no_root n) D) (\<lambda>c. Ok [c]))
         else Ok []) ba"
    using address_part_agrees[OF A ok f] by blast
  obtain bf where bf: "(case ff_family f of
         Timestamp \<Rightarrow>
           (case record_timestamp cd (field_text cd js f) of None \<Rightarrow> Ok (\<not> needs_timestamp n)
            | Some stamp \<Rightarrow> timestamp_matches cd n stamp now)
       | Level \<Rightarrow> Ok (level_holds n (field_text cd js f))
       | _ \<Rightarrow> Ok True) = Ok bf"
    and af: "agrees E rows row (case ff_family f of
           Timestamp \<Rightarrow>
             try_concat [window_conditions cd D n (ff_key f) now,
               subsample_conditions cd D n (ff_key f) now, Ok (clock_conditions n (ff_key f))]
         | Level \<Rightarrow> level_conditions n (ff_key f)
         | _ \<Rightarrow> Ok []) bf"
    using family_part_agrees[OF A ok comp f] by blast
  let ?v = "case values_of n f of None \<Rightarrow> True | Some v \<Rightarrow> values_hold cd v (ff_family f) (js (ff_key f)) (field_text cd js f)"
  let ?op = "\<lambda>op. case operation_of n f (op_kind op) of None \<Rightarrow> True
       | Some held \<Rightarrow> operation_holds cd f op held (js (ff_key f)) (field_text cd js f)"
  have conds: "agrees E rows row (field_conditions cd D n now True f)
      (\<forall>b \<in> set [?v, \<forall>op \<in> set (ff_operations f). ?op op, ba, bf]. b)"
    unfolding field_conditions_def
    using values_part_agrees[OF A ok comp f] operations_part_agrees[OF A ok comp f] aa af
    by (intro agrees_try_concat) simp
  have ops: "try_conj (map (\<lambda>op. case operation_of n f (op_kind op) of None \<Rightarrow> Ok True
      | Some held \<Rightarrow> Ok (operation_holds cd f op held (js (ff_key f)) (field_text cd js f))) ops)
      = (Ok (\<forall>op \<in> set ops. ?op op) :: (panic, bool) result)" for ops
    by (induction ops) (auto split: option.splits)
  have vals: "(case values_of n f of None \<Rightarrow> Ok True
      | Some v \<Rightarrow> Ok (values_hold cd v (ff_family f) (js (ff_key f)) (field_text cd js f)))
      = (Ok ?v :: (panic, bool) result)"
    by (cases "values_of n f") simp_all
  have checks: "try_conj (field_checks cd n js now f)
      = Ok (\<forall>b \<in> set [?v, \<forall>op \<in> set (ff_operations f). ?op op, ba, bf]. b)"
    unfolding field_checks_def Let_def try_all_append ops ba bf vals by auto
  show ?thesis by (rule exI, rule conjI[OF checks conds])
qed

lemma fields_agree:
  assumes A: "agreement cd E D s row js" and ok: "own_ok s n" and comp: "own_comparable cd D s js now n"
    and "set fs \<subseteq> set (sch_fields s)"
  shows "\<exists>bs. try_conj (concat (map (field_checks cd n js now) fs)) = Ok (\<forall>b \<in> set bs. b)
    \<and> list_all2 (agrees E rows row) (map (field_conditions cd D n now True) fs) bs"
  using assms(4)
proof (induction fs)
  case Nil
  then show ?case by (intro exI[of _ "[]"]) simp
next
  case (Cons f fs)
  then obtain bs where bs: "try_conj (concat (map (field_checks cd n js now) fs)) = Ok (\<forall>b \<in> set bs. b)"
    "list_all2 (agrees E rows row) (map (field_conditions cd D n now True) fs) bs"
    by auto
  have "f \<in> set (sch_fields s)" using Cons.prems by simp
  then obtain b where b: "try_conj (field_checks cd n js now f) = Ok b"
    "agrees E rows row (field_conditions cd D n now True f) b"
    using field_agrees[OF A ok comp] by blast
  show ?case
    using bs b by (intro exI[of _ "b # bs"]) (simp add: try_all_append)
qed

lemma own_agrees:
  assumes A: "agreement cd E D s row js" and ok: "own_ok s n" and comp: "own_comparable cd D s js now n"
  shows "\<exists>b. matches_own cd s n js now = Ok b
    \<and> agrees E rows row (conditions_with_address cd s D now True n) b"
proof -
  obtain bs where bs: "try_conj (concat (map (field_checks cd n js now) (sch_fields s))) = Ok (\<forall>b \<in> set bs. b)"
    "list_all2 (agrees E rows row) (map (field_conditions cd D n now True) (sch_fields s)) bs"
    using fields_agree[OF A ok comp order_refl] by blast
  have c: "try_conj (computed_checks cd n js) = Ok (where_holds E rows (computed_conditions n D) row)"
    using computed_agree[OF agreementD(1,2,4)[OF A]] ok by (simp add: own_ok_def)
  have "agrees E rows row (conditions_with_address cd s D now True n)
      (\<forall>b \<in> set ((\<not> no_impossible n) # where_holds E rows (computed_conditions n D) row # bs). b)"
    unfolding conditions_with_address_def append_Cons append_Nil
    using bs(2) by (intro agrees_try_concat) (simp add: agrees_Ok)
  moreover have "matches_own cd s n js now
      = Ok (\<forall>b \<in> set ((\<not> no_impossible n) # where_holds E rows (computed_conditions n D) row # bs). b)"
    using bs(1) c by (simp add: matches_own_def try_all_append)
  ultimately show ?thesis by (intro exI conjI)
qed

lemma node_agrees:
  assumes A: "agreement cd E D s row js"
  shows "node_ok s t \<Longrightarrow> comparable cd D s js now t \<Longrightarrow>
    \<exists>b. node_matches cd s js now t = Ok b
      \<and> agrees E rows row (combined_conditions cd s D now True t) b"
proof (induction t)
  case (FilterNode n ands ors)
  obtain b where b: "matches_own cd s n js now = Ok b"
    "agrees E rows row (conditions_with_address cd s D now True n) b"
    using own_agrees[OF A, of n now rows] FilterNode.prems by auto
  then obtain own where own: "conditions_with_address cd s D now True n = Ok own"
    "where_holds E rows own row \<longleftrightarrow> b"
    by (auto simp: agrees_def)
  have sub: "\<exists>b. node_matches cd s js now c = Ok b \<and> agrees E rows row (combined_conditions cd s D now True c) b"
    if "c \<in> set ands \<union> set ors" for c
    using that FilterNode by auto
  define m where "m = (\<lambda>c. case node_matches cd s js now c of Inr b \<Rightarrow> b | Inl _ \<Rightarrow> False)"
  define q where "q = (\<lambda>c. case combined_conditions cd s D now True c of Inr cs \<Rightarrow> cs | Inl _ \<Rightarrow> [])"
  have m: "node_matches cd s js now c = Ok (m c)" and q: "combined_conditions cd s D now True c = Ok (q c)"
    and mq: "where_holds E rows (q c) row \<longleftrightarrow> m c" if "c \<in> set ands \<union> set ors" for c
    using sub[OF that] by (auto simp: m_def q_def agrees_def)
  have maps: "try_map (combined_conditions cd s D now True) ands = Ok (map q ands)"
    "try_map (combined_conditions cd s D now True) ors = Ok (map q ors)"
    using q by (auto intro: try_map_total)
  have all: "try_all (node_matches cd s js now) ands = Ok (\<forall>c \<in> set ands. m c)"
    "try_any (node_matches cd s js now) ors = Ok (\<exists>c \<in> set ors. m c)"
    using m by (auto intro: try_all_total try_any_total)
  let ?conj = "own @ concat (map q ands)"
  have conj: "where_holds E rows ?conj row \<longleftrightarrow> b \<and> (\<forall>c \<in> set ands. m c)"
    using own(2) mq by (auto simp: where_holds_append) (auto simp: where_holds_def)
  have match: "node_matches cd s js now (FilterNode n ands ors)
      = Ok (b \<and> (\<forall>c \<in> set ands. m c) \<or> (\<exists>c \<in> set ors. m c))"
    using b(1) all by auto
  show ?case
  proof (cases "ors = []")
    case True
    then show ?thesis using match own(1) maps(1) conj by (auto simp: agrees_Ok)
  next
    case False
    let ?group = "\<lambda>g. if g = [] then BoolC True else all_of g"
    let ?terms = "(if ?conj = [] then [] else [all_of ?conj]) @ map ?group (map q ors)"
    have group: "eval_cond E rows row (?group (q c)) = Some True \<longleftrightarrow> m c" if "c \<in> set ors" for c
      using mq[of c] that by (auto simp: eval_all_of)
    have cond: "combined_conditions cd s D now True (FilterNode n ands ors) = Ok [any_of ?terms]"
      using False own(1) maps by (simp add: Let_def)
    have nonempty: "?conj \<noteq> []"
      using FilterNode.prems(2) False own(1) q by (auto simp: list_ex_iff)
    have "eval_cond E rows row (any_of ?terms) = Some True \<longleftrightarrow>
        (\<exists>t \<in> set ?terms. eval_cond E rows row t = Some True)"
      by (rule eval_any_of)
    also have "\<dots> \<longleftrightarrow> eval_cond E rows row (all_of ?conj) = Some True
        \<or> (\<exists>c \<in> set ors. eval_cond E rows row (?group (q c)) = Some True)"
      using nonempty unfolding list.map_comp o_def
      by (simp only: if_False set_append list.set set_map bex_Un bex_simps insert_is_Un[symmetric] HOL.simp_thms)
    also have "\<dots> \<longleftrightarrow> where_holds E rows ?conj row \<or> (\<exists>c \<in> set ors. m c)"
      using group eval_all_of[of E rows row ?conj] by simp
    finally show ?thesis
      using match cond conj by (auto simp: agrees_Ok where_holds_def)
  qed
qed

end
