(* ===== verification/Decode.thy ===== *)
theory Decode
  imports Writer Filter_Agree
begin

text \<open>
  Decoding rows (\<open>records.rs\<close>, \<open>entities.rs\<close>, \<open>turso.rs\<close>): the \<open>FieldRead\<close> accessors of the three
  backends, the \<open>FromRow\<close> mapping of every record and entity, and that what the writer bound reads
  back, also through a flush. A \<open>FieldRead\<close> is the record of its accessors. SQLite keeps a boolean
  as an integer 0 or 1, which is the value \<open>BoolV\<close>; real numbers, which a JSON column can only hold
  as an entity's value, are left out.
\<close>

section \<open>Reading fields\<close>

datatype decode_error =
    WrongType str
  | NotUuid str
  | NotTimestamp str
  | NotJson str
  | NotObject str
  | NotDirection str
  | NotLevel str
  | NotTargetType str
  | NotAccessLevel str

text \<open>
  The drivers and parsers: how \<open>sqlx\<close> and the stored format read a timestamp's text, JSON text
  parsed and rendered again, and whether a rendered document is an object.
\<close>

record decode_lib =
  dl_stamp_sqlx :: "str \<Rightarrow> int option"
  dl_stamp_format :: "str \<Rightarrow> int option"
  dl_json :: "str \<Rightarrow> str option"
  dl_is_object :: "str \<Rightarrow> bool"
  dl_int_text :: "int \<Rightarrow> str"

record field_read =
  fr_text :: "str \<Rightarrow> (decode_error, str) result"
  fr_optional_text :: "str \<Rightarrow> (decode_error, str option) result"
  fr_uuid :: "str \<Rightarrow> (decode_error, 128 word) result"
  fr_optional_uuid :: "str \<Rightarrow> (decode_error, 128 word option) result"
  fr_timestamp :: "str \<Rightarrow> (decode_error, int) result"
  fr_boolean :: "str \<Rightarrow> (decode_error, bool) result"
  fr_blob :: "str \<Rightarrow> (decode_error, byte list) result"
  fr_json :: "str \<Rightarrow> (decode_error, str) result"
  fr_json_object :: "str \<Rightarrow> (decode_error, str) result"
  fr_object :: "str \<Rightarrow> str \<Rightarrow> (decode_error, str) result"

definition ok_or :: "'e \<Rightarrow> 'a option \<Rightarrow> ('e, 'a) result" where
  "ok_or e v = (case v of None \<Rightarrow> Err e | Some a \<Rightarrow> Ok a)"

text \<open>What a driver gives for a column of the type asked for.\<close>

definition get_text :: "row \<Rightarrow> str \<Rightarrow> (decode_error, str) result" where
  "get_text r c = (case r c of Some (TextV t) \<Rightarrow> Ok t | _ \<Rightarrow> Err (WrongType c))"

definition get_optional_text :: "row \<Rightarrow> str \<Rightarrow> (decode_error, str option) result" where
  "get_optional_text r c =
     (case r c of None \<Rightarrow> Ok None | Some (TextV t) \<Rightarrow> Ok (Some t) | _ \<Rightarrow> Err (WrongType c))"

definition get_bool :: "row \<Rightarrow> str \<Rightarrow> (decode_error, bool) result" where
  "get_bool r c = (case r c of Some (BoolV b) \<Rightarrow> Ok b | _ \<Rightarrow> Err (WrongType c))"

definition get_bytes :: "row \<Rightarrow> str \<Rightarrow> (decode_error, byte list) result" where
  "get_bytes r c = (case r c of Some (BytesV b) \<Rightarrow> Ok b | _ \<Rightarrow> Err (WrongType c))"

definition parse_uuid :: "codecs \<Rightarrow> str \<Rightarrow> (decode_error, 128 word) result" where
  "parse_uuid cd t = ok_or (NotUuid t) (cd_uuid_parse cd t)"

definition optional_uuid :: "codecs \<Rightarrow> row \<Rightarrow> str \<Rightarrow> (decode_error, 128 word option) result" where
  "optional_uuid cd r c = try_then (get_optional_text r c) (\<lambda>t.
     case t of None \<Rightarrow> Ok None | Some t \<Rightarrow> try_then (parse_uuid cd t) (\<lambda>u. Ok (Some u)))"

text \<open>\<open>json_text\<close>: a document stored as text, which must be an object.\<close>

definition json_text_object :: "decode_lib \<Rightarrow> str \<Rightarrow> (decode_error, str) result" where
  "json_text_object L t = try_then (ok_or (NotJson t) (dl_json L t)) (\<lambda>j.
     if dl_is_object L j then Ok j else Err (NotJson t))"

text \<open>\<open>json_value\<close>: a document delivered as a value.\<close>

definition json_value_object :: "decode_lib \<Rightarrow> str \<Rightarrow> (decode_error, str) result" where
  "json_value_object L j = (if dl_is_object L j then Ok j else Err (NotObject j))"

definition sqlite_json :: "decode_lib \<Rightarrow> row \<Rightarrow> str \<Rightarrow> (decode_error, str) result" where
  "sqlite_json L r c =
     (case r c of
        Some (TextV t) \<Rightarrow> ok_or (NotJson t) (dl_json L t)
      | Some (IntV i) \<Rightarrow> Ok (dl_int_text L i)
      | Some (BoolV b) \<Rightarrow> Ok (dl_int_text L (if b then 1 else 0))
      | None \<Rightarrow> Ok ''null''
      | _ \<Rightarrow> Err (WrongType c))"

definition sqlite_row :: "codecs \<Rightarrow> decode_lib \<Rightarrow> row \<Rightarrow> field_read" where
  "sqlite_row cd L r =
     \<lparr>fr_text = get_text r,
      fr_optional_text = get_optional_text r,
      fr_uuid = (\<lambda>c. try_then (get_text r c) (parse_uuid cd)),
      fr_optional_uuid = optional_uuid cd r,
      fr_timestamp = (\<lambda>c. try_then (get_text r c) (\<lambda>t. ok_or (WrongType c) (dl_stamp_sqlx L t))),
      fr_boolean = get_bool r,
      fr_blob = get_bytes r,
      fr_json = sqlite_json L r,
      fr_json_object = (\<lambda>c. try_then (get_text r c) (json_text_object L)),
      fr_object = (\<lambda>c what. try_then (get_text r c) (json_text_object L))\<rparr>"

definition pg_json :: "row \<Rightarrow> str \<Rightarrow> (decode_error, str) result" where
  "pg_json r c = (case r c of Some (JsonV j) \<Rightarrow> Ok j | _ \<Rightarrow> Err (WrongType c))"

definition pg_row :: "decode_lib \<Rightarrow> row \<Rightarrow> field_read" where
  "pg_row L r =
     \<lparr>fr_text = get_text r,
      fr_optional_text = get_optional_text r,
      fr_uuid = (\<lambda>c. case r c of Some (UuidV u) \<Rightarrow> Ok u | _ \<Rightarrow> Err (WrongType c)),
      fr_optional_uuid = (\<lambda>c. case r c of None \<Rightarrow> Ok None | Some (UuidV u) \<Rightarrow> Ok (Some u) | _ \<Rightarrow> Err (WrongType c)),
      fr_timestamp = (\<lambda>c. case r c of Some (StampV s) \<Rightarrow> Ok s | _ \<Rightarrow> Err (WrongType c)),
      fr_boolean = get_bool r,
      fr_blob = get_bytes r,
      fr_json = pg_json r,
      fr_json_object = (\<lambda>c. try_then (pg_json r c) (json_value_object L)),
      fr_object = (\<lambda>c what. try_then (pg_json r c) (json_value_object L))\<rparr>"

text \<open>Turso's accessors, over the same stored forms as SQLite's.\<close>

definition turso_boolean :: "row \<Rightarrow> str \<Rightarrow> (decode_error, bool) result" where
  "turso_boolean r c =
     (case r c of Some (BoolV b) \<Rightarrow> Ok b | Some (IntV i) \<Rightarrow> Ok (i \<noteq> 0) | _ \<Rightarrow> Err (WrongType c))"

definition turso_row :: "codecs \<Rightarrow> decode_lib \<Rightarrow> row \<Rightarrow> field_read" where
  "turso_row cd L r =
     \<lparr>fr_text = get_text r,
      fr_optional_text = get_optional_text r,
      fr_uuid = (\<lambda>c. try_then (get_text r c) (parse_uuid cd)),
      fr_optional_uuid = optional_uuid cd r,
      fr_timestamp = (\<lambda>c. try_then (get_text r c) (\<lambda>t. ok_or (NotTimestamp t) (dl_stamp_format L t))),
      fr_boolean = turso_boolean r,
      fr_blob = get_bytes r,
      fr_json = sqlite_json L r,
      fr_json_object = (\<lambda>c. try_then (get_text r c) (json_text_object L)),
      fr_object = (\<lambda>c what. try_then (sqlite_json L r c) (\<lambda>j.
        if dl_is_object L j then Ok j else Err (NotObject what)))\<rparr>"

section \<open>Rows to records and entities\<close>

definition direction_of :: "str \<Rightarrow> (decode_error, message_direction) result" where
  "direction_of t =
     (if t = ''send'' then Ok Send else if t = ''receive'' then Ok Receive else Err (NotDirection t))"

definition level_parse :: "str \<Rightarrow> (str, level) result" where
  "level_parse t =
     (if t = ''debug'' then Ok Debug
      else if t = ''info'' then Ok Info
      else if t = ''warning'' then Ok Warning
      else if t = ''error'' then Ok Error
      else if t = ''critical'' then Ok Critical
      else Err (''invalid level '' @ t))"

definition level_of :: "str \<Rightarrow> (decode_error, level) result" where
  "level_of t = (case level_parse t of Inl e \<Rightarrow> Err (NotLevel e) | Inr l \<Rightarrow> Ok l)"

definition target_type_parse :: "str \<Rightarrow> permission_target_type option" where
  "target_type_parse t =
     (if t = ''component'' then Some TargetComponent
      else if t = ''tag'' then Some TargetTag
      else if t = ''all'' then Some TargetAll
      else None)"

definition grant_level_parse :: "str \<Rightarrow> grant_level option" where
  "grant_level_parse t =
     (if t = ''view'' then Some View
      else if t = ''operate'' then Some Operate
      else if t = ''manage'' then Some Manage
      else None)"

definition message_from_row :: "field_read \<Rightarrow> (decode_error, message) result" where
  "message_from_row r =
     try_then (fr_uuid r ''id'') (\<lambda>i.
     try_then (fr_text r ''address'') (\<lambda>address.
     try_then (fr_timestamp r ''timestamp'') (\<lambda>stamp.
     try_then (fr_optional_text r ''connection'') (\<lambda>connection.
     try_then (try_then (fr_text r ''direction'') direction_of) (\<lambda>direction.
     try_then (fr_blob r ''data'') (\<lambda>data.
       Ok \<lparr>ms_id = i, ms_address = address, ms_timestamp = stamp, ms_connection = connection,
           ms_direction = direction, ms_data = data\<rparr>))))))"

definition particle_from_row :: "field_read \<Rightarrow> (decode_error, particle) result" where
  "particle_from_row r =
     try_then (fr_uuid r ''id'') (\<lambda>i.
     try_then (fr_text r ''address'') (\<lambda>address.
     try_then (fr_timestamp r ''timestamp'') (\<lambda>stamp.
     try_then (fr_optional_text r ''connection'') (\<lambda>connection.
     try_then (fr_text r ''type'') (\<lambda>kind.
     try_then (fr_json_object r ''data'') (\<lambda>data.
       Ok \<lparr>pa_id = i, pa_address = address, pa_timestamp = stamp, pa_connection = connection,
           pa_kind = kind, pa_data = data, pa_span = None\<rparr>))))))"

definition alert_from_row :: "field_read \<Rightarrow> (decode_error, alert) result" where
  "alert_from_row r =
     try_then (fr_uuid r ''id'') (\<lambda>i.
     try_then (fr_text r ''address'') (\<lambda>address.
     try_then (fr_timestamp r ''timestamp'') (\<lambda>stamp.
     try_then (try_then (fr_text r ''level'') level_of) (\<lambda>lvl.
     try_then (fr_text r ''type'') (\<lambda>kind.
     try_then (fr_json_object r ''data'') (\<lambda>data.
       Ok \<lparr>al_id = i, al_address = address, al_timestamp = stamp, al_level = lvl,
           al_kind = kind, al_data = data\<rparr>))))))"

definition log_entry_from_row :: "field_read \<Rightarrow> (decode_error, log_entry) result" where
  "log_entry_from_row r =
     try_then (fr_uuid r ''id'') (\<lambda>i.
     try_then (fr_text r ''address'') (\<lambda>address.
     try_then (fr_timestamp r ''timestamp'') (\<lambda>stamp.
     try_then (try_then (fr_text r ''level'') level_of) (\<lambda>lvl.
     try_then (fr_text r ''content'') (\<lambda>content.
       Ok \<lparr>le_id = i, le_address = address, le_timestamp = stamp, le_level = lvl, le_content = content\<rparr>)))))"

definition decode_records :: "record_table \<Rightarrow> field_read list \<Rightarrow> (decode_error, records) result" where
  "decode_records t rs =
     (case t of
        Messages \<Rightarrow> try_then (try_map message_from_row rs) (\<lambda>xs. Ok (MessagesR xs))
      | Particles \<Rightarrow> try_then (try_map particle_from_row rs) (\<lambda>xs. Ok (ParticlesR xs))
      | Alerts \<Rightarrow> try_then (try_map alert_from_row rs) (\<lambda>xs. Ok (AlertsR xs))
      | Logs \<Rightarrow> try_then (try_map log_entry_from_row rs) (\<lambda>xs. Ok (LogEntriesR xs)))"

definition target_type_of :: "str \<Rightarrow> (decode_error, permission_target_type) result" where
  "target_type_of t = ok_or (NotTargetType t) (target_type_parse t)"

definition access_level_of :: "str \<Rightarrow> (decode_error, grant_level) result" where
  "access_level_of t = ok_or (NotAccessLevel t) (grant_level_parse t)"

fun entity_from_row :: "entity_table \<Rightarrow> field_read \<Rightarrow> (decode_error, entity) result" where
  "entity_from_row Users r =
     try_then (fr_uuid r ''id'') (\<lambda>i.
     try_then (fr_text r ''username'') (\<lambda>username.
     try_then (fr_text r ''email'') (\<lambda>email.
     try_then (fr_text r ''password'') (\<lambda>password.
     try_then (fr_boolean r ''admin'') (\<lambda>admin.
     try_then (fr_boolean r ''disabled'') (\<lambda>disabled.
       Ok (UserE i username email password admin disabled)))))))"
| "entity_from_row Variables r =
     try_then (fr_text r ''address'') (\<lambda>address.
     try_then (fr_text r ''name'') (\<lambda>name.
     try_then (fr_json r ''value'') (\<lambda>value. Ok (VariableE address name value))))"
| "entity_from_row Settings r =
     try_then (fr_uuid r ''user_id'') (\<lambda>user.
     try_then (fr_text r ''name'') (\<lambda>name.
     try_then (fr_json r ''value'') (\<lambda>value. Ok (SettingE user name value))))"
| "entity_from_row Workspaces r =
     try_then (fr_uuid r ''id'') (\<lambda>i.
     try_then (fr_text r ''name'') (\<lambda>name.
     try_then (fr_text r ''scope'') (\<lambda>scope.
     try_then (fr_optional_uuid r ''owner_id'') (\<lambda>owner.
     try_then (fr_boolean r ''show_when_logged_out'') (\<lambda>shown.
     try_then (fr_object r ''data'' ''a workspace's data'') (\<lambda>data.
       Ok (WorkspaceE i name scope owner shown data)))))))"
| "entity_from_row WorkspaceEdits r =
     try_then (fr_uuid r ''user_id'') (\<lambda>user.
     try_then (fr_uuid r ''workspace_id'') (\<lambda>workspace.
     try_then (fr_object r ''data'' ''a workspace edit's data'') (\<lambda>data.
       Ok (WorkspaceEditE user workspace data))))"
| "entity_from_row Groups r =
     try_then (fr_uuid r ''id'') (\<lambda>i.
     try_then (fr_text r ''name'') (\<lambda>name.
     try_then (fr_text r ''description'') (\<lambda>description. Ok (GroupE i name description))))"
| "entity_from_row GroupMemberships r =
     try_then (fr_uuid r ''user_id'') (\<lambda>user.
     try_then (fr_uuid r ''group_id'') (\<lambda>grp. Ok (GroupMembershipE user grp)))"
| "entity_from_row UserPermissions r =
     try_then (fr_uuid r ''user_id'') (\<lambda>user.
     try_then (try_then (fr_text r ''target_type'') target_type_of) (\<lambda>tt.
     try_then (fr_text r ''target'') (\<lambda>target.
     try_then (try_then (fr_text r ''level'') access_level_of) (\<lambda>lvl.
       Ok (UserPermissionE user tt target lvl)))))"
| "entity_from_row GroupPermissions r =
     try_then (fr_uuid r ''group_id'') (\<lambda>grp.
     try_then (try_then (fr_text r ''target_type'') target_type_of) (\<lambda>tt.
     try_then (fr_text r ''target'') (\<lambda>target.
     try_then (try_then (fr_text r ''level'') access_level_of) (\<lambda>lvl.
       Ok (GroupPermissionE grp tt target lvl)))))"

definition decode_entities :: "entity_table \<Rightarrow> field_read list \<Rightarrow> (decode_error, entity list) result" where
  "decode_entities t rs = try_map (entity_from_row t) rs"

section \<open>What the writer bound reads back\<close>

text \<open>
  The laws of the libraries: a rendered UUID parses to itself, a stored timestamp's text reads as
  the timestamp under both readers, and rendered JSON parses to itself.
\<close>

definition decoding_ok :: "codecs \<Rightarrow> decode_lib \<Rightarrow> bool" where
  "decoding_ok cd L \<longleftrightarrow>
     (\<forall>u. cd_uuid_parse cd (cd_uuid_text cd u) = Some u)
     \<and> (\<forall>s. stamp_ok s \<longrightarrow> dl_stamp_sqlx L (cd_timestamp_text cd s) = Some s
          \<and> dl_stamp_format L (cd_timestamp_text cd s) = Some s)"

definition document_ok :: "decode_lib \<Rightarrow> str \<Rightarrow> bool" where
  "document_ok L j \<longleftrightarrow> dl_json L j = Some j \<and> dl_is_object L j"

lemma entity_columns_listed:
  "entity_columns Users = [''id'', ''username'', ''email'', ''password'', ''admin'', ''disabled'']"
  "entity_columns Workspaces = [''id'', ''name'', ''scope'', ''owner_id'', ''show_when_logged_out'', ''data'']"
  "entity_columns WorkspaceEdits = [''user_id'', ''workspace_id'', ''data'']"
  "entity_columns Groups = [''id'', ''name'', ''description'']"
  "entity_columns GroupMemberships = [''user_id'', ''group_id'']"
  "entity_columns UserPermissions = [''user_id'', ''target_type'', ''target'', ''level'']"
  "entity_columns GroupPermissions = [''group_id'', ''target_type'', ''target'', ''level'']"
  by code_simp+

text \<open>
  What the row mappings rely on in a backend's accessors: each reads back a value of its kind in
  the form the writer binds for that backend.
\<close>

locale row_reader =
  fixes F :: "row \<Rightarrow> field_read" and D :: sql_dialect and cd :: codecs and L :: decode_lib
  assumes reads_text: "r c = Some (TextV t) \<Longrightarrow> fr_text (F r) c = Ok t"
    and reads_optional_text: "r c = map_option TextV ot \<Longrightarrow> fr_optional_text (F r) c = Ok ot"
    and reads_uuid: "decoding_ok cd L \<Longrightarrow> r c = Some (id_value cd u D) \<Longrightarrow> fr_uuid (F r) c = Ok u"
    and reads_optional_uuid:
      "decoding_ok cd L \<Longrightarrow> r c = map_option (\<lambda>u. id_value cd u D) ou \<Longrightarrow> fr_optional_uuid (F r) c = Ok ou"
    and reads_timestamp:
      "decoding_ok cd L \<Longrightarrow> stamp_ok s \<Longrightarrow> r c = Some (timestamp_value cd s D) \<Longrightarrow> fr_timestamp (F r) c = Ok s"
    and reads_boolean: "r c = Some (BoolV b) \<Longrightarrow> fr_boolean (F r) c = Ok b"
    and reads_blob: "r c = Some (BytesV bs) \<Longrightarrow> fr_blob (F r) c = Ok bs"
    and reads_json_object: "document_ok L j \<Longrightarrow> r c = Some (json_bound j D) \<Longrightarrow> fr_json_object (F r) c = Ok j"
    and reads_object: "document_ok L j \<Longrightarrow> r c = Some (json_bound j D) \<Longrightarrow> fr_object (F r) c what = Ok j"
begin

lemmas reads = reads_text reads_optional_text reads_uuid reads_optional_uuid reads_timestamp reads_boolean
  reads_blob reads_json_object reads_object

lemma message_reads:
  assumes "decoding_ok cd L" "stamp_ok (ms_timestamp m)"
  shows "message_from_row (F (bind_row (column_names Messages) (message_row cd D m))) = Ok m"
  using assms by (cases "ms_direction m")
    (simp_all add: message_from_row_def message_row_def column_names_def bind_row_def reads direction_of_def)

lemma level_text_reads: "level_of (level_text l) = Ok l"
  by (cases l) (simp_all add: level_of_def level_parse_def level_text_def)

lemma particle_reads:
  assumes "decoding_ok cd L" "stamp_ok (pa_timestamp p)" "document_ok L (pa_data p)"
  shows "particle_from_row (F (bind_row (column_names Particles) (particle_row cd D p))) = Ok (p\<lparr>pa_span := None\<rparr>)"
  using assms by (simp add: particle_from_row_def particle_row_def column_names_def bind_row_def reads)

lemma alert_reads:
  assumes "decoding_ok cd L" "stamp_ok (al_timestamp a)" "document_ok L (al_data a)"
  shows "alert_from_row (F (bind_row (column_names Alerts) (alert_row cd D a))) = Ok a"
  using assms by (simp add: alert_from_row_def alert_row_def column_names_def bind_row_def reads level_text_reads)

lemma entity_reads:
  assumes "decoding_ok cd L" and "\<And>u n s o' sh d. e = WorkspaceE u n s o' sh d \<Longrightarrow> document_ok L d"
    and "\<And>u w d. e = WorkspaceEditE u w d \<Longrightarrow> document_ok L d"
    and "entity_table_of e \<noteq> Variables" "entity_table_of e \<noteq> Settings"
  shows "entity_from_row (entity_table_of e) (F (bind_row (entity_columns (entity_table_of e)) (entity_row cd D e))) = Ok e"
proof -
  have "target_type_of (target_type_text tt) = Ok tt" for tt
    by (cases tt) (simp_all add: target_type_of_def target_type_parse_def target_type_text_def ok_or_def)
  moreover have "access_level_of (grant_level_text g) = Ok g" for g
    by (cases g) (simp_all add: access_level_of_def grant_level_parse_def grant_level_text_def ok_or_def)
  ultimately show ?thesis
    using assms by (cases e) (simp_all add: entity_columns_listed bind_row_def reads)
qed

lemma log_entry_reads:
  assumes "decoding_ok cd L" "stamp_ok (le_timestamp e)"
  shows "log_entry_from_row (F (bind_row (column_names Logs) (log_entry_row cd D e))) = Ok e"
  using assms by (simp add: log_entry_from_row_def log_entry_row_def column_names_def bind_row_def reads level_text_reads)

end

lemmas stored_forms = id_value_def timestamp_value_def json_bound_def get_text_def get_optional_text_def get_bool_def
  get_bytes_def parse_uuid_def optional_uuid_def ok_or_def json_text_object_def json_value_object_def sqlite_json_def
  pg_json_def turso_boolean_def decoding_ok_def document_ok_def

interpretation sqlite: row_reader "sqlite_row cd L" SqliteText cd L for cd L
  by unfold_locales (auto simp: sqlite_row_def stored_forms split: option.splits)

interpretation pg: row_reader "pg_row L" Postgres cd L for cd L
  by unfold_locales (auto simp: pg_row_def stored_forms split: option.splits)

interpretation turso: row_reader "turso_row cd L" SqliteText cd L for cd L
  by unfold_locales (auto simp: turso_row_def stored_forms split: option.splits)

section \<open>Through a flush\<close>

datatype backend = SqliteBackend | TursoBackend | PostgresBackend

definition backend_dialect :: "backend \<Rightarrow> sql_dialect" where
  "backend_dialect B = (case B of PostgresBackend \<Rightarrow> Postgres | _ \<Rightarrow> SqliteText)"

definition backend_row :: "backend \<Rightarrow> codecs \<Rightarrow> decode_lib \<Rightarrow> row \<Rightarrow> field_read" where
  "backend_row B cd L =
     (case B of SqliteBackend \<Rightarrow> sqlite_row cd L | TursoBackend \<Rightarrow> turso_row cd L | PostgresBackend \<Rightarrow> pg_row L)"

interpretation any_backend: row_reader "backend_row B cd L" "backend_dialect B" cd L for B cd L
  by (cases B) (simp_all add: backend_row_def backend_dialect_def sqlite.row_reader_axioms
      turso.row_reader_axioms pg.row_reader_axioms)

text \<open>Batches as single records in the order they were buffered.\<close>

fun singles :: "records \<Rightarrow> records list" where
  "singles (MessagesR ms) = map (\<lambda>m. MessagesR [m]) ms"
| "singles (ParticlesR ps) = map (\<lambda>p. ParticlesR [p]) ps"
| "singles (AlertsR as) = map (\<lambda>a. AlertsR [a]) as"
| "singles (LogEntriesR es) = map (\<lambda>e. LogEntriesR [e]) es"

fun record_id :: "records \<Rightarrow> 128 word" where
  "record_id (MessagesR ms) = ms_id (hd ms)"
| "record_id (ParticlesR ps) = pa_id (hd ps)"
| "record_id (AlertsR as) = al_id (hd as)"
| "record_id (LogEntriesR es) = le_id (hd es)"

text \<open>A record as the database can give it back: a stored timestamp, a rendered document, no span.\<close>

fun storable :: "decode_lib \<Rightarrow> records \<Rightarrow> bool" where
  "storable L (MessagesR ms) = list_all (\<lambda>m. stamp_ok (ms_timestamp m)) ms"
| "storable L (ParticlesR ps) = list_all (\<lambda>p. stamp_ok (pa_timestamp p) \<and> document_ok L (pa_data p)) ps"
| "storable L (AlertsR as) = list_all (\<lambda>a. stamp_ok (al_timestamp a) \<and> document_ok L (al_data a)) as"
| "storable L (LogEntriesR es) = list_all (\<lambda>e. stamp_ok (le_timestamp e)) es"

fun without_spans :: "records \<Rightarrow> records" where
  "without_spans (ParticlesR ps) = ParticlesR (map (\<lambda>p. p\<lparr>pa_span := None\<rparr>) ps)"
| "without_spans rs = rs"

lemma written_rows_decode:
  assumes "decoding_ok cd L" "storable L rs"
  shows "decode_records (record_table_of rs) (map (backend_row B cd L)
     (table_rows (record_table_of rs) (all_rows cd (backend_dialect B) rs))) = Ok (without_spans rs)"
proof (cases rs)
  case (MessagesR ms)
  then have "try_map message_from_row (map (\<lambda>m. backend_row B cd L (bind_row (column_names Messages)
      (message_row cd (backend_dialect B) m))) ms) = Ok (map (\<lambda>m. m) ms)"
    using assms by (intro try_map_mapped any_backend.message_reads) (auto simp: list_all_iff)
  with MessagesR show ?thesis by (simp add: decode_records_def comp_def)
next
  case (ParticlesR ps)
  then have "try_map particle_from_row (map (\<lambda>p. backend_row B cd L (bind_row (column_names Particles)
      (particle_row cd (backend_dialect B) p))) ps) = Ok (map (\<lambda>p. p\<lparr>pa_span := None\<rparr>) ps)"
    using assms by (intro try_map_mapped any_backend.particle_reads) (auto simp: list_all_iff)
  with ParticlesR show ?thesis by (simp add: decode_records_def comp_def)
next
  case (AlertsR as)
  then have "try_map alert_from_row (map (\<lambda>a. backend_row B cd L (bind_row (column_names Alerts)
      (alert_row cd (backend_dialect B) a))) as) = Ok (map (\<lambda>a. a) as)"
    using assms by (intro try_map_mapped any_backend.alert_reads) (auto simp: list_all_iff)
  with AlertsR show ?thesis by (simp add: decode_records_def comp_def)
next
  case (LogEntriesR es)
  then have "try_map log_entry_from_row (map (\<lambda>e. backend_row B cd L (bind_row (column_names Logs)
      (log_entry_row cd (backend_dialect B) e))) es) = Ok (map (\<lambda>e. e) es)"
    using assms by (intro try_map_mapped any_backend.log_entry_reads) (auto simp: list_all_iff)
  with LogEntriesR show ?thesis by (simp add: decode_records_def comp_def)
qed

lemma singles_table: "r \<in> set (singles rs) \<Longrightarrow> record_table_of r = record_table_of rs"
  by (cases rs) auto

lemma singles_storable: "storable L rs \<Longrightarrow> r \<in> set (singles rs) \<Longrightarrow> storable L r"
  by (cases rs) (auto simp: list_all_iff)

text \<open>Writing a batch is writing its records, and writing one sets its own row.\<close>

definition row_of :: "codecs \<Rightarrow> sql_dialect \<Rightarrow> records \<Rightarrow> row" where
  "row_of cd D r = bind_row (column_names (record_table_of r)) (hd (all_rows cd D r))"

definition is_single :: "records \<Rightarrow> bool" where
  "is_single r \<longleftrightarrow> (\<exists>rs. r \<in> set (singles rs))"

lemma single_row:
  assumes "is_single r"
  shows "table_rows (record_table_of r) (all_rows cd D r) = [row_of cd D r]"
    "by_id (row_of cd D r) = [Some (id_value cd (record_id r) D)]"
proof -
  obtain rs where "r \<in> set (singles rs)" using assms by (auto simp: is_single_def)
  then show "table_rows (record_table_of r) (all_rows cd D r) = [row_of cd D r]"
    "by_id (row_of cd D r) = [Some (id_value cd (record_id r) D)]"
    by (cases rs; auto simp: row_of_def by_id_record)+
qed

lemma write_single:
  assumes "is_single r"
  shows "write_batch cd D db r (record_table_name t) k =
    (if record_table_of r = t \<and> k = [Some (id_value cd (record_id r) D)] then Some (row_of cd D r)
     else db (record_table_name t) k)"
  using single_row[OF assms, of cd D] record_table_name_inj
  by (auto simp: write_batch_def Let_def put_all_def)

lemma write_batch_Cons:
  "write_batch cd D db (MessagesR (m # ms)) = write_batch cd D (write_batch cd D db (MessagesR [m])) (MessagesR ms)"
  "write_batch cd D db (ParticlesR (p # ps)) = write_batch cd D (write_batch cd D db (ParticlesR [p])) (ParticlesR ps)"
  "write_batch cd D db (AlertsR (a # as)) = write_batch cd D (write_batch cd D db (AlertsR [a])) (AlertsR as)"
  "write_batch cd D db (LogEntriesR (e # es)) = write_batch cd D (write_batch cd D db (LogEntriesR [e])) (LogEntriesR es)"
  by (simp_all add: write_batch_def put_all_def)

lemma write_batch_Nil:
  "write_batch cd D db (MessagesR []) = db" "write_batch cd D db (ParticlesR []) = db"
  "write_batch cd D db (AlertsR []) = db" "write_batch cd D db (LogEntriesR []) = db"
  by (simp_all add: write_batch_def put_all_def)

lemma write_batch_singles: "write_batch cd D db rs = foldl (write_batch cd D) db (singles rs)"
proof (cases rs)
  case (MessagesR ms)
  then show ?thesis
    by (induction ms arbitrary: db rs) (simp add: write_batch_Nil, simp, subst write_batch_Cons(1), simp)
next
  case (ParticlesR ps)
  then show ?thesis
    by (induction ps arbitrary: db rs) (simp add: write_batch_Nil, simp, subst write_batch_Cons(2), simp)
next
  case (AlertsR as)
  then show ?thesis
    by (induction as arbitrary: db rs) (simp add: write_batch_Nil, simp, subst write_batch_Cons(3), simp)
next
  case (LogEntriesR es)
  then show ?thesis
    by (induction es arbitrary: db rs) (simp add: write_batch_Nil, simp, subst write_batch_Cons(4), simp)
qed

lemma flush_singles:
  "foldl (write_batch cd D) db batches = foldl (write_batch cd D) db (concat (map singles batches))"
  by (induction batches arbitrary: db) (simp_all add: write_batch_singles[of cd D])

text \<open>The last record buffered for a table under an id.\<close>

definition last_buffered :: "records list \<Rightarrow> record_table \<Rightarrow> 128 word \<Rightarrow> records option" where
  "last_buffered batches t u =
     find (\<lambda>r. record_table_of r = t \<and> record_id r = u) (rev (concat (map singles batches)))"

lemma last_row:
  assumes "inj (cd_uuid_text cd)" "\<And>r. r \<in> set rs \<Longrightarrow> is_single r"
  shows "foldl (write_batch cd D) db rs (record_table_name t) [Some (id_value cd u D)] =
    (case find (\<lambda>r. record_table_of r = t \<and> record_id r = u) (rev rs) of
       Some r \<Rightarrow> Some (row_of cd D r) | None \<Rightarrow> db (record_table_name t) [Some (id_value cd u D)])"
  using assms(2)
proof (induction rs rule: rev_induct)
  case (snoc r rs)
  then show ?case using write_single[of r cd D] id_value_inj[OF assms(1), of _ D] by auto
qed simp


definition reference_decode_lib :: decode_lib where
  "reference_decode_lib =
     \<lparr>dl_stamp_sqlx = stamp_parse_ref, dl_stamp_format = stamp_parse_ref, dl_json = Some,
      dl_is_object = (\<lambda>j. take 1 j = ''{''), dl_int_text = (\<lambda>i. nat_text (nat i))\<rparr>"

lemma reference_decoding_ok: "decoding_ok reference_codecs reference_decode_lib"
proof -
  have "nat (s - stamp_origin) < 2 ^ 70" if "stamp_renders s" for s
    using that by (auto simp: stamp_renders_def stamp_origin_def stamp_limit_def)
  moreover have "unat u < 2 ^ 128" for u :: "128 word" using unsigned_less[of u] by simp
  ultimately show ?thesis
    by (auto simp: decoding_ok_def reference_codecs_def reference_decode_lib_def stamp_text_ref_def stamp_parse_ref_def
        stamp_ok_def stamp_renders_def)
qed


end
