(* ===== verification/Filter_Sound.thy ===== *)
theory Filter_Sound
  imports Filter_Agree
begin

text \<open>
  The agreement of compiler and matcher for filters as the parser builds them, on the
  thirteen tables of the store, with a concrete backend and concrete libraries for which
  the assumed laws hold, and the one shape of filter where the two readings part.
\<close>

section \<open>The tables declare what the compiler expects\<close>

lemma column_entry_declared: "column_entry fd = Some f \<Longrightarrow> operations_declared f"
  by (auto simp: column_entry_def operations_declared_def operation_entries_def Let_def
      split: option.splits if_splits)

lemma derive_fields_declared: "f \<in> set (derive_fields fds) \<Longrightarrow> operations_declared f"
  by (auto simp: derive_fields_def List.map_filter_def dest: column_entry_declared)

lemma table_fields_derived: "\<exists>fds. sch_fields (table_schema t) = derive_fields fds"
  by (cases t; auto simp: table_schema_def record_schema_def entity_schema_def struct_schema_def
      split: record_table.splits entity_table.splits)

lemma table_schema_declared: "schema_declared (table_schema t)"
  using table_fields_derived[of t] derive_fields_declared
  by (auto simp: schema_declared_def table_fields_distinct)

section \<open>The laws hold of the reference backend\<close>

lemma instr_ref_positive:
  "p \<noteq> [] \<Longrightarrow> 0 < i \<Longrightarrow> 0 < instr_ref i s p \<longleftrightarrow> contains_str p s"
proof (induction i s p rule: instr_ref.induct)
  case (3 i x xs c cs)
  then show ?case by auto
qed auto

lemma reference_codecs_ok: "codecs_ok reference_codecs"
proof -
  have "stamp_text_ref a < stamp_text_ref b \<longleftrightarrow> a < b" if "stamp_renders a" "stamp_renders b" for a b
  proof -
    have "nat (x - stamp_origin) < 2 ^ 70" if "stamp_renders x" for x
      using that by (auto simp: stamp_renders_def stamp_origin_def stamp_limit_def)
    then show ?thesis
      using that by (auto simp: stamp_text_ref_def bits_text_less stamp_renders_def)
  qed
  then show ?thesis
    by (auto simp: codecs_ok_def reference_codecs_def inj_def uuid_bits_inj)
qed

lemma reference_engine_ok: "engine_ok reference_codecs Postgres (reference_engine Postgres)"
proof -
  have clock: "0 \<le> stamp_clock p s" for p s by (cases p) (simp_all add: stamp_clock_def)
  have nat_diff: "nat (int m - int k) = m - k" for m k by linarith
  show ?thesis
    unfolding engine_ok_def
    by (intro conjI reference_like_law reference_glob_law reference_ilike_law reference_lower_law allI impI)
      (simp_all add: reference_engine_def instr_ref_positive nat_diff substr_ref_def clock_ref_def
        timestamp_value_def reference_codecs_def clock)
qed

section \<open>Properties\<close>

lemma compiled_filter_agrees:
  assumes "filter_parse cd fuel (table_schema t) pairs = Ok f"
    and "engine_ok cd D E" and "codecs_ok cd"
    and "represents cd E D (table_schema t) row js"
    and "comparable cd D (table_schema t) js (resolve_now now) (fc_node f)"
  shows "\<exists>cs b. combined_conditions cd (fc_schema f) D (resolve_now now) True (fc_node f) = Ok cs
    \<and> filter_matches cd f js now = Ok b \<and> (where_holds E rows cs row \<longleftrightarrow> b)"
proof -
  have f: "fc_schema f = table_schema t" "node_ok (table_schema t) (fc_node f)"
    using filter_parse_node_ok[OF assms(1) table_fields_distinct] by simp_all
  have "agreement cd E D (table_schema t) row js"
    using assms(2-4) table_schema_declared by (simp add: agreement_def)
  from node_agrees[OF this f(2) assms(5), of rows] show ?thesis
    by (auto simp: filter_matches_def f(1) agrees_def)
qed


definition example_row :: row where
  "example_row = (\<lambda>k. if k = ''id'' then Some (UuidV 7) else if k = ''name'' then Some (TextV ''b'') else None)"

definition example_record :: json_fields where
  "example_record = (\<lambda>k.
     if k = ''id'' then Some ([CHR 0x22] @ bits_text 128 7 @ [CHR 0x22])
     else if k = ''name'' then Some [CHR 0x22, CHR ''b'', CHR 0x22] else None)"

lemma unquote_quoted: "unquote ([CHR 0x22] @ s @ [CHR 0x22]) = Some s"
  by (simp add: unquote_def strip_suffix_Some)

lemma example_represents:
  "represents reference_codecs (reference_engine Postgres) Postgres (table_schema (EntityTable Groups))
     example_row example_record"
proof -
  have "unquote [CHR 0x22, CHR ''b'', CHR 0x22] = Some ''b''"
    using unquote_quoted[of "''b''"] by simp
  then show ?thesis
    using unquote_quoted[of "bits_text 128 7"]
    by (auto simp: represents_def groups_fields column_represents_def example_row_def example_record_def
        reference_codecs_def id_value_def intro!: exI[of _ "Some 7"])
qed

lemma example_comparable:
  "comparable reference_codecs Postgres (table_schema (EntityTable Groups)) example_record now
     (fc_node example_filter)"
  by (auto simp: example_filter_def own_comparable_def groups_fields bounds_comparable_def
      timespan_bounds_def node_default_def values_of_def operation_of_def)


text \<open>
  Where the readings part: a filter holding nothing but an \<open>or\<close> group. Its own conditions
  are empty, so the matcher takes them as met and accepts every record, while the compiler
  leaves the empty conjunction out and keeps only the group's terms.
\<close>

definition or_only :: filter_node where
  "or_only = FilterNode node_default [] [FilterNode (node_default\<lparr>no_equalities := [(''name'', TextsV [''z''])]\<rparr>) [] []]"

lemma or_group_alone_diverges:
  "node_matches reference_codecs (table_schema (EntityTable Groups)) example_record 0 or_only = Ok True
   \<and> combined_conditions reference_codecs (table_schema (EntityTable Groups)) Postgres 0 True or_only
       = Ok [EqC (Col ''name'') (Val (TextV ''z''))]
   \<and> \<not> where_holds E rows [EqC (Col ''name'') (Val (TextV ''z''))] example_row"
  by (simp add: or_only_def node_default_def matches_own_def computed_checks_def field_checks_def
      groups_fields values_of_def operation_of_def conditions_with_address_def field_conditions_def
      computed_conditions_def operation_conditions_def try_concat_def option_list_def all_of_def
      any_of_def values_condition_def match_values_def example_row_def)

end
