(* ===== verification/Live.thy ===== *)
theory Live
  imports Decode Filter_Sound
begin

text \<open>
  Live records and stored rows: the wire form a record serializes to (the \<open>Serialize\<close> derives of
  \<open>ceres-entities\<close>), that the row the writer binds represents it, and so that a filter picks a
  record off the live stream exactly when its \<open>WHERE\<close> clause picks the record's row after a flush.
\<close>

section \<open>Serialized records\<close>

text \<open>\<open>serde_json\<close>'s rendering of a string and \<open>chrono\<close>'s of a timestamp to the second and the microsecond.\<close>

record serial_lib =
  sl_quote :: "str \<Rightarrow> str"
  sl_seconds :: "int \<Rightarrow> str"
  sl_micros :: "int \<Rightarrow> str"

definition to_wire :: "serial_lib \<Rightarrow> int \<Rightarrow> str" where
  "to_wire S s = (if s mod 1000000000 div 1000 = 0 then sl_seconds S s else sl_micros S s)"

definition option_json :: "serial_lib \<Rightarrow> str option \<Rightarrow> str" where
  "option_json S v = (case v of None \<Rightarrow> ''null'' | Some t \<Rightarrow> sl_quote S t)"

definition message_json :: "codecs \<Rightarrow> serial_lib \<Rightarrow> message \<Rightarrow> (str \<times> str) list" where
  "message_json cd S m =
     [(''id'', sl_quote S (cd_uuid_text cd (ms_id m))),
      (''address'', sl_quote S (ms_address m)),
      (''timestamp'', sl_quote S (to_wire S (ms_timestamp m))),
      (''connection'', option_json S (ms_connection m)),
      (''direction'', sl_quote S (case ms_direction m of Send \<Rightarrow> ''send'' | Receive \<Rightarrow> ''receive'')),
      (''data'', sl_quote S (latin1_decode (ms_data m)))]"

definition particle_json :: "codecs \<Rightarrow> serial_lib \<Rightarrow> (int \<times> int \<Rightarrow> str) \<Rightarrow> particle \<Rightarrow> (str \<times> str) list" where
  "particle_json cd S span p =
     [(''id'', sl_quote S (cd_uuid_text cd (pa_id p))),
      (''address'', sl_quote S (pa_address p)),
      (''timestamp'', sl_quote S (to_wire S (pa_timestamp p)))]
     @ (case pa_connection p of None \<Rightarrow> [] | Some c \<Rightarrow> [(''connection'', sl_quote S c)])
     @ [(''type'', sl_quote S (pa_kind p)), (''data'', pa_data p)]
     @ (case pa_span p of None \<Rightarrow> [] | Some s \<Rightarrow> [(''span'', span s)])"

definition alert_json :: "codecs \<Rightarrow> serial_lib \<Rightarrow> alert \<Rightarrow> (str \<times> str) list" where
  "alert_json cd S a =
     [(''id'', sl_quote S (cd_uuid_text cd (al_id a))),
      (''address'', sl_quote S (al_address a)),
      (''timestamp'', sl_quote S (to_wire S (al_timestamp a))),
      (''level'', sl_quote S (level_text (al_level a))),
      (''type'', sl_quote S (al_kind a)),
      (''data'', al_data a)]"

definition log_entry_json :: "codecs \<Rightarrow> serial_lib \<Rightarrow> log_entry \<Rightarrow> (str \<times> str) list" where
  "log_entry_json cd S e =
     [(''id'', sl_quote S (cd_uuid_text cd (le_id e))),
      (''address'', sl_quote S (le_address e)),
      (''timestamp'', sl_quote S (to_wire S (le_timestamp e))),
      (''level'', sl_quote S (level_text (le_level e))),
      (''content'', sl_quote S (le_content e))]"

fun record_json :: "codecs \<Rightarrow> serial_lib \<Rightarrow> (int \<times> int \<Rightarrow> str) \<Rightarrow> records \<Rightarrow> json_fields" where
  "record_json cd S span (MessagesR ms) = map_of (message_json cd S (hd ms))"
| "record_json cd S span (ParticlesR ps) = map_of (particle_json cd S span (hd ps))"
| "record_json cd S span (AlertsR as) = map_of (alert_json cd S (hd as))"
| "record_json cd S span (LogEntriesR es) = map_of (log_entry_json cd S (hd es))"

section \<open>A row represents the record it was bound from\<close>

definition serial_ok :: "codecs \<Rightarrow> serial_lib \<Rightarrow> bool" where
  "serial_ok cd S \<longleftrightarrow>
     (\<forall>t. cd_json_string cd (sl_quote S t) = Some t) \<and> cd_json_string cd ''null'' = None
     \<and> (\<forall>s. stamp_ok s \<longrightarrow> cd_rfc3339 cd (sl_micros S s) = Some s)
     \<and> (\<forall>s. stamp_ok s \<longrightarrow> s mod 1000000000 = 0 \<longrightarrow> cd_rfc3339 cd (sl_seconds S s) = Some s)"

definition documents_cast :: "sql_engine \<Rightarrow> sql_dialect \<Rightarrow> bool" where
  "documents_cast E D \<longleftrightarrow> (\<forall>j. eng_cast_text E (json_bound j D) = j)"

lemma to_wire_reads:
  assumes "serial_ok cd S" "stamp_ok s"
  shows "cd_rfc3339 cd (to_wire S s) = Some s"
proof (cases "s mod 1000000000 div 1000 = 0")
  case True
  have "s mod 1000000000 mod 1000 = s mod 1000" by (simp add: mod_mod_cancel)
  then have "s mod 1000000000 mod 1000 = 0" using assms(2) by (simp add: stamp_ok_def)
  with True have "s mod 1000000000 = 0" by (metis div_mult_mod_eq mult_zero_left add_0)
  with True assms show ?thesis by (simp add: to_wire_def serial_ok_def)
qed (use assms in \<open>simp add: to_wire_def serial_ok_def\<close>)

lemma record_families:
  "map (\<lambda>f. (ff_key f, ff_family f)) (sch_fields (record_schema Messages)) =
     [(''id'', Uuid), (''address'', Address), (''timestamp'', Timestamp), (''connection'', Text),
      (''direction'', Values [''send'', ''receive'']), (''data'', Bytes)]"
  "map (\<lambda>f. (ff_key f, ff_family f)) (sch_fields (record_schema Particles)) =
     [(''id'', Uuid), (''address'', Address), (''timestamp'', Timestamp), (''connection'', Text),
      (''type'', Text), (''data'', Json)]"
  "map (\<lambda>f. (ff_key f, ff_family f)) (sch_fields (record_schema Alerts)) =
     [(''id'', Uuid), (''address'', Address), (''timestamp'', Timestamp), (''level'', Level),
      (''type'', Text), (''data'', Json)]"
  "map (\<lambda>f. (ff_key f, ff_family f)) (sch_fields (record_schema Logs)) =
     [(''id'', Uuid), (''address'', Address), (''timestamp'', Timestamp), (''level'', Level), (''content'', Text)]"
  by code_simp+

lemma record_computed: "sch_computed (record_schema t) = []"
  by (cases t) (simp_all add: record_schema_def struct_schema_def)

text \<open>Column by column.\<close>

lemma columns_represent:
  assumes "serial_ok cd S"
  shows "column_represents cd E D Uuid (Some (id_value cd u D)) (Some (sl_quote S (cd_uuid_text cd u)))"
    "stamp_ok s \<Longrightarrow> column_represents cd E D Timestamp (Some (timestamp_value cd s D)) (Some (sl_quote S (to_wire S s)))"
    "column_represents cd E D Address (Some (TextV t)) (Some (sl_quote S t))"
    "column_represents cd E D Text (Some (TextV t)) (Some (sl_quote S t))"
    "column_represents cd E D Text (map_option TextV ot) (Some (option_json S ot))"
    "column_represents cd E D Text None None"
    "column_represents cd E D Level (Some (TextV t)) (Some (sl_quote S t))"
    "column_represents cd E D (Values ws) (Some (TextV t)) (Some (sl_quote S t))"
    "column_represents cd E D Bytes (Some (BytesV bs)) (Some (sl_quote S (latin1_decode bs)))"
    "documents_cast E D \<Longrightarrow> column_represents cd E D Json (Some (json_bound j D)) (Some j)"
  using assms to_wire_reads[OF assms]
  by (auto simp: column_represents_def serial_ok_def record_timestamp_def documents_cast_def option_json_def
      latin1_round_trip intro: exI[of _ "Some u"] split: option.splits)

lemma represents_by_family:
  assumes "list_all (\<lambda>(k, fam). column_represents cd E D fam (row k) (js k))
      (map (\<lambda>f. (ff_key f, ff_family f)) (sch_fields (record_schema t)))"
  shows "represents cd E D (table_schema (RecordTable t)) row js"
  using assms by (simp add: represents_def table_schema_def record_computed list_all_iff)

text \<open>The row bound from a record represents the record's wire form.\<close>

lemma written_row_represents:
  assumes "serial_ok cd S" "documents_cast E D" "is_single r" "storable L r"
  shows "represents cd E D (table_schema (RecordTable (record_table_of r))) (row_of cd D r) (record_json cd S span r)"
proof -
  obtain rs where "r \<in> set (singles rs)" using assms(3) by (auto simp: is_single_def)
  then consider m where "r = MessagesR [m]" | p where "r = ParticlesR [p]" | a where "r = AlertsR [a]"
    | e where "r = LogEntriesR [e]" by (cases rs) auto
  then show ?thesis
  proof cases
    case 1
    then show ?thesis using assms(4) columns_represent[OF assms(1)]
      by (intro represents_by_family) (simp add: record_families row_of_def column_names_def bind_row_def
          message_row_def message_json_def)
  next
    case 2
    then show ?thesis using assms(4) columns_represent[OF assms(1)] assms(2)
      by (intro represents_by_family) (auto simp add: record_families row_of_def column_names_def bind_row_def
          particle_row_def particle_json_def split: option.splits)
  next
    case 3
    then show ?thesis using assms(4) columns_represent[OF assms(1)] assms(2)
      by (intro represents_by_family) (simp add: record_families row_of_def column_names_def bind_row_def
          alert_row_def alert_json_def)
  next
    case 4
    then show ?thesis using assms(4) columns_represent[OF assms(1)]
      by (intro represents_by_family) (simp add: record_families row_of_def column_names_def bind_row_def
          log_entry_row_def log_entry_json_def)
  qed
qed

section \<open>Live stream and store\<close>


definition reference_serial_lib :: serial_lib where
  "reference_serial_lib =
     \<lparr>sl_quote = (\<lambda>t. [CHR 0x22] @ t @ [CHR 0x22]), sl_seconds = stamp_text_ref, sl_micros = stamp_text_ref\<rparr>"

lemma reference_serial_ok: "serial_ok reference_codecs reference_serial_lib"
proof -
  have "nat (s - stamp_origin) < 2 ^ 70" if "stamp_renders s" for s
    using that by (auto simp: stamp_renders_def stamp_origin_def stamp_limit_def)
  then show ?thesis
    using unquote_quoted
    by (auto simp: serial_ok_def reference_serial_lib_def reference_codecs_def stamp_text_ref_def stamp_parse_ref_def
        stamp_ok_def stamp_renders_def unquote_def)
qed


end
