(* ===== verification/Load.thy ===== *)
theory Load
  imports Writer
begin

text \<open>
  \<open>ceres-database/src/load.rs\<close> and the load side of \<open>store.rs\<close>: reading a file of rows in
  batches, completing and converting each row, and writing every batch in one transaction.
  Input arrives as lines or CSV records, each \<open>None\<close> when the source could not be read there.
  The JSON and YAML parsers and the derived deserializers are parameters (\<open>load_lib\<close>); a wire
  object keeps its keys in insertion order, as the \<open>preserve_order\<close> map does.
\<close>

section \<open>Modes and formats\<close>

datatype conflict = ConflictError | ConflictIgnore | ConflictUpdate

definition conflict_parse :: "str \<Rightarrow> conflict option" where
  "conflict_parse name =
     (if name = ''error'' then Some ConflictError
      else if name = ''ignore'' then Some ConflictIgnore
      else if name = ''update'' then Some ConflictUpdate
      else None)"

datatype load_format = JsonFormat | CsvFormat

definition load_format_parse :: "str \<Rightarrow> load_format option" where
  "load_format_parse name =
     (if name = ''json'' then Some JsonFormat else if name = ''csv'' then Some CsvFormat else None)"

definition load_format_infer :: "str \<Rightarrow> load_format option" where
  "load_format_infer extension =
     (if extension \<in> {''json'', ''jsonl'', ''ndjson'', ''txt''} then Some JsonFormat
      else if extension = ''csv'' then Some CsvFormat
      else None)"

section \<open>Rows\<close>

type_synonym wire_object = "(str \<times> wire_json) list"

abbreviation json_null :: wire_json where
  "json_null \<equiv> JOther ''null''"

record load_lib =
  ll_json :: "str \<Rightarrow> wire_object option"
  ll_yaml :: "str \<Rightarrow> (str, wire_json) result"
  ll_message :: "wire_object \<Rightarrow> (str, message) result"
  ll_particle :: "wire_object \<Rightarrow> (str, particle) result"
  ll_alert :: "wire_object \<Rightarrow> (str, alert) result"
  ll_log_entry :: "wire_object \<Rightarrow> (str, log_entry) result"
  ll_entity :: "entity_table \<Rightarrow> wire_object \<Rightarrow> (str, entity) result"

definition csv_object :: "str list \<Rightarrow> str list \<Rightarrow> wire_object option" where
  "csv_object row headers =
     (if length row > length headers then None
      else Some (foldl (\<lambda>object (i, name).
        AList.update name (if i < length row then JText (row ! i) else json_null) object) [] (enumerate 0 headers)))"

text \<open>The rows left to read, and \<open>Rows::next\<close>: \<open>None\<close> at the end, \<open>Some None\<close> for an unreadable row.\<close>

datatype input_rows = JsonLines "str option list" | CsvRecords "str list option list" "str list"

fun rows_next :: "load_lib \<Rightarrow> input_rows \<Rightarrow> wire_object option option \<times> input_rows" where
  "rows_next L (JsonLines []) = (None, JsonLines [])"
| "rows_next L (JsonLines (None # ls)) = (None, JsonLines ls)"
| "rows_next L (JsonLines (Some l # ls)) = (Some (ll_json L l), JsonLines ls)"
| "rows_next L (CsvRecords [] hs) = (None, CsvRecords [] hs)"
| "rows_next L (CsvRecords (r # rs) hs) = (Some (Option.bind r (\<lambda>row. csv_object row hs)), CsvRecords rs hs)"

fun rows_left :: "input_rows \<Rightarrow> nat" where
  "rows_left (JsonLines ls) = length ls"
| "rows_left (CsvRecords rs hs) = length rs"

section \<open>Batches\<close>

record batches =
  bt_rows :: input_rows
  bt_spent :: bool
  bt_read :: nat

definition batches_new :: "input_rows \<Rightarrow> batches" where
  "batches_new rows = \<lparr>bt_rows = rows, bt_spent = False, bt_read = 0\<rparr>"

definition refused :: "nat \<Rightarrow> str \<Rightarrow> str" where
  "refused row reason = ''Row '' @ nat_text row @ '' could not be read. '' @ reason
     @ '' Nothing was loaded, because a load either lands whole or not at all.''"

definition unparsable :: str where
  "unparsable = ''The row does not parse as the format claims.''"

text \<open>The inner loop: objects up to a full batch, or the position of an unreadable row.\<close>

fun fill :: "load_lib \<Rightarrow> nat \<Rightarrow> wire_object list \<Rightarrow> input_rows \<Rightarrow> (nat, wire_object list) result \<times> input_rows" where
  "fill L 0 objects rows = (Ok objects, rows)"
| "fill L (Suc n) objects rows =
     (case rows_next L rows of
        (None, rows') \<Rightarrow> (Ok objects, rows')
      | (Some None, rows') \<Rightarrow> (Err (length objects), rows')
      | (Some (Some obj), rows') \<Rightarrow> fill L n (objects @ [obj]) rows')"

fun position_of :: "('a \<Rightarrow> bool) \<Rightarrow> 'a list \<Rightarrow> nat option" where
  "position_of P [] = None"
| "position_of P (x # xs) = (if P x then Some 0 else map_option Suc (position_of P xs))"

definition batches_next ::
  "load_lib \<Rightarrow> (wire_object list \<Rightarrow> (str, 'b) result) \<Rightarrow> batches \<Rightarrow> (str, 'b) result option \<times> batches" where
  "batches_next L convert b =
     (if bt_spent b then (None, b)
      else (case fill L batch_size [] (bt_rows b) of
          (Inl j, rows') \<Rightarrow> (Some (Err (refused (bt_read b + j + 1) unparsable)), b\<lparr>bt_rows := rows', bt_spent := True\<rparr>)
        | (Inr objects, rows') \<Rightarrow>
            if objects = [] then (None, b\<lparr>bt_rows := rows'\<rparr>)
            else (case convert objects of
                Inr batch \<Rightarrow> (Some (Ok batch), b\<lparr>bt_rows := rows', bt_read := bt_read b + length objects\<rparr>)
              | Inl reason \<Rightarrow>
                  (Some (Err (refused (case position_of (\<lambda>obj. isl (convert [obj])) objects of
                       Some i \<Rightarrow> bt_read b + i + 1 | None \<Rightarrow> bt_read b + 1) reason)),
                   b\<lparr>bt_rows := rows', bt_read := bt_read b + length objects, bt_spent := True\<rparr>))))"

lemma rows_next_left:
  "rows_next L rows = (r, rows') \<Longrightarrow> rows_left rows' \<le> rows_left rows \<and> (r \<noteq> None \<longrightarrow> rows_left rows' < rows_left rows)"
  by (induction L rows rule: rows_next.induct) auto

lemma fill_left:
  "fill L n objects rows = (Inr objs, rows') \<Longrightarrow> rows_left rows' \<le> rows_left rows
    \<and> (length objs > length objects \<longrightarrow> rows_left rows' < rows_left rows)"
proof (induction L n objects rows rule: fill.induct)
  case (2 L n objects rows)
  obtain r rows1 where next1: "rows_next L rows = (r, rows1)" by (cases "rows_next L rows")
  show ?case
    using 2 next1 rows_next_left[OF next1] by (cases r; cases "the r") (fastforce split: option.splits)+
qed simp

lemma fill_left_err: "fill L n objects rows = (Inl j, rows') \<Longrightarrow> rows_left rows' \<le> rows_left rows"
proof (induction L n objects rows rule: fill.induct)
  case (2 L n objects rows)
  obtain r rows1 where next1: "rows_next L rows = (r, rows1)" by (cases "rows_next L rows")
  show ?case
    using 2 next1 rows_next_left[OF next1] by (cases r; cases "the r") (fastforce split: option.splits)+
qed simp

definition work_left :: "batches \<Rightarrow> nat" where
  "work_left b = 2 * rows_left (bt_rows b) + (if bt_spent b then 0 else 1)"

lemma batches_next_left:
  assumes "batches_next L convert b = (Some item, b')"
  shows "work_left b' < work_left b"
proof -
  have live: "\<not> bt_spent b" using assms by (auto simp: batches_next_def)
  obtain r rows' where fill1: "fill L batch_size [] (bt_rows b) = (r, rows')" by (cases "fill L batch_size [] (bt_rows b)")
  show ?thesis
  proof (cases r)
    case (Inl j)
    then show ?thesis
      using assms live fill1 fill_left_err[of L batch_size "[]" "bt_rows b" j rows']
      by (auto simp: batches_next_def work_left_def)
  next
    case (Inr objs)
    have "objs \<noteq> []" using assms live fill1 Inr by (auto simp: batches_next_def)
    then have "rows_left rows' < rows_left (bt_rows b)"
      using fill_left[of L batch_size "[]" "bt_rows b" objs rows'] fill1 Inr by simp
    then show ?thesis
      using assms live fill1 Inr \<open>objs \<noteq> []\<close> by (auto simp: batches_next_def work_left_def split: sum.splits)
  qed
qed

text \<open>Pulling every batch. Each pull that gives a batch reads a row, so it ends.\<close>

function drain ::
  "load_lib \<Rightarrow> (wire_object list \<Rightarrow> (str, 'b) result) \<Rightarrow> batches \<Rightarrow> (str, 'b) result list" where
  "drain L convert b =
     (case batches_next L convert b of
        (None, _) \<Rightarrow> []
      | (Some item, b') \<Rightarrow> item # drain L convert b')"
  by pat_completeness auto
termination
  by (relation "measure (\<lambda>(L, convert, b). work_left b)") (auto intro: batches_next_left[OF sym])

declare drain.simps [simp del]


section \<open>What a row becomes\<close>

definition record_column_default :: "record_table \<Rightarrow> str \<Rightarrow> wire_json option" where
  "record_column_default t key =
     (if t = Alerts \<and> key = ''data'' then Some (JOther ''{}'')
      else if t = Messages \<and> key = ''connection'' then Some json_null
      else None)"

text \<open>The fresh UUID and the time are the environment's: one of each per row.\<close>

record fresh =
  fr_uuid :: str
  fr_now :: str

definition record_default :: "fresh \<Rightarrow> record_table \<Rightarrow> str \<Rightarrow> wire_json option" where
  "record_default F t key =
     (case record_column_default t key of
        Some v \<Rightarrow> Some v
      | None \<Rightarrow> Some (if key = ''id'' then JText (fr_uuid F)
                     else if key = ''timestamp'' then JText (fr_now F)
                     else json_null))"

datatype column_default = GeneratedUuid | Literal wire_json

definition entity_column_default :: "entity_table \<Rightarrow> str \<Rightarrow> column_default option" where
  "entity_column_default t key =
     (if t \<in> {Workspaces, Users, Groups} \<and> key = ''id'' then Some GeneratedUuid
      else if t = Workspaces \<and> key = ''scope'' then Some (Literal (JText ''~''))
      else if t = Workspaces \<and> key = ''owner_id'' then Some (Literal json_null)
      else if t = Workspaces \<and> key = ''show_when_logged_out'' then Some (Literal (JOther ''false''))
      else if t = Workspaces \<and> key = ''data'' then Some (Literal (JOther ''{}''))
      else if t = Users \<and> key \<in> {''admin'', ''disabled''} then Some (Literal (JOther ''false''))
      else if t = Groups \<and> key = ''description'' then Some (Literal (JText []))
      else None)"

definition entity_default_value :: "fresh \<Rightarrow> entity_table \<Rightarrow> str \<Rightarrow> wire_json option" where
  "entity_default_value F t key =
     map_option (\<lambda>d. case d of GeneratedUuid \<Rightarrow> JText (fr_uuid F) | Literal v \<Rightarrow> v) (entity_column_default t key)"

text \<open>The loop of \<open>complete\<close>: the keys still unaccounted for and the object so far.\<close>

fun complete_loop ::
  "str list \<Rightarrow> wire_object \<Rightarrow> (str \<Rightarrow> wire_json option) \<Rightarrow> int \<times> wire_object \<Rightarrow> int \<times> wire_object" where
  "complete_loop [] obj fallback st = st"
| "complete_loop (key # keys) obj fallback (remaining, completed) =
     complete_loop keys obj fallback
       (case map_of obj key of
          Some v \<Rightarrow> (remaining - 1, AList.update key v completed)
        | None \<Rightarrow> (case fallback key of
            Some v \<Rightarrow> (remaining, AList.update key v completed)
          | None \<Rightarrow> (remaining, completed)))"

definition complete ::
  "str list \<Rightarrow> wire_object \<Rightarrow> (str \<Rightarrow> wire_json option) \<Rightarrow> (str, wire_object) result" where
  "complete accepted obj fallback =
     (let (remaining, completed) = complete_loop accepted obj fallback (int (length obj), [])
      in if remaining \<noteq> 0
         then Err (''`'' @ (case find (\<lambda>k. k \<notin> set accepted) (map fst obj) of Some k \<Rightarrow> k | None \<Rightarrow> [])
                   @ ''` is not a field a write takes.'')
         else Ok completed)"

definition accepted_keys :: "record_table \<Rightarrow> str list" where
  "accepted_keys t = derive_wire_keys (record_struct t)"

text \<open>\<open>RecordTable::records\<close>: every row completed first, then every row deserialized.\<close>

definition table_records ::
  "load_lib \<Rightarrow> (nat \<Rightarrow> fresh) \<Rightarrow> record_table \<Rightarrow> wire_object list \<Rightarrow> (str, records) result" where
  "table_records L F t objects =
     try_then (try_map (\<lambda>(i, obj). complete (accepted_keys t) obj (record_default (F i) t)) (enumerate 0 objects)) (\<lambda>rows.
       case t of
         Messages \<Rightarrow> try_then (try_map (ll_message L) rows) (\<lambda>xs. Ok (MessagesR xs))
       | Particles \<Rightarrow> try_then (try_map (ll_particle L) rows) (\<lambda>xs. Ok (ParticlesR xs))
       | Alerts \<Rightarrow> try_then (try_map (ll_alert L) rows) (\<lambda>xs. Ok (AlertsR xs))
       | Logs \<Rightarrow> try_then (try_map (ll_log_entry L) rows) (\<lambda>xs. Ok (LogEntriesR xs)))"

definition table_entities ::
  "load_lib \<Rightarrow> (nat \<Rightarrow> fresh) \<Rightarrow> entity_table \<Rightarrow> wire_object list \<Rightarrow> (str, entity list) result" where
  "table_entities L F t objects =
     try_then (try_map (\<lambda>(i, obj). complete (map ff_key (sch_columns (entity_schema t))) obj
       (entity_default_value (F i) t)) (enumerate 0 objects)) (try_map (ll_entity L t))"

definition yaml_column :: "load_lib \<Rightarrow> filter_field \<Rightarrow> wire_object \<Rightarrow> (str, wire_object) result" where
  "yaml_column L f obj =
     (if ff_family f \<noteq> Json \<and> ff_family f \<noteq> JsonValue then Ok obj
      else (case map_of obj (ff_key f) of
          Some (JText t) \<Rightarrow>
            (case ll_yaml L t of
               Inr v \<Rightarrow> Ok (AList.update (ff_key f) v obj)
             | Inl e \<Rightarrow> Err (''The `'' @ ff_key f @ ''` value does not parse as YAML. '' @ e))
        | _ \<Rightarrow> Ok obj))"

definition yaml_columns :: "load_lib \<Rightarrow> entity_table \<Rightarrow> wire_object list \<Rightarrow> (str, wire_object list) result" where
  "yaml_columns L t objects = try_map (try_fold (yaml_column L) (sch_columns (entity_schema t))) objects"

text \<open>The credential rules, with the texts their refusals print as a parameter.\<close>

definition credentialed ::
  "credential_lib \<Rightarrow> (credential_error \<Rightarrow> str) \<Rightarrow> entity_table \<Rightarrow> wire_object list \<Rightarrow> hashing option
     \<Rightarrow> (str, wire_object list) result" where
  "credentialed C explain t objects credentials =
     (if t \<noteq> Users then Ok objects
      else (case credentials of
          None \<Rightarrow> Err ''This database hashes passwords with parameters this command cannot reproduce.''
        | Some h \<Rightarrow> try_map (\<lambda>obj. case credentials_apply C h t obj of Inl e \<Rightarrow> Err (explain e) | Inr o' \<Rightarrow> Ok o') objects))"

definition entity_convert ::
  "load_lib \<Rightarrow> credential_lib \<Rightarrow> (credential_error \<Rightarrow> str) \<Rightarrow> (nat \<Rightarrow> fresh) \<Rightarrow> entity_table \<Rightarrow> hashing option
     \<Rightarrow> wire_object list \<Rightarrow> (str, entity list) result" where
  "entity_convert L C explain F t credentials objects =
     try_then (yaml_columns L t objects) (\<lambda>parsed.
       try_then (credentialed C explain t parsed credentials) (table_entities L F t))"

text \<open>\<open>Schema::wire_object\<close>: a create's argument text, by column family.\<close>

definition wire_cell :: "load_lib \<Rightarrow> filter_field \<Rightarrow> str \<Rightarrow> str \<Rightarrow> (str, wire_json) result" where
  "wire_cell L f key t =
     (if ff_family f = Json \<or> ff_family f = JsonValue then
        (case ll_yaml L t of
           Inr v \<Rightarrow> Ok v
         | Inl e \<Rightarrow> Err (''The `'' @ key @ ''` value does not parse as YAML. '' @ e))
      else if ff_family f = Boolean then
        if t = ''true'' then Ok (JOther ''true'')
        else if t = ''false'' then Ok (JOther ''false'')
        else Err (''The `'' @ key @ ''` value must be `true` or `false`, got `'' @ t @ ''`.'')
      else Ok (JText t))"

definition wire_object_of :: "load_lib \<Rightarrow> schema \<Rightarrow> (str \<times> str) list \<Rightarrow> (str, wire_object) result" where
  "wire_object_of L s pairs =
     try_fold (\<lambda>(key, t) obj.
       case find (\<lambda>f. ff_key f = key) (sch_columns s) of
         None \<Rightarrow> Err (''`'' @ key @ ''` is not a column a create takes.'')
       | Some f \<Rightarrow> try_then (wire_cell L f key t) (\<lambda>v. Ok (AList.update key v obj))) pairs []"

definition build :: "load_lib \<Rightarrow> (nat \<Rightarrow> fresh) \<Rightarrow> record_table \<Rightarrow> (str \<times> str) list \<Rightarrow> (str, records) result" where
  "build L F t pairs = try_then (wire_object_of L (record_schema t) pairs) (\<lambda>obj. table_records L F t [obj])"

definition build_entity ::
  "load_lib \<Rightarrow> credential_lib \<Rightarrow> (credential_error \<Rightarrow> str) \<Rightarrow> (nat \<Rightarrow> fresh) \<Rightarrow> entity_table \<Rightarrow> (str \<times> str) list
     \<Rightarrow> hashing option \<Rightarrow> (str, entity list) result" where
  "build_entity L C explain F t pairs credentials =
     try_then (wire_object_of L (entity_schema t) pairs) (\<lambda>obj.
       try_then (credentialed C explain t [obj] credentials) (table_entities L F t))"


section \<open>Loading\<close>

definition on_conflict :: "conflict \<Rightarrow> str list \<Rightarrow> str list \<Rightarrow> insert_statement \<Rightarrow> insert_statement" where
  "on_conflict mode key columns s =
     (case mode of
        ConflictError \<Rightarrow> s
      | ConflictIgnore \<Rightarrow> s\<lparr>ins_conflict := Some (DoNothing key)\<rparr>
      | ConflictUpdate \<Rightarrow> s\<lparr>ins_conflict := Some (DoUpdate key (filter (\<lambda>c. c \<notin> set key) columns))\<rparr>)"

fun records_len :: "records \<Rightarrow> nat" where
  "records_len (MessagesR ms) = length ms"
| "records_len (ParticlesR ps) = length ps"
| "records_len (AlertsR as) = length as"
| "records_len (LogEntriesR es) = length es"

definition load_item ::
  "codecs \<Rightarrow> sql_dialect \<Rightarrow> conflict \<Rightarrow> (str, records) result \<Rightarrow> (panic, (str, insert_statement \<times> nat) result) result" where
  "load_item cd D mode item =
     (case item of
        Inl reason \<Rightarrow> Ok (Err reason)
      | Inr rs \<Rightarrow> try_then (load_statement cd D rs) (\<lambda>s.
          Ok (case s of
            None \<Rightarrow> Err ''A row holds a value this command cannot store.''
          | Some s \<Rightarrow> Ok (on_conflict mode (sch_key (record_schema (record_table_of rs)))
                            (column_names (record_table_of rs)) s, records_len rs))))"

definition load_records ::
  "codecs \<Rightarrow> sql_dialect \<Rightarrow> conflict \<Rightarrow> (str, records) result list \<Rightarrow> database
     \<Rightarrow> (panic, database \<times> (db_error, nat) result) result" where
  "load_records cd D mode items db =
     try_then (try_map (load_item cd D mode) items) (\<lambda>stmts. Ok (insert_all D (\<lambda>_. [''id'']) stmts db))"

section \<open>Streaming reads what the file holds\<close>

text \<open>Every row of an input none of whose lines fails to read, as \<open>Rows::next\<close> delivers it.\<close>

fun row_objects :: "load_lib \<Rightarrow> input_rows \<Rightarrow> wire_object option list" where
  "row_objects L (JsonLines ls) = map (\<lambda>l. ll_json L (the l)) ls"
| "row_objects L (CsvRecords rs hs) = map (\<lambda>r. Option.bind r (\<lambda>row. csv_object row hs)) rs"

fun readable :: "input_rows \<Rightarrow> bool" where
  "readable (JsonLines ls) = (None \<notin> set ls)"
| "readable (CsvRecords rs hs) = True"

text \<open>The batches of a whole file: a refusal ends them.\<close>

fun batch_results ::
  "(wire_object list \<Rightarrow> (str, 'b) result) \<Rightarrow> nat \<Rightarrow> wire_object option list list \<Rightarrow> (str, 'b) result list" where
  "batch_results convert start [] = []"
| "batch_results convert start (c # cs) =
     (case position_of (\<lambda>o'. o' = None) c of
        Some j \<Rightarrow> [Err (refused (start + j + 1) unparsable)]
      | None \<Rightarrow>
          (case convert (map the c) of
             Inr b \<Rightarrow> Ok b # batch_results convert (start + length c) cs
           | Inl reason \<Rightarrow>
               [Err (refused (case position_of (\<lambda>obj. isl (convert [obj])) (map the c) of
                  Some i \<Rightarrow> start + i + 1 | None \<Rightarrow> start + 1) reason)]))"

lemma rows_next_readable:
  assumes "readable rows"
  shows "case row_objects L rows of
      [] \<Rightarrow> \<exists>rows'. rows_next L rows = (None, rows') \<and> readable rows' \<and> row_objects L rows' = []
    | o' # os \<Rightarrow> \<exists>rows'. rows_next L rows = (Some o', rows') \<and> readable rows' \<and> row_objects L rows' = os"
  using assms
proof (cases rows)
  case (JsonLines ls)
  then show ?thesis using assms by (cases ls; cases "hd ls") auto
next
  case (CsvRecords rs hs)
  then show ?thesis by (cases rs) auto
qed

lemma fill_readable:
  assumes "readable rows"
  shows "case position_of (\<lambda>o'. o' = None) (take n (row_objects L rows)) of
      Some j \<Rightarrow> \<exists>rows'. fill L n objects rows = (Err (length objects + j), rows')
    | None \<Rightarrow> \<exists>rows'. fill L n objects rows = (Ok (objects @ map the (take n (row_objects L rows))), rows')
        \<and> readable rows' \<and> row_objects L rows' = drop n (row_objects L rows)"
  using assms
proof (induction n arbitrary: objects rows)
  case (Suc n)
  show ?case
  proof (cases "row_objects L rows")
    case Nil
    then obtain rows' where "rows_next L rows = (None, rows')" "readable rows'" "row_objects L rows' = []"
      using rows_next_readable[OF Suc.prems, of L] by auto
    then show ?thesis using Nil by simp
  next
    case (Cons o' os)
    then obtain rows' where next1: "rows_next L rows = (Some o', rows')" "readable rows'" "row_objects L rows' = os"
      using rows_next_readable[OF Suc.prems, of L] by auto
    show ?thesis
    proof (cases o')
      case None
      then show ?thesis using Cons next1 by simp
    next
      case (Some obj)
      then show ?thesis
        using Cons next1 Suc.IH[OF next1(2), of "objects @ [obj]"] by (auto split: option.splits)
    qed
  qed
qed simp

lemma position_of_None: "position_of P xs = None \<longleftrightarrow> (\<forall>x \<in> set xs. \<not> P x)"
  by (induction xs) auto

lemma drain_spent: "bt_spent b \<Longrightarrow> drain L convert b = []"
  by (subst drain.simps) (simp add: batches_next_def)

lemma drain_readable:
  assumes "readable (bt_rows b)" and "\<not> bt_spent b"
  shows "drain L convert b = batch_results convert (bt_read b) (chunks batch_size (row_objects L (bt_rows b)))"
  using assms
proof (induction "length (row_objects L (bt_rows b))" arbitrary: b rule: less_induct)
  case less
  let ?os = "row_objects L (bt_rows b)"
  show ?case
  proof (cases "?os = []")
    case True
    then have "fill L batch_size [] (bt_rows b) = (Ok [], snd (fill L batch_size [] (bt_rows b)))"
      using fill_readable[OF less.prems(1), of L batch_size "[]"] by auto
    then show ?thesis
      using True less.prems by (subst drain.simps) (auto simp: batches_next_def chunks.simps[of _ "[]"] split: prod.splits)
  next
    case False
    have chunk: "chunks batch_size ?os = take batch_size ?os # chunks batch_size (drop batch_size ?os)"
      using False by (subst chunks.simps) (simp add: batch_size_def)
    show ?thesis
    proof (cases "position_of (\<lambda>o'. o' = None) (take batch_size ?os)")
      case (Some j)
      then obtain rows' where "fill L batch_size [] (bt_rows b) = (Err j, rows')"
        using fill_readable[OF less.prems(1), of L batch_size "[]"] by auto
      then show ?thesis
        using Some less.prems(2) unfolding chunk
        by (subst drain.simps) (simp add: batches_next_def drain_spent)
    next
      case None
      then obtain rows' where fill1: "fill L batch_size [] (bt_rows b) = (Ok (map the (take batch_size ?os)), rows')"
        "readable rows'" "row_objects L rows' = drop batch_size ?os"
        using fill_readable[OF less.prems(1), of L batch_size "[]"] by auto
      have some: "map the (take batch_size ?os) \<noteq> []" using False by (simp add: batch_size_def)
      have shorter: "length (drop batch_size ?os) < length ?os" using False by (simp add: batch_size_def)
      show ?thesis
      proof (cases "convert (map the (take batch_size ?os))")
        case (Inl reason)
        then show ?thesis
          using None less.prems(2) fill1(1) some unfolding chunk
          by (subst drain.simps) (simp add: batches_next_def drain_spent split: option.splits)
      next
        case (Inr batch)
        let ?b = "b\<lparr>bt_rows := rows', bt_read := bt_read b + length (take batch_size ?os)\<rparr>"
        have "drain L convert ?b = batch_results convert (bt_read ?b) (chunks batch_size (drop batch_size ?os))"
          using less.hyps[of ?b] shorter fill1 less.prems(2) by simp
        moreover have "batches_next L convert b = (Some (Ok batch), ?b)"
          using less.prems(2) fill1(1) some Inr by (simp add: batches_next_def)
        ultimately show ?thesis
          using None Inr unfolding chunk by (subst drain.simps) simp
      qed
    qed
  qed
qed


section \<open>A load is its rows, in order\<close>

text \<open>One row's insert when no statement boundary matters.\<close>

definition insert_one :: "str list \<Rightarrow> conflict_clause option \<Rightarrow> row \<Rightarrow> stored \<Rightarrow> (db_error, stored) result" where
  "insert_one key clause r t = try_then (insert_row SqliteText key clause r (t, {})) (\<lambda>(t', _). Ok t')"

definition conflict_clause_of :: "conflict \<Rightarrow> record_table \<Rightarrow> conflict_clause option" where
  "conflict_clause_of mode t =
     ins_conflict (on_conflict mode [''id''] (column_names t)
       \<lparr>ins_table = [], ins_columns = [], ins_rows = [], ins_conflict = None\<rparr>)"

definition load_of :: "codecs \<Rightarrow> sql_dialect \<Rightarrow> conflict \<Rightarrow> records \<Rightarrow> insert_statement" where
  "load_of cd D mode rs =
     \<lparr>ins_table = record_table_name (record_table_of rs), ins_columns = column_names (record_table_of rs),
      ins_rows = all_rows cd D rs, ins_conflict = conflict_clause_of mode (record_table_of rs)\<rparr>"

lemma insert_row_one:
  "insert_row D key clause r (t, T) = Ok (t', T') \<Longrightarrow> insert_one key clause r t = Ok t'"
  by (auto simp: insert_row_def insert_one_def Let_def split: option.splits conflict_clause.splits if_splits)

lemma insert_rows_one:
  "try_fold (insert_row D key clause) rs (t, T) = Ok (t', T') \<Longrightarrow> try_fold (insert_one key clause) rs t = Ok t'"
proof (induction rs arbitrary: t T)
  case (Cons r rs)
  then obtain t1 T1 where "insert_row D key clause r (t, T) = Ok (t1, T1)"
    "try_fold (insert_row D key clause) rs (t1, T1) = Ok (t', T')"
    by (auto simp: try_then_Inr_iff)
  then show ?case using Cons.IH insert_row_one by (auto simp: try_then_Inr_iff)
qed simp

lemma run_insert_one:
  assumes "run_insert D [''id''] (load_of cd D mode rs) t = Ok t'"
  shows "try_fold (insert_one [''id''] (conflict_clause_of mode (record_table_of rs)))
    (table_rows (record_table_of rs) (all_rows cd D rs)) t = Ok t'"
  using assms insert_rows_one by (fastforce simp: run_insert_def load_of_def try_then_Inr_iff)

lemma record_key: "sch_key (record_schema t) = [''id'']"
  by (cases t) (simp_all add: record_schema_def struct_schema_def)

lemma length_all_rows: "length (all_rows cd D rs) = records_len rs"
  by (cases rs) simp_all

lemma load_item_total:
  "load_item cd D mode item = Ok (case item of
      Inl reason \<Rightarrow> Err reason
    | Inr rs \<Rightarrow> if records_len rs = 0 then Err ''A row holds a value this command cannot store.''
        else Ok (load_of cd D mode rs, records_len rs))"
proof (cases item)
  case (Inr rs)
  have "list_all (\<lambda>r. length r = length (column_names (record_table_of rs))) (all_rows cd D rs)"
    using all_rows_fit by (simp add: list_all_iff)
  moreover have "records_len rs = 0 \<longleftrightarrow> all_rows cd D rs = []" using length_all_rows[of cd D rs] by auto
  ultimately show ?thesis
    using Inr by (cases mode) (auto simp: load_item_def load_statement_def insert_into_def open_insert_def record_key load_of_def
        conflict_clause_of_def on_conflict_def)
qed (simp add: load_item_def)

lemma load_batches_land:
  assumes "insert_batches D (\<lambda>_. [''id'']) (map (\<lambda>rs. Ok (load_of cd D mode rs, records_len rs)) rss) (db, n) = Ok (db', m)"
    and "list_all (\<lambda>rs. record_table_of rs = t) rss"
  shows "m = n + sum_list (map records_len rss)
    \<and> try_fold (insert_one [''id''] (conflict_clause_of mode t)) (table_rows t (concat (map (all_rows cd D) rss)))
        (db (record_table_name t)) = Ok (db' (record_table_name t))
    \<and> (\<forall>u. u \<noteq> record_table_name t \<longrightarrow> db' u = db u)"
  using assms
proof (induction rss arbitrary: db n)
  case (Cons rs rss)
  let ?name = "record_table_name t"
  have t: "record_table_of rs = t" "ins_table (load_of cd D mode rs) = ?name"
    using Cons.prems(2) by (simp_all add: load_of_def)
  obtain tbl where run: "run_insert D [''id''] (load_of cd D mode rs) (db ?name) = Ok tbl"
    "insert_batches D (\<lambda>_. [''id'']) (map (\<lambda>rs. Ok (load_of cd D mode rs, records_len rs)) rss)
       (db(?name := tbl), n + records_len rs) = Ok (db', m)"
    using Cons.prems(1) t by (auto simp: try_then_Inr_iff)
  show ?case
    using Cons.IH[OF run(2)] Cons.prems(2) run_insert_one[OF run(1)] t(1) by (auto simp: try_fold_append)
qed simp


lemma batch_results_ok:
  assumes "batch_results convert start cs = map Ok bs"
  shows "list_all2 (\<lambda>c b. None \<notin> set c \<and> convert (map the c) = Ok b) cs bs"
  using assms
proof (induction convert start cs arbitrary: bs rule: batch_results.induct)
  case (2 convert start c cs)
  have parsed: "position_of (\<lambda>o'. o' = None) c = None"
    using "2.prems" by (cases "position_of (\<lambda>o'. o' = None) c") auto
  then obtain b where b: "convert (map the c) = Ok b" using "2.prems" by (cases "convert (map the c)") auto
  have "None \<notin> set c" using parsed by (auto simp: position_of_None)
  then show ?case using 2 parsed b by (auto simp: Cons_eq_map_conv)
qed simp

lemma table_records_shape:
  assumes "table_records L F t objects = Ok rs"
  shows "record_table_of rs = t \<and> records_len rs = length objects"
  using assms
  by (cases t) (auto simp: table_records_def try_then_Inr_iff try_map_Inr dest!: list_all2_lengthD)

lemma results_converted:
  assumes "list_all2 (\<lambda>c rs. None \<notin> set c \<and> table_records L F t (map the c) = Ok rs) cs rss"
  shows "list_all (\<lambda>rs. record_table_of rs = t) rss \<and> sum_list (map records_len rss) = length (concat cs)
    \<and> None \<notin> set (concat cs)"
  using assms by (induction rule: list_all2_induct) (auto dest!: table_records_shape)

definition load_outcome ::
  "load_lib \<Rightarrow> (nat \<Rightarrow> fresh) \<Rightarrow> codecs \<Rightarrow> sql_dialect \<Rightarrow> conflict \<Rightarrow> record_table \<Rightarrow> input_rows \<Rightarrow> database
     \<Rightarrow> (panic, database \<times> (db_error, nat) result) result" where
  "load_outcome L F cd D mode t rows db =
     load_records cd D mode (drain L (table_records L F t) (batches_new rows)) db"

lemma load_succeeded:
  assumes "insert_batches D keys (map f items) (db, n) = Ok (db', m)"
    and "\<And>item. f item = (case item of Inl reason \<Rightarrow> Err reason | Inr rs \<Rightarrow> if P rs then Err q else Ok (g rs))"
  shows "\<exists>rss. items = map Ok rss \<and> map f items = map (\<lambda>rs. Ok (g rs)) rss"
  using assms(1)
proof (induction items arbitrary: db n)
  case (Cons item items)
  obtain rs where rs: "item = Ok rs" "\<not> P rs"
    using Cons.prems assms(2)[of item] by (cases item) (auto split: if_splits)
  then obtain db1 n1 where "insert_batches D keys (map f items) (db1, n1) = Ok (db', m)"
    using Cons.prems assms(2)[of item] by (cases "g rs") (auto simp: try_then_Inr_iff)
  from Cons.IH[OF this] obtain rss where "items = map Ok rss" "map f items = map (\<lambda>rs. Ok (g rs)) rss" by blast
  then show ?case using rs assms(2)[of item] by (intro exI[of _ "rs # rss"]) simp
qed simp

section \<open>Properties\<close>



definition example_load_lib :: load_lib where
  "example_load_lib =
     \<lparr>ll_json = (\<lambda>l. if l = ''ok'' then Some [] else if l = ''odd'' then Some [(''x'', json_null)] else None),
      ll_yaml = (\<lambda>t. Ok (JText t)), ll_message = (\<lambda>_. Err ''no message''), ll_particle = (\<lambda>_. Err ''no particle''),
      ll_alert = (\<lambda>_. Err ''no type''), ll_log_entry = (\<lambda>_. Ok (example_entry ''loaded'')),
      ll_entity = (\<lambda>_ _. Err ''no entity'')\<rparr>"

definition example_fresh :: "nat \<Rightarrow> fresh" where
  "example_fresh i = \<lparr>fr_uuid = ''u'', fr_now = ''now''\<rparr>"


text \<open>What \<open>complete\<close> does to the keys seen so far.\<close>

lemma complete_loop_count:
  "fst (complete_loop keys obj fallback (n, c)) = n - int (length (filter (\<lambda>k. map_of obj k \<noteq> None) keys))"
  by (induction keys arbitrary: n c) (simp_all split: option.split)

lemma complete_loop_lookup:
  assumes "distinct keys"
  shows "map_of (snd (complete_loop keys obj fallback (n, c))) k =
    (if k \<in> set keys then (case map_of obj k of Some v \<Rightarrow> Some v
       | None \<Rightarrow> (case fallback k of Some v \<Rightarrow> Some v | None \<Rightarrow> map_of c k))
     else map_of c k)"
  using assms
proof (induction keys arbitrary: n c)
  case (Cons key keys)
  show ?case
  proof (cases "map_of obj key")
    case (Some v)
    then show ?thesis using Cons.IH[of "n - 1" "AList.update key v c"] Cons.prems
      by (auto simp: AList.update_conv' split: option.split)
  next
    case None
    show ?thesis
    proof (cases "fallback key")
      case (Some v)
      then show ?thesis
        using Cons.IH[of n "AList.update key v c"] Cons.prems None
        by (auto simp: AList.update_conv' split: option.split)
    next
      case fallback_None: None
      then show ?thesis using Cons.IH[of n c] Cons.prems None by auto
    qed
  qed
qed simp

lemma accepted_count:
  assumes "distinct accepted" and "distinct (map fst obj)"
  shows "length (filter (\<lambda>k. map_of obj k \<noteq> None) accepted) = length obj \<longleftrightarrow> fst ` set obj \<subseteq> set accepted"
proof -
  let ?found = "filter (\<lambda>k. map_of obj k \<noteq> None) accepted"
  have card: "card (set ?found) = length ?found" "card (fst ` set obj) = length obj"
    using distinct_card[of ?found] distinct_card[of "map fst obj"] assms by simp_all
  have found: "set ?found = set accepted \<inter> fst ` set obj" by (auto simp: map_of_eq_None_iff)
  show ?thesis
  proof
    assume "length ?found = length obj"
    then have "set accepted \<inter> fst ` set obj = fst ` set obj"
      using card found by (intro card_subset_eq) auto
    then show "fst ` set obj \<subseteq> set accepted" by blast
  next
    assume "fst ` set obj \<subseteq> set accepted"
    then have "set ?found = fst ` set obj" using found by blast
    then show "length ?found = length obj" using card by simp
  qed
qed

text \<open>
  Completing a row. A row is accepted exactly when every field it carries has a place in
  the table; it then keeps every value it carries, takes the declared default of each field it
  lacks, and gains nothing else.
\<close>

theorem complete_fills_defaults:
  assumes "distinct accepted" and "distinct (map fst obj)"
  shows "(case complete accepted obj fallback of
      Inl e \<Rightarrow> \<not> fst ` set obj \<subseteq> set accepted
    | Inr c \<Rightarrow> fst ` set obj \<subseteq> set accepted
        \<and> map_of c = (\<lambda>k. if k \<in> set accepted then (case map_of obj k of Some v \<Rightarrow> Some v | None \<Rightarrow> fallback k) else None))"
proof -
  obtain n c where run: "complete_loop accepted obj fallback (int (length obj), []) = (n, c)"
    by (cases "complete_loop accepted obj fallback (int (length obj), [])")
  have "n = 0 \<longleftrightarrow> fst ` set obj \<subseteq> set accepted"
    using complete_loop_count[of accepted obj fallback "int (length obj)" "[]"] run accepted_count[OF assms] by auto
  moreover have "map_of c = (\<lambda>k. if k \<in> set accepted then (case map_of obj k of Some v \<Rightarrow> Some v | None \<Rightarrow> fallback k) else None)"
  proof
    fix k
    show "map_of c k = (if k \<in> set accepted then (case map_of obj k of Some v \<Rightarrow> Some v | None \<Rightarrow> fallback k) else None)"
      using complete_loop_lookup[OF assms(1), of obj fallback "int (length obj)" "[]" k] run
      by (simp split: option.splits)
  qed
  ultimately show ?thesis using run by (simp add: complete_def)
qed

theorem complete_fills_defaults_witness:
  "\<exists>c. complete (accepted_keys Logs) [(''content'', JText ''hi'')] (record_default (example_fresh 0) Logs) = Ok c
     \<and> map_of c ''id'' = Some (JText ''u'')"
proof -
  have keys: "accepted_keys Logs = [''id'', ''address'', ''timestamp'', ''level'', ''content'']"
    by (simp add: accepted_keys_def derive_wire_keys_def record_struct_def schema_defs)
  show ?thesis
    using complete_fills_defaults[of "accepted_keys Logs" "[(''content'', JText ''hi'')]" "record_default (example_fresh 0) Logs"]
    by (auto simp: keys record_default_def record_column_default_def example_fresh_def split: sum.splits)
qed

section \<open>Where a load says less than it did\<close>

text \<open>
  A line the source cannot read, such as one that is not UTF-8, is taken for the end of the
  input: the load delivers nothing from it on when it comes first in a batch, and otherwise drops
  that line alone. Neither is reported, so such a load succeeds without those rows.
\<close>

lemma fill_more:
  "0 < n \<Longrightarrow> fill L n objects rows =
     (case rows_next L rows of
        (None, rows') \<Rightarrow> (Ok objects, rows')
      | (Some None, rows') \<Rightarrow> (Err (length objects), rows')
      | (Some (Some obj), rows') \<Rightarrow> fill L (n - 1) (objects @ [obj]) rows')"
  by (cases n, simp, simp only: fill.simps diff_Suc_1)

lemma unreadable_line_ends_load: "drain L convert (batches_new (JsonLines (None # ls))) = []"
  by (subst drain.simps) (simp add: batches_next_def batches_new_def batch_size_def fill_more)

lemma example_log_records:
  "table_records example_load_lib example_fresh Logs [[]] = Ok (LogEntriesR [example_entry ''loaded''])"
  by (simp add: table_records_def complete_def accepted_keys_def derive_wire_keys_def record_struct_def schema_defs
      record_default_def record_column_default_def example_load_lib_def)

lemma unreadable_line_dropped:
  "drain example_load_lib (table_records example_load_lib example_fresh Logs)
     (batches_new (JsonLines [Some ''ok'', None, Some ''ok'']))
   = [Ok (LogEntriesR [example_entry ''loaded'']), Ok (LogEntriesR [example_entry ''loaded''])]"
proof -
  let ?convert = "table_records example_load_lib example_fresh Logs"
  let ?next = "batches_next example_load_lib ?convert"
  have ok: "ll_json example_load_lib ''ok'' = Some []" by (simp add: example_load_lib_def)
  have one: "?next (batches_new (JsonLines [Some ''ok'', None, Some ''ok'']))
      = (Some (Ok (LogEntriesR [example_entry ''loaded''])),
         \<lparr>bt_rows = JsonLines [Some ''ok''], bt_spent = False, bt_read = Suc 0\<rparr>)"
    by (simp add: batches_next_def batches_new_def batch_size_def fill_more ok example_log_records)
  have two: "?next \<lparr>bt_rows = JsonLines [Some ''ok''], bt_spent = False, bt_read = Suc 0\<rparr>
      = (Some (Ok (LogEntriesR [example_entry ''loaded''])),
         \<lparr>bt_rows = JsonLines [], bt_spent = False, bt_read = 2\<rparr>)"
    by (simp add: batches_next_def batch_size_def fill_more ok example_log_records)
  have three: "?next \<lparr>bt_rows = JsonLines [], bt_spent = False, bt_read = 2\<rparr>
      = (None, \<lparr>bt_rows = JsonLines [], bt_spent = False, bt_read = 2\<rparr>)"
    by (simp add: batches_next_def batch_size_def fill_more)
  have "drain example_load_lib ?convert \<lparr>bt_rows = JsonLines [], bt_spent = False, bt_read = 2\<rparr> = []"
    by (subst drain.simps) (simp add: three)
  then have "drain example_load_lib ?convert \<lparr>bt_rows = JsonLines [Some ''ok''], bt_spent = False, bt_read = Suc 0\<rparr>
      = [Ok (LogEntriesR [example_entry ''loaded''])]"
    by (subst drain.simps) (simp add: two)
  then show ?thesis by (subst drain.simps) (simp add: one)
qed

text \<open>
  A refusal names the first row of its batch that fails alone and gives the reason of the whole
  batch, which may be another row's: here row 1 is refused for a field only row 2 carries.
\<close>

lemma refusal_reason_of_another_row:
  "drain example_load_lib (table_records example_load_lib example_fresh Alerts)
     (batches_new (JsonLines [Some ''ok'', Some ''odd'']))
   = [Err (refused 1 ''`x` is not a field a write takes.'')]"
proof -
  let ?convert = "table_records example_load_lib example_fresh Alerts"
  have parsed: "ll_json example_load_lib ''ok'' = Some []" "ll_json example_load_lib ''odd'' = Some [(''x'', json_null)]"
    by (simp_all add: example_load_lib_def)
  have both: "?convert [[], [(''x'', json_null)]] = Err ''`x` is not a field a write takes.''"
    and first: "?convert [[]] = Err ''no type''"
    by (simp_all add: table_records_def complete_def accepted_keys_def derive_wire_keys_def record_struct_def schema_defs
        record_default_def record_column_default_def example_load_lib_def)
  have "drain example_load_lib ?convert (batches_new (JsonLines [Some ''ok'', Some ''odd'']))
      = batch_results ?convert 0 (chunks batch_size [Some [], Some [(''x'', json_null)]])"
    using drain_readable[of "batches_new (JsonLines [Some ''ok'', Some ''odd''])" example_load_lib ?convert]
    by (simp add: batches_new_def parsed)
  also have "\<dots> = [Err (refused 1 ''`x` is not a field a write takes.'')]"
    by (simp add: chunks.simps[of _ "_ # _"] batch_size_def both first)
  finally show ?thesis .
qed

end
