(* ===== verification/Assignments.thy ===== *)
theory Assignments
  imports Api Live Load
begin

text \<open>
  Column values of an update or an insert (\<open>ceres-database/src/set.rs\<close>) and the update that uses them
  (\<open>store.rs\<close>): one JSON object, each key a column, each value encoded into the form the column stores. The
  rendering of a JSON value as text is an argument.
\<close>

section \<open>Messages\<close>

definition quoted :: "str \<Rightarrow> str" where
  "quoted name = ''`'' @ name @ ''`''"

fun listed :: "str list \<Rightarrow> str" where
  "listed [] = ''no settable columns''"
| "listed [only] = quoted only"
| "listed names = join_with '', '' (map quoted (butlast names)) @ '' and '' @ quoted (last names)"

text \<open>A character starts at a byte that does not continue one.\<close>

definition continues :: "char \<Rightarrow> bool" where
  "continues c \<longleftrightarrow> 128 \<le> (of_char c :: nat) \<and> (of_char c :: nat) < 192"

definition char_count :: "str \<Rightarrow> nat" where
  "char_count s = length (filter (\<lambda>c. \<not> continues c) s)"

fun take_chars :: "nat \<Rightarrow> str \<Rightarrow> str" where
  "take_chars n [] = []"
| "take_chars n (c # s) =
     (if continues c then c # take_chars n s
      else case n of 0 \<Rightarrow> [] | Suc m \<Rightarrow> c # take_chars m s)"

definition shown :: "(json \<Rightarrow> str) \<Rightarrow> json \<Rightarrow> str" where
  "shown write v =
     (let rendered = write v in
      if char_count rendered \<le> 40 then rendered else take_chars 40 rendered @ ''...'')"

section \<open>Encoding one value\<close>

text \<open>\<open>Some v\<close> is a bound value and \<open>None\<close> the keyword \<open>NULL\<close>; a refusal says what the column wanted.\<close>

definition value_text :: "json \<Rightarrow> str \<Rightarrow> (str, str) result" where
  "value_text v wanted =
     (case json_as_str v of Some t \<Rightarrow> Ok t | None \<Rightarrow> Err (''takes '' @ wanted @ '' as text''))"

definition encode :: "codecs \<Rightarrow> (json \<Rightarrow> str) \<Rightarrow> field_family \<Rightarrow> json \<Rightarrow> sql_dialect \<Rightarrow> (str, sql_value option) result" where
  "encode cd write family v D =
     (if v = JNull \<and> family \<noteq> JsonValue then Ok None
      else case family of
        Uuid \<Rightarrow> try_then (value_text v ''a UUID'') (\<lambda>t.
          case cd_uuid_parse cd t of Some u \<Rightarrow> Ok (Some (id_value cd u D)) | None \<Rightarrow> Err ''takes a UUID'')
      | Address \<Rightarrow> try_then (value_text v ''an address'') (\<lambda>t.
          case address_parse t of Inr a \<Rightarrow> Ok (Some (TextV a)) | Inl e \<Rightarrow> Err ''takes an address, which starts with `@`'')
      | PlainAddress \<Rightarrow> try_then (value_text v ''an address'') (\<lambda>t.
          case address_parse t of Inr a \<Rightarrow> Ok (Some (TextV a)) | Inl e \<Rightarrow> Err ''takes an address, which starts with `@`'')
      | Timestamp \<Rightarrow> try_then (value_text v ''a timestamp'') (\<lambda>t.
          case parse_timestamp cd t of Inr s \<Rightarrow> Ok (Some (timestamp_value cd s D)) | Inl e \<Rightarrow> Err ''takes an ISO 8601 timestamp'')
      | Text \<Rightarrow> try_then (value_text v ''text'') (\<lambda>t. Ok (Some (TextV t)))
      | Email \<Rightarrow> try_then (value_text v ''an email address'') (\<lambda>t.
          case normalize_email (cd_email cd) t of Some e \<Rightarrow> Ok (Some (TextV e)) | None \<Rightarrow> Err ''takes an email address'')
      | Values allowed \<Rightarrow> try_then (value_text v ''one of a fixed set of words'') (\<lambda>t.
          if t \<in> set allowed then Ok (Some (TextV t)) else Err (''takes one of '' @ listed allowed))
      | Level \<Rightarrow> try_then (value_text v ''a log level'') (\<lambda>t.
          case level_parse t of Inr l \<Rightarrow> Ok (Some (TextV t)) | Inl e \<Rightarrow> Err ''takes a log level'')
      | Bytes \<Rightarrow> try_then (value_text v ''a payload'') (\<lambda>t. Ok (Some (BytesV (latin1_encode t))))
      | Json \<Rightarrow> (case v of JObject m \<Rightarrow> Ok (Some (json_bound (write v) D)) | _ \<Rightarrow> Err ''takes an object'')
      | Boolean \<Rightarrow> (case v of JBool b \<Rightarrow> Ok (Some (BoolV b)) | _ \<Rightarrow> Err ''takes true or false'')
      | JsonValue \<Rightarrow> Ok (Some (json_bound (write v) D)))"

section \<open>Objects\<close>

type_synonym set_clause = "str \<times> sql_value option"

definition settable :: "schema \<Rightarrow> str list" where
  "settable s = filter (\<lambda>k. k \<notin> set (sch_fixed s)) (map ff_key (sch_columns s))"

definition encode_column ::
  "codecs \<Rightarrow> (json \<Rightarrow> str) \<Rightarrow> schema \<Rightarrow> sql_dialect \<Rightarrow> str \<times> json \<Rightarrow> (str, set_clause) result" where
  "encode_column cd write s D kv =
     (case kv of (key, v) \<Rightarrow>
        (case find (\<lambda>f. ff_key f = key) (sch_columns s) of
           None \<Rightarrow> Err (''There is no '' @ quoted key @ '' to set. This table holds '' @ listed (settable s) @ ''.'')
         | Some f \<Rightarrow>
             (case encode cd write (ff_family f) v D of
                Inl wanted \<Rightarrow> Err (quoted key @ '' '' @ wanted @ '', and was given '' @ shown write v @ ''.'')
              | Inr x \<Rightarrow> Ok (ff_key f, x))))"

definition encoded ::
  "codecs \<Rightarrow> (json \<Rightarrow> str) \<Rightarrow> schema \<Rightarrow> (str \<times> json) list \<Rightarrow> sql_dialect \<Rightarrow> (str, set_clause list) result" where
  "encoded cd write s values D = try_map (encode_column cd write s D) values"

definition identity_refusal :: "str \<Rightarrow> str" where
  "identity_refusal key =
     quoted key @ '' is part of what identifies a row, so it cannot be set. Create the row you want and delete this one instead.''"

definition set_clauses ::
  "codecs \<Rightarrow> (json \<Rightarrow> str) \<Rightarrow> schema \<Rightarrow> (str \<times> json) list \<Rightarrow> sql_dialect \<Rightarrow> (str, set_clause list) result" where
  "set_clauses cd write s values D =
     (if values = [] then Err ''--set was given nothing to set.''
      else case find (\<lambda>k. k \<in> set (sch_fixed s)) (map fst values) of
             Some key \<Rightarrow> Err (identity_refusal key)
           | None \<Rightarrow> encoded cd write s values D)"

definition insert_values ::
  "codecs \<Rightarrow> (json \<Rightarrow> str) \<Rightarrow> schema \<Rightarrow> (str \<times> json) list \<Rightarrow> sql_dialect \<Rightarrow> (str, set_clause list) result" where
  "insert_values cd write s values D =
     (if values = [] then Err ''An insert was given no columns to write.'' else encoded cd write s values D)"

definition insert_compiled ::
  "codecs \<Rightarrow> (json \<Rightarrow> str) \<Rightarrow> table \<Rightarrow> (str \<times> json) list \<Rightarrow> bool \<Rightarrow> sql_dialect \<Rightarrow> (str, insert_statement) result" where
  "insert_compiled cd write t values replaces D =
     try_then (insert_values cd write (table_schema t) values D) (\<lambda>clauses.
     Ok \<lparr>ins_table = sch_name (table_schema t), ins_columns = map fst clauses, ins_rows = [map snd clauses],
         ins_conflict = (if replaces then Some (DoUpdate (sch_key (table_schema t))
           (filter (\<lambda>c. c \<notin> set (sch_key (table_schema t))) (map fst clauses))) else None)\<rparr>)"

section \<open>The update of a store\<close>

text \<open>\<open>Stored::prepare\<close>: a user's credentials follow the rules of a create.\<close>

definition prepare_entry ::
  "credential_lib \<Rightarrow> hashing \<Rightarrow> str \<times> json \<Rightarrow> (credential_error, str \<times> json) result" where
  "prepare_entry C h kv =
     (case kv of (key, v) \<Rightarrow>
        (case credential_entry C h (key, case v of JString t \<Rightarrow> JText t | _ \<Rightarrow> JOther []) of
           Inl e \<Rightarrow> Err e
         | Inr (k, JText t) \<Rightarrow> Ok (k, JString t)
         | Inr (k, JOther _) \<Rightarrow> Ok (k, v)))"

definition prepare ::
  "credential_lib \<Rightarrow> (credential_error \<Rightarrow> str) \<Rightarrow> table \<Rightarrow> (str \<times> json) list \<Rightarrow> hashing option \<Rightarrow> (str, (str \<times> json) list) result" where
  "prepare C explain t values credentials =
     (if t \<noteq> EntityTable Users then Ok values
      else case credentials of
             None \<Rightarrow> Err ''This database hashes passwords in a way this command cannot reproduce, so it will not write a user.''
           | Some h \<Rightarrow>
               (case try_map (prepare_entry C h) values of
                  Inl e \<Rightarrow> Err (explain e @ '' It will not be written.'')
                | Inr vs \<Rightarrow> Ok vs))"

definition store_set_clauses ::
  "codecs \<Rightarrow> (json \<Rightarrow> str) \<Rightarrow> (str \<Rightarrow> (str, json) result) \<Rightarrow> (credential_error \<Rightarrow> str) \<Rightarrow> table \<Rightarrow> str \<Rightarrow> hashing option
     \<Rightarrow> sql_dialect \<Rightarrow> (str, set_clause list) result" where
  "store_set_clauses cd write yaml explain t set_text credentials D =
     (case yaml set_text of
        Inl e \<Rightarrow> Err (''--set is not readable as JSON or YAML. '' @ e)
      | Inr (JObject values) \<Rightarrow>
          try_then (prepare (cd_email cd) explain t values credentials) (\<lambda>values.
          set_clauses cd write (table_schema t) values D)
      | Inr _ \<Rightarrow> Err (''--set takes an object of column names and values, like `{'' @ [CHR 0x22] @ ''name'' @ [CHR 0x22]
                   @ '': '' @ [CHR 0x22] @ ''rate'' @ [CHR 0x22] @ ''}`.''))"

text \<open>\<open>update_matches\<close>: the statement the backend runs, or none when the page is empty.\<close>

definition update_matches ::
  "codecs \<Rightarrow> (json \<Rightarrow> str) \<Rightarrow> (str \<Rightarrow> (str, json) result) \<Rightarrow> (credential_error \<Rightarrow> str) \<Rightarrow> table \<Rightarrow> filter_core \<Rightarrow> str
     \<Rightarrow> hashing option \<Rightarrow> sql_dialect \<Rightarrow> int \<Rightarrow> (str + panic, update_query option) result" where
  "update_matches cd write yaml explain t f set_text credentials D now =
     (case store_set_clauses cd write yaml explain t set_text credentials D of
        Inl e \<Rightarrow> Err (Inl e)
      | Inr clauses \<Rightarrow>
          if fc_limit f = Some 0 then Ok None
          else (case update_statement cd f clauses D now of Inl p \<Rightarrow> Err (Inr p) | Inr q \<Rightarrow> Ok (Some q)))"

section \<open>What an update may change\<close>

lemma find_family:
  "map_option ff_family (find (\<lambda>f. ff_key f = k) fs) = map_of (map (\<lambda>f. (ff_key f, ff_family f)) fs) k"
  by (induction fs) auto

lemma encode_column_Ok:
  assumes "encode_column cd write s D (k, v) = Ok c"
  shows "fst c = k" and "k \<in> set (map ff_key (sch_columns s))"
  using assms
  by (auto simp: encode_column_def find_Some_iff split: option.splits sum.splits)

lemma encoded_columns:
  assumes "encoded cd write s given D = Ok clauses"
  shows "map fst clauses = map fst given" and "set (map fst given) \<subseteq> set (map ff_key (sch_columns s))"
proof -
  have "map fst clauses = map fst given \<and> set (map fst given) \<subseteq> set (map ff_key (sch_columns s))"
    using assms unfolding encoded_def
  proof (induction given arbitrary: clauses)
    case (Cons kv given)
    obtain k v where kv: "kv = (k, v)" by (cases kv)
    from Cons.prems obtain c cs where "encode_column cd write s D kv = Ok c" "clauses = c # cs"
      "try_map (encode_column cd write s D) given = Ok cs"
      by (auto simp: try_then_Inr_iff)
    with Cons.IH encode_column_Ok[of cd "write" s D k v c] kv show ?case by auto
  qed simp
  then show "map fst clauses = map fst given" "set (map fst given) \<subseteq> set (map ff_key (sch_columns s))"
    by simp_all
qed

lemma set_clauses_settable:
  assumes "set_clauses cd write s given D = Ok clauses"
  shows "map fst clauses = map fst given" and "set (map fst clauses) \<subseteq> set (settable s)" and "clauses \<noteq> []"
proof -
  have free: "find (\<lambda>k. k \<in> set (sch_fixed s)) (map fst given) = None" and enc: "encoded cd write s given D = Ok clauses"
    and "given \<noteq> []"
    using assms by (auto simp: set_clauses_def split: if_splits option.splits)
  from encoded_columns[OF enc] show "map fst clauses = map fst given" by simp
  with \<open>given \<noteq> []\<close> show "clauses \<noteq> []" by auto
  show "set (map fst clauses) \<subseteq> set (settable s)"
    using encoded_columns[OF enc] free by (auto simp: settable_def find_None_iff)
qed

lemma assign_other: "c \<notin> set (map fst sets) \<Longrightarrow> assign sets r c = r c"
proof (induction sets arbitrary: r)
  case (Cons s sets)
  then show ?case by (cases s) (auto simp: assign_def)
qed (simp add: assign_def)

lemma assign_set:
  "distinct (map fst sets) \<Longrightarrow> (c, v) \<in> set sets \<Longrightarrow> assign sets r c = v"
proof (induction sets arbitrary: r)
  case (Cons s sets)
  obtain k w where s: "s = (k, w)" by (cases s)
  show ?case
  proof (cases "(c, v) = s")
    case True
    then have "c \<notin> set (map fst sets)" using Cons.prems(1) s by auto
    from assign_other[OF this] True s show ?thesis by (simp add: assign_def)
  next
    case False
    then have "(c, v) \<in> set sets" "distinct (map fst sets)" using Cons.prems s by auto
    from Cons.IH[OF this(2,1)] s show ?thesis by (simp add: assign_def)
  qed
qed simp

lemma try_map_keys:
  assumes "\<And>kv kv'. g kv = Ok kv' \<Longrightarrow> fst kv' = fst kv" and "try_map g xs = Ok ys"
  shows "map fst ys = map fst xs"
  using assms(2) by (induction xs arbitrary: ys) (fastforce simp: try_then_Inr_iff dest: assms(1))+

lemma prepare_entry_key: "prepare_entry C h kv = Ok kv' \<Longrightarrow> fst kv' = fst kv"
  by (cases kv)
    (auto simp: prepare_entry_def credential_entry_def split: sum.splits wire_json.splits if_splits option.splits json.splits)

lemma prepare_keys:
  assumes "prepare C explain t given credentials = Ok given'"
  shows "map fst given' = map fst given"
proof (cases "t = EntityTable Users")
  case True
  then obtain h where "try_map (prepare_entry C h) given = Ok given'"
    using assms by (auto simp: prepare_def split: option.splits sum.splits)
  then show ?thesis using try_map_keys[of "prepare_entry C h"] prepare_entry_key by blast
qed (use assms in \<open>simp add: prepare_def\<close>)

lemma update_matches_Some:
  assumes "update_matches cd write yaml explain t f set_text credentials D now = Ok (Some q)"
  obtains clauses given obj where "yaml set_text = Ok (JObject obj)" and "map fst given = map fst obj"
    and "set_clauses cd write (table_schema t) given D = Ok clauses"
    and "update_statement cd f clauses D now = Ok q"
proof -
  obtain clauses where c: "store_set_clauses cd write yaml explain t set_text credentials D = Ok clauses"
    and q: "update_statement cd f clauses D now = Ok q"
    using assms by (auto simp: update_matches_def split: sum.splits if_splits)
  from c obtain obj given where "yaml set_text = Ok (JObject obj)"
    and "prepare (cd_email cd) explain t obj credentials = Ok given"
    and "set_clauses cd write (table_schema t) given D = Ok clauses"
    by (auto simp: store_set_clauses_def try_then_Inr_iff split: sum.splits json.splits)
  with q prepare_keys that show thesis by blast
qed


section \<open>An insert writes what the writer binds\<close>

text \<open>A record's serialized fields, read as JSON values by \<open>rd\<close>.\<close>

definition read_fields :: "(str \<Rightarrow> json) \<Rightarrow> (str \<times> str) list \<Rightarrow> (str \<times> json) list" where
  "read_fields rd kts = map (\<lambda>(k, t). (k, rd t)) kts"

fun record_object :: "codecs \<Rightarrow> serial_lib \<Rightarrow> (str \<Rightarrow> json) \<Rightarrow> records \<Rightarrow> (str \<times> json) list" where
  "record_object cd S rd (MessagesR ms) = read_fields rd (message_json cd S (hd ms))"
| "record_object cd S rd (ParticlesR ps) = read_fields rd (particle_json cd S (\<lambda>_. []) (hd ps))"
| "record_object cd S rd (AlertsR as) = read_fields rd (alert_json cd S (hd as))"
| "record_object cd S rd (LogEntriesR es) = read_fields rd (log_entry_json cd S (hd es))"

text \<open>
  Reading gives back quoted text, and what the date and identifier printers print parses; a document is
  an object that renders as it was stored.
\<close>

definition reads_wire :: "codecs \<Rightarrow> serial_lib \<Rightarrow> (str \<Rightarrow> json) \<Rightarrow> bool" where
  "reads_wire cd S rd \<longleftrightarrow>
     (\<forall>t. rd (sl_quote S t) = JString t) \<and> rd ''null'' = JNull \<and>
     (\<forall>u. cd_uuid_parse cd (cd_uuid_text cd u) = Some u) \<and>
     (\<forall>s. stamp_ok s \<longrightarrow> parse_timestamp cd (to_wire S s) = Ok s)"

definition document_kept :: "(json \<Rightarrow> str) \<Rightarrow> (str \<Rightarrow> json) \<Rightarrow> str \<Rightarrow> bool" where
  "document_kept write rd t \<longleftrightarrow> write (rd t) = t \<and> (case rd t of JObject m \<Rightarrow> True | _ \<Rightarrow> False)"

fun insertable :: "(json \<Rightarrow> str) \<Rightarrow> (str \<Rightarrow> json) \<Rightarrow> records \<Rightarrow> bool" where
  "insertable write rd (MessagesR ms) \<longleftrightarrow>
     list_all (\<lambda>m. stamp_ok (ms_timestamp m) \<and> is_valid (ms_address m)) ms"
| "insertable write rd (ParticlesR ps) \<longleftrightarrow>
     list_all (\<lambda>p. stamp_ok (pa_timestamp p) \<and> is_valid (pa_address p) \<and> document_kept write rd (pa_data p) \<and> pa_span p = None) ps"
| "insertable write rd (AlertsR as) \<longleftrightarrow>
     list_all (\<lambda>a. stamp_ok (al_timestamp a) \<and> is_valid (al_address a) \<and> document_kept write rd (al_data a)) as"
| "insertable write rd (LogEntriesR es) \<longleftrightarrow>
     list_all (\<lambda>e. stamp_ok (le_timestamp e) \<and> is_valid (le_address e)) es"

lemma column_families:
  "map (\<lambda>f. (ff_key f, ff_family f)) (sch_columns (record_schema Messages)) =
     [(''id'', Uuid), (''address'', Address), (''timestamp'', Timestamp), (''connection'', Text),
      (''direction'', Values [''send'', ''receive'']), (''data'', Bytes)]"
  "map (\<lambda>f. (ff_key f, ff_family f)) (sch_columns (record_schema Particles)) =
     [(''id'', Uuid), (''address'', Address), (''timestamp'', Timestamp), (''connection'', Text),
      (''type'', Text), (''data'', Json)]"
  "map (\<lambda>f. (ff_key f, ff_family f)) (sch_columns (record_schema Alerts)) =
     [(''id'', Uuid), (''address'', Address), (''timestamp'', Timestamp), (''level'', Level),
      (''type'', Text), (''data'', Json)]"
  "map (\<lambda>f. (ff_key f, ff_family f)) (sch_columns (record_schema Logs)) =
     [(''id'', Uuid), (''address'', Address), (''timestamp'', Timestamp), (''level'', Level), (''content'', Text)]"
  by code_simp+

lemma encode_column_family:
  assumes "map_of (map (\<lambda>f. (ff_key f, ff_family f)) (sch_columns s)) k = Some family"
    and "encode cd write family v D = Ok x"
  shows "encode_column cd write s D (k, v) = Ok (k, x)"
proof -
  obtain f where f: "find (\<lambda>f. ff_key f = k) (sch_columns s) = Some f" "ff_family f = family"
    using assms(1) find_family[of k "sch_columns s"] by auto
  moreover from f(1) have "ff_key f = k" by (auto simp: find_Some_iff)
  ultimately show ?thesis using assms(2) by (simp add: encode_column_def)
qed

lemma encoded_by_family:
  assumes "list_all2 (\<lambda>(k, v) (k', x). k' = k \<and>
      (\<exists>family. map_of (map (\<lambda>f. (ff_key f, ff_family f)) (sch_columns s)) k = Some family \<and> encode cd write family v D = Ok x))
      given clauses"
  shows "encoded cd write s given D = Ok clauses"
  using assms unfolding encoded_def
  by (induction rule: list_all2_induct) (auto simp: encode_column_family)

text \<open>Each family encodes the wire form of a value as the value the writer binds.\<close>

lemma encode_wire:
  assumes "reads_wire cd S rd"
  shows "encode cd write Uuid (rd (sl_quote S (cd_uuid_text cd u))) D = Ok (Some (id_value cd u D))"
    "is_valid a \<Longrightarrow> encode cd write Address (rd (sl_quote S a)) D = Ok (Some (TextV a))"
    "stamp_ok s \<Longrightarrow> encode cd write Timestamp (rd (sl_quote S (to_wire S s))) D = Ok (Some (timestamp_value cd s D))"
    "encode cd write Text (rd (sl_quote S t)) D = Ok (Some (TextV t))"
    "encode cd write Text (rd (option_json S ot)) D = Ok (map_option TextV ot)"
    "t \<in> set ws \<Longrightarrow> encode cd write (Values ws) (rd (sl_quote S t)) D = Ok (Some (TextV t))"
    "encode cd write Level (rd (sl_quote S (level_text l))) D = Ok (Some (TextV (level_text l)))"
    "encode cd write Bytes (rd (sl_quote S (latin1_decode bs))) D = Ok (Some (BytesV bs))"
    "document_kept write rd j \<Longrightarrow> encode cd write Json (rd j) D = Ok (Some (json_bound j D))"
  using assms
  by (auto simp: reads_wire_def encode_def value_text_def address_parse_def option_json_def latin1_round_trip
      level_text_def level_parse_def document_kept_def split: option.splits level.splits json.splits)

lemma table_columns: "sch_columns (table_schema (RecordTable t)) = sch_columns (record_schema t)"
  by (simp add: table_schema_def)

lemma message_inserted:
  assumes "reads_wire cd S rd" and "stamp_ok (ms_timestamp m)" and "is_valid (ms_address m)"
  shows "encoded cd write (record_schema Messages) (read_fields rd (message_json cd S m)) D =
         Ok (zip (column_names Messages) (message_row cd D m))"
  by (rule encoded_by_family)
    (simp add: column_families read_fields_def message_json_def message_row_def column_names_def
      encode_wire[OF assms(1)] assms(2,3) split: message_direction.split)

lemma alert_inserted:
  assumes "reads_wire cd S rd" and "stamp_ok (al_timestamp a)" and "is_valid (al_address a)" and "document_kept write rd (al_data a)"
  shows "encoded cd write (record_schema Alerts) (read_fields rd (alert_json cd S a)) D =
         Ok (zip (column_names Alerts) (alert_row cd D a))"
  by (rule encoded_by_family)
    (simp add: column_families read_fields_def alert_json_def alert_row_def column_names_def
      encode_wire[OF assms(1)] assms(2-))

lemma log_entry_inserted:
  assumes "reads_wire cd S rd" and "stamp_ok (le_timestamp e)" and "is_valid (le_address e)"
  shows "encoded cd write (record_schema Logs) (read_fields rd (log_entry_json cd S e)) D =
         Ok (zip (column_names Logs) (log_entry_row cd D e))"
  by (rule encoded_by_family)
    (simp add: column_families read_fields_def log_entry_json_def log_entry_row_def column_names_def
      encode_wire[OF assms(1)] assms(2-))

text \<open>A particle's missing connection is left out of the object, and so of the insert.\<close>

lemma particle_inserted:
  assumes "reads_wire cd S rd" and "stamp_ok (pa_timestamp p)" and "is_valid (pa_address p)"
    and "document_kept write rd (pa_data p)" and "pa_span p = None"
  shows "encoded cd write (record_schema Particles) (read_fields rd (particle_json cd S span p)) D =
         Ok (filter (\<lambda>(c, v). c \<noteq> ''connection'' \<or> v \<noteq> None) (zip (column_names Particles) (particle_row cd D p)))"
proof (cases "pa_connection p")
  case None
  then show ?thesis
    by (intro encoded_by_family)
      (simp add: column_families read_fields_def particle_json_def particle_row_def column_names_def
        encode_wire[OF assms(1)] assms(2-))
next
  case (Some c)
  then show ?thesis
    by (intro encoded_by_family)
      (simp add: column_families read_fields_def particle_json_def particle_row_def column_names_def
        encode_wire[OF assms(1)] assms(2-))
qed

lemma bind_row_drop_null:
  assumes "distinct (map fst ps)"
  shows "bind_row (map fst (filter (\<lambda>(c, v). P c \<or> v \<noteq> None) ps)) (map snd (filter (\<lambda>(c, v). P c \<or> v \<noteq> None) ps)) =
         bind_row (map fst ps) (map snd ps)"
  using assms unfolding bind_row_def zip_map_fst_snd
  by (induction ps) (auto simp: fun_eq_iff map_of_eq_None_iff[symmetric] split: option.splits)

lemma inserted_row:
  assumes "encoded cd write (record_schema t) obj D = Ok clauses" and "obj \<noteq> []"
    and "bind_row (map fst clauses) (map snd clauses) = r"
  shows "\<exists>q. insert_compiled cd write (RecordTable t) obj replaces D = Ok q \<and> ins_table q = sch_name (record_schema t) \<and>
     map (bind_row (ins_columns q)) (ins_rows q) = [r]"
  using assms by (simp add: insert_compiled_def insert_values_def table_schema_def)



definition demo_rd :: "str \<Rightarrow> json" where
  "demo_rd t = (case unquote t of Some s \<Rightarrow> JString s | None \<Rightarrow> if t = ''null'' then JNull else JObject [])"

lemma demo_reads_wire: "reads_wire reference_codecs reference_serial_lib demo_rd"
  unfolding reads_wire_def
proof (intro conjI allI impI)
  fix t
  show "demo_rd (sl_quote reference_serial_lib t) = JString t"
    using unquote_quoted by (simp add: demo_rd_def reference_serial_lib_def)
  show "demo_rd ''null'' = JNull" by code_simp
next
  fix u
  have "unat (u :: 128 word) < 2 ^ 128" using unsigned_less[of u, where ?'a = nat] by simp
  then show "cd_uuid_parse reference_codecs (cd_uuid_text reference_codecs u) = Some u"
    by (simp add: reference_codecs_def)
next
  fix s
  assume s: "stamp_ok s"
  then have "nat (s - stamp_origin) < 2 ^ 70" "stamp_origin \<le> s"
    by (auto simp: stamp_ok_def stamp_renders_def stamp_origin_def stamp_limit_def)
  then have "stamp_parse_ref (stamp_text_ref s) = Some s"
    by (simp add: stamp_parse_ref_def stamp_text_ref_def)
  moreover have "s div 1000000000 * 1000000 + s div 1000 mod 1000000 = s div 1000"
    using div_mult_mod_eq[of "s div 1000" 1000000] by (simp add: zdiv_zmult2_eq[symmetric])
  moreover have "s div 1000 * 1000 = s"
    using s div_mult_mod_eq[of s 1000] by (simp add: stamp_ok_def)
  ultimately show "parse_timestamp reference_codecs (to_wire reference_serial_lib s) = Ok s"
    by (simp add: parse_timestamp_def to_wire_def reference_serial_lib_def reference_codecs_def)
qed


end
