(* ===== verification/Media.thy ===== *)
theory Media
  imports Timeline
begin

unbundle bit_operations_syntax

text \<open>
  The media types of \<open>ceres-media\<close> and the Annex B helpers on them: \<open>nal.rs\<close> and the
  parameter sets of \<open>ceres-webrtc/src/parameter_sets.rs\<close>. A packet is what the FFmpeg shim
  reads out of an \<open>AVPacket\<close>: its bytes, its keyframe flag, its timing and its stream.
\<close>

section \<open>Packets and tracks\<close>

datatype media_codec = H264 | H265 | OtherCodec

record media_packet =
  mp_data :: "byte list"
  mp_key :: bool
  mp_timing :: packet_timing
  mp_stream :: nat

definition mp_size :: "media_packet \<Rightarrow> nat" where
  "mp_size p = length (mp_data p)"

record owned_track =
  tr_codec :: media_codec
  tr_time_base :: time_base
  tr_extradata :: "byte list"

section \<open>NAL units\<close>

fun start_code :: "byte list \<Rightarrow> nat option" where
  "start_code (a # b # c # rest) =
     (if a = 0 \<and> b = 0 \<and> c = 1 then Some 0 else map_option Suc (start_code (b # c # rest)))"
| "start_code _ = None"

text \<open>The bytes up to the last that is not zero.\<close>

definition trim_zeros :: "byte list \<Rightarrow> byte list" where
  "trim_zeros u = rev (dropWhile (\<lambda>b. b = 0) (rev u))"

lemma start_code_bound: "start_code data = Some i \<Longrightarrow> i + 3 \<le> length data"
  by (induction data arbitrary: i rule: start_code.induct) (auto split: if_splits)

function nal_units :: "byte list \<Rightarrow> byte list list" where
  "nal_units data =
     (case start_code data of
        None \<Rightarrow> []
      | Some i \<Rightarrow>
          (let rest = drop (i + 3) data;
               stop = (case start_code rest of Some j \<Rightarrow> j | None \<Rightarrow> length rest);
               unit = trim_zeros (take stop rest)
           in (if unit \<noteq> [] then [unit] else []) @ nal_units (drop stop rest)))"
  by pat_completeness auto
termination
proof (relation "measure length", goal_cases)
  case (2 data i rest stop unit)
  then show ?case using start_code_bound[of data i] by simp
qed simp

declare nal_units.simps [simp del]

text \<open>
  A slice's own word on whether others reference its frame, \<open>None\<close> for a unit that is no
  slice. The header is the unit's first byte.
\<close>

definition slice_unreferenced :: "media_codec \<Rightarrow> byte \<Rightarrow> bool option" where
  "slice_unreferenced codec header =
     (case codec of
        H264 \<Rightarrow>
          if 1 \<le> header AND 0x1F \<and> header AND 0x1F \<le> 5
          then Some ((drop_bit 5 header) AND 0x3 = 0) else None
      | H265 \<Rightarrow>
          (let kind = (drop_bit 1 header) AND 0x3F
           in if kind \<le> 31 then Some (kind \<le> 14 \<and> kind mod 2 = 0) else None)
      | OtherCodec \<Rightarrow> Some False)"

definition is_unreferenced :: "byte list \<Rightarrow> media_codec \<Rightarrow> bool" where
  "is_unreferenced data codec =
     (let slices = List.map_filter (slice_unreferenced codec) (map hd (filter (\<lambda>u. u \<noteq> []) (nal_units data)))
      in slices \<noteq> [] \<and> list_all (\<lambda>b. b) slices)"

section \<open>Parameter sets\<close>

definition is_sequence_parameter_set :: "media_codec \<Rightarrow> byte \<Rightarrow> bool" where
  "is_sequence_parameter_set codec header =
     (case codec of
        H264 \<Rightarrow> header AND 0x1F = 7
      | H265 \<Rightarrow> (drop_bit 1 header) AND 0x3F = 33
      | OtherCodec \<Rightarrow> False)"

definition carries_parameter_sets :: "media_codec \<Rightarrow> byte list \<Rightarrow> bool" where
  "carries_parameter_sets codec data \<longleftrightarrow>
     list_ex (\<lambda>u. u \<noteq> [] \<and> is_sequence_parameter_set codec (hd u)) (nal_units data)"

definition with_parameter_sets :: "byte list \<Rightarrow> byte list \<Rightarrow> media_codec \<Rightarrow> bool \<Rightarrow> byte list" where
  "with_parameter_sets data extradata codec key =
     (let annex_b = starts_with [0, 0, 1] extradata \<or> starts_with [0, 0, 0, 1] extradata
      in if \<not> key \<or> carries_parameter_sets codec data \<or> \<not> annex_b then data else extradata @ data)"

section \<open>Annex B, written and read\<close>

text \<open>The Annex B form of units, each behind a three or a four byte start code.\<close>

definition annex_b :: "(bool \<times> byte list) list \<Rightarrow> byte list" where
  "annex_b units = concat (map (\<lambda>(long, u). (if long then [0, 0, 0, 1] else [0, 0, 1]) @ u) units)"

text \<open>What the emulation prevention of both codecs guarantees of a unit.\<close>

definition unit_ok :: "byte list \<Rightarrow> bool" where
  "unit_ok u \<longleftrightarrow> u \<noteq> [] \<and> List.last u \<noteq> 0 \<and> start_code u = None"

lemma start_code_after:
  assumes "start_code u = None" and "u = [] \<or> List.last u \<noteq> 0"
  shows "start_code (u @ 0 # 0 # 1 # r) = Some (length u)"
  using assms
proof (induction u rule: start_code.induct)
  case (1 a b c rest)
  then show ?case by (auto split: if_splits)
qed simp_all

lemma start_code_after_long:
  assumes "start_code u = None" and "u = [] \<or> List.last u \<noteq> 0"
  shows "start_code (u @ 0 # 0 # 0 # 1 # r) = Some (Suc (length u))"
  using assms
proof (induction u rule: start_code.induct)
  case (1 a b c rest)
  then show ?case by (auto split: if_splits)
qed simp_all

lemma trim_unit: "unit_ok u \<Longrightarrow> trim_zeros (u @ replicate n 0) = u"
  by (cases u rule: rev_cases) (simp_all add: trim_zeros_def unit_ok_def dropWhile_append3)

lemma nal_units_end: "nal_units [] = []"
  by (simp add: nal_units.simps)

lemma nal_units_code:
  assumes u: "unit_ok u" and units: "\<forall>(long, v) \<in> set units. unit_ok v"
  shows "nal_units (0 # 0 # 1 # u @ annex_b units) = u # map snd units"
  using assms
proof (induction units arbitrary: u)
  case Nil
  then have "start_code u = None" by (simp add: unit_ok_def)
  then show ?case
    using Nil trim_unit[of u 0]
    by (subst nal_units.simps) (simp add: annex_b_def nal_units_end, simp add: unit_ok_def)
next
  case (Cons unit units)
  obtain long v where unit: "unit = (long, v)" by (cases unit)
  let ?rest = "u @ annex_b (unit # units)"
  have u: "start_code u = None" "List.last u \<noteq> 0" "u \<noteq> []"
    using Cons.prems(1) by (auto simp: unit_ok_def)
  have next_code: "start_code ?rest = Some (length u + (if long then 1 else 0))"
    using start_code_after[OF u(1)] start_code_after_long[OF u(1)] u(2) by (simp add: unit annex_b_def)
  have taken: "take (length u + (if long then 1 else 0)) ?rest = u @ replicate (if long then 1 else 0) 0"
    by (simp add: unit annex_b_def)
  have dropped: "drop (length u + (if long then 1 else 0)) ?rest = 0 # 0 # 1 # v @ annex_b units"
    by (simp add: unit annex_b_def)
  have rest: "nal_units (0 # 0 # 1 # v @ annex_b units) = v # map snd units"
    using Cons.IH[of v] Cons.prems(2) unit by auto
  have "nal_units (0 # 0 # 1 # ?rest)
      = (let stop = length u + (if long then 1 else 0); unit = trim_zeros (take stop ?rest)
         in (if unit \<noteq> [] then [unit] else []) @ nal_units (drop stop ?rest))"
    using next_code by (subst nal_units.simps) (simp del: append_assoc)
  also have "\<dots> = u # nal_units (0 # 0 # 1 # v @ annex_b units)"
    unfolding Let_def taken dropped trim_unit[OF Cons.prems(1)] using u(3) by simp
  finally show ?case using rest by (simp add: unit)
qed

lemma annex_b_append: "annex_b (xs @ ys) = annex_b xs @ annex_b ys"
  by (simp add: annex_b_def)

lemma nal_units_annex_b:
  assumes "\<forall>(long, v) \<in> set units. unit_ok v"
  shows "nal_units (annex_b units) = map snd units"
proof (cases units)
  case (Cons unit rest)
  obtain long v where unit: "unit = (long, v)" by (cases unit)
  have ok: "unit_ok v" "\<forall>(long, v) \<in> set rest. unit_ok v" using assms Cons unit by auto
  have "nal_units (0 # 0 # 0 # 1 # ys) = nal_units (0 # 0 # 1 # ys)" for ys
    by (subst (1 2) nal_units.simps) simp
  then show ?thesis
    using nal_units_code[OF ok] by (simp add: Cons unit annex_b_def)
qed (simp add: annex_b_def nal_units_end)

section \<open>Properties\<close>

text \<open>
  Reading Annex B undoes writing it: the units behind any mix of three and four byte
  start codes come back in order, for units as emulation prevention leaves them (not empty,
  not ending in a zero byte, holding no start code).
\<close>

theorem nal_units_round_trip:
  assumes "\<forall>(long, u) \<in> set units. unit_ok u"
  shows "nal_units (annex_b units) = map snd units"
  using assms by (rule nal_units_annex_b)

theorem nal_units_round_trip_witness:
  "nal_units (annex_b [(True, [0x67, 0x42]), (False, [0x68]), (True, [0x65, 0, 0x88])])
   = [[0x67, 0x42], [0x68], [0x65, 0, 0x88]]"
  using nal_units_round_trip[of "[(True, [0x67, 0x42]), (False, [0x68]), (True, [0x65, 0, 0x88])]"]
  by (simp add: unit_ok_def)

text \<open>
  C40. A keyframe reaches a browser decodable: of Annex B units and a track whose extradata
  is Annex B with a sequence parameter set among its units, a keyframe always leaves
  carrying a sequence parameter set, keeps every unit of its own in order at its end, and
  is left alone when it carried one; any other frame is never touched.
\<close>

theorem keyframe_carries_parameter_sets:
  assumes "\<forall>(long, u) \<in> set units. unit_ok u" and "\<forall>(long, u) \<in> set sets. unit_ok u"
    and "sets \<noteq> []" and "carries_parameter_sets codec (annex_b sets)"
  shows "carries_parameter_sets codec (with_parameter_sets (annex_b units) (annex_b sets) codec True)
    \<and> (\<exists>before. nal_units (with_parameter_sets (annex_b units) (annex_b sets) codec True) = before @ map snd units)
    \<and> (carries_parameter_sets codec (annex_b units) \<longrightarrow>
         with_parameter_sets (annex_b units) (annex_b sets) codec True = annex_b units)
    \<and> with_parameter_sets (annex_b units) (annex_b sets) codec False = annex_b units"
proof -
  have "starts_with [0, 0, 1] (annex_b sets) \<or> starts_with [0, 0, 0, 1] (annex_b sets)"
    using assms(3) by (cases sets) (auto simp: annex_b_def starts_with_iff)
  moreover have "nal_units (annex_b sets @ annex_b units) = map snd sets @ map snd units"
    using nal_units_annex_b[of "sets @ units"] assms(1,2) by (simp add: annex_b_append ball_Un)
  moreover have "nal_units (annex_b sets) = map snd sets" "nal_units (annex_b units) = map snd units"
    using nal_units_annex_b assms(1,2) by auto
  ultimately show ?thesis
    using assms(4) by (auto simp: with_parameter_sets_def carries_parameter_sets_def list_ex_iff)
qed

theorem keyframe_carries_parameter_sets_witness:
  "carries_parameter_sets H264 (with_parameter_sets (annex_b [(True, [0x65, 0x88])]) (annex_b [(True, [0x67, 0x42])]) H264 True)"
proof -
  have "carries_parameter_sets H264 (annex_b [(True, [0x67, 0x42])])"
    using nal_units_annex_b[of "[(True, [0x67, 0x42])]"]
    by (simp add: carries_parameter_sets_def is_sequence_parameter_set_def unit_ok_def)
  then show ?thesis
    using keyframe_carries_parameter_sets[of "[(True, [0x65, 0x88])]" "[(True, [0x67, 0x42])]" H264]
    by (simp add: unit_ok_def)
qed

text \<open>
  Dropping unreferenced frames is decided slice by slice: an access unit is droppable
  exactly when it has a slice and every slice of it is marked as a non-reference one,
  whatever parameter sets and messages ride along.
\<close>

theorem is_unreferenced_slices:
  assumes "\<forall>(long, u) \<in> set units. unit_ok u"
  shows "is_unreferenced (annex_b units) codec \<longleftrightarrow>
    (\<exists>(long, u) \<in> set units. slice_unreferenced codec (hd u) \<noteq> None)
    \<and> (\<forall>(long, u) \<in> set units. slice_unreferenced codec (hd u) \<noteq> Some False)"
proof -
  have "filter (\<lambda>u. u \<noteq> []) (map snd units) = map snd units"
    using assms by (auto simp: filter_id_conv unit_ok_def)
  then have "map hd (filter (\<lambda>u. u \<noteq> []) (nal_units (annex_b units))) = map (\<lambda>(long, u). hd u) units"
    using nal_units_annex_b[OF assms] by (simp add: case_prod_beta)
  moreover have "(let slices = List.map_filter f xs in slices \<noteq> [] \<and> list_all (\<lambda>b. b) slices) \<longleftrightarrow>
      (\<exists>x \<in> set xs. f x \<noteq> None) \<and> (\<forall>x \<in> set xs. f x \<noteq> Some False)" for f :: "byte \<Rightarrow> bool option" and xs
  proof -
    have "set (List.map_filter f xs) = {b. \<exists>x \<in> set xs. f x = Some b}"
      by (force simp: List.map_filter_def)
    then have "List.map_filter f xs = [] \<longleftrightarrow> (\<forall>x \<in> set xs. f x = None)"
      "list_all (\<lambda>b. b) (List.map_filter f xs) \<longleftrightarrow> (\<forall>x \<in> set xs. f x \<noteq> Some False)"
      by (auto simp: list_all_iff simp flip: set_empty)
    then show ?thesis by (auto simp: Let_def)
  qed
  ultimately show ?thesis by (simp add: is_unreferenced_def case_prod_beta)
qed

theorem is_unreferenced_slices_witness:
  "is_unreferenced (annex_b [(True, [0x06, 0x01]), (False, [0x01, 0x9A])]) H264"
  using is_unreferenced_slices[of "[(True, [0x06, 0x01]), (False, [0x01, 0x9A])]" H264]
  by (simp add: unit_ok_def slice_unreferenced_def) blast

end
