(* ===== verification/Keyframe_Cache.thy ===== *)
theory Keyframe_Cache
  imports Media
begin

text \<open>
  Holding the packets since the last keyframe for a viewer that joins later, which the
  program does twice: the reader's group of pictures (\<open>reader.rs\<close>) and the first picture of
  a WebRTC session (\<open>ceres-webrtc/src/picture.rs\<close>). The contract they share is the locale
  \<open>keyframe_cache\<close>: what a cache shows is a function of the packets alone. The picture is
  modelled here; the reader interprets the same locale on its own cache.
\<close>

section \<open>What a cache shows\<close>

abbreviation bytes_of :: "media_packet list \<Rightarrow> nat" where
  "bytes_of ps \<equiv> sum_list (map mp_size ps)"

text \<open>
  The packets shown to a viewer, \<open>None\<close> while the viewer has to wait for a keyframe. A
  keyframe starts over, another packet extends what is shown, and a group that outgrows the
  limit is let go.
\<close>

definition hold_view :: "nat \<Rightarrow> media_packet \<Rightarrow> media_packet list option \<Rightarrow> media_packet list option" where
  "hold_view limit p v =
     (case (if mp_key p then Some [p] else map_option (\<lambda>fs. fs @ [p]) v) of
        None \<Rightarrow> None
      | Some fs \<Rightarrow> if bytes_of fs > limit then None else Some fs)"

text \<open>The packets from the last keyframe on, \<open>None\<close> when there is no keyframe.\<close>

fun since_key :: "media_packet list \<Rightarrow> media_packet list option" where
  "since_key [] = None"
| "since_key (p # ps) =
     (case since_key ps of Some fs \<Rightarrow> Some fs | None \<Rightarrow> if mp_key p then Some (p # ps) else None)"

definition within :: "nat \<Rightarrow> media_packet list option \<Rightarrow> media_packet list option" where
  "within limit v = (case v of None \<Rightarrow> None | Some fs \<Rightarrow> if bytes_of fs > limit then None else Some fs)"

text \<open>What a cache shows after packets, starting from a view.\<close>

definition view_after :: "nat \<Rightarrow> media_packet list \<Rightarrow> media_packet list option \<Rightarrow> media_packet list option" where
  "view_after limit ps v =
     within limit (case since_key ps of Some fs \<Rightarrow> Some fs | None \<Rightarrow> map_option (\<lambda>fs. fs @ ps) v)"

lemma since_key_snoc:
  "since_key (ps @ [p]) =
     (if mp_key p then Some [p] else map_option (\<lambda>fs. fs @ [p]) (since_key ps))"
  by (induction ps) (auto split: option.splits)

lemma since_key_None: "since_key ps = None \<longleftrightarrow> (\<forall>p \<in> set ps. \<not> mp_key p)"
  by (induction ps) (auto split: option.splits)

lemma since_key_at:
  assumes "mp_key k" and "\<forall>p \<in> set post. \<not> mp_key p"
  shows "since_key (pre @ k # post) = Some (k # post)"
proof (induction pre)
  case Nil
  have "since_key post = None" using assms(2) by (simp add: since_key_None)
  then show ?case using assms(1) by simp
qed simp

lemma since_key_split:
  assumes "since_key ps = Some fs"
  shows "\<exists>pre. ps = pre @ fs \<and> fs \<noteq> [] \<and> mp_key (hd fs) \<and> (\<forall>p \<in> set (tl fs). \<not> mp_key p)"
  using assms
proof (induction ps)
  case (Cons p ps)
  show ?case
  proof (cases "since_key ps")
    case None
    then have "fs = p # ps" "mp_key p" using Cons.prems by (simp_all split: if_splits)
    then show ?thesis using None by (simp add: since_key_None)
  next
    case (Some gs)
    then show ?thesis using Cons by (auto intro: exI[of _ "p # _"])
  qed
qed simp

lemma view_after_Nil: "view_after limit [] v = within limit v"
  by (cases v) (simp_all add: view_after_def)

lemma hold_view_within: "hold_view limit p v = within limit (if mp_key p then Some [p] else map_option (\<lambda>fs. fs @ [p]) v)"
  by (simp add: hold_view_def within_def)

text \<open>A group over the limit stays over it, so letting it go early loses nothing.\<close>

lemma hold_view_of_within:
  "hold_view limit p (within limit v) = hold_view limit p v"
  by (cases v) (auto simp: hold_view_def within_def)

lemma view_after_snoc: "view_after limit (ps @ [p]) v = hold_view limit p (view_after limit ps v)"
  unfolding view_after_def hold_view_of_within
  by (cases "since_key ps"; cases v) (simp_all add: since_key_snoc hold_view_within)

section \<open>The contract\<close>

locale keyframe_cache =
  fixes limit :: nat
    and hold :: "media_packet \<Rightarrow> 'c \<Rightarrow> 'c"
    and view :: "'c \<Rightarrow> media_packet list option"
    and invar :: "'c \<Rightarrow> bool"
  assumes hold_invar: "invar c \<Longrightarrow> invar (hold p c)"
    and hold_shows: "invar c \<Longrightarrow> view (hold p c) = hold_view limit p (view c)"
begin

definition held :: "media_packet list \<Rightarrow> 'c \<Rightarrow> 'c" where
  "held ps c = fold hold ps c"

lemma held_invar: "invar c \<Longrightarrow> invar (held ps c)"
  unfolding held_def by (induction ps arbitrary: c) (simp_all add: hold_invar)

lemma held_shows:
  assumes "invar c" and "within limit (view c) = view c"
  shows "view (held ps c) = view_after limit ps (view c)"
proof (induction ps rule: rev_induct)
  case Nil
  then show ?case using assms(2) by (simp add: held_def view_after_Nil)
next
  case (snoc p ps)
  then show ?case
    using hold_shows[OF held_invar[OF assms(1)], of p ps] by (simp add: held_def view_after_snoc)
qed

lemma held_bounded:
  assumes "invar c" and "within limit (view c) = view c" and "view (held ps c) = Some fs"
  shows "bytes_of fs \<le> limit"
  using assms(3) unfolding held_shows[OF assms(1,2)] view_after_def within_def
  by (auto split: option.splits if_splits)

text \<open>What is shown is where the packets end, from a keyframe unless no keyframe came at all.\<close>

lemma held_from_keyframe:
  assumes "invar c" and "within limit (view c) = view c" and "view (held ps c) = Some fs"
  shows "(\<exists>pre. ps = pre @ fs \<and> fs \<noteq> [] \<and> mp_key (hd fs) \<and> (\<forall>p \<in> set (tl fs). \<not> mp_key p))
    \<or> (\<exists>fs0. view c = Some fs0 \<and> fs = fs0 @ ps \<and> (\<forall>p \<in> set ps. \<not> mp_key p))"
proof (cases "since_key ps")
  case None
  then have "\<exists>fs0. view c = Some fs0 \<and> fs = fs0 @ ps"
    using assms(3) unfolding held_shows[OF assms(1,2)] view_after_def within_def
    by (auto split: option.splits if_splits)
  then show ?thesis using None by (simp add: since_key_None)
next
  case (Some gs)
  then have "fs = gs"
    using assms(3) unfolding held_shows[OF assms(1,2)] view_after_def within_def by (simp split: if_splits)
  then show ?thesis using since_key_split[OF Some] by blast
qed

text \<open>A group of pictures within the limit is shown whole.\<close>

lemma held_whole_group:
  assumes "invar c" and "within limit (view c) = view c"
    and "mp_key k" and "\<forall>p \<in> set post. \<not> mp_key p" and "bytes_of (k # post) \<le> limit"
  shows "view (held (pre @ k # post) c) = Some (k # post)"
  using assms(5) unfolding held_shows[OF assms(1,2)] view_after_def within_def
  by (simp only: since_key_at[OF assms(3,4)] option.case) simp

end

section \<open>The first picture of a WebRTC session\<close>

record picture =
  pi_frames :: "media_packet list"
  pi_bytes :: nat
  pi_limit :: nat

definition picture_new :: "nat \<Rightarrow> picture" where
  "picture_new limit = \<lparr>pi_frames = [], pi_bytes = 0, pi_limit = limit\<rparr>"

definition picture_clear :: "picture \<Rightarrow> picture" where
  "picture_clear c = c\<lparr>pi_frames := [], pi_bytes := 0\<rparr>"

definition picture_hold :: "media_packet \<Rightarrow> picture \<Rightarrow> picture" where
  "picture_hold frame c =
     (if \<not> mp_key frame \<and> pi_frames c = [] then c
      else (let c1 = (if mp_key frame then picture_clear c else c);
                c2 = c1\<lparr>pi_bytes := pi_bytes c1 + mp_size frame\<rparr>
            in if pi_bytes c2 > pi_limit c2 then picture_clear c2
               else c2\<lparr>pi_frames := pi_frames c2 @ [frame]\<rparr>))"

definition picture_take :: "picture \<Rightarrow> picture \<times> media_packet list" where
  "picture_take c = (c\<lparr>pi_bytes := 0, pi_frames := []\<rparr>, pi_frames c)"

definition picture_view :: "picture \<Rightarrow> media_packet list option" where
  "picture_view c = (if pi_frames c = [] then None else Some (pi_frames c))"

definition picture_invar :: "nat \<Rightarrow> picture \<Rightarrow> bool" where
  "picture_invar limit c \<longleftrightarrow> pi_limit c = limit \<and> pi_bytes c = bytes_of (pi_frames c)"

lemma picture_invar_ops:
  "picture_invar limit (picture_new limit)"
  "picture_invar limit c \<Longrightarrow> picture_invar limit (picture_clear c)"
  "picture_invar limit c \<Longrightarrow> picture_invar limit (fst (picture_take c))"
  by (simp_all add: picture_invar_def picture_new_def picture_clear_def picture_take_def)

interpretation first_picture: keyframe_cache limit picture_hold picture_view "picture_invar limit" for limit
proof unfold_locales
  fix c p assume c: "picture_invar limit c"
  show "picture_invar limit (picture_hold p c)"
    using c by (simp add: picture_invar_def picture_hold_def picture_clear_def Let_def)
  show "picture_view (picture_hold p c) = hold_view limit p (picture_view c)"
    using c by (simp add: picture_invar_def picture_hold_def picture_clear_def Let_def picture_view_def
        hold_view_def)
qed

section \<open>Properties\<close>

text \<open>
  C39. The first picture as a function of the frames. After any frames a new picture hands out
  exactly the frames from the last keyframe on when they fit its limit, and nothing otherwise:
  no keyframe yet, or a group over the limit. Taking them leaves a picture that waits for the
  next keyframe, as a new one does.
\<close>

theorem picture_holds_since_keyframe:
  "snd (picture_take (fold picture_hold ps (picture_new limit))) =
     (case since_key ps of None \<Rightarrow> [] | Some fs \<Rightarrow> if bytes_of fs > limit then [] else fs)
   \<and> fst (picture_take (fold picture_hold ps (picture_new limit))) = picture_new limit"
proof -
  let ?c = "fold picture_hold ps (picture_new limit)"
  have new: "picture_view (picture_new limit) = None" by (simp add: picture_view_def picture_new_def)
  have inv: "picture_invar limit ?c"
    using first_picture.held_invar[OF picture_invar_ops(1), of limit ps] by (simp add: first_picture.held_def)
  have "picture_view ?c = view_after limit ps None"
    using first_picture.held_shows[OF picture_invar_ops(1), of limit ps] new
    by (simp add: first_picture.held_def within_def)
  then have "pi_frames ?c = (case since_key ps of None \<Rightarrow> [] | Some fs \<Rightarrow> if bytes_of fs > limit then [] else fs)"
    by (simp add: picture_view_def view_after_def within_def split: option.splits if_splits)
  then show ?thesis using inv by (simp add: picture_take_def picture_invar_def picture_new_def)
qed

end
