(* ===== verification/Reader.thy ===== *)
theory Reader
  imports Keyframe_Cache
begin

text \<open>
  \<open>ceres-media/src/remux/reader.rs\<close>: the thread that holds a source's connection and fans
  its packets out to every stream. The state behind the reader's mutex is one record; a
  stream's end of its channel is part of its subscriber: the feeds it has yet to take, the
  ones it took, and whether the receiving end is still there. Each operation runs under the
  mutex, so it is one step. Instants are milliseconds, durations nanoseconds. Whether the FFmpeg
  shim can clone a packet is told by the caller, \<open>kept\<close> for the cache and \<open>cloned\<close> for a
  stream.
\<close>

section \<open>State\<close>

record media_error =
  me_code :: int
  me_message :: str

datatype stream_notice =
    NoticeLost "str option"
  | Retrying nat
  | Reconnected nat nat
  | Ended str

datatype feed =
    FTrack owned_track
  | FSnapshot owned_track "media_packet list"
  | FPacket media_packet
  | FLost "media_error option"
  | FNotice stream_notice
  | FEnd "media_error option"

record subscriber =
  su_id :: nat
  su_taken :: "feed list"
  su_queue :: "feed list"
  su_open :: bool
  su_pending :: nat
  su_waiting :: bool
  su_lost :: bool

record outage =
  ou_since :: nat
  ou_attempts :: nat
  ou_reason :: "media_error option"
  ou_scheduled :: bool

record reader =
  rd_subscribers :: "subscriber list"
  rd_next_id :: nat
  rd_track :: "owned_track option"
  rd_gop :: "media_packet list"
  rd_gop_bytes :: nat
  rd_gop_valid :: bool
  rd_outage :: "outage option"
  rd_empty_since :: "nat option"
  rd_closed :: bool

definition feed_backlog :: nat where
  "feed_backlog = 256"

definition gop_cache_bytes :: nat where
  "gop_cache_bytes = 16 * 2 ^ 20"

definition reader_new :: reader where
  "reader_new = \<lparr>rd_subscribers = [], rd_next_id = 0, rd_track = None, rd_gop = [], rd_gop_bytes = 0,
     rd_gop_valid = False, rd_outage = None, rd_empty_since = None, rd_closed = False\<rparr>"

section \<open>Sending\<close>

definition send :: "feed \<Rightarrow> subscriber \<Rightarrow> subscriber \<times> bool" where
  "send f s = (if su_open s then (s\<lparr>su_queue := su_queue s @ [f]\<rparr>, True) else (s, False))"

text \<open>\<open>Vec::retain_mut\<close>: each subscriber updated, and kept when told to.\<close>

definition retain_mut :: "(subscriber \<Rightarrow> subscriber \<times> bool) \<Rightarrow> reader \<Rightarrow> reader" where
  "retain_mut f r =
     r\<lparr>rd_subscribers := map fst (filter snd (map f (rd_subscribers r)))\<rparr>"

definition broadcast :: "feed \<Rightarrow> reader \<Rightarrow> reader" where
  "broadcast f r = retain_mut (send f) r"

definition tell_lost :: "feed \<Rightarrow> reader \<Rightarrow> reader" where
  "tell_lost f r = retain_mut (\<lambda>s. if su_lost s then send f s else (s, True)) r"

section \<open>Streams joining and leaving\<close>

definition join_feed :: "(nat \<Rightarrow> bool) \<Rightarrow> reader \<Rightarrow> subscriber \<Rightarrow> subscriber" where
  "join_feed cloned r s =
     (if rd_outage r \<noteq> None then s\<lparr>su_waiting := True\<rparr>
      else (case rd_track r of
          None \<Rightarrow> s
        | Some t \<Rightarrow>
            if rd_gop_valid r
            then fst (send (FSnapshot t (map fst (filter (\<lambda>(p, i). cloned i) (zip (rd_gop r) [0..<length (rd_gop r)])))) s)
            else (fst (send (FTrack t) s))\<lparr>su_waiting := True\<rparr>))"

definition join :: "(nat \<Rightarrow> bool) \<Rightarrow> reader \<Rightarrow> reader" where
  "join cloned r =
     (let s = \<lparr>su_id = rd_next_id r, su_taken = [], su_queue = [], su_open = True, su_pending = 0,
               su_waiting = False, su_lost = False\<rparr>;
          s1 = join_feed cloned r s;
          s2 = (if rd_closed r then fst (send (FEnd None) s1) else s1)
      in r\<lparr>rd_next_id := rd_next_id r + 1, rd_subscribers := rd_subscribers r @ [s2], rd_empty_since := None\<rparr>)"

definition leave :: "nat \<Rightarrow> nat \<Rightarrow> reader \<Rightarrow> reader" where
  "leave i now r =
     (let r1 = r\<lparr>rd_subscribers := filter (\<lambda>s. su_id s \<noteq> i) (rd_subscribers r)\<rparr>
      in if rd_subscribers r1 = [] then r1\<lparr>rd_empty_since := Some now\<rparr> else r1)"

section \<open>The reader's thread\<close>

text \<open>A connection's track, or a new encoder's: the blocks of \<open>copy\<close> and \<open>transcode\<close>.\<close>

definition new_track :: "owned_track \<Rightarrow> reader \<Rightarrow> reader" where
  "new_track t r =
     broadcast (FTrack t) (r\<lparr>rd_track := Some t, rd_gop := [], rd_gop_bytes := 0, rd_gop_valid := True\<rparr>)"

definition received :: "nat \<Rightarrow> reader \<Rightarrow> reader" where
  "received now r =
     (case rd_outage r of
        None \<Rightarrow> r
      | Some ou \<Rightarrow>
          (let r1 = tell_lost (FNotice (Reconnected (ou_attempts ou) ((now - ou_since ou) * 1000000))) (r\<lparr>rd_outage := None\<rparr>)
           in r1\<lparr>rd_subscribers := map (\<lambda>s. s\<lparr>su_lost := False\<rparr>) (rd_subscribers r1)\<rparr>))"

definition gop_hold :: "bool \<Rightarrow> media_packet \<Rightarrow> reader \<Rightarrow> reader" where
  "gop_hold kept p r =
     (let r1 = (if mp_key p then r\<lparr>rd_gop := [], rd_gop_bytes := 0, rd_gop_valid := True\<rparr> else r)
      in if rd_gop_valid r1
         then (let r2 = r1\<lparr>rd_gop_bytes := rd_gop_bytes r1 + mp_size p\<rparr>
               in if rd_gop_bytes r2 > gop_cache_bytes
                  then r2\<lparr>rd_gop := [], rd_gop_bytes := 0, rd_gop_valid := False\<rparr>
                  else if kept then r2\<lparr>rd_gop := rd_gop r2 @ [p]\<rparr> else r2)
         else r1)"

definition deliver :: "bool \<Rightarrow> media_packet \<Rightarrow> subscriber \<Rightarrow> subscriber \<times> bool" where
  "deliver cloned p s =
     (if cloned then send (FPacket p) (s\<lparr>su_pending := su_pending s + 1\<rparr>) else (s, True))"

definition offer :: "owned_track option \<Rightarrow> (nat \<Rightarrow> bool) \<Rightarrow> media_packet \<Rightarrow> subscriber \<Rightarrow> subscriber \<times> bool" where
  "offer track cloned p s =
     (if su_waiting s then
        if \<not> mp_key p \<or> su_pending s \<ge> feed_backlog then (s, True)
        else (case track of
            None \<Rightarrow> deliver (cloned (su_id s)) p (s\<lparr>su_waiting := False\<rparr>)
          | Some t \<Rightarrow>
              (let (s1, sent) = send (FTrack t) s
               in if sent then deliver (cloned (su_id s)) p (s1\<lparr>su_waiting := False\<rparr>) else (s1, False)))
      else if su_pending s \<ge> feed_backlog then (s\<lparr>su_waiting := True\<rparr>, True)
      else deliver (cloned (su_id s)) p s)"

definition publish :: "bool \<Rightarrow> (nat \<Rightarrow> bool) \<Rightarrow> media_packet \<Rightarrow> reader \<Rightarrow> reader" where
  "publish kept cloned p r =
     (let r1 = gop_hold kept p r in retain_mut (offer (rd_track r1) cloned p) r1)"

definition lost :: "nat \<Rightarrow> media_error option \<Rightarrow> reader \<Rightarrow> reader" where
  "lost now error r =
     (case rd_outage r of
        Some ou \<Rightarrow> r\<lparr>rd_outage := Some (ou\<lparr>ou_attempts := (ou_attempts ou + 1) mod 2 ^ 32, ou_reason := error\<rparr>)\<rparr>
      | None \<Rightarrow>
          retain_mut (\<lambda>s. send (FLost error) (s\<lparr>su_lost := True\<rparr>))
            (r\<lparr>rd_outage := Some \<lparr>ou_since = now, ou_attempts = 1, ou_reason = error, ou_scheduled = False\<rparr>,
               rd_gop := [], rd_gop_bytes := 0, rd_gop_valid := False\<rparr>))"

definition schedule :: "nat \<Rightarrow> reader \<Rightarrow> reader" where
  "schedule delay r =
     (case rd_outage r of
        Some ou \<Rightarrow>
          if ou_scheduled ou then r
          else tell_lost (FNotice (Retrying delay)) (r\<lparr>rd_outage := Some (ou\<lparr>ou_scheduled := True\<rparr>)\<rparr>)
      | None \<Rightarrow> r)"

definition try_close :: "reader \<Rightarrow> reader \<times> bool" where
  "try_close r = (if rd_subscribers r \<noteq> [] then (r, False) else (r\<lparr>rd_closed := True\<rparr>, True))"

definition close :: "media_error option \<Rightarrow> reader \<Rightarrow> reader" where
  "close error r = (broadcast (FEnd error) (r\<lparr>rd_closed := True\<rparr>))\<lparr>rd_subscribers := []\<rparr>"

definition should_stop :: "bool \<Rightarrow> nat \<Rightarrow> nat \<Rightarrow> reader \<Rightarrow> bool" where
  "should_stop shared linger now r =
     (case rd_empty_since r of
        None \<Rightarrow> False
      | Some e \<Rightarrow> (now - e) * 1000000 \<ge> (if shared then linger else 0))"

definition stalled :: "nat option \<Rightarrow> nat \<Rightarrow> nat \<Rightarrow> bool" where
  "stalled stall_timeout touched now =
     (case stall_timeout of None \<Rightarrow> False | Some t \<Rightarrow> (now - touched) * 1000000 > t)"

section \<open>A stream's end\<close>

text \<open>What \<open>PacketStream::next\<close> and the muxer do to the shared channel on each \<open>recv\<close>.\<close>

definition take_feed :: "subscriber \<Rightarrow> subscriber" where
  "take_feed s =
     (case su_queue s of
        [] \<Rightarrow> s
      | f # fs \<Rightarrow>
          (let s1 = s\<lparr>su_taken := su_taken s @ [f], su_queue := fs\<rparr>
           in case f of FPacket _ \<Rightarrow> s1\<lparr>su_pending := su_pending s1 - 1\<rparr> | _ \<Rightarrow> s1))"

definition at_stream :: "nat \<Rightarrow> (subscriber \<Rightarrow> subscriber) \<Rightarrow> reader \<Rightarrow> reader" where
  "at_stream i f r = r\<lparr>rd_subscribers := map (\<lambda>s. if su_id s = i then f s else s) (rd_subscribers r)\<rparr>"

section \<open>Steps\<close>

datatype reader_event =
    Join "nat \<Rightarrow> bool"
  | Leave nat nat
  | NewTrack owned_track
  | Received nat
  | Publish bool "nat \<Rightarrow> bool" media_packet
  | LostLink nat "media_error option"
  | Schedule nat
  | TryClose
  | Close "media_error option"
  | Take nat
  | DropReceiver nat

fun reader_step :: "reader_event \<Rightarrow> reader \<Rightarrow> reader" where
  "reader_step (Join cloned) r = join cloned r"
| "reader_step (Leave i now) r = leave i now r"
| "reader_step (NewTrack t) r = new_track t r"
| "reader_step (Received now) r = received now r"
| "reader_step (Publish kept cloned p) r = publish kept cloned p r"
| "reader_step (LostLink now e) r = lost now e r"
| "reader_step (Schedule d) r = schedule d r"
| "reader_step TryClose r = fst (try_close r)"
| "reader_step (Close e) r = close e r"
| "reader_step (Take i) r = at_stream i take_feed r"
| "reader_step (DropReceiver i) r = at_stream i (\<lambda>s. s\<lparr>su_open := False\<rparr>) r"

text \<open>
  When the thread takes a step: a packet is published only inside a connection, after its
  track was announced and \<open>received\<close> ended any outage, and a closed reader's thread is gone.
\<close>

fun enabled :: "reader_event \<Rightarrow> reader \<Rightarrow> bool" where
  "enabled (Publish _ _ _) r = (rd_track r \<noteq> None \<and> rd_outage r = None \<and> \<not> rd_closed r)"
| "enabled (NewTrack _) r = (\<not> rd_closed r)"
| "enabled (Received _) r = (\<not> rd_closed r)"
| "enabled (LostLink _ _) r = (\<not> rd_closed r)"
| "enabled (Schedule _) r = (\<not> rd_closed r)"
| "enabled TryClose r = (\<not> rd_closed r)"
| "enabled (Close _) r = (\<not> rd_closed r)"
| "enabled _ r = True"

inductive reader_runs :: "reader_event list \<Rightarrow> reader \<Rightarrow> bool" where
  runs_new: "reader_runs [] reader_new"
| runs_step: "reader_runs es r \<Longrightarrow> enabled e r \<Longrightarrow> reader_runs (es @ [e]) (reader_step e r)"

inductive_cases reader_runs_snocE: "reader_runs (es @ [e]) r"


section \<open>The group of pictures is a keyframe cache\<close>

definition gop_view :: "reader \<Rightarrow> media_packet list option" where
  "gop_view r = (if rd_gop_valid r then Some (rd_gop r) else None)"

definition gop_invar :: "reader \<Rightarrow> bool" where
  "gop_invar r \<longleftrightarrow> (rd_gop_valid r \<longrightarrow> rd_gop_bytes r = bytes_of (rd_gop r))"

interpretation gop_cache: keyframe_cache gop_cache_bytes "gop_hold True" gop_view gop_invar
  by unfold_locales
    (simp_all add: gop_invar_def gop_view_def gop_hold_def hold_view_def Let_def)

text \<open>Where published packets end, from a keyframe unless they are all there is.\<close>

definition tail_of :: "media_packet list \<Rightarrow> media_packet list \<Rightarrow> bool" where
  "tail_of hist fs \<longleftrightarrow> (\<exists>pre. hist = pre @ fs \<and> (pre = [] \<or> fs \<noteq> [] \<and> mp_key (hd fs)))"

lemma tail_of_hold:
  assumes "hold_view limit p v = Some fs'" and "\<And>fs. v = Some fs \<Longrightarrow> tail_of hist fs"
  shows "tail_of (hist @ [p]) fs' \<and> bytes_of fs' \<le> limit"
proof (cases "mp_key p")
  case True
  then have "fs' = [p]" "bytes_of fs' \<le> limit" using assms(1) by (auto simp: hold_view_def split: if_splits)
  then show ?thesis using True by (auto simp: tail_of_def)
next
  case False
  then obtain fs where fs: "v = Some fs" "fs' = fs @ [p]" "bytes_of fs' \<le> limit"
    using assms(1) by (auto simp: hold_view_def split: option.splits if_splits)
  obtain pre where "hist = pre @ fs" "pre = [] \<or> fs \<noteq> [] \<and> mp_key (hd fs)"
    using assms(2)[OF fs(1)] by (auto simp: tail_of_def)
  then show ?thesis using fs by (auto simp: tail_of_def)
qed

section \<open>What a stream was sent\<close>

definition su_log :: "subscriber \<Rightarrow> feed list" where
  "su_log s = su_taken s @ su_queue s"

text \<open>The packets since the last track, \<open>None\<close> before the first.\<close>

fun track_step :: "media_packet list option \<Rightarrow> feed \<Rightarrow> media_packet list option" where
  "track_step v (FTrack t) = Some []"
| "track_step v (FSnapshot t ps) = Some ps"
| "track_step v (FPacket p) = map_option (\<lambda>ps. ps @ [p]) v"
| "track_step v _ = v"

definition since_track :: "feed list \<Rightarrow> media_packet list option" where
  "since_track fs = foldl track_step None fs"

fun is_packet :: "feed \<Rightarrow> bool" where
  "is_packet (FPacket _) = True"
| "is_packet _ = False"

text \<open>How an outage is told: lost, the first retry, and back again.\<close>

datatype outage_phase = Quiet | Told | Retried | Garbled

fun phase_step :: "outage_phase \<Rightarrow> feed \<Rightarrow> outage_phase" where
  "phase_step Quiet (FLost _) = Told"
| "phase_step _ (FLost _) = Garbled"
| "phase_step Told (FNotice (Retrying _)) = Retried"
| "phase_step Told (FNotice (Reconnected _ _)) = Quiet"
| "phase_step Retried (FNotice (Reconnected _ _)) = Quiet"
| "phase_step _ (FNotice _) = Garbled"
| "phase_step x _ = x"

definition phase :: "feed list \<Rightarrow> outage_phase" where
  "phase fs = foldl phase_step Quiet fs"

text \<open>The packets published since the last track was announced.\<close>

fun history_step :: "media_packet list \<Rightarrow> reader_event \<Rightarrow> media_packet list" where
  "history_step h (NewTrack t) = []"
| "history_step h (Publish kept cloned p) = h @ [p]"
| "history_step h _ = h"

definition history :: "reader_event list \<Rightarrow> media_packet list" where
  "history es = foldl history_step [] es"

text \<open>Steps in which every clone of a packet succeeds.\<close>

fun clean :: "reader_event \<Rightarrow> bool" where
  "clean (Join cloned) = (cloned = (\<lambda>_. True))"
| "clean (Publish kept cloned p) = (kept \<and> cloned = (\<lambda>_. True))"
| "clean _ = True"

lemma su_log_simps [simp]:
  "su_log (s\<lparr>su_queue := su_queue s @ [f]\<rparr>) = su_log s @ [f]"
  "su_log (s\<lparr>su_pending := n\<rparr>) = su_log s"
  "su_log (s\<lparr>su_waiting := b\<rparr>) = su_log s"
  "su_log (s\<lparr>su_lost := b\<rparr>) = su_log s"
  "su_log (s\<lparr>su_open := b\<rparr>) = su_log s"
  by (simp_all add: su_log_def)

lemma since_track_simps [simp]:
  "since_track [] = None"
  "since_track (fs @ [f]) = track_step (since_track fs) f"
  by (simp_all add: since_track_def)

lemma phase_simps [simp]:
  "phase [] = Quiet"
  "phase (fs @ [f]) = phase_step (phase fs) f"
  by (simp_all add: phase_def)

lemma history_simps [simp]:
  "history [] = []"
  "history (es @ [e]) = history_step (history es) e"
  by (simp_all add: history_def)

lemma su_log_take [simp]: "su_log (take_feed s) = su_log s"
  by (simp add: su_log_def take_feed_def Let_def split: list.splits feed.splits)

lemma take_feed_fields [simp]:
  "su_waiting (take_feed s) = su_waiting s" "su_lost (take_feed s) = su_lost s" "su_id (take_feed s) = su_id s"
  by (simp_all add: take_feed_def Let_def split: list.splits feed.splits)

lemma retain_mut_fields [simp]:
  "rd_track (retain_mut f r) = rd_track r" "rd_outage (retain_mut f r) = rd_outage r"
  "rd_gop (retain_mut f r) = rd_gop r" "rd_gop_bytes (retain_mut f r) = rd_gop_bytes r"
  "rd_gop_valid (retain_mut f r) = rd_gop_valid r" "rd_closed (retain_mut f r) = rd_closed r"
  "rd_next_id (retain_mut f r) = rd_next_id r" "rd_empty_since (retain_mut f r) = rd_empty_since r"
  by (simp_all add: retain_mut_def)

lemma at_stream_fields [simp]:
  "rd_track (at_stream i f r) = rd_track r" "rd_outage (at_stream i f r) = rd_outage r"
  "rd_gop (at_stream i f r) = rd_gop r" "rd_gop_bytes (at_stream i f r) = rd_gop_bytes r"
  "rd_gop_valid (at_stream i f r) = rd_gop_valid r" "rd_closed (at_stream i f r) = rd_closed r"
  "rd_next_id (at_stream i f r) = rd_next_id r"
  by (simp_all add: at_stream_def)

text \<open>A kept subscriber is an old one after the update.\<close>

lemma retained:
  assumes "s' \<in> set (rd_subscribers (retain_mut f r))"
  obtains s where "s \<in> set (rd_subscribers r)" "f s = (s', True)"
proof -
  from assms obtain x where "x \<in> set (rd_subscribers r)" "snd (f x)" "s' = fst (f x)"
    by (auto simp: retain_mut_def)
  then show thesis by (intro that[of x]) (simp_all add: prod_eq_iff)
qed

lemma send_kept: "send f s = (s', True) \<longleftrightarrow> su_open s \<and> s' = s\<lparr>su_queue := su_queue s @ [f]\<rparr>"
  by (auto simp: send_def)

lemma gop_hold_fields [simp]:
  "rd_subscribers (gop_hold kept p r) = rd_subscribers r" "rd_track (gop_hold kept p r) = rd_track r"
  "rd_outage (gop_hold kept p r) = rd_outage r" "rd_closed (gop_hold kept p r) = rd_closed r"
  "rd_next_id (gop_hold kept p r) = rd_next_id r"
  by (simp_all add: gop_hold_def Let_def)


section \<open>Invariants\<close>

text \<open>
  A stream's packets since its last track are consecutive published packets of the current
  track, from a keyframe or from the track's start, and reach up to the last one published
  unless the stream waits.
\<close>

definition piece_of :: "media_packet list \<Rightarrow> media_packet list \<Rightarrow> bool" where
  "piece_of hist ps \<longleftrightarrow> (\<exists>pre post. hist = pre @ ps @ post \<and> (pre = [] \<or> ps = [] \<or> mp_key (hd ps)))"

definition in_step :: "media_packet list \<Rightarrow> owned_track option \<Rightarrow> subscriber \<Rightarrow> bool" where
  "in_step hist track s \<longleftrightarrow>
     (case since_track (su_log s) of
        None \<Rightarrow> (su_waiting s \<or> track = None) \<and> \<not> list_ex is_packet (su_log s)
      | Some ps \<Rightarrow>
          if su_waiting s then piece_of hist ps else tail_of hist ps)"

lemma piece_of_grows: "piece_of hist ps \<Longrightarrow> piece_of (hist @ qs) ps"
  unfolding piece_of_def by (elim exE conjE) (intro exI conjI, auto)

lemma tail_of_piece: "tail_of hist ps \<Longrightarrow> piece_of hist ps"
  unfolding tail_of_def piece_of_def by (elim exE) (rule exI, rule exI[of _ "[]"], auto)

definition gop_ok :: "media_packet list \<Rightarrow> reader \<Rightarrow> bool" where
  "gop_ok hist r \<longleftrightarrow> gop_invar r \<and> (rd_gop_valid r \<longrightarrow> tail_of hist (rd_gop r) \<and> bytes_of (rd_gop r) \<le> gop_cache_bytes)"

lemma gop_ok_hold: "gop_ok hist r \<Longrightarrow> gop_ok (hist @ [p]) (gop_hold True p r)"
  using gop_cache.hold_invar[of r p] gop_cache.hold_shows[of r p]
    tail_of_hold[of gop_cache_bytes p "gop_view r" "rd_gop (gop_hold True p r)" hist]
  by (auto simp: gop_ok_def gop_view_def split: if_splits)

lemma in_step_other:
  assumes "in_step hist track s" and "track_step (since_track (su_log s)) f = since_track (su_log s)" and "\<not> is_packet f"
  shows "in_step hist track (s\<lparr>su_queue := su_queue s @ [f]\<rparr>)"
  using assms by (auto simp: in_step_def split: option.splits)

lemma in_step_fields [simp]:
  "in_step hist track (s\<lparr>su_lost := b\<rparr>) = in_step hist track s"
  "in_step hist track (s\<lparr>su_open := b\<rparr>) = in_step hist track s"
  "in_step hist track (take_feed s) = in_step hist track s"
  by (simp_all add: in_step_def split: option.split)

lemma in_step_lost:
  "in_step hist track s \<Longrightarrow> in_step hist track (s\<lparr>su_lost := True, su_queue := su_queue s @ [FLost e]\<rparr>)"
  using in_step_other[of hist track "s\<lparr>su_lost := True\<rparr>" "FLost e"] by simp

lemma in_step_new_track:
  "in_step [] (Some t) (s\<lparr>su_queue := su_queue s @ [FTrack t]\<rparr>)"
  by (simp add: in_step_def tail_of_def piece_of_def)

lemma in_step_publish:
  assumes "in_step hist (Some t) s" and "offer (Some t) (\<lambda>_. True) p s = (s', True)"
  shows "in_step (hist @ [p]) (Some t) s'"
proof (cases "su_waiting s")
  case True
  consider "s' = s" | "s' = s\<lparr>su_queue := su_queue s @ [FTrack t, FPacket p], su_waiting := False,
      su_pending := su_pending s + 1\<rparr>" "mp_key p"
    using assms(2) True by (auto simp: offer_def deliver_def send_def Let_def split: if_splits)
  then show ?thesis
  proof cases
    case 1
    then show ?thesis using assms(1) True by (auto simp: in_step_def piece_of_grows split: option.splits)
  next
    case 2
    have "since_track (su_log s') = Some [p]"
      using 2(1) by (simp add: su_log_def since_track_def)
    then show ?thesis using 2 by (auto simp: in_step_def tail_of_def)
  qed
next
  case False
  then obtain ps where ps: "since_track (su_log s) = Some ps" "tail_of hist ps"
    using assms(1) by (auto simp: in_step_def split: option.splits)
  then obtain pre where pre: "hist = pre @ ps" "pre = [] \<or> ps \<noteq> [] \<and> mp_key (hd ps)"
    by (auto simp: tail_of_def)
  consider "s' = s\<lparr>su_waiting := True\<rparr>"
    | "s' = s\<lparr>su_pending := su_pending s + 1, su_queue := su_queue s @ [FPacket p]\<rparr>"
    using assms(2) False by (auto simp: offer_def deliver_def send_def split: if_splits)
  then show ?thesis
  proof cases
    case 1
    then show ?thesis using ps by (simp add: in_step_def piece_of_grows tail_of_piece)
  next
    case 2
    have "since_track (su_log s') = Some (ps @ [p])"
      using 2 ps(1) by (simp add: su_log_def since_track_def)
    then show ?thesis using 2 False pre by (auto simp: in_step_def tail_of_def)
  qed
qed

lemma join_feed_all:
  "join_feed (\<lambda>_. True) r s =
     (if rd_outage r \<noteq> None then s\<lparr>su_waiting := True\<rparr>
      else (case rd_track r of
          None \<Rightarrow> s
        | Some t \<Rightarrow> if rd_gop_valid r then fst (send (FSnapshot t (rd_gop r)) s)
                    else (fst (send (FTrack t) s))\<lparr>su_waiting := True\<rparr>))"
  by (simp add: join_feed_def split: option.splits)

lemma in_step_join:
  assumes "gop_ok hist r" and "s' \<in> set (rd_subscribers (join (\<lambda>_. True) r))" and "s' \<notin> set (rd_subscribers r)"
  shows "in_step hist (rd_track r) s'"
  using assms
  by (auto simp: join_def Let_def join_feed_all send_def in_step_def su_log_def gop_ok_def since_track_def tail_of_def
        piece_of_def split: option.splits if_splits)

definition synced :: "media_packet list \<Rightarrow> reader \<Rightarrow> bool" where
  "synced hist r \<longleftrightarrow> gop_ok hist r \<and> (\<forall>s \<in> set (rd_subscribers r). in_step hist (rd_track r) s)"


lemma in_step_kept:
  assumes "\<forall>s \<in> set (rd_subscribers r). in_step hist track s"
    and "\<And>s s'. in_step hist track s \<Longrightarrow> f s = (s', True) \<Longrightarrow> in_step hist' track' s'"
    and "s' \<in> set (rd_subscribers (retain_mut f r))"
  shows "in_step hist' track' s'"
proof -
  obtain s where "s \<in> set (rd_subscribers r)" "f s = (s', True)" using retained[OF assms(3)] .
  then show ?thesis using assms(1,2) by blast
qed

lemma synced_join: "synced hist r \<Longrightarrow> synced hist (join (\<lambda>_. True) r)"
proof -
  assume r: "synced hist r"
  have "gop_ok hist (join (\<lambda>_. True) r)" "rd_track (join (\<lambda>_. True) r) = rd_track r"
    using r by (simp_all add: synced_def join_def Let_def gop_ok_def gop_invar_def)
  moreover have "in_step hist (rd_track r) s" if "s \<in> set (rd_subscribers (join (\<lambda>_. True) r))" for s
    using in_step_join[OF _ that] r by (auto simp: synced_def)
  ultimately show ?thesis by (simp add: synced_def)
qed

lemma synced_new_track: "synced [] (new_track t r)"
proof -
  have "in_step [] (Some t) s'" if s': "s' \<in> set (rd_subscribers (new_track t r))" for s'
  proof -
    obtain s where "send (FTrack t) s = (s', True)"
      using retained[OF s'[unfolded new_track_def broadcast_def]] by auto
    then show ?thesis using in_step_new_track by (auto simp: send_kept)
  qed
  then show ?thesis
    by (auto simp: synced_def new_track_def broadcast_def gop_ok_def gop_invar_def tail_of_def)
qed

lemma synced_received:
  assumes "synced hist r"
  shows "synced hist (received now r)"
proof (cases "rd_outage r")
  case None
  then show ?thesis using assms by (simp add: received_def)
next
  case (Some ou)
  have "in_step hist (rd_track r) s'"
    if s': "s' \<in> set (rd_subscribers (tell_lost (FNotice (Reconnected n d)) (r\<lparr>rd_outage := None\<rparr>)))" for s' n d
    using s' assms by (auto simp: synced_def tell_lost_def send_kept in_step_other elim!: retained split: if_splits)
  then show ?thesis
    using Some assms by (auto simp: synced_def received_def Let_def tell_lost_def gop_ok_def gop_invar_def)
qed

lemma synced_publish:
  assumes "synced hist r" and "rd_track r = Some t"
  shows "synced (hist @ [p]) (publish True (\<lambda>_. True) p r)"
proof -
  have "in_step (hist @ [p]) (Some t) s'"
    if "s' \<in> set (rd_subscribers (retain_mut (offer (Some t) (\<lambda>_. True) p) (gop_hold True p r)))" for s'
    using in_step_kept[OF _ in_step_publish that, of hist] assms by (auto simp: synced_def)
  then show ?thesis
    using assms gop_ok_hold[of hist r p] by (auto simp: synced_def publish_def Let_def gop_ok_def gop_invar_def)
qed

lemma synced_told:
  assumes "synced hist r"
  shows "synced hist (lost now error r)" and "synced hist (schedule d r)"
  using assms
  by (auto simp: synced_def lost_def schedule_def tell_lost_def gop_ok_def gop_invar_def send_kept in_step_other in_step_lost
      elim!: retained split: option.splits if_splits)

lemma synced_others:
  assumes "synced hist r"
  shows "synced hist (leave i now r)" and "synced hist (fst (try_close r))" and "synced hist (close error r)"
    and "synced hist (at_stream i take_feed r)" and "synced hist (at_stream i (\<lambda>s. s\<lparr>su_open := False\<rparr>) r)"
  using assms
  by (auto simp: synced_def leave_def Let_def try_close_def close_def broadcast_def at_stream_def gop_ok_def gop_invar_def)

lemma synced_step:
  assumes "synced hist r" and "enabled e r" and "clean e"
  shows "synced (history_step hist e) (reader_step e r)"
  using assms
  by (cases e) (auto simp: synced_join synced_new_track synced_received synced_publish synced_told synced_others)

lemma reader_runs_synced:
  assumes "reader_runs es r" and "list_all clean es"
  shows "synced (history es) r"
  using assms
proof (induction rule: reader_runs.induct)
  case runs_new
  then show ?case by (simp add: synced_def reader_new_def gop_ok_def gop_invar_def)
next
  case (runs_step es r e)
  then show ?case using synced_step by simp
qed


section \<open>Bookkeeping\<close>

text \<open>A stream's counter is the number of packets it has yet to take, never over the backlog.\<close>

definition counted :: "subscriber \<Rightarrow> bool" where
  "counted s \<longleftrightarrow> su_pending s = length (filter is_packet (su_queue s)) \<and> su_pending s \<le> feed_backlog"

text \<open>A stream knows of the outage what its flag says, and no flag outlives the outage.\<close>

definition told :: "outage option \<Rightarrow> subscriber \<Rightarrow> bool" where
  "told ou s \<longleftrightarrow>
     (if su_lost s
      then (\<exists>q. ou = Some q \<and> phase (su_log s) = (if ou_scheduled q then Retried else Told))
      else phase (su_log s) = Quiet)"

definition numbered :: "reader \<Rightarrow> bool" where
  "numbered r \<longleftrightarrow> distinct (map su_id (rd_subscribers r)) \<and> (\<forall>s \<in> set (rd_subscribers r). su_id s < rd_next_id r)"

definition bounded :: "reader \<Rightarrow> bool" where
  "bounded r \<longleftrightarrow> bytes_of (rd_gop r) \<le> rd_gop_bytes r \<and> rd_gop_bytes r \<le> gop_cache_bytes"

definition kept_books :: "reader \<Rightarrow> bool" where
  "kept_books r \<longleftrightarrow> bounded r \<and> (\<forall>s \<in> set (rd_subscribers r). counted s \<and> told (rd_outage r) s)"

lemma bounded_step: "bounded r \<Longrightarrow> bounded (reader_step e r)"
  by (cases e)
    (auto simp: bounded_def join_def leave_def Let_def new_track_def broadcast_def received_def tell_lost_def
      publish_def gop_hold_def lost_def schedule_def try_close_def close_def split: option.splits)

lemma counted_send:
  "counted s \<Longrightarrow> \<not> is_packet f \<Longrightarrow> counted (s\<lparr>su_queue := su_queue s @ [f]\<rparr>)"
  by (simp add: counted_def)

lemma counted_offer:
  assumes "counted s" and "offer track cloned p s = (s', True)"
  shows "counted s'"
  using assms
  by (auto simp: offer_def deliver_def send_def counted_def Let_def split: if_splits option.splits)

lemma counted_take: "counted s \<Longrightarrow> counted (take_feed s)"
  by (auto simp: counted_def take_feed_def Let_def split: list.splits feed.splits)

lemma counted_fields [simp]:
  "counted (s\<lparr>su_lost := b\<rparr>) = counted s" "counted (s\<lparr>su_open := b\<rparr>) = counted s"
  "counted (s\<lparr>su_lost := b, su_queue := q\<rparr>) = counted (s\<lparr>su_queue := q\<rparr>)"
  by (simp_all add: counted_def)

lemma told_offer:
  assumes "told ou s" and "offer track cloned p s = (s', True)"
  shows "told ou s'"
proof -
  have "phase (su_log s') = phase (su_log s) \<and> su_lost s' = su_lost s"
    using assms(2)
    by (auto simp: offer_def deliver_def send_def su_log_def phase_def Let_def split: if_splits option.splits)
  then show ?thesis using assms(1) by (simp add: told_def)
qed

lemma told_fields [simp]:
  "told ou (s\<lparr>su_open := b\<rparr>) = told ou s" "told ou (take_feed s) = told ou s"
  by (simp_all add: told_def)

lemma told_feed:
  assumes "told ou s" and "phase_step (phase (su_log s)) f = phase (su_log s)"
  shows "told ou (s\<lparr>su_queue := su_queue s @ [f]\<rparr>)"
  using assms by (auto simp: told_def split: if_splits)

lemma books_joined:
  assumes "s \<in> set (rd_subscribers (join cloned r))"
  shows "s \<in> set (rd_subscribers r) \<or> counted s \<and> told (rd_outage r) s"
  using assms
  by (auto simp: join_def Let_def join_feed_def send_def counted_def told_def su_log_def phase_def
      split: option.splits if_splits)

lemma books_received:
  assumes "kept_books r" and "s' \<in> set (rd_subscribers (received now r))"
  shows "counted s' \<and> told (rd_outage (received now r)) s'"
proof (cases "rd_outage r")
  case None
  then show ?thesis using assms by (simp add: received_def kept_books_def)
next
  case (Some ou)
  then obtain s'' d where s'': "s' = s''\<lparr>su_lost := False\<rparr>"
    "s'' \<in> set (rd_subscribers (tell_lost (FNotice (Reconnected (ou_attempts ou) d)) (r\<lparr>rd_outage := None\<rparr>)))"
    using assms(2) by (auto simp: received_def Let_def)
  then obtain s where s: "s \<in> set (rd_subscribers r)"
    "s'' = (if su_lost s then s\<lparr>su_queue := su_queue s @ [FNotice (Reconnected (ou_attempts ou) d)]\<rparr> else s)"
    by (auto simp: tell_lost_def send_kept elim!: retained split: if_splits)
  then show ?thesis
    using assms(1) Some s''(1)
    by (auto simp: kept_books_def counted_send told_def received_def Let_def tell_lost_def)
qed

lemma told_lost:
  "told None s \<Longrightarrow> \<not> ou_scheduled q \<Longrightarrow> told (Some q) (s\<lparr>su_lost := True, su_queue := su_queue s @ [FLost e]\<rparr>)"
  by (simp add: told_def su_log_def phase_def split: if_splits)

lemma books_lost:
  assumes "kept_books r" and "s' \<in> set (rd_subscribers (lost now error r))"
  shows "counted s' \<and> told (rd_outage (lost now error r)) s'"
proof (cases "rd_outage r")
  case None
  then obtain s where "s \<in> set (rd_subscribers r)" "s' = s\<lparr>su_lost := True, su_queue := su_queue s @ [FLost error]\<rparr>"
    using assms(2) by (auto simp: lost_def send_kept elim!: retained)
  then show ?thesis
    using assms(1) None by (simp add: kept_books_def counted_send told_lost lost_def)
next
  case (Some ou)
  then show ?thesis using assms by (auto simp: lost_def kept_books_def told_def)
qed

lemma told_scheduled:
  "told (Some q) s \<Longrightarrow> su_lost s \<Longrightarrow> \<not> ou_scheduled q
    \<Longrightarrow> told (Some (q\<lparr>ou_scheduled := True\<rparr>)) (s\<lparr>su_queue := su_queue s @ [FNotice (Retrying d)]\<rparr>)"
  by (simp add: told_def)

lemma books_scheduled:
  assumes "kept_books r" and "s' \<in> set (rd_subscribers (schedule d r))"
  shows "counted s' \<and> told (rd_outage (schedule d r)) s'"
proof (cases "\<exists>ou. rd_outage r = Some ou \<and> \<not> ou_scheduled ou")
  case True
  then obtain ou where ou: "rd_outage r = Some ou" "\<not> ou_scheduled ou" by blast
  then obtain s where s: "s \<in> set (rd_subscribers r)"
    "s' = (if su_lost s then s\<lparr>su_queue := su_queue s @ [FNotice (Retrying d)]\<rparr> else s)"
    using assms(2) by (auto simp: schedule_def tell_lost_def send_kept elim!: retained split: if_splits)
  have s_ok: "counted s" "told (Some ou) s" using assms(1) s(1) ou(1) by (simp_all add: kept_books_def)
  show ?thesis
  proof (cases "su_lost s")
    case True
    then show ?thesis
      using s_ok s(2) ou by (simp add: schedule_def tell_lost_def counted_send told_scheduled)
  next
    case False
    then show ?thesis using s_ok s(2) ou by (simp add: schedule_def tell_lost_def told_def)
  qed
next
  case False
  then show ?thesis using assms by (auto simp: schedule_def kept_books_def split: option.splits)
qed

lemma books_published:
  assumes "kept_books r" and "s' \<in> set (rd_subscribers (publish kept cloned p r))"
  shows "counted s' \<and> told (rd_outage (publish kept cloned p r)) s'"
proof -
  obtain s where "s \<in> set (rd_subscribers r)" "offer (rd_track r) cloned p s = (s', True)"
    using assms(2) by (auto simp: publish_def Let_def elim!: retained)
  then show ?thesis
    using assms(1) counted_offer told_offer by (auto simp: kept_books_def publish_def Let_def)
qed

lemma books_joins:
  assumes "kept_books r" and "s' \<in> set (rd_subscribers (join cloned r))"
  shows "counted s' \<and> told (rd_outage (join cloned r)) s'"
  using assms books_joined[of s' cloned r] by (auto simp: kept_books_def join_def Let_def)

lemma books_new_track:
  assumes "kept_books r" and "s' \<in> set (rd_subscribers (new_track t r))"
  shows "counted s' \<and> told (rd_outage (new_track t r)) s'"
proof -
  obtain s where "s \<in> set (rd_subscribers r)" "s' = s\<lparr>su_queue := su_queue s @ [FTrack t]\<rparr>"
    using assms(2) by (auto simp: new_track_def broadcast_def send_kept elim!: retained)
  then show ?thesis
    using assms(1) by (simp add: kept_books_def counted_send told_feed new_track_def broadcast_def)
qed

lemma books_others:
  assumes "kept_books r"
  shows "s' \<in> set (rd_subscribers (leave i now r)) \<Longrightarrow> counted s' \<and> told (rd_outage (leave i now r)) s'"
    and "s' \<in> set (rd_subscribers (at_stream i take_feed r)) \<Longrightarrow> counted s' \<and> told (rd_outage r) s'"
    and "s' \<in> set (rd_subscribers (at_stream i (\<lambda>s. s\<lparr>su_open := False\<rparr>) r)) \<Longrightarrow> counted s' \<and> told (rd_outage r) s'"
    and "s' \<in> set (rd_subscribers (fst (try_close r))) \<Longrightarrow> counted s' \<and> told (rd_outage (fst (try_close r))) s'"
  using assms
  by (auto simp: kept_books_def leave_def Let_def at_stream_def try_close_def counted_take split: if_splits)

lemma books_step: "kept_books r \<Longrightarrow> kept_books (reader_step e r)"
proof -
  assume r: "kept_books r"
  have "\<forall>s' \<in> set (rd_subscribers (reader_step e r)). counted s' \<and> told (rd_outage (reader_step e r)) s'"
    using books_joins[OF r] books_new_track[OF r] books_received[OF r] books_lost[OF r] books_scheduled[OF r]
      books_published[OF r] books_others[OF r]
    by (cases e) (auto simp: close_def)
  then show ?thesis using r bounded_step by (simp add: kept_books_def)
qed

lemma reader_runs_books: "reader_runs es r \<Longrightarrow> kept_books r"
proof (induction rule: reader_runs.induct)
  case runs_new
  then show ?case by (simp add: kept_books_def bounded_def reader_new_def)
qed (simp add: books_step)


lemma map_id_retained:
  assumes "\<And>s. su_id (fst (f s)) = su_id s"
  shows "map su_id (rd_subscribers (retain_mut f r)) = map su_id (filter (snd \<circ> f) (rd_subscribers r))"
proof -
  have "map su_id (map fst (filter snd (map f ss))) = map su_id (filter (snd \<circ> f) ss)" for ss
    using assms by (induction ss) auto
  then show ?thesis by (simp add: retain_mut_def)
qed

lemma numbered_retained:
  assumes "numbered r" and "\<And>s. su_id (fst (f s)) = su_id s"
  shows "numbered (retain_mut f r)"
proof -
  have "su_id ` set (rd_subscribers (retain_mut f r)) \<subseteq> su_id ` set (rd_subscribers r)"
    using map_id_retained[OF assms(2), of r] by (metis filter_is_subset image_mono set_map)
  then show ?thesis
    using assms(1) map_id_retained[OF assms(2), of r] distinct_map_filter
    unfolding numbered_def by (auto simp: image_subset_iff)
qed

lemma send_id [simp]: "su_id (fst (send f s)) = su_id s"
  by (simp add: send_def)

lemma offer_id [simp]: "su_id (fst (offer track cloned p s)) = su_id s"
  by (simp add: offer_def deliver_def send_def Let_def split: option.splits)

lemma numbered_mapped:
  assumes "numbered r" and "\<And>s. su_id (f s) = su_id s"
  shows "numbered (r\<lparr>rd_subscribers := map f (rd_subscribers r)\<rparr>)"
  using assms by (simp add: numbered_def comp_def)

lemma numbered_fields [simp]:
  "numbered (r\<lparr>rd_track := a\<rparr>) = numbered r" "numbered (r\<lparr>rd_gop := b\<rparr>) = numbered r"
  "numbered (r\<lparr>rd_gop_bytes := c\<rparr>) = numbered r" "numbered (r\<lparr>rd_gop_valid := d\<rparr>) = numbered r"
  "numbered (r\<lparr>rd_outage := e\<rparr>) = numbered r" "numbered (r\<lparr>rd_closed := f\<rparr>) = numbered r"
  "numbered (r\<lparr>rd_empty_since := g\<rparr>) = numbered r" "numbered (gop_hold kept p r) = numbered r"
  "numbered (r\<lparr>rd_subscribers := []\<rparr>)"
  by (simp_all add: numbered_def)

lemma join_id: "su_id (join_feed cloned r s) = su_id s"
  by (simp add: join_feed_def split: option.splits)

lemma numbered_join: "numbered r \<Longrightarrow> numbered (join cloned r)"
  by (auto simp: numbered_def join_def Let_def join_id less_Suc_eq)

lemma numbered_step: "numbered r \<Longrightarrow> numbered (reader_step e r)"
proof (cases e)
  case (Leave i now)
  then show "numbered r \<Longrightarrow> ?thesis" by (auto simp: numbered_def leave_def Let_def distinct_map_filter)
qed (auto simp: numbered_join received_def new_track_def broadcast_def publish_def Let_def lost_def schedule_def
    tell_lost_def try_close_def close_def at_stream_def split: option.split
    intro!: numbered_retained numbered_mapped)

lemma reader_runs_numbered: "reader_runs es r \<Longrightarrow> numbered r"
proof (induction rule: reader_runs.induct)
  case runs_new
  then show ?case by (simp add: reader_new_def numbered_def)
qed (simp add: numbered_step)

section \<open>Waiting between connections\<close>

text \<open>\<open>RemuxBackoff\<close> of \<open>remux/mod.rs\<close>, durations in nanoseconds.\<close>

record remux_backoff =
  bo_initial :: nat
  bo_cap :: nat
  bo_healthy :: nat

definition backoff_default :: remux_backoff where
  "backoff_default = \<lparr>bo_initial = 500 * 10 ^ 6, bo_cap = 10 * 10 ^ 9, bo_healthy = 5 * 10 ^ 9\<rparr>"

definition backoff_next :: "remux_backoff \<Rightarrow> nat \<Rightarrow> nat \<Rightarrow> nat" where
  "backoff_next b delay session = (if session \<ge> bo_healthy b then bo_initial b else delay)"

definition backoff_grow :: "remux_backoff \<Rightarrow> nat \<Rightarrow> nat" where
  "backoff_grow b delay = min (delay * 2) (bo_cap b)"

text \<open>The delays \<open>Reader::run\<close> waits out, given how long each session lasted.\<close>

fun delays_from :: "remux_backoff \<Rightarrow> nat \<Rightarrow> nat list \<Rightarrow> nat list" where
  "delays_from b delay [] = []"
| "delays_from b delay (session # sessions) =
     (let d = backoff_next b delay session in d # delays_from b (backoff_grow b d) sessions)"

definition delays :: "remux_backoff \<Rightarrow> nat list \<Rightarrow> nat list" where
  "delays b sessions = delays_from b (bo_initial b) sessions"

lemma min_times:
  assumes "0 < n"
  shows "min (min a c * n) c = min (a * n) (c :: nat)"
proof (cases "a \<le> c")
  case False
  have "c \<le> c * n" "a \<le> a * n" using assms by (cases n; simp)+
  then have "c \<le> a * n" using False by linarith
  then show ?thesis using False \<open>c \<le> c * n\<close> by (simp add: min_absorb2)
qed (simp add: min_absorb1)

lemma delays_from_short:
  assumes "\<forall>s \<in> set sessions. s < bo_healthy b" and "i < length sessions" and "delay \<le> bo_cap b"
  shows "delays_from b delay sessions ! i = min (delay * 2 ^ i) (bo_cap b)"
  using assms
proof (induction b delay sessions arbitrary: i rule: delays_from.induct)
  case (2 b delay session sessions)
  then have d: "backoff_next b delay session = delay" by (simp add: backoff_next_def)
  show ?case
  proof (cases i)
    case 0
    then show ?thesis using d "2.prems"(3) by (simp add: Let_def)
  next
    case (Suc j)
    have "delays_from b (backoff_grow b delay) sessions ! j = min (backoff_grow b delay * 2 ^ j) (bo_cap b)"
      using "2.IH"[OF refl, of j] "2.prems" Suc d by (simp add: backoff_grow_def)
    then show ?thesis
      using Suc d min_times[of "2 ^ j" "delay * 2" "bo_cap b"] by (simp add: Let_def backoff_grow_def mult.assoc)
  qed
qed simp

lemma delays_from_bounded:
  "delay \<le> max (bo_initial b) (bo_cap b) \<Longrightarrow> list_all (\<lambda>d. d \<le> max (bo_initial b) (bo_cap b)) (delays_from b delay sessions)"
  by (induction b delay sessions rule: delays_from.induct)
    (auto simp: Let_def backoff_next_def backoff_grow_def)

section \<open>Running concrete events\<close>

fun run_events :: "reader \<Rightarrow> reader_event list \<Rightarrow> reader option" where
  "run_events r [] = Some r"
| "run_events r (e # es) = (if enabled e r then run_events (reader_step e r) es else None)"

lemma run_events_runs:
  "reader_runs ds r \<Longrightarrow> run_events r es = Some r' \<Longrightarrow> reader_runs (ds @ es) r'"
proof (induction es arbitrary: ds r)
  case (Cons e es)
  then have "reader_runs (ds @ [e]) (reader_step e r)" "run_events (reader_step e r) es = Some r'"
    by (auto intro: runs_step split: if_splits)
  then show ?case using Cons.IH[of "ds @ [e]"] by simp
qed simp

text \<open>A small run: a stream joins, the source connects, a keyframe and a frame arrive, another joins.\<close>

definition example_track :: owned_track where
  "example_track = \<lparr>tr_codec = H264, tr_time_base = \<lparr>tb_num = 1, tb_den = 90000\<rparr>, tr_extradata = []\<rparr>"

definition example_packet :: "bool \<Rightarrow> int \<Rightarrow> media_packet" where
  "example_packet key t =
     \<lparr>mp_data = [0, 0, 1, 0x65], mp_key = key,
      mp_timing = \<lparr>pt_pts = Some t, pt_dts = Some t, pt_duration = 3000\<rparr>, mp_stream = 0\<rparr>"

abbreviation all_cloned :: "nat \<Rightarrow> bool" where
  "all_cloned \<equiv> \<lambda>_. True"

definition example_events :: "reader_event list" where
  "example_events =
     [Join all_cloned, LostLink 0 None, Schedule 500, NewTrack example_track, Received 900,
      Publish True all_cloned (example_packet False 0), Publish True all_cloned (example_packet True 3000),
      Take 0, Join all_cloned, Publish True all_cloned (example_packet False 6000)]"

lemmas reader_evals =
  join_def join_feed_def Let_def new_track_def broadcast_def retain_mut_def send_def received_def tell_lost_def
  publish_def gop_hold_def offer_def deliver_def lost_def schedule_def at_stream_def take_feed_def
  feed_backlog_def gop_cache_bytes_def mp_size_def example_packet_def

definition example_reader :: reader where
  "example_reader = the (run_events reader_new example_events)"

lemma example_run: "run_events reader_new example_events = Some example_reader"
proof -
  have "run_events reader_new example_events \<noteq> None"
    by (simp add: example_events_def reader_new_def reader_evals)
  then show ?thesis by (simp add: example_reader_def)
qed

lemma example_runs: "reader_runs example_events example_reader"
  using run_events_runs[OF runs_new example_run] by simp


section \<open>Properties\<close>

text \<open>
  C5. What a stream can decode. However streams join, leave and fall behind and however the
  source comes and goes, while packets can be cloned: the packets a stream has been sent since
  its last track are consecutive published packets of the current track, starting at a
  keyframe or at the track's first packet; for a stream that does not wait they reach up to the
  latest packet; and no packet is sent ahead of a track.
\<close>

theorem stream_runs_are_decodable:
  assumes "reader_runs es r" and "list_all clean es" and "s \<in> set (rd_subscribers r)"
  shows "case since_track (su_log s) of
      None \<Rightarrow> \<not> list_ex is_packet (su_log s)
    | Some ps \<Rightarrow> \<exists>pre post. history es = pre @ ps @ post
        \<and> (pre = [] \<or> ps = [] \<or> mp_key (hd ps))
        \<and> (\<not> su_waiting s \<longrightarrow> post = [])"
proof -
  have "in_step (history es) (rd_track r) s"
    using reader_runs_synced[OF assms(1,2)] assms(3) by (simp add: synced_def)
  then show ?thesis
    by (auto simp: in_step_def piece_of_def tail_of_def split: option.splits if_splits)
qed

theorem stream_runs_are_decodable_witness:
  "\<exists>s \<in> set (rd_subscribers example_reader).
     since_track (su_log s) = Some [example_packet True 3000, example_packet False 6000]
     \<and> (\<exists>pre. history example_events = pre @ [example_packet True 3000, example_packet False 6000])"
proof -
  have "\<exists>s \<in> set (rd_subscribers example_reader). \<not> su_waiting s
      \<and> since_track (su_log s) = Some [example_packet True 3000, example_packet False 6000]"
    unfolding example_reader_def example_events_def
    by (simp add: reader_new_def reader_evals su_log_def since_track_def)
  then obtain s where s: "s \<in> set (rd_subscribers example_reader)" "\<not> su_waiting s"
    "since_track (su_log s) = Some [example_packet True 3000, example_packet False 6000]" by blast
  moreover have "list_all clean example_events" by (simp add: example_events_def)
  ultimately show ?thesis using stream_runs_are_decodable[OF example_runs _ s(1)] by (intro bexI[of _ s]) auto
qed





text \<open>
  The delays between connections. While no session is healthy the delays double from the
  initial one up to the cap; whatever the sessions, no delay exceeds the larger of the two.
\<close>

theorem backoff_doubles_to_cap:
  assumes "bo_initial b \<le> bo_cap b"
  shows "list_all (\<lambda>d. d \<le> bo_cap b) (delays b sessions)
    \<and> (\<forall>i. i < length sessions \<and> (\<forall>s. s \<in> set sessions \<longrightarrow> s < bo_healthy b)
         \<longrightarrow> delays b sessions ! i = min (bo_initial b * 2 ^ i) (bo_cap b))"
  using delays_from_bounded[of "bo_initial b" b sessions] delays_from_short[of sessions b _ "bo_initial b"] assms
  by (simp add: delays_def max_absorb2)

theorem backoff_doubles_to_cap_witness:
  "delays backoff_default [0, 0, 0, 0, 0, 0] ! 5 = 10000000000"
  using backoff_doubles_to_cap[of backoff_default "[0, 0, 0, 0, 0, 0]"] by (simp add: backoff_default_def)

end
