(* ===== verification/Frame_Order.thy ===== *)
theory Frame_Order
  imports Media
begin

text \<open>
  \<open>ceres-media/src/remux/order.rs\<close>: telling from a track's packets whether its frames
  arrive in display order. Presentation times are \<open>i64\<close> ticks of a 90 kHz clock and the
  count of packets in order is a \<open>u32\<close>; both wrap as in a release build.
\<close>

section \<open>The check\<close>

datatype frame_order = UnknownOrder | DisplayOrder | Reordered

record frame_order_check =
  fo_previous :: "int option"
  fo_keyed :: bool
  fo_in_order :: nat
  fo_reordered :: bool

definition fo_default :: frame_order_check where
  "fo_default = \<lparr>fo_previous = None, fo_keyed = False, fo_in_order = 0, fo_reordered = False\<rparr>"

definition max_reorder :: int where
  "max_reorder = 90000"

definition in_order_packets :: nat where
  "in_order_packets = 2"

definition fo_reset :: "frame_order_check \<Rightarrow> frame_order_check" where
  "fo_reset c = fo_default"

definition fo_order :: "frame_order_check \<Rightarrow> frame_order" where
  "fo_order c =
     (if fo_reordered c then Reordered
      else if fo_keyed c \<and> fo_in_order c \<ge> in_order_packets then DisplayOrder
      else UnknownOrder)"

definition fo_observe :: "int option \<Rightarrow> bool \<Rightarrow> frame_order_check \<Rightarrow> frame_order_check" where
  "fo_observe pts key c =
     (let c1 = (if key then c\<lparr>fo_keyed := True, fo_in_order := 0\<rparr> else c)
      in case pts of
           None \<Rightarrow> c1
         | Some t \<Rightarrow>
             (let step_back = (case fo_previous c1 of None \<Rightarrow> 0 | Some prev \<Rightarrow> wrap_i64 (prev - t));
                  c2 = (if step_back > 0 \<and> step_back < max_reorder then c1\<lparr>fo_reordered := True\<rparr>
                        else if \<not> key \<and> fo_keyed c1 \<and> fo_previous c1 \<noteq> None \<and> step_back < 0
                          then c1\<lparr>fo_in_order := (fo_in_order c1 + 1) mod 2 ^ 32\<rparr>
                        else c1)
              in c2\<lparr>fo_previous := Some t\<rparr>))"

text \<open>\<open>SharedFrameOrder\<close>, the order as the byte another thread reads.\<close>

definition shared_order_set :: "frame_order \<Rightarrow> nat" where
  "shared_order_set o' = (case o' of UnknownOrder \<Rightarrow> 0 | DisplayOrder \<Rightarrow> 1 | Reordered \<Rightarrow> 2)"

definition shared_order_get :: "nat \<Rightarrow> frame_order" where
  "shared_order_get n = (if n = 1 then DisplayOrder else if n = 2 then Reordered else UnknownOrder)"

section \<open>What the packets show\<close>

text \<open>A track's packets as the check sees them: a presentation time, if any, and the keyframe flag.\<close>

type_synonym seen_packet = "int option \<times> bool"

definition fo_run :: "seen_packet list \<Rightarrow> frame_order_check" where
  "fo_run ps = fold (\<lambda>(pts, key). fo_observe pts key) ps fo_default"

definition timed :: "seen_packet list \<Rightarrow> int list" where
  "timed ps = List.map_filter fst ps"

text \<open>A frame showing within a second before the one sent ahead of it.\<close>

fun steps_back :: "int list \<Rightarrow> bool" where
  "steps_back (a # b # ts) \<longleftrightarrow>
     (0 < wrap_i64 (a - b) \<and> wrap_i64 (a - b) < max_reorder) \<or> steps_back (b # ts)"
| "steps_back _ \<longleftrightarrow> False"

lemma steps_back_snoc:
  "steps_back (ts @ [t]) \<longleftrightarrow>
     steps_back ts \<or> (ts \<noteq> [] \<and> 0 < wrap_i64 (List.last ts - t) \<and> wrap_i64 (List.last ts - t) < max_reorder)"
  by (induction ts rule: steps_back.induct) auto

text \<open>The packets since the last keyframe that each showed later than the one before.\<close>

fun in_order_since :: "int option \<Rightarrow> nat \<Rightarrow> bool \<Rightarrow> seen_packet list \<Rightarrow> nat" where
  "in_order_since prev n keyed [] = n"
| "in_order_since prev n keyed ((pts, key) # ps) =
     in_order_since (case pts of None \<Rightarrow> prev | Some _ \<Rightarrow> pts)
       (if key then 0
        else if keyed \<and> (case (prev, pts) of (Some a, Some b) \<Rightarrow> wrap_i64 (a - b) < 0 | _ \<Rightarrow> False) then n + 1
        else n)
       (keyed \<or> key) ps"

lemma fo_run_snoc: "fo_run (ps @ [(pts, key)]) = fo_observe pts key (fo_run ps)"
  by (simp add: fo_run_def)

lemma timed_snoc: "timed (ps @ [(pts, key)]) = timed ps @ (case pts of None \<Rightarrow> [] | Some t \<Rightarrow> [t])"
  by (auto simp: timed_def List.map_filter_def split: option.splits)

lemma in_order_since_snoc:
  "in_order_since prev n keyed (ps @ [(pts, key)]) =
     (if key then 0
      else if (keyed \<or> list_ex snd ps)
          \<and> (case (if timed ps = [] then prev else Some (List.last (timed ps)), pts) of
               (Some a, Some b) \<Rightarrow> wrap_i64 (a - b) < 0 | _ \<Rightarrow> False)
        then in_order_since prev n keyed ps + 1
      else in_order_since prev n keyed ps)"
proof (induction prev n keyed ps rule: in_order_since.induct)
  case (2 prev n keyed pts' key' ps)
  then show ?case by (auto simp: timed_def List.map_filter_simps split: option.splits)
qed (auto simp: timed_def List.map_filter_simps split: option.splits)

lemma in_order_since_bound: "in_order_since prev n keyed ps \<le> n + length ps"
  by (induction prev n keyed ps rule: in_order_since.induct) auto

lemma fo_run_fields:
  assumes "length ps < 2 ^ 32"
  shows "fo_previous (fo_run ps) = (if timed ps = [] then None else Some (List.last (timed ps)))
    \<and> fo_keyed (fo_run ps) = list_ex snd ps
    \<and> fo_in_order (fo_run ps) = in_order_since None 0 False ps
    \<and> fo_reordered (fo_run ps) = steps_back (timed ps)"
  using assms
proof (induction ps rule: rev_induct)
  case Nil
  then show ?case by (simp add: fo_run_def fo_default_def timed_def List.map_filter_simps)
next
  case (snoc p ps)
  obtain pts key where p: "p = (pts, key)" by (cases p)
  have len: "length ps + 1 < 2 ^ 32" using snoc.prems by simp
  have IH: "fo_previous (fo_run ps) = (if timed ps = [] then None else Some (List.last (timed ps)))"
    "fo_keyed (fo_run ps) = list_ex snd ps" "fo_in_order (fo_run ps) = in_order_since None 0 False ps"
    "fo_reordered (fo_run ps) = steps_back (timed ps)"
    using snoc by simp_all
  have small: "(in_order_since None 0 False ps + 1) mod 2 ^ 32 = in_order_since None 0 False ps + 1"
    using in_order_since_bound[of None 0 False ps] len by (intro mod_less) simp
  then have small': "Suc (in_order_since None 0 False ps) mod 2 ^ 32 = Suc (in_order_since None 0 False ps)"
    by simp
  show ?case
    unfolding p fo_run_snoc timed_snoc in_order_since_snoc
    by (auto simp: fo_observe_def Let_def IH steps_back_snoc small' simp del: power_numeral split: option.splits)
qed

section \<open>Properties\<close>

text \<open>
  The check against its specification. After any packets of one track (fewer than the
  counter's range), it answers \<open>Reordered\<close> exactly when some timed packet shows up to a
  second before the timed packet sent ahead of it, however long ago, and \<open>DisplayOrder\<close>
  exactly when none does, a keyframe has arrived and at least two packets since it each
  showed later than the one before.
\<close>

theorem frame_order_spec:
  assumes "length ps < 2 ^ 32"
  shows "fo_order (fo_run ps) =
    (if steps_back (timed ps) then Reordered
     else if list_ex snd ps \<and> in_order_since None 0 False ps \<ge> 2 then DisplayOrder
     else UnknownOrder)"
  using fo_run_fields[OF assms] by (simp add: fo_order_def in_order_packets_def)

theorem frame_order_spec_witness:
  "fo_order (fo_run [(Some 0, True), (Some 6000, False), (Some 3000, False)]) = Reordered
   \<and> fo_order (fo_run [(None, True), (Some 3000, False), (Some 6000, False), (Some 9000, False)]) = DisplayOrder"
proof -
  have stepping: "steps_back (timed [(Some 0, True), (Some 6000, False), (Some 3000, False)])"
    and ahead: "\<not> steps_back (timed [(None, True), (Some 3000, False), (Some 6000, False), (Some 9000, False)])"
    "in_order_since None 0 False [(None, True), (Some 3000, False), (Some 6000, False), (Some 9000, False)] = 2"
    by code_simp+
  show ?thesis
    using frame_order_spec[of "[(Some 0, True), (Some 6000, False), (Some 3000, False)]"]
      frame_order_spec[of "[(None, True), (Some 3000, False), (Some 6000, False), (Some 9000, False)]"] stepping ahead
    by simp
qed

end
