(* ===== verification/Packet_Stream.thy ===== *)
theory Packet_Stream
  imports Reader Frame_Order
begin

text \<open>
  \<open>ceres-media/src/remux/packets.rs\<close>: a source's packets as one consumer reads them. A stream
  owns the receiving end of a reader's channel; here that is the list of feeds it will ever be
  sent, after which the reader has dropped it. \<open>next\<close> blocks until one of them arrives, so a
  read is a function of the feeds.
\<close>

section \<open>Items and state\<close>

datatype packet_item = ITrack owned_track | IPacket media_packet | INotice stream_notice

type_synonym item_result = "(media_error, packet_item) result"

text \<open>The part of \<open>Reading\<close> that placing an item reads and writes.\<close>

record placing =
  pl_timeline :: timeline
  pl_time_base :: "time_base option"
  pl_started :: bool
  pl_codec :: media_codec
  pl_order :: frame_order_check
  pl_referenced :: frame_order_check

record packet_stream =
  pk_placing :: placing
  pk_queued :: "item_result list"
  pk_ended :: bool
  pk_reconnect :: bool
  pk_order :: nat
  pk_referenced_order :: nat

definition packet_time_base :: time_base where
  "packet_time_base = \<lparr>tb_num = 1, tb_den = 90000\<rparr>"

definition placing_new :: placing where
  "placing_new = \<lparr>pl_timeline = timeline_default, pl_time_base = None, pl_started = False,
     pl_codec = OtherCodec, pl_order = fo_default, pl_referenced = fo_default\<rparr>"

definition packet_stream_new :: "bool \<Rightarrow> packet_stream" where
  "packet_stream_new reconnect = \<lparr>pk_placing = placing_new, pk_queued = [], pk_ended = False,
     pk_reconnect = reconnect, pk_order = 0, pk_referenced_order = 0\<rparr>"

section \<open>Reading\<close>

fun place :: "packet_item \<Rightarrow> placing \<Rightarrow> placing \<times> packet_item" where
  "place (ITrack t) c =
     (c\<lparr>pl_timeline := timeline_reconnect (pl_timeline c), pl_time_base := Some (tr_time_base t),
        pl_codec := tr_codec t, pl_order := fo_reset (pl_order c), pl_referenced := fo_reset (pl_referenced c)\<rparr>,
      ITrack t)"
| "place (IPacket p) c =
     (let c1 = c\<lparr>pl_started := True\<rparr>
      in case pl_time_base c1 of
           None \<Rightarrow> (c1, IPacket p)
         | Some tb \<Rightarrow>
             (let timing = timing_rescale (mp_timing p) tb packet_time_base;
                  key = mp_key p;
                  c2 = c1\<lparr>pl_order := fo_observe (pt_pts timing) key (pl_order c1)\<rparr>;
                  c3 = (if \<not> is_unreferenced (mp_data p) (pl_codec c2)
                        then c2\<lparr>pl_referenced := fo_observe (pt_pts timing) key (pl_referenced c2)\<rparr> else c2);
                  (tln, placed) = timeline_place (pl_timeline c3) timing
              in (c3\<lparr>pl_timeline := tln\<rparr>, IPacket (p\<lparr>mp_timing := placed\<rparr>))))"
| "place (INotice n) c = (c, INotice n)"

text \<open>\<open>Display\<close> of an error.\<close>

definition display_error :: "media_error \<Rightarrow> str" where
  "display_error e = me_message e @ '' (FFmpeg error ''
     @ (if me_code e < 0 then ''-'' else []) @ nat_text (nat \<bar>me_code e\<bar>) @ '')''"

definition error_invalid :: "str \<Rightarrow> media_error" where
  "error_invalid m = \<lparr>me_code = -22, me_message = m\<rparr>"

text \<open>What a lost source is to a stream, and whether it ends the stream.\<close>

definition lost_item :: "bool \<Rightarrow> bool \<Rightarrow> media_error option \<Rightarrow> item_result \<times> bool" where
  "lost_item reconnect started error =
     (if reconnect then (Ok (INotice (NoticeLost (map_option display_error error))), False)
      else if \<not> started
        then (Err (case error of Some e \<Rightarrow> e | None \<Rightarrow> error_invalid ''the source sent no video''), True)
      else (Ok (INotice (Ended (case error of
               Some e \<Rightarrow> ''the source was lost: '' @ display_error e
             | None \<Rightarrow> ''the source ended''))), True))"

fun absorb :: "feed \<Rightarrow> packet_stream \<Rightarrow> packet_stream" where
  "absorb (FTrack t) s = s\<lparr>pk_queued := pk_queued s @ [Ok (ITrack t)]\<rparr>"
| "absorb (FSnapshot t ps) s =
     s\<lparr>pk_queued := pk_queued s @ Ok (ITrack t) # map (\<lambda>p. Ok (IPacket p)) ps\<rparr>"
| "absorb (FPacket p) s = s\<lparr>pk_queued := pk_queued s @ [Ok (IPacket p)]\<rparr>"
| "absorb (FLost e) s =
     (let (item, ended) = lost_item (pk_reconnect s) (pl_started (pk_placing s)) e
      in s\<lparr>pk_queued := pk_queued s @ [item], pk_ended := (ended \<or> pk_ended s)\<rparr>)"
| "absorb (FNotice n) s = s\<lparr>pk_queued := pk_queued s @ [Ok (INotice n)]\<rparr>"
| "absorb (FEnd e) s =
     (let s1 = s\<lparr>pk_ended := True\<rparr>
      in case e of None \<Rightarrow> s1 | Some err \<Rightarrow> s1\<lparr>pk_queued := pk_queued s1 @ [Err err]\<rparr>)"

definition publish_orders :: "packet_stream \<Rightarrow> packet_stream" where
  "publish_orders s =
     s\<lparr>pk_order := shared_order_set (fo_order (pl_order (pk_placing s))),
       pk_referenced_order := shared_order_set (fo_order (pl_referenced (pk_placing s)))\<rparr>"

definition pop_item :: "item_result \<Rightarrow> item_result list \<Rightarrow> packet_stream \<Rightarrow> item_result \<times> packet_stream" where
  "pop_item item rest s =
     (case item of
        Inl e \<Rightarrow> (Err e, publish_orders (s\<lparr>pk_queued := rest\<rparr>))
      | Inr i \<Rightarrow> (let (c, i') = place i (pk_placing s)
                  in (Ok i', publish_orders (s\<lparr>pk_queued := rest, pk_placing := c\<rparr>))))"

fun next_item :: "packet_stream \<Rightarrow> feed list \<Rightarrow> item_result option \<times> packet_stream \<times> feed list" where
  "next_item s [] =
     (case pk_queued s of
        item # rest \<Rightarrow> (let (i, s') = pop_item item rest s in (Some i, s', []))
      | [] \<Rightarrow> (None, s\<lparr>pk_ended := True\<rparr>, []))"
| "next_item s (f # fs) =
     (case pk_queued s of
        item # rest \<Rightarrow> (let (i, s') = pop_item item rest s in (Some i, s', f # fs))
      | [] \<Rightarrow> if pk_ended s then (None, s, f # fs) else next_item (absorb f s) fs)"

definition frame_order_now :: "packet_stream \<Rightarrow> frame_order" where
  "frame_order_now s = shared_order_get (pk_order s)"

definition referenced_frame_order :: "packet_stream \<Rightarrow> frame_order" where
  "referenced_frame_order s = shared_order_get (pk_referenced_order s)"

section \<open>Reading on and on\<close>

fun reads :: "nat \<Rightarrow> packet_stream \<Rightarrow> feed list \<Rightarrow> item_result list \<times> packet_stream" where
  "reads 0 s fs = ([], s)"
| "reads (Suc n) s fs =
     (case next_item s fs of
        (None, s', fs') \<Rightarrow> ([], s')
      | (Some i, s', fs') \<Rightarrow> (let (is, s'') = reads n s' fs' in (i # is, s'')))"

text \<open>The items a stream of feeds stands for, before placing.\<close>

fun stream_items :: "bool \<Rightarrow> bool \<Rightarrow> feed list \<Rightarrow> item_result list" where
  "stream_items reconnect started [] = []"
| "stream_items reconnect started (FTrack t # fs) = Ok (ITrack t) # stream_items reconnect started fs"
| "stream_items reconnect started (FSnapshot t ps # fs) =
     Ok (ITrack t) # map (\<lambda>p. Ok (IPacket p)) ps @ stream_items reconnect (started \<or> ps \<noteq> []) fs"
| "stream_items reconnect started (FPacket p # fs) = Ok (IPacket p) # stream_items reconnect True fs"
| "stream_items reconnect started (FLost e # fs) =
     (let (item, ended) = lost_item reconnect started e
      in item # (if ended then [] else stream_items reconnect started fs))"
| "stream_items reconnect started (FNotice n # fs) = Ok (INotice n) # stream_items reconnect started fs"
| "stream_items reconnect started (FEnd e # fs) = (case e of None \<Rightarrow> [] | Some err \<Rightarrow> [Err err])"

fun place_items :: "placing \<Rightarrow> item_result list \<Rightarrow> item_result list" where
  "place_items c [] = []"
| "place_items c (Inl e # is) = Err e # place_items c is"
| "place_items c (Inr i # is) = (let (c', i') = place i c in Ok i' # place_items c' is)"

fun packet_result :: "item_result \<Rightarrow> bool" where
  "packet_result (Inr (IPacket p)) = True"
| "packet_result _ = False"

definition coming :: "packet_stream \<Rightarrow> feed list \<Rightarrow> item_result list" where
  "coming s fs = pk_queued s @
     (if pk_ended s then []
      else stream_items (pk_reconnect s) (pl_started (pk_placing s) \<or> list_ex packet_result (pk_queued s)) fs)"

lemma packet_results [simp]: "list_ex packet_result (map (\<lambda>p. Ok (IPacket p)) ps) \<longleftrightarrow> ps \<noteq> []"
  by (cases ps) auto

lemma coming_absorb:
  assumes "pk_queued s = []" and "\<not> pk_ended s"
  shows "coming (absorb f s) fs = coming s (f # fs)"
  using assms
  by (cases f) (auto simp: coming_def Let_def lost_item_def split: option.splits prod.splits)

lemma absorb_placing [simp]: "pk_placing (absorb f s) = pk_placing s"
  by (cases f) (auto simp: Let_def split: option.splits prod.splits)

lemma place_started: "pl_started (fst (place i c)) \<longleftrightarrow> pl_started c \<or> packet_result (Ok i)"
  by (cases i) (auto simp: Let_def split: option.splits prod.splits)

definition placed_after :: "item_result \<Rightarrow> placing \<Rightarrow> placing" where
  "placed_after item c = (case item of Inl e \<Rightarrow> c | Inr i \<Rightarrow> fst (place i c))"

definition in_order :: "packet_stream \<Rightarrow> bool" where
  "in_order s \<longleftrightarrow> frame_order_now s = fo_order (pl_order (pk_placing s))
     \<and> referenced_frame_order s = fo_order (pl_referenced (pk_placing s))"

lemma shared_order_round_trip: "shared_order_get (shared_order_set x) = x"
  by (cases x) (simp_all add: shared_order_get_def shared_order_set_def)

lemma pop_item_spec:
  assumes "pk_queued s = item # rest" and "pop_item item rest s = (i, s')"
  shows "coming s fs = item # coming s' fs" and "place_items (pk_placing s) [item] = [i]"
    and "pk_placing s' = placed_after item (pk_placing s)" and "in_order s'"
proof -
  have "coming s fs = item # coming s' fs \<and> place_items (pk_placing s) [item] = [i]
    \<and> pk_placing s' = placed_after item (pk_placing s) \<and> in_order s'"
  proof (cases item)
    case (Inl e)
    then show ?thesis
      using assms
      by (auto simp: pop_item_def coming_def publish_orders_def placed_after_def in_order_def frame_order_now_def
          referenced_frame_order_def shared_order_round_trip)
  next
    case (Inr x)
    obtain c y where xy: "place x (pk_placing s) = (c, y)" by (cases "place x (pk_placing s)")
    have "pl_started c \<longleftrightarrow> pl_started (pk_placing s) \<or> packet_result (Ok x)"
      using place_started[of x "pk_placing s"] xy by simp
    then show ?thesis
      using assms Inr xy
      by (auto simp: pop_item_def coming_def publish_orders_def placed_after_def in_order_def frame_order_now_def
          referenced_frame_order_def shared_order_round_trip)
  qed
  then show "coming s fs = item # coming s' fs" and "place_items (pk_placing s) [item] = [i]"
    and "pk_placing s' = placed_after item (pk_placing s)" and "in_order s'" by simp_all
qed

lemma in_order_absorb [simp]: "in_order (absorb f s) = in_order s"
  by (cases f) (auto simp: in_order_def frame_order_now_def referenced_frame_order_def Let_def
      split: option.splits prod.splits)

lemma next_item_None:
  "next_item s fs = (None, s', fs') \<Longrightarrow> coming s fs = [] \<and> pk_placing s' = pk_placing s \<and> in_order s' = in_order s"
proof (induction s fs rule: next_item.induct)
  case (1 s)
  then show ?case
    by (cases "pk_queued s")
      (auto simp: coming_def in_order_def frame_order_now_def referenced_frame_order_def split: prod.splits)
next
  case (2 s f fs)
  have queued: "pk_queued s = []" using 2(2) by (cases "pk_queued s") (auto split: prod.splits)
  show ?case
  proof (cases "pk_ended s")
    case True
    then show ?thesis using 2(2) queued by (simp add: coming_def)
  next
    case False
    have "next_item (absorb f s) fs = (None, s', fs')" using 2(2) queued False by simp
    from 2(1)[OF queued False this] show ?thesis by (simp only: coming_absorb[OF queued False] absorb_placing in_order_absorb)
  qed
qed

lemma next_item_Some:
  "next_item s fs = (Some i, s', fs') \<Longrightarrow>
     \<exists>item. coming s fs = item # coming s' fs' \<and> place_items (pk_placing s) [item] = [i]
       \<and> pk_placing s' = placed_after item (pk_placing s) \<and> in_order s'"
proof (induction s fs rule: next_item.induct)
  case (1 s)
  then obtain item rest where queued: "pk_queued s = item # rest" by (cases "pk_queued s") auto
  obtain j t where jt: "pop_item item rest s = (j, t)" by (cases "pop_item item rest s")
  have "i = j" "s' = t" "fs' = []" using 1 queued jt by auto
  then show ?case using pop_item_spec[OF queued jt] by blast
next
  case (2 s f fs)
  show ?case
  proof (cases "pk_queued s")
    case Nil
    then have live: "\<not> pk_ended s" using 2(2) by (auto split: if_splits)
    have "next_item (absorb f s) fs = (Some i, s', fs')" using 2(2) Nil live by simp
    from 2(1)[OF Nil live this] show ?thesis by (simp only: coming_absorb[OF Nil live] absorb_placing)
  next
    case (Cons item rest)
    obtain j t where jt: "pop_item item rest s = (j, t)" by (cases "pop_item item rest s")
    have "i = j" "s' = t" "fs' = f # fs" using 2(2) Cons jt by auto
    then show ?thesis using pop_item_spec[OF Cons jt] by blast
  qed
qed

lemma place_items_Cons:
  "place_items c (item # is) = place_items c [item] @ place_items (placed_after item c) is"
  by (cases item) (simp_all add: placed_after_def split: prod.splits)

lemma reads_spec:
  "fst (reads n s fs) = place_items (pk_placing s) (take n (coming s fs))
   \<and> pk_placing (snd (reads n s fs)) = fold placed_after (take n (coming s fs)) (pk_placing s)
   \<and> (in_order s \<longrightarrow> in_order (snd (reads n s fs)))"
proof (induction n arbitrary: s fs)
  case (Suc n)
  show ?case
  proof (cases "next_item s fs")
    case (fields r s' fs')
    show ?thesis
    proof (cases r)
      case None
      then show ?thesis using next_item_None[of s fs s' fs'] fields by simp
    next
      case (Some i)
      then obtain item where item: "coming s fs = item # coming s' fs'" "place_items (pk_placing s) [item] = [i]"
        "pk_placing s' = placed_after item (pk_placing s)" "in_order s'"
        using next_item_Some[of s fs i s' fs'] fields by auto
      then show ?thesis
        using Suc.IH[of s' fs'] fields Some item
        by (simp add: place_items_Cons[of "pk_placing s" item "take n (coming s' fs')"] split_beta)
    qed
  qed
qed simp


section \<open>What the items carry\<close>

text \<open>An item but for the timing of its packet.\<close>

fun untimed :: "item_result \<Rightarrow> item_result" where
  "untimed (Inr (IPacket p)) = Ok (IPacket (p\<lparr>mp_timing := \<lparr>pt_pts = None, pt_dts = None, pt_duration = 0\<rparr>\<rparr>))"
| "untimed item = item"

text \<open>The timings of the packets after the first track, and what the timeline is asked for them.\<close>

fun placed_timings :: "bool \<Rightarrow> item_result list \<Rightarrow> packet_timing list" where
  "placed_timings tracked [] = []"
| "placed_timings tracked (Inr (ITrack t) # is) = placed_timings True is"
| "placed_timings tracked (Inr (IPacket p) # is) =
     (if tracked then [mp_timing p] else []) @ placed_timings tracked is"
| "placed_timings tracked (_ # is) = placed_timings tracked is"

fun item_events :: "time_base option \<Rightarrow> item_result list \<Rightarrow> timeline_event list" where
  "item_events tb [] = []"
| "item_events tb (Inr (ITrack t) # is) = Reconnect # item_events (Some (tr_time_base t)) is"
| "item_events tb (Inr (IPacket p) # is) =
     (case tb of None \<Rightarrow> [] | Some b \<Rightarrow> [Place (timing_rescale (mp_timing p) b packet_time_base)]) @ item_events tb is"
| "item_events tb (_ # is) = item_events tb is"

text \<open>The stamps and keyframe flags the order check sees since the last track.\<close>

fun seen_since :: "time_base option \<Rightarrow> seen_packet list \<Rightarrow> item_result list \<Rightarrow> seen_packet list" where
  "seen_since tb seen [] = seen"
| "seen_since tb seen (Inr (ITrack t) # is) = seen_since (Some (tr_time_base t)) [] is"
| "seen_since tb seen (Inr (IPacket p) # is) =
     seen_since tb (case tb of None \<Rightarrow> seen
       | Some b \<Rightarrow> seen @ [(pt_pts (timing_rescale (mp_timing p) b packet_time_base), mp_key p)]) is"
| "seen_since tb seen (_ # is) = seen_since tb seen is"

lemma place_untimed: "untimed (Ok (snd (place i c))) = untimed (Ok i)"
  by (cases i) (auto simp: Let_def split: option.splits prod.splits)

lemma place_items_untimed: "map untimed (place_items c items) = map untimed items"
proof (induction c items rule: place_items.induct)
  case (3 c i rest)
  obtain d j where "place i c = (d, j)" by (cases "place i c")
  then show ?case using 3 place_untimed[of i c] by simp
qed simp_all

lemma place_items_timings:
  "placed_timings (pl_time_base c \<noteq> None) (place_items c items)
     = snd (timeline_run (pl_timeline c) (item_events (pl_time_base c) items))"
proof (induction c items rule: place_items.induct)
  case (3 c i rest)
  then show ?case
    by (cases i) (auto simp: Let_def split: option.splits prod.splits)
qed simp_all

lemma item_events_append: "\<exists>es. item_events tb (xs @ ys) = item_events tb xs @ es"
proof (induction tb xs rule: item_events.induct)
  case (1 tb)
  show ?case by simp
qed auto

lemma item_events_take:
  "set (item_events tb (take n items)) \<subseteq> set (item_events tb items)
   \<and> length (item_events tb (take n items)) \<le> length (item_events tb items)"
proof -
  obtain es where "item_events tb items = item_events tb (take n items) @ es"
    using item_events_append[of tb "take n items" "drop n items"] by auto
  then show ?thesis by simp
qed

lemma fold_placed_order:
  assumes "pl_order c = fo_run seen"
  shows "pl_order (fold placed_after items c) = fo_run (seen_since (pl_time_base c) seen items)"
  using assms
proof (induction "pl_time_base c" seen items arbitrary: c rule: seen_since.induct)
  case (2 seen t rest)
  then show ?case by (simp add: placed_after_def fo_reset_def fo_run_def)
next
  case (3 seen p rest)
  then show ?case
    by (auto simp: placed_after_def Let_def fo_run_snoc split: option.splits prod.splits)
qed (simp_all add: placed_after_def)

lemma coming_new: "coming (packet_stream_new reconnect) fs = stream_items reconnect False fs"
  by (simp add: coming_def packet_stream_new_def placing_new_def)

lemma placing_of_new: "pk_placing (packet_stream_new reconnect) = placing_new"
  by (simp add: packet_stream_new_def)

lemma reads_new:
  "fst (reads n (packet_stream_new reconnect) fs) = place_items placing_new (take n (stream_items reconnect False fs))"
  "pk_placing (snd (reads n (packet_stream_new reconnect) fs))
     = fold placed_after (take n (stream_items reconnect False fs)) placing_new"
  using reads_spec[of n "packet_stream_new reconnect" fs] by (simp_all only: coming_new placing_of_new)

lemma reads_new_in_order: "in_order (snd (reads n (packet_stream_new reconnect) fs))"
proof -
  have "in_order (packet_stream_new reconnect)"
    by (simp add: in_order_def frame_order_now_def referenced_frame_order_def packet_stream_new_def placing_new_def
        fo_order_def fo_default_def shared_order_get_def)
  then show ?thesis using reads_spec[of n "packet_stream_new reconnect" fs] by blast
qed

section \<open>Properties\<close>

text \<open>
  C38. What a consumer reads. Reading a new stream any number of times gives the items its
  feeds stand for, in order and none skipped or repeated: a snapshot as its track and its
  packets, a loss as a notice or, without reconnect, as the stream's end, failing only if no
  packet was read; and reading ends after them. Only the timing of a packet is the stream's
  own.
\<close>

theorem packet_stream_reads_feeds:
  "map untimed (fst (reads n (packet_stream_new reconnect) fs))
     = map untimed (take n (stream_items reconnect False fs))"
  by (simp only: reads_new place_items_untimed)


definition example_feeds :: "feed list" where
  "example_feeds =
     [FSnapshot example_track [example_packet True 3000], FPacket (example_packet False 6000), FLost None,
      FTrack example_track, FPacket (example_packet True 500)]"


text \<open>
  The order a stream reports is the order of its source's own presentation times since the
  last track it read, before any of them was moved.
\<close>

theorem packet_stream_frame_order:
  "frame_order_now (snd (reads n (packet_stream_new reconnect) fs))
     = fo_order (fo_run (seen_since None [] (take n (stream_items reconnect False fs))))"
  using reads_new_in_order[of n reconnect fs]
    fold_placed_order[of placing_new "[]" "take n (stream_items reconnect False fs)"]
  by (simp add: in_order_def reads_new placing_new_def fo_run_def)

end
