(* ===== verification/Readers.thy ===== *)
theory Readers
  imports Reader
begin

text \<open>
  The readers of shared sources: the registry of \<open>ceres-media/src/remux/mod.rs\<close>, \<open>attach\<close>,
  and the two ways a reader closes (\<open>reader.rs\<close>). A reader is its position in the list of all
  readers ever started. \<open>attach\<close> holds the registry's lock through the join, and both ways of
  closing hold it through setting \<open>closed\<close> and removing the key, so each is one step.
\<close>

section \<open>State\<close>

record shared_reader =
  sr_key :: "str option"
  sr_reader :: reader

record remux_world =
  rw_readers :: "shared_reader list"
  rw_registry :: "str \<Rightarrow> nat option"

definition world_new :: remux_world where
  "world_new = \<lparr>rw_readers = [], rw_registry = Map.empty\<rparr>"

definition at_reader :: "nat \<Rightarrow> (reader \<Rightarrow> reader) \<Rightarrow> remux_world \<Rightarrow> remux_world" where
  "at_reader i f w = w\<lparr>rw_readers := (rw_readers w)[i := (rw_readers w ! i)\<lparr>sr_reader := f (sr_reader (rw_readers w ! i))\<rparr>]\<rparr>"

section \<open>Attaching and closing\<close>

definition start_reader :: "str option \<Rightarrow> (nat \<Rightarrow> bool) \<Rightarrow> remux_world \<Rightarrow> remux_world \<times> nat" where
  "start_reader key cloned w =
     (let i = length (rw_readers w);
          registry = (case key of None \<Rightarrow> rw_registry w | Some k \<Rightarrow> (rw_registry w)(k \<mapsto> i))
      in (w\<lparr>rw_readers := rw_readers w @ [\<lparr>sr_key = key, sr_reader = join cloned reader_new\<rparr>],
            rw_registry := registry\<rparr>, i))"

definition attach :: "str option \<Rightarrow> (nat \<Rightarrow> bool) \<Rightarrow> remux_world \<Rightarrow> remux_world \<times> nat" where
  "attach key cloned w =
     (case Option.bind key (rw_registry w) of
        Some i \<Rightarrow> (at_reader i (join cloned) w, i)
      | None \<Rightarrow> start_reader key cloned w)"

definition unregister :: "nat \<Rightarrow> remux_world \<Rightarrow> remux_world" where
  "unregister i w =
     (case sr_key (rw_readers w ! i) of
        None \<Rightarrow> w
      | Some k \<Rightarrow> w\<lparr>rw_registry := (rw_registry w)(k := None)\<rparr>)"

definition close_shared :: "nat \<Rightarrow> media_error option \<Rightarrow> remux_world \<Rightarrow> remux_world" where
  "close_shared i error w = at_reader i (close error) (unregister i w)"

definition try_close_shared :: "nat \<Rightarrow> remux_world \<Rightarrow> remux_world \<times> bool" where
  "try_close_shared i w =
     (if snd (try_close (sr_reader (rw_readers w ! i)))
      then (at_reader i (\<lambda>r. fst (try_close r)) (unregister i w), True)
      else (w, False))"

section \<open>Steps\<close>

text \<open>A reader's other steps, which leave the registry alone.\<close>

fun unshared :: "reader_event \<Rightarrow> bool" where
  "unshared TryClose = False"
| "unshared (Close _) = False"
| "unshared (Join _) = False"
| "unshared _ = True"

inductive world_step :: "remux_world \<Rightarrow> remux_world \<Rightarrow> bool" where
  step_attach: "world_step w (fst (attach key cloned w))"
| step_close: "i < length (rw_readers w) \<Longrightarrow> \<not> rd_closed (sr_reader (rw_readers w ! i))
    \<Longrightarrow> world_step w (close_shared i error w)"
| step_try_close: "i < length (rw_readers w) \<Longrightarrow> \<not> rd_closed (sr_reader (rw_readers w ! i))
    \<Longrightarrow> world_step w (fst (try_close_shared i w))"
| step_unshared: "i < length (rw_readers w) \<Longrightarrow> unshared e \<Longrightarrow> enabled e (sr_reader (rw_readers w ! i))
    \<Longrightarrow> world_step w (at_reader i (reader_step e) w)"

inductive world_reachable :: "remux_world \<Rightarrow> bool" where
  reachable_new: "world_reachable world_new"
| reachable_step: "world_reachable w \<Longrightarrow> world_step w w' \<Longrightarrow> world_reachable w'"

inductive_cases world_stepE: "world_step w w'"

section \<open>The registry holds exactly the open shared readers\<close>

definition open_under :: "remux_world \<Rightarrow> nat \<Rightarrow> str \<Rightarrow> bool" where
  "open_under w i k \<longleftrightarrow> i < length (rw_readers w) \<and> sr_key (rw_readers w ! i) = Some k
     \<and> \<not> rd_closed (sr_reader (rw_readers w ! i))"

definition registry_exact :: "remux_world \<Rightarrow> bool" where
  "registry_exact w \<longleftrightarrow> (\<forall>i k. rw_registry w k = Some i \<longleftrightarrow> open_under w i k)"

lemma closed_unshared: "unshared e \<Longrightarrow> rd_closed (reader_step e r) = rd_closed r"
  by (cases e) (simp_all add: leave_def new_track_def broadcast_def received_def tell_lost_def publish_def Let_def
      lost_def schedule_def split: option.splits)

lemma closed_join [simp]: "rd_closed (join cloned r) = rd_closed r"
  by (simp add: join_def Let_def)

lemma open_at_reader:
  assumes "i < length (rw_readers w)"
  shows "open_under (at_reader i f w) j k \<longleftrightarrow>
    (if j = i then sr_key (rw_readers w ! i) = Some k \<and> \<not> rd_closed (f (sr_reader (rw_readers w ! i)))
     else open_under w j k)"
  using assms by (auto simp: open_under_def at_reader_def nth_list_update)

lemma exact_kept_open:
  assumes "registry_exact w" and "i < length (rw_readers w)"
    and "rd_closed (f (sr_reader (rw_readers w ! i))) = rd_closed (sr_reader (rw_readers w ! i))"
  shows "registry_exact (at_reader i f w)"
proof -
  have "open_under (at_reader i f w) j k = open_under w j k" for j k
    using assms(2,3) by (simp add: open_at_reader) (auto simp: open_under_def)
  then show ?thesis using assms(1) by (simp add: registry_exact_def) (simp add: at_reader_def)
qed

lemma exact_closed:
  assumes "registry_exact w" and "i < length (rw_readers w)" and "\<not> rd_closed (sr_reader (rw_readers w ! i))"
    and "rd_closed (f (sr_reader (rw_readers w ! i)))"
  shows "registry_exact (at_reader i f (unregister i w))"
proof (cases "sr_key (rw_readers w ! i)")
  case None
  then have "open_under (at_reader i f w) j k = open_under w j k" for j k
    using assms(2,4) by (simp add: open_at_reader) (auto simp: open_under_def)
  then show ?thesis
    using assms(1) None by (simp add: registry_exact_def unregister_def) (simp add: at_reader_def)
next
  case (Some k)
  have mine: "rw_registry w k = Some i" using assms(1-3) Some by (auto simp: registry_exact_def open_under_def)
  have only: "k' = k" if "rw_registry w k' = Some i" for k'
    using that assms(1) Some by (simp add: registry_exact_def open_under_def)
  have "open_under (at_reader i f (w\<lparr>rw_registry := (rw_registry w)(k := None)\<rparr>)) j k'
      \<longleftrightarrow> open_under w j k' \<and> j \<noteq> i" for j k'
    using assms(2,4) by (auto simp: open_at_reader) (simp_all add: open_under_def)
  moreover have "rw_registry w k' = Some j \<and> j \<noteq> i \<longleftrightarrow> ((rw_registry w)(k := None)) k' = Some j" for j k'
  proof (cases "k' = k")
    case True
    then show ?thesis using mine by simp
  next
    case False
    then show ?thesis using only[of k'] by auto
  qed
  ultimately show ?thesis
    using assms(1) Some by (simp add: registry_exact_def unregister_def) (simp add: at_reader_def)
qed


lemma exact_started:
  assumes "registry_exact w" and "\<And>k. key = Some k \<Longrightarrow> rw_registry w k = None"
  shows "registry_exact (fst (start_reader key cloned w))"
proof -
  have "open_under (fst (start_reader key cloned w)) i k \<longleftrightarrow>
      open_under w i k \<or> i = length (rw_readers w) \<and> key = Some k" for i k
    by (auto simp: open_under_def start_reader_def Let_def nth_append reader_new_def join_def less_Suc_eq)
  moreover have "rw_registry (fst (start_reader key cloned w)) k = Some i \<longleftrightarrow>
      open_under w i k \<or> i = length (rw_readers w) \<and> key = Some k" for i k
  proof -
    have "rw_registry w k = Some i \<longleftrightarrow> open_under w i k" using assms(1) by (simp add: registry_exact_def)
    then show ?thesis
      using assms(2)[of k] by (cases "key = Some k") (auto simp: start_reader_def Let_def split: option.splits)
  qed
  ultimately show ?thesis by (simp add: registry_exact_def)
qed

lemma exact_attached: "registry_exact w \<Longrightarrow> registry_exact (fst (attach key cloned w))"
proof (cases "Option.bind key (rw_registry w)")
  case None
  assume "registry_exact w"
  moreover have "rw_registry w k = None" if "key = Some k" for k using None that by simp
  ultimately show ?thesis using None exact_started[of w key cloned] by (simp add: attach_def)
next
  case (Some i)
  assume w: "registry_exact w"
  then have "i < length (rw_readers w)"
    using Some by (cases key) (auto simp: registry_exact_def open_under_def)
  then show ?thesis using Some w by (simp add: attach_def exact_kept_open)
qed

lemma world_reachable_exact: "world_reachable w \<Longrightarrow> registry_exact w"
proof (induction rule: world_reachable.induct)
  case reachable_new
  then show ?case by (simp add: registry_exact_def open_under_def world_new_def)
next
  case (reachable_step w w')
  from reachable_step(2) show ?case
  proof cases
    case (step_attach key cloned)
    then show ?thesis using reachable_step(3) exact_attached by simp
  next
    case (step_close i error)
    then show ?thesis
      using reachable_step(3) exact_closed[of w i "close error"]
      by (simp add: close_shared_def close_def broadcast_def)
  next
    case (step_try_close i)
    then show ?thesis
      using reachable_step(3) exact_closed[of w i "\<lambda>r. fst (try_close r)"]
      by (auto simp: try_close_shared_def try_close_def)
  next
    case (step_unshared i e)
    then show ?thesis using reachable_step(3) exact_kept_open closed_unshared by simp
  qed
qed

section \<open>Properties\<close>

text \<open>
  C6. One connection per source. In every state the program can reach, the registry names
  exactly the open reader of each shared source: no two open readers share a key, a stream
  attaching to a source that has an open reader joins that reader and starts no other, and the
  reader it joins or starts is open, so no stream joins a reader that has closed.
\<close>

theorem one_open_reader_per_source:
  assumes "world_reachable w"
  shows "(\<forall>i j k. open_under w i k \<and> open_under w j k \<longrightarrow> i = j)
    \<and> (\<forall>i k. open_under w i k \<longrightarrow> snd (attach (Some k) cloned w) = i)
    \<and> (let (w', i) = attach key cloned w in \<not> rd_closed (sr_reader (rw_readers w' ! i)))"
proof -
  have exact: "rw_registry w k = Some i \<longleftrightarrow> open_under w i k" for i k
    using world_reachable_exact[OF assms] by (simp add: registry_exact_def)
  have "\<not> rd_closed (sr_reader (rw_readers (fst (attach key cloned w)) ! snd (attach key cloned w)))"
  proof (cases "Option.bind key (rw_registry w)")
    case None
    then show ?thesis by (simp add: attach_def start_reader_def Let_def reader_new_def)
  next
    case (Some i)
    then have "\<exists>k. open_under w i k" using exact by (cases key) auto
    then show ?thesis using Some by (auto simp: attach_def at_reader_def open_under_def)
  qed
  moreover have "i = j" if "open_under w i k" "open_under w j k" for i j k
    using that exact[of k i] exact[of k j] by simp
  moreover have "snd (attach (Some k) cloned w) = i" if "open_under w i k" for i k
    using that exact[of k i] by (simp add: attach_def)
  ultimately show ?thesis by (auto simp: split_beta)
qed

definition example_world :: remux_world where
  "example_world = fst (attach (Some ''tcp rtsp://cam'') (\<lambda>_. True) world_new)"

theorem one_open_reader_per_source_witness:
  "open_under example_world 0 ''tcp rtsp://cam''
   \<and> snd (attach (Some ''tcp rtsp://cam'') (\<lambda>_. True) example_world) = 0"
proof -
  have "world_reachable example_world"
    unfolding example_world_def by (rule reachable_step[OF reachable_new step_attach])
  moreover have "open_under example_world 0 ''tcp rtsp://cam''"
    by (simp add: example_world_def attach_def start_reader_def Let_def world_new_def open_under_def reader_new_def)
  ultimately show ?thesis using one_open_reader_per_source by blast
qed

end
