(* ===== verification/Binary.thy ===== *)
theory Binary
  imports Prelude "HOL-Library.AList"
begin

text \<open>
  The binary packing engine (\<open>ceres-core/src/binary.rs\<close>): a schema tree packs a Python value
  into bytes and unpacks bytes into a tree of plain values. A Python object is reached through
  what the engine asks of it (\<open>py_env\<close>): the conversions of the Python runtime, iteration and
  attributes; float conversions between widths are those of the machine and the \<open>half\<close> crate.
  Floats are their bit patterns. Sizes and offsets are \<open>usize\<close> and wrap, as in a release build;
  running out of memory is not modelled.
\<close>

section \<open>Schemas\<close>

datatype node =
    BytesN nat | BoolN | Uint8N | Int8N | Uint16N | Int16N | Uint32N | Int32N | Uint64N | Int64N
  | Float16N | Float32N | Float64N | Complex64N | Complex128N
  | TupleN "spec list"
  | SequenceN spec nat
  | ModelN "(str \<times> spec) list"
and spec = Spec node "str option" nat nat

text \<open>\<open>Spec::size\<close> and \<open>Node::size\<close>, with the wrap-around of \<open>usize\<close>.\<close>

abbreviation usize_add :: "nat \<Rightarrow> nat \<Rightarrow> nat" where
  "usize_add a b \<equiv> (a + b) mod 2 ^ 64"

abbreviation usize_mul :: "nat \<Rightarrow> nat \<Rightarrow> nat" where
  "usize_mul a b \<equiv> (a * b) mod 2 ^ 64"

fun spec_size :: "spec \<Rightarrow> nat" and node_size :: "node \<Rightarrow> nat" where
  "spec_size (Spec n _ before after) = usize_add (usize_add before (node_size n)) after"
| "node_size (BytesN l) = l"
| "node_size BoolN = 1"
| "node_size Uint8N = 1"
| "node_size Int8N = 1"
| "node_size Uint16N = 2"
| "node_size Int16N = 2"
| "node_size Float16N = 2"
| "node_size Uint32N = 4"
| "node_size Int32N = 4"
| "node_size Float32N = 4"
| "node_size Uint64N = 8"
| "node_size Int64N = 8"
| "node_size Float64N = 8"
| "node_size Complex64N = 8"
| "node_size Complex128N = 16"
| "node_size (TupleN cs) = foldl (\<lambda>total c. usize_add total (spec_size c)) 0 cs"
| "node_size (SequenceN el l) = usize_mul (spec_size el) l"
| "node_size (ModelN fs) = foldl (\<lambda>total f. usize_add total (spec_size (snd f))) 0 fs"

section \<open>Byte orders\<close>

datatype endian = Little | Big

datatype packing_error =
    NotBytes
  | NotInteger str
  | OutOfRange str int int int
  | NotNumber str
  | NotComplex
  | FloatTooLarge str
  | Raised str
  | BadOrder str
  | Short nat nat
  | Panicked str

definition endian_parse :: "endian \<Rightarrow> str \<Rightarrow> (packing_error, endian) result" where
  "endian_parse native symbol =
     (if symbol = ''<'' then Ok Little
      else if symbol = ''>'' then Ok Big
      else if symbol = ''='' then Ok native
      else Err (BadOrder symbol))"

text \<open>\<open>to_le_bytes\<close> of an \<open>n\<close>-byte integer, and \<open>from_le_bytes\<close> at an unsigned and at a signed type.\<close>

fun le_bytes :: "nat \<Rightarrow> int \<Rightarrow> byte list" where
  "le_bytes 0 x = []"
| "le_bytes (Suc n) x = word_of_int x # le_bytes n (x div 256)"

fun of_le :: "byte list \<Rightarrow> int" where
  "of_le [] = 0"
| "of_le (b # bs) = uint b + 256 * of_le bs"

definition signed_of :: "nat \<Rightarrow> int \<Rightarrow> int" where
  "signed_of n u = (if 2 * u \<ge> 256 ^ n then u - 256 ^ n else u)"

definition write_int :: "nat \<Rightarrow> endian \<Rightarrow> int \<Rightarrow> byte list" where
  "write_int n en x = (case en of Little \<Rightarrow> le_bytes n x | Big \<Rightarrow> rev (le_bytes n x))"

definition read_bytes :: "nat \<Rightarrow> endian \<Rightarrow> byte list \<Rightarrow> (packing_error, byte list) result" where
  "read_bytes n en data =
     (if length data < n then Err (Panicked ''range end index out of range'')
      else Ok (case en of Little \<Rightarrow> take n data | Big \<Rightarrow> rev (take n data)))"

section \<open>Python values and floats\<close>

text \<open>
  \<open>py_int\<close> is extraction as \<open>i128\<close>, \<open>py_float\<close> as \<open>f64\<close>, \<open>py_complex\<close> a cast to a complex;
  an iterator gives its items or the exceptions they raise.
\<close>

record 'v py_env =
  py_bytes :: "'v \<Rightarrow> byte list option"
  py_truthy :: "'v \<Rightarrow> (str, bool) result"
  py_int :: "'v \<Rightarrow> int option"
  py_float :: "'v \<Rightarrow> 64 word option"
  py_complex :: "'v \<Rightarrow> (64 word \<times> 64 word) option"
  py_iter :: "'v \<Rightarrow> (str, (str, 'v) result list) result"
  py_attr :: "str \<Rightarrow> 'v \<Rightarrow> (str, 'v) result"
  f16_of :: "64 word \<Rightarrow> 16 word"
  of_f16 :: "16 word \<Rightarrow> 64 word"
  f32_of :: "64 word \<Rightarrow> 32 word"
  of_f32 :: "32 word \<Rightarrow> 64 word"
  native :: endian

definition f64_finite :: "64 word \<Rightarrow> bool" where
  "f64_finite w \<longleftrightarrow> (uint w div 2 ^ 52) mod 2 ^ 11 \<noteq> 2 ^ 11 - 1"

definition f32_infinite :: "32 word \<Rightarrow> bool" where
  "f32_infinite w \<longleftrightarrow> uint w mod 2 ^ 31 = 255 * 2 ^ 23"

definition f16_infinite :: "16 word \<Rightarrow> bool" where
  "f16_infinite w \<longleftrightarrow> uint w mod 2 ^ 15 = 31 * 2 ^ 10"

definition raised :: "(str, 'a) result \<Rightarrow> (packing_error, 'a) result" where
  "raised r = (case r of Inl e \<Rightarrow> Err (Raised e) | Inr a \<Rightarrow> Ok a)"

definition int_in_range :: "'v py_env \<Rightarrow> 'v \<Rightarrow> int \<Rightarrow> int \<Rightarrow> str \<Rightarrow> (packing_error, int) result" where
  "int_in_range E v low high name =
     (case py_int E v of
        None \<Rightarrow> Err (NotInteger name)
      | Some i \<Rightarrow> if i < low \<or> i > high then Err (OutOfRange name low high i) else Ok i)"

definition as_float :: "'v py_env \<Rightarrow> 'v \<Rightarrow> str \<Rightarrow> (packing_error, 64 word) result" where
  "as_float E v name = (case py_float E v of None \<Rightarrow> Err (NotNumber name) | Some w \<Rightarrow> Ok w)"

definition as_complex :: "'v py_env \<Rightarrow> 'v \<Rightarrow> (packing_error, 64 word \<times> 64 word) result" where
  "as_complex E v =
     (case py_complex E v of
        Some c \<Rightarrow> Ok c
      | None \<Rightarrow> (case py_float E v of None \<Rightarrow> Err NotComplex | Some w \<Rightarrow> Ok (w, 0)))"

definition narrow :: "64 word \<Rightarrow> 'a \<Rightarrow> bool \<Rightarrow> str \<Rightarrow> (packing_error, 'a) result" where
  "narrow value narrowed is_infinite name =
     (if f64_finite value \<and> is_infinite then Err (FloatTooLarge name) else Ok narrowed)"

section \<open>Packing\<close>

text \<open>
  \<open>pack_into\<close> appends to a buffer that an error discards; here it gives the appended bytes. The
  integer widths share their branch through \<open>pack_int\<close>.
\<close>

definition pack_int ::
  "'v py_env \<Rightarrow> endian \<Rightarrow> nat \<Rightarrow> int \<Rightarrow> int \<Rightarrow> str \<Rightarrow> 'v \<Rightarrow> (packing_error, byte list) result" where
  "pack_int E en n low high name v = try_then (int_in_range E v low high name) (\<lambda>i. Ok (write_int n en i))"

fun pack_scalar :: "'v py_env \<Rightarrow> endian \<Rightarrow> node \<Rightarrow> 'v \<Rightarrow> (packing_error, byte list) result" where
  "pack_scalar E en (BytesN l) v =
     (case py_bytes E v of
        None \<Rightarrow> Err NotBytes
      | Some bs \<Rightarrow> (let copied = min (length bs) l in Ok (take copied bs @ replicate (l - copied) 0)))"
| "pack_scalar E en BoolN v = try_then (raised (py_truthy E v)) (\<lambda>b. Ok [if b then 1 else 0])"
| "pack_scalar E en Uint8N v = pack_int E Little 1 0 0xff ''uint8'' v"
| "pack_scalar E en Int8N v = pack_int E Little 1 (- 0x80) 0x7f ''int8'' v"
| "pack_scalar E en Uint16N v = pack_int E en 2 0 0xffff ''uint16'' v"
| "pack_scalar E en Int16N v = pack_int E en 2 (- 0x8000) 0x7fff ''int16'' v"
| "pack_scalar E en Uint32N v = pack_int E en 4 0 0xffffffff ''uint32'' v"
| "pack_scalar E en Int32N v = pack_int E en 4 (- 0x80000000) 0x7fffffff ''int32'' v"
| "pack_scalar E en Uint64N v = pack_int E en 8 0 0xffffffffffffffff ''uint64'' v"
| "pack_scalar E en Int64N v = pack_int E en 8 (- 0x8000000000000000) 0x7fffffffffffffff ''int64'' v"
| "pack_scalar E en Float16N v =
     try_then (as_float E v ''float16'') (\<lambda>w.
     try_then (narrow w (f16_of E w) (f16_infinite (f16_of E w)) ''e'') (\<lambda>h. Ok (write_int 2 en (uint h))))"
| "pack_scalar E en Float32N v =
     try_then (as_float E v ''float32'') (\<lambda>w.
     try_then (narrow w (f32_of E w) (f32_infinite (f32_of E w)) ''f'') (\<lambda>h. Ok (write_int 4 en (uint h))))"
| "pack_scalar E en Float64N v = try_then (as_float E v ''float64'') (\<lambda>w. Ok (write_int 8 en (uint w)))"
| "pack_scalar E en Complex64N v =
     try_then (as_complex E v) (\<lambda>(re, im).
     try_then (narrow re (f32_of E re) (f32_infinite (f32_of E re)) ''F'') (\<lambda>r.
     try_then (narrow im (f32_of E im) (f32_infinite (f32_of E im)) ''F'') (\<lambda>i.
       Ok (write_int 4 en (uint r) @ write_int 4 en (uint i)))))"
| "pack_scalar E en Complex128N v =
     try_then (as_complex E v) (\<lambda>(re, im). Ok (write_int 8 en (uint re) @ write_int 8 en (uint im)))"
| "pack_scalar E en _ v = Ok []"

function (sequential) pack_into :: "'v py_env \<Rightarrow> endian \<Rightarrow> spec \<Rightarrow> 'v \<Rightarrow> (packing_error, byte list) result"
and pack_node :: "'v py_env \<Rightarrow> endian \<Rightarrow> node \<Rightarrow> 'v \<Rightarrow> (packing_error, byte list) result" where
  "pack_into E en (Spec n order before after) v =
     try_then (pack_node E en n v) (\<lambda>bs. Ok (replicate before 0 @ bs @ replicate after 0))"
| "pack_node E en (TupleN cs) v =
     try_then (raised (py_iter E v)) (\<lambda>items.
     try_then (try_map (\<lambda>(c, item). try_then (raised item) (pack_into E en c)) (zip cs items)) (\<lambda>parts.
       Ok (concat parts)))"
| "pack_node E en (SequenceN el l) v =
     try_then (raised (py_iter E v)) (\<lambda>items.
     try_then (try_map (\<lambda>item. try_then (raised item) (pack_into E en el)) items) (\<lambda>parts. Ok (concat parts)))"
| "pack_node E en (ModelN fs) v =
     try_then (try_map (\<lambda>(name, c). try_then (raised (py_attr E name v)) (pack_into E en c)) fs) (\<lambda>parts.
       Ok (concat parts))"
| "pack_node E en n v = pack_scalar E en n v"
  by pat_completeness auto
termination
  by (relation "measure (\<lambda>x. case x of Inl (E, en, c, v) \<Rightarrow> size c | Inr (E, en, n, v) \<Rightarrow> size n)")
    (auto dest!: set_zip_leftD dest: size_list_estimation'[where f = size, OF _ order_refl]
        size_list_estimation'[where f = "size_prod (\<lambda>_. 0) size", OF _ order_refl] simp: less_Suc_eq_le)

section \<open>Unpacking\<close>

datatype tree =
    BytesT "byte list" | BoolT bool | IntT int | FloatT "64 word" | ComplexT "64 word" "64 word"
  | TupleT "tree list" | DictT "(str \<times> tree) list"

text \<open>A loop that moves an offset along and stops at the first error.\<close>

fun in_turn :: "('a \<Rightarrow> 's \<Rightarrow> ('e, 'b \<times> 's) result) \<Rightarrow> 'a list \<Rightarrow> 's \<Rightarrow> ('e, 'b list \<times> 's) result" where
  "in_turn f [] s = Ok ([], s)"
| "in_turn f (x # xs) s =
     try_then (f x s) (\<lambda>(y, s'). try_then (in_turn f xs s') (\<lambda>(ys, s''). Ok (y # ys, s'')))"

lemma in_turn_cong [fundef_cong]:
  assumes "xs = ys" "s = t" "\<And>x s. x \<in> set ys \<Longrightarrow> f x s = g x s"
  shows "in_turn f xs s = in_turn g ys t"
  using assms(3) unfolding assms(1,2)
  by (induction ys arbitrary: t) (auto simp: try_then_def split: sum.splits prod.splits)

definition first_byte :: "byte list \<Rightarrow> (packing_error, byte) result" where
  "first_byte at = (case at of [] \<Rightarrow> Err (Panicked ''index out of bounds'') | b # _ \<Rightarrow> Ok b)"

definition read_unsigned :: "nat \<Rightarrow> endian \<Rightarrow> byte list \<Rightarrow> (packing_error, int) result" where
  "read_unsigned n en at = try_then (read_bytes n en at) (\<lambda>bs. Ok (of_le bs))"

definition read_signed :: "nat \<Rightarrow> endian \<Rightarrow> byte list \<Rightarrow> (packing_error, int) result" where
  "read_signed n en at = try_then (read_unsigned n en at) (\<lambda>u. Ok (signed_of n u))"

definition read_f16 :: "'v py_env \<Rightarrow> endian \<Rightarrow> byte list \<Rightarrow> (packing_error, 64 word) result" where
  "read_f16 E en at = try_then (read_unsigned 2 en at) (\<lambda>u. Ok (of_f16 E (word_of_int u)))"

definition read_f32 :: "'v py_env \<Rightarrow> endian \<Rightarrow> byte list \<Rightarrow> (packing_error, 64 word) result" where
  "read_f32 E en at = try_then (read_unsigned 4 en at) (\<lambda>u. Ok (of_f32 E (word_of_int u)))"

definition read_f64 :: "endian \<Rightarrow> byte list \<Rightarrow> (packing_error, 64 word) result" where
  "read_f64 en at = try_then (read_unsigned 8 en at) (\<lambda>u. Ok (word_of_int u))"

definition in_tree :: "('a \<Rightarrow> tree) \<Rightarrow> (packing_error, 'a) result \<Rightarrow> (packing_error, tree) result" where
  "in_tree f r = try_then r (\<lambda>a. Ok (f a))"

fun unpack_scalar :: "'v py_env \<Rightarrow> endian \<Rightarrow> node \<Rightarrow> byte list \<Rightarrow> (packing_error, tree) result" where
  "unpack_scalar E en (BytesN l) at =
     (if length at < l then Err (Panicked ''range end index out of range'') else Ok (BytesT (take l at)))"
| "unpack_scalar E en BoolN at = in_tree (\<lambda>b. BoolT (b \<noteq> 0)) (first_byte at)"
| "unpack_scalar E en Uint8N at = in_tree (\<lambda>b. IntT (uint b)) (first_byte at)"
| "unpack_scalar E en Int8N at = in_tree (\<lambda>b. IntT (signed_of 1 (uint b))) (first_byte at)"
| "unpack_scalar E en Uint16N at = in_tree IntT (read_unsigned 2 en at)"
| "unpack_scalar E en Int16N at = in_tree IntT (read_signed 2 en at)"
| "unpack_scalar E en Uint32N at = in_tree IntT (read_unsigned 4 en at)"
| "unpack_scalar E en Int32N at = in_tree IntT (read_signed 4 en at)"
| "unpack_scalar E en Uint64N at = in_tree IntT (read_unsigned 8 en at)"
| "unpack_scalar E en Int64N at = in_tree IntT (read_signed 8 en at)"
| "unpack_scalar E en Float16N at = in_tree FloatT (read_f16 E en at)"
| "unpack_scalar E en Float32N at = in_tree FloatT (read_f32 E en at)"
| "unpack_scalar E en Float64N at = in_tree FloatT (read_f64 en at)"
| "unpack_scalar E en Complex64N at =
     try_then (read_f32 E en at) (\<lambda>re. in_tree (ComplexT re) (read_f32 E en (drop 4 at)))"
| "unpack_scalar E en Complex128N at =
     try_then (read_f64 en at) (\<lambda>re. in_tree (ComplexT re) (read_f64 en (drop 8 at)))"
| "unpack_scalar E en _ at = Ok (TupleT [])"

text \<open>\<open>Vec::with_capacity\<close> panics past \<open>isize::MAX\<close> bytes, eight to an object.\<close>

definition capacity :: "nat \<Rightarrow> (packing_error, unit) result" where
  "capacity l = (if 8 * l < 2 ^ 63 then Ok () else Err (Panicked ''capacity overflow''))"

function (sequential) unpack_from ::
  "'v py_env \<Rightarrow> endian \<Rightarrow> byte list \<Rightarrow> spec \<Rightarrow> nat \<Rightarrow> (packing_error, tree \<times> nat) result"
and unpack_node :: "'v py_env \<Rightarrow> endian \<Rightarrow> byte list \<Rightarrow> node \<Rightarrow> nat \<Rightarrow> (packing_error, tree \<times> nat) result" where
  "unpack_from E en data (Spec n order before after) offset0 =
     (let offset = usize_add offset0 before; need = node_size n
      in if length data < usize_add offset need then Err (Short (usize_add offset need) (length data))
         else if length data < offset then Err (Panicked ''range start index out of range'')
         else try_then (unpack_node E en data n offset) (\<lambda>(t, offset'). Ok (t, usize_add offset' after)))"
| "unpack_node E en data (TupleN cs) offset =
     try_then (in_turn (unpack_from E en data) cs offset) (\<lambda>(ts, offset'). Ok (TupleT ts, offset'))"
| "unpack_node E en data (SequenceN el l) offset =
     try_then (capacity l) (\<lambda>_.
     try_then (in_turn (\<lambda>_. unpack_from E en data el) (replicate l ()) offset) (\<lambda>(ts, offset').
       Ok (TupleT ts, offset')))"
| "unpack_node E en data (ModelN fs) offset =
     try_then (in_turn (\<lambda>(name, c) offset. try_then (unpack_from E en data c offset) (\<lambda>(t, offset').
       Ok ((name, t), offset'))) fs offset) (\<lambda>(args, offset').
       Ok (DictT (foldl (\<lambda>d (name, t). AList.update name t d) [] args), offset'))"
| "unpack_node E en data n offset =
     try_then (unpack_scalar E en n (drop offset data)) (\<lambda>t. Ok (t, usize_add offset (node_size n)))"
  by pat_completeness auto
termination
  by (relation "measure (\<lambda>x. case x of Inl (E, en, data, c, k) \<Rightarrow> size c | Inr (E, en, data, n, k) \<Rightarrow> size n)")
    (auto dest: size_list_estimation'[where f = size, OF _ order_refl]
        size_list_estimation'[where f = "size_prod (\<lambda>_. 0) size", OF _ order_refl] simp: less_Suc_eq_le)

section \<open>Programs\<close>

text \<open>\<open>PackingProgram\<close>: the schema, with its size computed once.\<close>

record packing_program =
  pp_spec :: spec
  pp_size :: nat

definition program_new :: "spec \<Rightarrow> packing_program" where
  "program_new c = \<lparr>pp_spec = c, pp_size = spec_size c\<rparr>"

fun spec_order :: "spec \<Rightarrow> str option" where
  "spec_order (Spec _ order _ _) = order"

definition resolve_order :: "'v py_env \<Rightarrow> packing_program \<Rightarrow> str option \<Rightarrow> (packing_error, endian) result" where
  "resolve_order E p order =
     (case (case order of None \<Rightarrow> spec_order (pp_spec p) | Some s \<Rightarrow> Some s) of
        Some symbol \<Rightarrow> endian_parse (native E) symbol
      | None \<Rightarrow> Ok Little)"

definition pack :: "'v py_env \<Rightarrow> packing_program \<Rightarrow> 'v \<Rightarrow> str option \<Rightarrow> (packing_error, byte list) result" where
  "pack E p v order =
     try_then (resolve_order E p order) (\<lambda>en.
       if pp_size p < 2 ^ 63 then pack_into E en (pp_spec p) v
       else Err (Panicked ''capacity overflow''))"

definition unpack ::
  "'v py_env \<Rightarrow> packing_program \<Rightarrow> byte list \<Rightarrow> nat \<Rightarrow> str option \<Rightarrow> (packing_error, tree) result" where
  "unpack E p data offset order =
     try_then (resolve_order E p order) (\<lambda>en.
     try_then (unpack_from E en data (pp_spec p) offset) (\<lambda>(t, _). Ok t))"

section \<open>Fixed-width values\<close>

text \<open>
  What a schema relies on in its scalars: values of a kind are written in a fixed number of
  bytes, reading what was written gives the value back whatever follows it, and reading never
  fails on enough bytes.
\<close>

locale fixed_width =
  fixes ok :: "'a \<Rightarrow> bool" and width :: nat and put :: "'a \<Rightarrow> byte list"
    and get :: "byte list \<Rightarrow> (packing_error, 'b) result" and val :: "'a \<Rightarrow> 'b"
  assumes put_width: "ok x \<Longrightarrow> length (put x) = width"
    and get_put: "ok x \<Longrightarrow> get (put x @ rest) = Ok (val x)"
    and get_total: "width \<le> length bs \<Longrightarrow> \<exists>y. get bs = Ok y"
begin

lemma get_at:
  assumes "ok x" and "length pre = k"
  shows "get (drop k (pre @ put x @ post)) = Ok (val x)"
  using assms by (simp add: get_put)

lemma get_pair:
  assumes "ok x" "ok y"
  shows "length (put x @ put y) = 2 * width" "get (put x @ put y @ rest) = Ok (val x)"
    "get (drop width (put x @ put y @ rest)) = Ok (val y)"
  using assms by (simp_all add: put_width get_put)

end

lemma length_le_bytes [simp]: "length (le_bytes n x) = n"
  by (induction n arbitrary: x) auto

lemma of_le_bytes: "of_le (le_bytes n x) = x mod 256 ^ n"
proof (induction n arbitrary: x)
  case (Suc n)
  have "x mod (256 * 256 ^ n) = 256 * (x div 256 mod 256 ^ n) + x mod 256"
    by (rule zmod_zmult2_eq) simp
  then show ?case
    by (simp add: Suc unsigned_of_int take_bit_eq_mod)
qed simp

lemma of_le_range: "0 \<le> of_le bs \<and> of_le bs < 256 ^ length bs"
proof (induction bs)
  case (Cons b bs)
  have "0 \<le> uint b" "uint b < 256" using uint_lt2p[of b] by simp_all
  with Cons show ?case by simp
qed simp

lemma write_read_bytes:
  "read_bytes n en (write_int n en x @ rest) = Ok (le_bytes n x)"
  by (cases en) (simp_all add: read_bytes_def write_int_def)

lemma length_write_int [simp]: "length (write_int n en x) = n"
  by (cases en) (simp_all add: write_int_def)

lemma read_bytes_total: "n \<le> length bs \<Longrightarrow> \<exists>y. read_bytes n en bs = Ok y"
  by (simp add: read_bytes_def)

lemmas fixed_width_simps = read_unsigned_def read_signed_def read_f16_def read_f32_def read_f64_def
  write_read_bytes of_le_bytes

lemma uint_mod [simp]:
  "uint (a :: 16 word) mod 65536 = uint a" "uint (b :: 32 word) mod 4294967296 = uint b"
  "uint (c :: 64 word) mod 18446744073709551616 = uint c"
  using uint_lt2p[of a] uint_lt2p[of b] uint_lt2p[of c] by (simp_all add: mod_pos_pos_trivial)

lemma signed_of_mod:
  assumes "- (256 ^ n) \<le> 2 * x" "2 * x < 256 ^ n"
  shows "signed_of n (x mod 256 ^ n) = x"
proof (cases "0 \<le> x")
  case True
  then have "x mod 256 ^ n = x" using assms by (intro mod_pos_pos_trivial) linarith+
  then show ?thesis using assms by (simp add: signed_of_def)
next
  case False
  have "(x + 256 ^ n) mod 256 ^ n = x + 256 ^ n"
    using False assms by (intro mod_pos_pos_trivial) linarith+
  then have "x mod 256 ^ n = x + 256 ^ n" by simp
  then show ?thesis using assms by (simp add: signed_of_def)
qed

interpretation unsigned: fixed_width "\<lambda>x. 0 \<le> x \<and> x < 256 ^ n" n "write_int n en" "read_unsigned n en" "\<lambda>x. x"
  for n en
  by unfold_locales (auto simp: fixed_width_simps dest: read_bytes_total[where en = en])

interpretation signed: fixed_width "\<lambda>x. - (256 ^ n) \<le> 2 * x \<and> 2 * x < 256 ^ n" n "write_int n en"
  "read_signed n en" "\<lambda>x. x" for n en
  by unfold_locales (auto simp: fixed_width_simps signed_of_mod dest: read_bytes_total[where en = en])

interpretation f64: fixed_width "\<lambda>_. True" 8 "\<lambda>w. write_int 8 en (uint w)" "read_f64 en" "\<lambda>w. w" for en
  by unfold_locales (auto simp: fixed_width_simps dest: read_bytes_total[where en = en])

interpretation f32: fixed_width "\<lambda>_. True" 4 "\<lambda>w. write_int 4 en (uint w)" "read_f32 E en" "of_f32 E" for E en
  by unfold_locales (auto simp: fixed_width_simps dest: read_bytes_total[where en = en])

interpretation f16: fixed_width "\<lambda>_. True" 2 "\<lambda>w. write_int 2 en (uint w)" "read_f16 E en" "of_f16 E" for E en
  by unfold_locales (auto simp: fixed_width_simps dest: read_bytes_total[where en = en])

section \<open>Sizes\<close>

text \<open>The size of a layout, without wrap-around.\<close>

fun spec_layout :: "spec \<Rightarrow> nat" and node_layout :: "node \<Rightarrow> nat" where
  "spec_layout (Spec n _ before after) = before + node_layout n + after"
| "node_layout (TupleN cs) = sum_list (map spec_layout cs)"
| "node_layout (SequenceN el l) = spec_layout el * l"
| "node_layout (ModelN fs) = sum_list (map (\<lambda>f. spec_layout (snd f)) fs)"
| "node_layout n = node_size n"

lemma foldl_usize_add:
  assumes "sum_list (map f xs) + a < 2 ^ 64" and "\<And>x. x \<in> set xs \<Longrightarrow> f x < 2 ^ 64 \<Longrightarrow> g x = f x"
  shows "foldl (\<lambda>total x. usize_add total (g x)) a xs = a + sum_list (map f xs)"
  using assms
proof (induction xs arbitrary: a)
  case (Cons x xs)
  have "g x = f x" using Cons.prems by simp
  with Cons.prems Cons.IH[of "a + f x"] show ?case by (simp add: ac_simps)
qed simp

lemma sizes_are_layouts:
  "spec_layout c < 2 ^ 64 \<Longrightarrow> spec_size c = spec_layout c"
  "node_layout n < 2 ^ 64 \<Longrightarrow> node_size n = node_layout n"
proof (induction c and n rule: spec_layout_node_layout.induct)
  case (2 cs)
  then show ?case using foldl_usize_add[of spec_layout cs 0 spec_size] by simp
next
  case (3 el l)
  then show ?case by (cases l) simp_all
next
  case (4 fs)
  then show ?case using foldl_usize_add[of "\<lambda>f. spec_layout (snd f)" fs 0 "\<lambda>f. spec_size (snd f)"] by simp
qed simp_all

fun capacities_ok :: "spec \<Rightarrow> bool" and node_capacities_ok :: "node \<Rightarrow> bool" where
  "capacities_ok (Spec n _ _ _) = node_capacities_ok n"
| "node_capacities_ok (TupleN cs) = list_all capacities_ok cs"
| "node_capacities_ok (SequenceN el l) \<longleftrightarrow> 8 * l < 2 ^ 63 \<and> (l = 0 \<or> capacities_ok el)"
| "node_capacities_ok (ModelN fs) = list_all (\<lambda>f. capacities_ok (snd f)) fs"
| "node_capacities_ok n = True"

section \<open>Unpacking gives a value or says how many bytes it lacks\<close>

fun needed :: "spec \<Rightarrow> nat" where
  "needed (Spec n _ before _) = before + node_layout n"

lemma needed_le: "needed c \<le> spec_layout c"
  by (cases c) simp

text \<open>Reading parts one after another succeeds where the whole fits.\<close>

lemma in_turn_fits:
  fixes f :: "'a \<Rightarrow> nat"
  assumes "k + sum_list (map f xs) \<le> m"
    and "\<And>x k. x \<in> set xs \<Longrightarrow> k + f x \<le> m \<Longrightarrow> \<exists>t. g x k = Ok (t, k + f x)"
  shows "\<exists>ts. in_turn g xs k = Ok (ts, k + sum_list (map f xs))"
  using assms
proof (induction xs arbitrary: k)
  case (Cons x xs)
  obtain t where t: "g x k = Ok (t, k + f x)" using Cons.prems(2)[of x k] add_leD1[of "k + f x"] Cons.prems(1) by (auto simp: add.assoc)
  obtain ts where "in_turn g xs (k + f x) = Ok (ts, k + f x + sum_list (map f xs))"
    using Cons.IH[of "k + f x"] Cons.prems by auto
  with t show ?case by (simp add: ac_simps)
qed simp

lemma in_tree_total: "\<exists>x. r = Ok x \<Longrightarrow> \<exists>t. in_tree f r = Ok t"
  by (auto simp: in_tree_def)

lemma first_byte_total: "bs \<noteq> [] \<Longrightarrow> \<exists>b. first_byte bs = Ok b"
  by (cases bs) (simp_all add: first_byte_def)

lemma unpack_scalar_total:
  assumes "node_size n \<le> length bs"
  shows "\<exists>t. unpack_scalar E en n bs = Ok t"
proof (cases n)
  case Complex64N
  then obtain re im where "read_f32 E en bs = Ok re" "read_f32 E en (drop 4 bs) = Ok im"
    using assms f32.get_total[of bs E en] f32.get_total[of "drop 4 bs" E en] by (auto simp: le_diff_conv2)
  with Complex64N show ?thesis by (simp add: in_tree_def)
next
  case Complex128N
  then obtain re im where "read_f64 en bs = Ok re" "read_f64 en (drop 8 bs) = Ok im"
    using assms f64.get_total[of bs en] f64.get_total[of "drop 8 bs" en] by (auto simp: le_diff_conv2)
  with Complex128N show ?thesis by (simp add: in_tree_def)
qed (use assms in \<open>auto intro!: in_tree_total first_byte_total unsigned.get_total signed.get_total f16.get_total
    f32.get_total f64.get_total simp: Suc_le_eq\<close>)

lemma scalar_fits:
  assumes "k + node_size n < 2 ^ 64" "k + node_size n \<le> length data"
  shows "\<exists>t. try_then (unpack_scalar E en n (drop k data)) (\<lambda>t. Ok (t, usize_add k (node_size n)))
     = Ok (t, k + node_size n)"
  using unpack_scalar_total[of n "drop k data" E en] assms by (auto simp: le_diff_conv2)

lemma unpack_fits:
  "capacities_ok c \<Longrightarrow> k + spec_layout c < 2 ^ 64 \<Longrightarrow> k + needed c \<le> length data \<Longrightarrow>
     \<exists>t. unpack_from E en data c k = Ok (t, k + spec_layout c)"
  "node_capacities_ok n \<Longrightarrow> k + node_layout n < 2 ^ 64 \<Longrightarrow> k + node_layout n \<le> length data \<Longrightarrow>
     \<exists>t. unpack_node E en data n k = Ok (t, k + node_layout n)"
proof (induction E en data c k and E en data n k rule: unpack_from_unpack_node.induct)
  case (1 E en data n order before after k)
  have "node_size n = node_layout n" using 1(3) sizes_are_layouts(2)[of n] by simp
  moreover obtain t where "unpack_node E en data n (k + before) = Ok (t, k + before + node_layout n)"
    using 1 calculation by (auto simp: ac_simps)
  ultimately show ?case using 1(3,4) by (auto simp: Let_def ac_simps)
next
  case (2 E en data cs k)
  have "\<exists>ts. in_turn (unpack_from E en data) cs k = Ok (ts, k + sum_list (map spec_layout cs))"
  proof (rule in_turn_fits[where m = "min (length data) (2 ^ 64 - 1)"])
    show "k + sum_list (map spec_layout cs) \<le> min (length data) (2 ^ 64 - 1)" using 2(3,4) by simp
    show "\<exists>t. unpack_from E en data c j = Ok (t, j + spec_layout c)"
      if "c \<in> set cs" "j + spec_layout c \<le> min (length data) (2 ^ 64 - 1)" for c j
      using 2(1)[OF that(1)] that 2(2) needed_le[of c] by (auto simp: list_all_iff)
  qed
  then show ?case by auto
next
  case (3 E en data el l k)
  have "\<exists>ts. in_turn (\<lambda>_. unpack_from E en data el) (replicate l ()) k
          = Ok (ts, k + sum_list (map (\<lambda>_. spec_layout el) (replicate l ())))"
  proof (rule in_turn_fits[where m = "min (length data) (2 ^ 64 - 1)"])
    show "k + sum_list (map (\<lambda>_. spec_layout el) (replicate l ())) \<le> min (length data) (2 ^ 64 - 1)"
      using 3(3,4) by (simp add: sum_list_replicate ac_simps)
    show "\<exists>t. unpack_from E en data el j = Ok (t, j + spec_layout el)"
      if "u \<in> set (replicate l ())" "j + spec_layout el \<le> min (length data) (2 ^ 64 - 1)" for u j
      by (rule 3(1)) (use that 3(2) needed_le[of el] in \<open>auto simp: capacity_def\<close>)
  qed
  with 3(2) show ?case by (auto simp: capacity_def sum_list_replicate ac_simps)
next
  case (4 E en data fs k)
  let ?g = "\<lambda>(name, c) offset. try_then (unpack_from E en data c offset) (\<lambda>(t, offset'). Ok ((name, t), offset'))"
  have "\<exists>ts. in_turn ?g fs k = Ok (ts, k + sum_list (map (\<lambda>f. spec_layout (snd f)) fs))"
  proof (rule in_turn_fits[where m = "min (length data) (2 ^ 64 - 1)"])
    show "k + sum_list (map (\<lambda>f. spec_layout (snd f)) fs) \<le> min (length data) (2 ^ 64 - 1)" using 4(3,4) by simp
    show "\<exists>t. ?g f j = Ok (t, j + spec_layout (snd f))"
      if m: "f \<in> set fs" "j + spec_layout (snd f) \<le> min (length data) (2 ^ 64 - 1)" for f j
    proof -
      obtain name c where f: "f = (name, c)" by force
      obtain t where "unpack_from E en data c j = Ok (t, j + spec_layout c)"
        using 4(1)[OF m(1) f[symmetric], of j] m 4(2) needed_le[of c] by (fastforce simp: list_all_iff f)
      then show ?thesis by (simp add: f)
    qed
  qed
  then show ?case by auto
qed (simp_all only: unpack_node.simps node_layout.simps scalar_fits)


section \<open>Packing and unpacking again\<close>

text \<open>
  The plain tree a schema sees in a Python value: present when the value has the shape and range
  the schema declares and its floats are exact at the declared width.
\<close>

definition int_tree :: "'v py_env \<Rightarrow> int \<Rightarrow> int \<Rightarrow> 'v \<Rightarrow> tree option" where
  "int_tree E low high v =
     (case py_int E v of None \<Rightarrow> None | Some i \<Rightarrow> if low \<le> i \<and> i \<le> high then Some (IntT i) else None)"

definition exact16 :: "'v py_env \<Rightarrow> 64 word \<Rightarrow> bool" where
  "exact16 E w \<longleftrightarrow> of_f16 E (f16_of E w) = w \<and> \<not> (f64_finite w \<and> f16_infinite (f16_of E w))"

definition exact32 :: "'v py_env \<Rightarrow> 64 word \<Rightarrow> bool" where
  "exact32 E w \<longleftrightarrow> of_f32 E (f32_of E w) = w \<and> \<not> (f64_finite w \<and> f32_infinite (f32_of E w))"

definition float_tree :: "'v py_env \<Rightarrow> (64 word \<Rightarrow> bool) \<Rightarrow> 'v \<Rightarrow> tree option" where
  "float_tree E ok v =
     (case py_float E v of None \<Rightarrow> None | Some w \<Rightarrow> if ok w then Some (FloatT w) else None)"

definition complex_tree :: "'v py_env \<Rightarrow> (64 word \<Rightarrow> bool) \<Rightarrow> 'v \<Rightarrow> tree option" where
  "complex_tree E ok v =
     (case as_complex E v of Inl _ \<Rightarrow> None
      | Inr (re, im) \<Rightarrow> if ok re \<and> ok im then Some (ComplexT re im) else None)"

fun scalar_tree :: "'v py_env \<Rightarrow> node \<Rightarrow> 'v \<Rightarrow> tree option" where
  "scalar_tree E (BytesN l) v =
     (case py_bytes E v of None \<Rightarrow> None | Some bs \<Rightarrow> if length bs = l then Some (BytesT bs) else None)"
| "scalar_tree E BoolN v = (case py_truthy E v of Inl _ \<Rightarrow> None | Inr b \<Rightarrow> Some (BoolT b))"
| "scalar_tree E Uint8N v = int_tree E 0 0xff v"
| "scalar_tree E Int8N v = int_tree E (- 0x80) 0x7f v"
| "scalar_tree E Uint16N v = int_tree E 0 0xffff v"
| "scalar_tree E Int16N v = int_tree E (- 0x8000) 0x7fff v"
| "scalar_tree E Uint32N v = int_tree E 0 0xffffffff v"
| "scalar_tree E Int32N v = int_tree E (- 0x80000000) 0x7fffffff v"
| "scalar_tree E Uint64N v = int_tree E 0 0xffffffffffffffff v"
| "scalar_tree E Int64N v = int_tree E (- 0x8000000000000000) 0x7fffffffffffffff v"
| "scalar_tree E Float16N v = float_tree E (exact16 E) v"
| "scalar_tree E Float32N v = float_tree E (exact32 E) v"
| "scalar_tree E Float64N v = float_tree E (\<lambda>_. True) v"
| "scalar_tree E Complex64N v = complex_tree E (exact32 E) v"
| "scalar_tree E Complex128N v = complex_tree E (\<lambda>_. True) v"
| "scalar_tree E _ v = None"

definition items_of :: "'v py_env \<Rightarrow> 'v \<Rightarrow> 'v list option" where
  "items_of E v = (case py_iter E v of Inl _ \<Rightarrow> None | Inr items \<Rightarrow>
     (case try_map (\<lambda>item. item) items of Inl _ \<Rightarrow> None | Inr vs \<Rightarrow> Some vs))"

function (sequential) tree_of :: "'v py_env \<Rightarrow> spec \<Rightarrow> 'v \<Rightarrow> tree option"
and node_tree :: "'v py_env \<Rightarrow> node \<Rightarrow> 'v \<Rightarrow> tree option" where
  "tree_of E (Spec n _ _ _) v = node_tree E n v"
| "node_tree E (TupleN cs) v =
     (case items_of E v of None \<Rightarrow> None
      | Some vs \<Rightarrow> if length vs = length cs
          then map_option TupleT (those (map (\<lambda>(c, x). tree_of E c x) (zip cs vs))) else None)"
| "node_tree E (SequenceN el l) v =
     (case items_of E v of None \<Rightarrow> None
      | Some vs \<Rightarrow> if length vs = l then map_option TupleT (those (map (tree_of E el) vs)) else None)"
| "node_tree E (ModelN fs) v =
     (if distinct (map fst fs)
      then map_option DictT (those (map (\<lambda>(name, c).
        case py_attr E name v of Inl _ \<Rightarrow> None | Inr x \<Rightarrow> map_option (Pair name) (tree_of E c x)) fs))
      else None)"
| "node_tree E n v = scalar_tree E n v"
  by pat_completeness auto
termination
  by (relation "measure (\<lambda>x. case x of Inl (E, c, v) \<Rightarrow> size c | Inr (E, n, v) \<Rightarrow> size n)")
    (auto dest!: set_zip_leftD dest: size_list_estimation'[where f = size, OF _ order_refl]
        size_list_estimation'[where f = "size_prod (\<lambda>_. 0) size", OF _ order_refl] simp: less_Suc_eq_le)

text \<open>Bytes that read as a value wherever they lie in a buffer.\<close>

definition lays :: "(byte list \<Rightarrow> nat \<Rightarrow> ('e, 'b \<times> nat) result) \<Rightarrow> byte list \<Rightarrow> 'b \<Rightarrow> bool" where
  "lays f bs t \<longleftrightarrow> (\<forall>pre post. length pre + length bs < 2 ^ 64 \<longrightarrow>
     f (pre @ bs @ post) (length pre) = Ok (t, length pre + length bs))"

text \<open>Scalars: what is written reads back, whatever follows.\<close>

lemma int_tree_packs:
  assumes "int_tree E low high v = Some t"
  obtains i where "t = IntT i" "low \<le> i" "i \<le> high" "pack_int E en n low high name v = Ok (write_int n en i)"
  using assms by (auto simp: int_tree_def pack_int_def int_in_range_def split: option.splits if_splits)

lemma byte_reads:
  "first_byte (write_int 1 Little i @ rest) = Ok (word_of_int i)"
  by (simp add: write_int_def first_byte_def)

lemma unsigned_scalar:
  assumes "int_tree E 0 high v = Some t" and "high < 256 ^ n"
  shows "\<exists>bs. pack_int E en n 0 high name v = Ok bs \<and> length bs = n
           \<and> (\<forall>rest. in_tree IntT (read_unsigned n en (bs @ rest)) = Ok t)"
proof -
  obtain i where "t = IntT i" "0 \<le> i" "i \<le> high" "pack_int E en n 0 high name v = Ok (write_int n en i)"
    by (rule int_tree_packs[OF assms(1)])
  moreover from this have "read_unsigned n en (write_int n en i @ rest) = Ok i" for rest
    using assms(2) by (intro unsigned.get_put) linarith
  ultimately show ?thesis by (simp add: in_tree_def)
qed

lemma signed_scalar:
  assumes "int_tree E low high v = Some t" and "- (256 ^ n) \<le> 2 * low" "2 * high < 256 ^ n"
  shows "\<exists>bs. pack_int E en n low high name v = Ok bs \<and> length bs = n
           \<and> (\<forall>rest. in_tree IntT (read_signed n en (bs @ rest)) = Ok t)"
proof -
  obtain i where "t = IntT i" "low \<le> i" "i \<le> high" "pack_int E en n low high name v = Ok (write_int n en i)"
    by (rule int_tree_packs[OF assms(1)])
  moreover from this have "read_signed n en (write_int n en i @ rest) = Ok i" for rest
    using assms(2,3) by (intro signed.get_put) linarith
  ultimately show ?thesis by (simp add: in_tree_def)
qed

lemma scalar_round_trip:
  assumes "scalar_tree E n v = Some t"
  shows "\<exists>bs. pack_scalar E en n v = Ok bs \<and> length bs = node_size n
           \<and> (\<forall>rest. unpack_scalar E en n (bs @ rest) = Ok t)"
proof (cases n)
  case (BytesN l)
  then show ?thesis using assms by (auto split: option.splits if_splits)
next
  case BoolN
  then show ?thesis using assms by (auto simp: raised_def in_tree_def first_byte_def split: sum.splits)
next
  case Uint8N
  obtain i where "t = IntT i" "0 \<le> i" "i \<le> 255" "pack_scalar E en n v = Ok (write_int 1 Little i)"
    using assms Uint8N by (auto elim!: int_tree_packs[where en = Little and n = 1 and name = "''uint8''"])
  then show ?thesis using Uint8N byte_reads by (simp add: in_tree_def unsigned_of_int take_bit_eq_mod)
next
  case Int8N
  obtain i where "t = IntT i" "- 128 \<le> i" "i \<le> 127" "pack_scalar E en n v = Ok (write_int 1 Little i)"
    using assms Int8N by (auto elim!: int_tree_packs[where en = Little and n = 1 and name = "''int8''"])
  then show ?thesis
    using Int8N byte_reads signed_of_mod[of 1 i] by (simp add: in_tree_def unsigned_of_int take_bit_eq_mod)
next
  case Uint16N
  then show ?thesis using assms unsigned_scalar[of E 65535 v t 2] by simp
next
  case Uint32N
  then show ?thesis using assms unsigned_scalar[of E 4294967295 v t 4] by simp
next
  case Uint64N
  then show ?thesis using assms unsigned_scalar[of E 18446744073709551615 v t 8] by simp
next
  case Int16N
  then show ?thesis using assms signed_scalar[of E "- 32768" 32767 v t 2] by simp
next
  case Int32N
  then show ?thesis using assms signed_scalar[of E "- 2147483648" 2147483647 v t 4] by simp
next
  case Int64N
  then show ?thesis using assms signed_scalar[of E "- 9223372036854775808" 9223372036854775807 v t 8] by simp
next
  case Float16N
  then show ?thesis using assms f16.get_put[of E en]
    by (auto simp: float_tree_def as_float_def narrow_def exact16_def in_tree_def split: option.splits if_splits)
next
  case Float32N
  then show ?thesis using assms f32.get_put[of E en]
    by (auto simp: float_tree_def as_float_def narrow_def exact32_def in_tree_def split: option.splits if_splits)
next
  case Float64N
  then show ?thesis using assms f64.get_put[of en]
    by (auto simp: float_tree_def as_float_def in_tree_def split: option.splits)
next
  case Complex64N
  then show ?thesis using assms f32.get_pair(2,3)[of E en]
    by (auto simp: complex_tree_def narrow_def exact32_def in_tree_def split: sum.splits if_splits prod.splits)
next
  case Complex128N
  then show ?thesis using assms f64.get_pair(2,3)[of en]
    by (auto simp: complex_tree_def in_tree_def split: sum.splits if_splits prod.splits)
qed (use assms in auto)

text \<open>Parts packed in turn read back in turn.\<close>

lemma in_turn_map: "in_turn f (map h xs) s = in_turn (\<lambda>x. f (h x)) xs s"
  by (induction xs arbitrary: s) simp_all

lemma parts_round_trip:
  assumes "\<And>p. p \<in> set ps \<Longrightarrow> \<exists>bs. pk p = Ok bs \<and> length bs = w p \<and> lays (\<lambda>d. g d p) bs (tr p)"
  shows "\<exists>bss. try_map pk ps = Ok bss \<and> length (concat bss) = sum_list (map w ps)
     \<and> lays (\<lambda>d. in_turn (g d) ps) (concat bss) (map tr ps)"
  using assms
proof (induction ps)
  case Nil
  then show ?case by (simp add: lays_def)
next
  case (Cons p ps)
  obtain bs where bs: "pk p = Ok bs" "length bs = w p" "lays (\<lambda>d. g d p) bs (tr p)"
    using Cons.prems[of p] by auto
  obtain bss where bss: "try_map pk ps = Ok bss" "length (concat bss) = sum_list (map w ps)"
    "lays (\<lambda>d. in_turn (g d) ps) (concat bss) (map tr ps)"
    using Cons.IH Cons.prems by auto
  have "lays (\<lambda>d. in_turn (g d) (p # ps)) (bs @ concat bss) (tr p # map tr ps)"
    unfolding lays_def
  proof (intro allI impI)
    fix pre post :: "byte list"
    assume b: "length pre + length (bs @ concat bss) < 2 ^ 64"
    have "g (pre @ bs @ concat bss @ post) p (length pre) = Ok (tr p, length pre + length bs)"
      using bs(3) b by (simp add: lays_def)
    moreover have "in_turn (g ((pre @ bs) @ concat bss @ post)) ps (length (pre @ bs))
        = Ok (map tr ps, length (pre @ bs) + length (concat bss))"
      using bss(3)[unfolded lays_def, rule_format, of "pre @ bs" post] b by simp
    ultimately show "in_turn (g (pre @ (bs @ concat bss) @ post)) (p # ps) (length pre)
        = Ok (tr p # map tr ps, length pre + length (bs @ concat bss))"
      by simp
  qed
  with bs bss show ?case by (simp del: in_turn.simps)
qed

lemma those_Some: "those xs = Some ys \<longleftrightarrow> xs = map Some ys"
proof (induction xs arbitrary: ys)
  case (Cons x xs)
  then show ?case by (cases x; cases ys) auto
qed (auto simp: eq_commute)

lemma items_of_iter: "items_of E v = Some vs \<Longrightarrow> py_iter E v = Ok (map Ok vs)"
  by (auto simp: items_of_def try_map_Inr list_all2_conv_all_nth intro!: nth_equalityI
      split: sum.splits)

lemma update_new: "k \<notin> fst ` set al \<Longrightarrow> AList.update k v al = al @ [(k, v)]"
  by (induction al) auto

lemma foldl_update_distinct:
  "distinct (map fst (al @ args)) \<Longrightarrow> foldl (\<lambda>d (k, v). AList.update k v d) al args = al @ args"
proof (induction args arbitrary: al)
  case (Cons a args)
  then show ?case using Cons.IH[of "al @ [a]"] by (cases a) (auto simp: update_new)
qed simp

lemma lays_node:
  assumes "length bs = node_layout n" "node_layout n < 2 ^ 64" "lays (\<lambda>d. unpack_node E en d n) bs t"
  shows "lays (\<lambda>d. unpack_from E en d (Spec n order before after)) (replicate before 0 @ bs @ replicate after 0) t"
  unfolding lays_def
proof (intro allI impI)
  fix pre post :: "byte list"
  assume b: "length pre + length (replicate before 0 @ bs @ replicate after 0 :: byte list) < 2 ^ 64"
  have "unpack_node E en ((pre @ replicate before 0) @ bs @ (replicate after 0 @ post)) n (length (pre @ replicate before 0 :: byte list))
      = Ok (t, length (pre @ replicate before 0 :: byte list) + length bs)"
    using assms(3)[unfolded lays_def, rule_format, of "pre @ replicate before 0" "replicate after 0 @ post"] b by simp
  with b assms(1) sizes_are_layouts(2)[OF assms(2)]
  show "unpack_from E en (pre @ (replicate before 0 @ bs @ replicate after 0) @ post) (Spec n order before after) (length pre)
      = Ok (t, length pre + length (replicate before 0 @ bs @ replicate after 0 :: byte list))"
    by (simp add: Let_def ac_simps)
qed

lemma lays_scalar:
  assumes "\<And>rest. unpack_scalar E en n (bs @ rest) = Ok t" "length bs = node_size n"
  shows "lays (\<lambda>d k. try_then (unpack_scalar E en n (drop k d)) (\<lambda>t. Ok (t, usize_add k (node_size n)))) bs t"
  using assms by (simp add: lays_def)

lemma lays_map: "lays f bs t \<Longrightarrow> lays (\<lambda>d k. try_then (f d k) (\<lambda>(t, k'). Ok (h t, k'))) bs (h t)"
  by (simp add: lays_def)

abbreviation rounds :: "'v py_env \<Rightarrow> endian \<Rightarrow> spec \<Rightarrow> 'v \<Rightarrow> tree \<Rightarrow> bool" where
  "rounds E en c v t \<equiv> \<exists>bs. pack_into E en c v = Ok bs \<and> length bs = spec_layout c
     \<and> lays (\<lambda>d. unpack_from E en d c) bs t"

abbreviation node_rounds :: "'v py_env \<Rightarrow> endian \<Rightarrow> node \<Rightarrow> 'v \<Rightarrow> tree \<Rightarrow> bool" where
  "node_rounds E en n v t \<equiv> \<exists>bs. pack_node E en n v = Ok bs \<and> length bs = node_layout n
     \<and> lays (\<lambda>d. unpack_node E en d n) bs t"

lemma tuple_rounds:
  assumes "items_of E v = Some (map snd ps)" and "\<And>p. p \<in> set ps \<Longrightarrow> rounds E en (fst p) (snd p) (f p)"
  shows "node_rounds E en (TupleN (map fst ps)) v (TupleT (map f ps))"
proof -
  obtain bss where bss: "try_map (\<lambda>p. pack_into E en (fst p) (snd p)) ps = Ok bss"
    "length (concat bss) = sum_list (map (\<lambda>p. spec_layout (fst p)) ps)"
    "lays (\<lambda>d. in_turn (\<lambda>p. unpack_from E en d (fst p)) ps) (concat bss) (map f ps)"
    using parts_round_trip[of ps "\<lambda>p. pack_into E en (fst p) (snd p)" "\<lambda>p. spec_layout (fst p)"
        "\<lambda>d p. unpack_from E en d (fst p)" f] assms(2) by auto
  have "zip (map fst ps) (map Ok (map snd ps) :: (str, _) result list) = map (\<lambda>p. (fst p, Ok (snd p))) ps"
    by (induction ps) auto
  moreover have "lays (\<lambda>d. unpack_node E en d (TupleN (map fst ps))) (concat bss) (TupleT (map f ps))"
    using lays_map[OF bss(3), of TupleT] by (simp add: lays_def in_turn_map)
  ultimately show ?thesis
    using bss(1,2) items_of_iter[OF assms(1)] by (simp add: raised_def try_map_map comp_def)
qed

lemma sequence_rounds:
  assumes "items_of E v = Some vs" "8 * length vs < 2 ^ 63" and "\<And>x. x \<in> set vs \<Longrightarrow> rounds E en el x (f x)"
  shows "node_rounds E en (SequenceN el (length vs)) v (TupleT (map f vs))"
proof -
  obtain bss where bss: "try_map (pack_into E en el) vs = Ok bss"
    "length (concat bss) = sum_list (map (\<lambda>_. spec_layout el) vs)"
    "lays (\<lambda>d. in_turn (\<lambda>_. unpack_from E en d el) vs) (concat bss) (map f vs)"
    using parts_round_trip[of vs "pack_into E en el" "\<lambda>_. spec_layout el"
        "\<lambda>d _. unpack_from E en d el" f] assms(3) by auto
  have "replicate (length vs) () = map (\<lambda>_. ()) vs" by (induction vs) auto
  then have "lays (\<lambda>d. unpack_node E en d (SequenceN el (length vs))) (concat bss) (TupleT (map f vs))"
    using lays_map[OF bss(3), of TupleT] assms(2) by (simp add: lays_def in_turn_map capacity_def)
  then show ?thesis
    using bss(1,2) items_of_iter[OF assms(1)] by (simp add: raised_def try_map_map sum_list_triv ac_simps)
qed

lemma model_rounds:
  assumes "distinct (map fst fs)"
    and "\<And>f. f \<in> set fs \<Longrightarrow> \<exists>x. py_attr E (fst f) v = Ok x \<and> rounds E en (snd f) x (g f)"
  shows "node_rounds E en (ModelN fs) v (DictT (map (\<lambda>f. (fst f, g f)) fs))"
proof -
  let ?read = "\<lambda>d (name, c) k. try_then (unpack_from E en d c k) (\<lambda>(t, k'). Ok ((name, t), k'))"
  let ?pk = "\<lambda>(name, c). try_then (raised (py_attr E name v)) (pack_into E en c)"
  have "\<exists>bs. ?pk f = Ok bs \<and> length bs = spec_layout (snd f) \<and> lays (\<lambda>d. ?read d f) bs (fst f, g f)"
    if m: "f \<in> set fs" for f
  proof -
    obtain x bs where "py_attr E (fst f) v = Ok x" "pack_into E en (snd f) x = Ok bs"
      "length bs = spec_layout (snd f)" "lays (\<lambda>d. unpack_from E en d (snd f)) bs (g f)"
      using assms(2)[OF m] by auto
    then show ?thesis using lays_map[of "\<lambda>d. unpack_from E en d (snd f)" bs "g f" "Pair (fst f)"]
      by (simp add: case_prod_unfold raised_def)
  qed
  then obtain bss where bss: "try_map ?pk fs = Ok bss" "length (concat bss) = sum_list (map (\<lambda>f. spec_layout (snd f)) fs)"
    "lays (\<lambda>d. in_turn (?read d) fs) (concat bss) (map (\<lambda>f. (fst f, g f)) fs)"
    using parts_round_trip[of fs ?pk "\<lambda>f. spec_layout (snd f)" ?read "\<lambda>f. (fst f, g f)"] by blast
  have "foldl (\<lambda>d (k, v). AList.update k v d) [] (map (\<lambda>f. (fst f, g f)) fs) = map (\<lambda>f. (fst f, g f)) fs"
    using foldl_update_distinct[of "[]" "map (\<lambda>f. (fst f, g f)) fs"] assms(1) by (simp add: comp_def)
  then have "lays (\<lambda>d. unpack_node E en d (ModelN fs)) (concat bss) (DictT (map (\<lambda>f. (fst f, g f)) fs))"
    using lays_map[OF bss(3), of "\<lambda>args. DictT (foldl (\<lambda>d (k, v). AList.update k v d) [] args)"]
    by (simp add: lays_def)
  with bss(1,2) show ?thesis by simp
qed

lemma scalar_rounds:
  assumes "scalar_tree E n v = Some t" and "pack_node E en n v = pack_scalar E en n v"
    and "node_layout n = node_size n"
    and "\<And>d k. unpack_node E en d n k
       = try_then (unpack_scalar E en n (drop k d)) (\<lambda>t. Ok (t, usize_add k (node_size n)))"
  shows "node_rounds E en n v t"
  using scalar_round_trip[OF assms(1), of en] lays_scalar[of E en n _ t] assms(2,3)
  unfolding assms(4) by auto

lemma round_trip:
  "tree_of E c v = Some t \<Longrightarrow> capacities_ok c \<Longrightarrow> spec_layout c < 2 ^ 64 \<Longrightarrow> rounds E en c v t"
  "node_tree E n v = Some t \<Longrightarrow> node_capacities_ok n \<Longrightarrow> node_layout n < 2 ^ 64 \<Longrightarrow> node_rounds E en n v t"
proof (induction E c v and E n v arbitrary: t and t rule: tree_of_node_tree.induct)
  case (1 E n order before after v)
  then obtain bs where "pack_node E en n v = Ok bs" "length bs = node_layout n" "lays (\<lambda>d. unpack_node E en d n) bs t"
    by auto
  with 1(4) lays_node[of bs n E en t order before after] show ?case by (simp del: unpack_from.simps)
next
  case (2 E cs v)
  obtain vs ts where vs: "items_of E v = Some vs" "length vs = length cs" "t = TupleT ts"
    "map (\<lambda>(c, x). tree_of E c x) (zip cs vs) = map Some ts"
    using 2(2) by (auto simp: those_Some split: option.splits if_splits)
  define f where "f = (\<lambda>p. the (tree_of E (fst p) (snd p)))"
  have cs: "cs = map fst (zip cs vs)" and xs: "vs = map snd (zip cs vs)" using vs(2) by simp_all
  have ts: "ts = map f (zip cs vs)"
    using arg_cong[OF vs(4), of "map the"] by (simp add: comp_def case_prod_unfold f_def)
  have "rounds E en (fst p) (snd p) (f p)" if m: "p \<in> set (zip cs vs)" for p
  proof -
    obtain c x where p: "p = (c, x)" by force
    have "c \<in> set cs" using m by (auto simp: p dest: set_zip_leftD)
    moreover from this have "spec_layout c \<le> sum_list (map spec_layout cs)" by (intro member_le_sum_list) auto
    moreover have "tree_of E c x = Some (f p)"
    proof -
      have "tree_of E c x \<in> set (map Some ts)" unfolding vs(4)[symmetric] using m by (force simp: p image_iff)
      then show ?thesis by (auto simp: f_def p)
    qed
    ultimately show ?thesis using 2(1)[OF vs(1,2) m p[symmetric]] 2(3,4) by (auto simp: p list_all_iff)
  qed
  then show ?case using tuple_rounds[of E v "zip cs vs" en f] vs(1,3) cs xs ts by (simp del: unpack_node.simps pack_node.simps)
next
  case (3 E el l v)
  obtain vs ts where vs: "items_of E v = Some vs" "length vs = l" "t = TupleT ts"
    "map (tree_of E el) vs = map Some ts"
    using 3(2) by (auto simp: those_Some split: option.splits if_splits)
  have ts: "ts = map (\<lambda>x. the (tree_of E el x)) vs" using arg_cong[OF vs(4), of "map the"] by (simp add: comp_def)
  have "rounds E en el x (the (tree_of E el x))" if m: "x \<in> set vs" for x
  proof -
    have "tree_of E el x \<in> set (map Some ts)" unfolding vs(4)[symmetric] using m by simp
    moreover have "l \<noteq> 0" using m vs(2) by auto
    moreover from this have "spec_layout el < 2 ^ 64" using 3(4) by (cases l) auto
    ultimately show ?thesis using 3(1)[OF vs(1,2) m] 3(3,4) by auto
  qed
  then show ?case using sequence_rounds[OF vs(1), of en el "\<lambda>x. the (tree_of E el x)"] 3(3) vs(2,3) ts by (simp del: unpack_node.simps pack_node.simps)
next
  case (4 E fs v)
  define g where "g f = (case py_attr E (fst f) v of Inr x \<Rightarrow> the (tree_of E (snd f) x) | _ \<Rightarrow> BoolT False)" for f
  have d: "distinct (map fst fs)" using 4(2) by (simp split: if_splits)
  obtain ts where ts: "t = DictT ts" "map (\<lambda>(name, c). case py_attr E name v of Inl _ \<Rightarrow> None
      | Inr x \<Rightarrow> map_option (Pair name) (tree_of E c x)) fs = map Some ts"
    using 4(2) d by (auto simp: those_Some)
  have r: "\<exists>x. py_attr E (fst f) v = Ok x \<and> tree_of E (snd f) x = Some (g f)" if m: "f \<in> set fs" for f
  proof -
    have "(\<lambda>(name, c). case py_attr E name v of Inl _ \<Rightarrow> None | Inr x \<Rightarrow> map_option (Pair name) (tree_of E c x)) f
        \<in> set (map Some ts)" unfolding ts(2)[symmetric] using m by simp
    then show ?thesis by (auto simp: g_def split: sum.splits prod.splits)
  qed
  have "map (\<lambda>(name, c). case py_attr E name v of Inl _ \<Rightarrow> None
      | Inr x \<Rightarrow> map_option (Pair name) (tree_of E c x)) fs = map (\<lambda>f. Some (fst f, g f)) fs"
  proof (rule map_cong[OF refl])
    fix f assume "f \<in> set fs"
    from r[OF this] show "(case f of (name, c) \<Rightarrow> (case py_attr E name v of Inl _ \<Rightarrow> None
        | Inr x \<Rightarrow> map_option (Pair name) (tree_of E c x))) = Some (fst f, g f)"
      by (auto simp: case_prod_unfold)
  qed
  from arg_cong[OF this[unfolded ts(2)], of "map the"]
  have "ts = map (\<lambda>f. (fst f, g f)) fs" by (simp add: comp_def)
  moreover have "\<exists>x. py_attr E (fst f) v = Ok x \<and> rounds E en (snd f) x (g f)" if m: "f \<in> set fs" for f
  proof -
    obtain x where x: "py_attr E (fst f) v = Ok x" "tree_of E (snd f) x = Some (g f)" using r[OF m] by blast
    have "spec_layout (snd f) \<le> sum_list (map (\<lambda>f. spec_layout (snd f)) fs)"
      using m by (intro member_le_sum_list) (auto intro: imageI)
    with x 4(1)[OF d m prod.collapse, of x] 4(3,4) m show ?thesis by (auto simp: list_all_iff)
  qed
  ultimately show ?case using model_rounds[OF d, of E v en g] ts(1) by (simp del: unpack_node.simps pack_node.simps)
qed (rule scalar_rounds; simp)+

text \<open>
  C24. Packing then unpacking. A value with the shape, ranges and exact floats its schema
  declares packs, in either byte order and with any padding, into exactly the schema's size,
  and unpacking those bytes at their place in any larger buffer gives the value's tree back.
\<close>

theorem pack_unpack_round_trip:
  assumes "tree_of E c v = Some t" and "capacities_ok c" and "spec_layout c < 2 ^ 63"
    and "resolve_order E (program_new c) order = Ok en" and "length pre + spec_layout c < 2 ^ 64"
  shows "\<exists>bs. pack E (program_new c) v order = Ok bs \<and> length bs = pp_size (program_new c)
     \<and> unpack E (program_new c) (pre @ bs @ post) (length pre) order = Ok t"
proof -
  have "spec_layout c < 2 ^ 64" using assms(3) by simp
  note size = sizes_are_layouts(1)[OF this]
  obtain bs where "pack_into E en c v = Ok bs" "length bs = spec_layout c" "lays (\<lambda>d. unpack_from E en d c) bs t"
    using round_trip(1)[OF assms(1,2) \<open>spec_layout c < 2 ^ 64\<close>] by blast
  with assms(3,4,5) size show ?thesis by (simp add: pack_def unpack_def program_new_def lays_def)
qed

text \<open>An environment whose Python values are plain trees, floats keeping their top bits.\<close>

definition tree_env :: "tree py_env" where
  "tree_env =
     \<lparr>py_bytes = (\<lambda>v. case v of BytesT bs \<Rightarrow> Some bs | _ \<Rightarrow> None),
      py_truthy = (\<lambda>v. case v of BoolT b \<Rightarrow> Ok b | _ \<Rightarrow> Ok True),
      py_int = (\<lambda>v. case v of IntT i \<Rightarrow> Some i | _ \<Rightarrow> None),
      py_float = (\<lambda>v. case v of FloatT w \<Rightarrow> Some w | _ \<Rightarrow> None),
      py_complex = (\<lambda>v. case v of ComplexT re im \<Rightarrow> Some (re, im) | _ \<Rightarrow> None),
      py_iter = (\<lambda>v. case v of TupleT vs \<Rightarrow> Ok (map Ok vs) | _ \<Rightarrow> Err ''TypeError''),
      py_attr = (\<lambda>name v. case v of DictT d \<Rightarrow>
        (case map_of d name of Some x \<Rightarrow> Ok x | None \<Rightarrow> Err ''AttributeError'') | _ \<Rightarrow> Err ''AttributeError''),
      f16_of = (\<lambda>w. word_of_int (uint w div 2 ^ 48)), of_f16 = (\<lambda>h. word_of_int (uint h * 2 ^ 48)),
      f32_of = (\<lambda>w. word_of_int (uint w div 2 ^ 32)), of_f32 = (\<lambda>h. word_of_int (uint h * 2 ^ 32)),
      native = Little\<rparr>"

definition example_packing :: spec where
  "example_packing = Spec (ModelN
     [(''depth'', Spec Int16N None 1 0), (''flags'', Spec (SequenceN (Spec Uint8N None 0 0) 2) None 0 2)])
     (Some ''>'') 0 0"

definition example_reading :: tree where
  "example_reading = DictT [(''depth'', IntT (- 2)), (''flags'', TupleT [IntT 7, IntT 255])]"

lemma example_packing_facts:
  "tree_of tree_env example_packing example_reading = Some example_reading"
  "capacities_ok example_packing" "spec_layout example_packing = 7" "needed example_packing = 7"
  "resolve_order tree_env (program_new example_packing) None = Ok Big"
  by (simp_all add: example_packing_def example_reading_def tree_env_def items_of_def int_tree_def
      resolve_order_def program_new_def endian_parse_def)

theorem pack_unpack_round_trip_witness:
  "\<exists>bs. pack tree_env (program_new example_packing) example_reading None = Ok bs
     \<and> length bs = pp_size (program_new example_packing)
     \<and> unpack tree_env (program_new example_packing) ([0] @ bs @ [9]) (length [0::byte]) None = Ok example_reading"
  by (rule pack_unpack_round_trip[OF example_packing_facts(1,2) _ example_packing_facts(5)])
    (simp_all add: example_packing_facts(3))


text \<open>
  An offset near the top of \<open>usize\<close> wraps past the length check and the slice panics, where a
  short buffer should be refused.
\<close>

lemma offset_wrap_panics:
  "unpack tree_env (program_new (Spec Uint8N None 0 0)) [] (2 ^ 64 - 1) None
     = Err (Panicked ''range start index out of range'')"
  by (simp add: unpack_def program_new_def resolve_order_def Let_def)

end
