(* ===== verification/Auth.thy ===== *)
theory Auth
  imports Api
begin

text \<open>
  Who a request comes from and what it may do: tokens, gates and the request's credentials
  (\<open>auth.rs\<close>), the authorization cookie (\<open>cookie.rs\<close>), body fields (\<open>body.rs\<close>), the resolution of
  the actor (\<open>app.rs\<close>) and the authentication routes (\<open>api/auth.rs\<close>) of \<open>ceres-server\<close>. A handler
  maps the events so far to its answer and the events after it, so what it asks of the host, and in
  which order, is part of its meaning. \<open>jsonwebtoken\<close>, \<open>uuid\<close>, \<open>chrono\<close> and \<open>serde_json\<close> are the
  parameters of \<open>server_lib\<close>; the clock and the host answer as functions of the events so far.
\<close>

section \<open>Library, host and handlers\<close>

type_synonym uuid = "128 word"

record jwt_validation =
  jv_leeway :: nat
  jv_required :: "str list"

record server_lib =
  sl_json_read :: "str \<Rightarrow> (str, json) result"
  sl_json_write :: "json \<Rightarrow> str"
  sl_uuid_parse :: "str \<Rightarrow> uuid option"
  sl_uuid_text :: "uuid \<Rightarrow> str"
  sl_jwt_encode :: "str \<Rightarrow> (str \<times> json) list \<Rightarrow> str option"
  sl_jwt_decode :: "str \<Rightarrow> jwt_validation \<Rightarrow> int \<Rightarrow> str \<Rightarrow> (str \<times> json) list option"
  sl_instant_ok :: "int \<Rightarrow> bool"
  sl_http_date :: "int \<Rightarrow> str"
  sl_timestamp :: "int \<Rightarrow> json"
  sl_query_pairs :: "str \<Rightarrow> (str \<times> str) list"

record user_record =
  us_id :: uuid
  us_admin :: bool
  us_disabled :: bool
  us_payload :: json

record gate_user =
  gu_id :: uuid
  gu_admin :: bool
  gu_disabled :: bool

datatype host_error = HostTyped nat str | HostInternal str

definition api_of_host :: "host_error \<Rightarrow> api_error" where
  "api_of_host e = (case e of HostTyped s t \<Rightarrow> verbatim_error s t | HostInternal _ \<Rightarrow> internal_error)"

record served =
  sd_status :: nat
  sd_headers :: "(str \<times> str) list"
  sd_file :: "str option"
  sd_handle :: nat

datatype answer = Payload str | Served served | LiveAnswer nat

text \<open>What a request does outside itself: calls of the host, and the stall after a wrong password.\<close>

datatype event =
    AskUser uuid
  | AskGateUser uuid
  | AskLogin str str
  | AskChange uuid str str
  | AskRecords str "(str \<times> str) list"
  | AskCount str "(str \<times> str) list"
  | AskRecord str uuid
  | Operate str json
  | Sleep nat

record host =
  ho_user :: "event list \<Rightarrow> uuid \<Rightarrow> (host_error, user_record option) result"
  ho_gate_user :: "event list \<Rightarrow> uuid \<Rightarrow> gate_user option option"
  ho_verify_login :: "event list \<Rightarrow> str \<Rightarrow> str \<Rightarrow> (host_error, user_record option) result"
  ho_change_password :: "event list \<Rightarrow> uuid \<Rightarrow> str \<Rightarrow> str \<Rightarrow> (host_error, user_record option) result"
  ho_records :: "event list \<Rightarrow> str \<Rightarrow> (str \<times> str) list \<Rightarrow> str option"
  ho_count :: "event list \<Rightarrow> str \<Rightarrow> (str \<times> str) list \<Rightarrow> str option"
  ho_record :: "event list \<Rightarrow> str \<Rightarrow> uuid \<Rightarrow> str option"
  ho_operate :: "event list \<Rightarrow> str \<Rightarrow> json \<Rightarrow> (host_error, answer) result"
  ho_clock :: "event list \<Rightarrow> int"

type_synonym ('e, 'a) handler = "event list \<Rightarrow> ('e, 'a) result \<times> event list"

definition pure :: "('e, 'a) result \<Rightarrow> ('e, 'a) handler" where
  "pure r = (\<lambda>evs. (r, evs))"

definition and_then :: "('e, 'a) handler \<Rightarrow> ('a \<Rightarrow> ('e, 'b) handler) \<Rightarrow> ('e, 'b) handler" where
  "and_then h f = (\<lambda>evs. case h evs of (Inl e, evs') \<Rightarrow> (Inl e, evs') | (Inr a, evs') \<Rightarrow> f a evs')"

definition asks :: "event \<Rightarrow> (event list \<Rightarrow> ('e, 'a) result) \<Rightarrow> ('e, 'a) handler" where
  "asks ev reply = (\<lambda>evs. (reply evs, evs @ [ev]))"

lemma pure_apply [simp]: "pure r evs = (r, evs)"
  by (simp add: pure_def)

lemma asks_apply [simp]: "asks ev reply evs = (reply evs, evs @ [ev])"
  by (simp add: asks_def)

lemma and_then_cases:
  assumes "and_then h f evs = (r, evs')"
  obtains (stop) e where "h evs = (Inl e, evs')" and "r = Inl e"
  | (go) a mid where "h evs = (Inr a, mid)" and "f a mid = (r, evs')"
  using assms by (auto simp: and_then_def split: prod.splits sum.splits)

lemma and_then_Inl [simp]: "h evs = (Inl e, mid) \<Longrightarrow> and_then h f evs = (Inl e, mid)"
  by (simp add: and_then_def)

lemma and_then_Inr [simp]: "h evs = (Inr a, mid) \<Longrightarrow> and_then h f evs = f a mid"
  by (simp add: and_then_def)

lemma and_then_pure [simp]:
  "and_then (pure (Inl e)) f = pure (Inl e)"
  "and_then (pure (Inr a)) f = f a"
  by (auto simp: and_then_def pure_def)

section \<open>Tokens\<close>

record auth_settings =
  as_duration :: int
  as_allow_impersonate :: bool
  as_secret :: str

definition token_validation :: jwt_validation where
  "token_validation = \<lparr>jv_leeway = 0, jv_required = [''sub'', ''exp'']\<rparr>"

text \<open>
  An instant is its nanoseconds since the epoch, a duration its nanoseconds. Adding past what
  \<open>DateTime\<close> holds panics.
\<close>

datatype route_failure = Refused api_error | Panicked panic

definition timestamp_secs :: "int \<Rightarrow> int" where
  "timestamp_secs t = t div 1000000000"

record minted_token =
  mt_token :: str
  mt_expires :: int

definition token_claims :: "server_lib \<Rightarrow> uuid \<Rightarrow> int \<Rightarrow> uuid option \<Rightarrow> (str \<times> json) list" where
  "token_claims lib user expires imp =
     [(''sub'', JString (sl_uuid_text lib user)), (''exp'', JInt (timestamp_secs expires))]
     @ (case imp of None \<Rightarrow> [] | Some i \<Rightarrow> [(''imp'', JString (sl_uuid_text lib i))])"

definition mint :: "server_lib \<Rightarrow> auth_settings \<Rightarrow> int \<Rightarrow> uuid \<Rightarrow> uuid option \<Rightarrow> (route_failure, minted_token) result" where
  "mint lib s now user imp =
     (let expires = now + as_duration s in
      if \<not> sl_instant_ok lib expires then Err (Panicked (Panic ''`DateTime + TimeDelta` overflowed''))
      else case sl_jwt_encode lib (as_secret s) (token_claims lib user expires imp) of
             None \<Rightarrow> Err (Refused internal_error)
           | Some t \<Rightarrow> Ok \<lparr>mt_token = t, mt_expires = expires\<rparr>)"

record parsed_token =
  pt_token :: str
  pt_user :: uuid
  pt_expires :: int
  pt_impersonated_by :: "uuid option"

definition claim_uuid :: "server_lib \<Rightarrow> json \<Rightarrow> uuid option" where
  "claim_uuid lib v = Option.bind (json_as_str v) (sl_uuid_parse lib)"

definition claim_instant :: "server_lib \<Rightarrow> json \<Rightarrow> int option" where
  "claim_instant lib v = Option.bind (json_as_i64 v) (\<lambda>s.
     if sl_instant_ok lib (s * 1000000000) then Some (s * 1000000000) else None)"

definition parse :: "server_lib \<Rightarrow> auth_settings \<Rightarrow> int \<Rightarrow> str \<Rightarrow> parsed_token option" where
  "parse lib s now token =
     Option.bind (sl_jwt_decode lib (as_secret s) token_validation (timestamp_secs now) token) (\<lambda>claims.
     Option.bind (Option.bind (map_of claims ''sub'') (claim_uuid lib)) (\<lambda>user.
     Option.bind (Option.bind (map_of claims ''exp'') (claim_instant lib)) (\<lambda>expires.
     Option.bind (case map_of claims ''imp'' of
                    None \<Rightarrow> Some None
                  | Some v \<Rightarrow> map_option Some (claim_uuid lib v)) (\<lambda>imp.
     Some \<lparr>pt_token = token, pt_user = user, pt_expires = expires, pt_impersonated_by = imp\<rparr>))))"

record identity =
  id_token :: str
  id_expires :: int
  id_user :: user_record
  id_impersonated_by :: "uuid option"

definition identity_json :: "server_lib \<Rightarrow> identity \<Rightarrow> json" where
  "identity_json lib i =
     JObject [(''token'', JString (id_token i)), (''expires'', sl_timestamp lib (id_expires i)),
              (''user'', us_payload (id_user i)),
              (''impersonated_by'', case id_impersonated_by i of
                                      None \<Rightarrow> JNull | Some u \<Rightarrow> JString (sl_uuid_text lib u))]"

section \<open>Actors and gates\<close>

record actor =
  ac_user :: "user_record option"
  ac_unrestricted :: bool

definition actor_admin :: "actor \<Rightarrow> bool" where
  "actor_admin a \<longleftrightarrow>
     ac_unrestricted a \<or> (case ac_user a of None \<Rightarrow> False | Some u \<Rightarrow> us_admin u)"

definition require_authenticated :: "actor \<Rightarrow> (api_error, unit) result" where
  "require_authenticated a =
     (if ac_unrestricted a then Ok ()
      else case ac_user a of
             None \<Rightarrow> Err not_authenticated
           | Some u \<Rightarrow> if us_disabled u then Err not_permitted else Ok ())"

definition require_admin :: "actor \<Rightarrow> (api_error, unit) result" where
  "require_admin a = try_then (require_authenticated a) (\<lambda>_.
     if actor_admin a then Ok () else Err not_permitted)"

definition require_self_or_admin :: "actor \<Rightarrow> uuid option \<Rightarrow> (api_error, unit) result" where
  "require_self_or_admin a target = try_then (require_authenticated a) (\<lambda>_.
     if actor_admin a then Ok ()
     else case target of
            None \<Rightarrow> Err not_permitted
          | Some t \<Rightarrow>
              if (case ac_user a of None \<Rightarrow> False | Some u \<Rightarrow> us_id u = t) then Ok ()
              else Err not_permitted)"

datatype gate = Open | Authenticated | Admin | SelfOrAdmin str

definition gate_admit ::
  "server_lib \<Rightarrow> gate \<Rightarrow> actor \<Rightarrow> (str \<times> str) list \<Rightarrow> (api_error, unit) result" where
  "gate_admit lib g a path_values =
     (case g of
        Open \<Rightarrow> Ok ()
      | Authenticated \<Rightarrow> require_authenticated a
      | Admin \<Rightarrow> require_admin a
      | SelfOrAdmin p \<Rightarrow>
          require_self_or_admin a (Option.bind (map_of path_values p) (sl_uuid_parse lib)))"

section \<open>The bearer token of a request\<close>

type_synonym headers = "(str \<times> str) list"

text \<open>Header text holds no white space but blanks and tabs, which is all that \<open>trim\<close> then drops.\<close>

definition trim_blank :: "str \<Rightarrow> str" where
  "trim_blank s =
     rev (dropWhile (\<lambda>c. c \<in> {CHR 0x20, CHR 0x09}) (rev (dropWhile (\<lambda>c. c \<in> {CHR 0x20, CHR 0x09}) s)))"

definition trim_quotes :: "str \<Rightarrow> str" where
  "trim_quotes s = rev (dropWhile (\<lambda>c. c = CHR 0x22) (rev (dropWhile (\<lambda>c. c = CHR 0x22) s)))"

fun unescape_quotes :: "str \<Rightarrow> str" where
  "unescape_quotes (a # b # s) =
     (if a = CHR 0x5C \<and> b = CHR 0x22 then CHR 0x22 # unescape_quotes s
      else a # unescape_quotes (b # s))"
| "unescape_quotes s = s"

text \<open>\<open>Some r\<close> when the search returns \<open>r\<close>, and \<open>None\<close> when the pairs run out.\<close>

fun cookie_pairs :: "str list \<Rightarrow> str option option" where
  "cookie_pairs [] = None"
| "cookie_pairs (pair # pairs) =
     (case split_once CHR ''='' (trim_blank pair) of
        None \<Rightarrow> Some None
      | Some (name, v) \<Rightarrow>
          if name = ''Authorization'' then Some (Some (unescape_quotes (trim_quotes v)))
          else cookie_pairs pairs)"

fun cookie_headers :: "str list \<Rightarrow> str option" where
  "cookie_headers [] = None"
| "cookie_headers (v # vs) =
     (case header_to_str v of
        None \<Rightarrow> None
      | Some cookies \<Rightarrow>
          (case cookie_pairs (split_on CHR '';'' cookies) of
             Some found \<Rightarrow> found
           | None \<Rightarrow> cookie_headers vs))"

definition authorization_cookie :: "headers \<Rightarrow> str option" where
  "authorization_cookie hs = cookie_headers (map snd (filter (\<lambda>(n, v). n = ''cookie'') hs))"

definition bearer_token :: "headers \<Rightarrow> str option" where
  "bearer_token hs =
     (let header = Option.bind (map_of hs ''authorization'') header_to_str;
          presented = (case header of Some v \<Rightarrow> Some v | None \<Rightarrow> authorization_cookie hs)
      in Option.bind presented (strip_prefix ''Bearer ''))"

section \<open>The authorization cookie\<close>

datatype cookie_type = Insecure | Secure

definition cookie_type_parse :: "str \<Rightarrow> str list \<Rightarrow> (problem, cookie_type) result" where
  "cookie_type_parse v location =
     (if v = ''insecure'' then Ok Insecure
      else if v = ''secure'' then Ok Secure
      else Err (Problem ''enum'' location (''Input should be '' @ [CHR 0x27] @ ''insecure'' @ [CHR 0x27]
                  @ '' or '' @ [CHR 0x27] @ ''secure'' @ [CHR 0x27])))"

definition cookie_header :: "str \<Rightarrow> (route_failure, str) result" where
  "cookie_header v =
     (case header_from_str v of
        None \<Rightarrow> Err (Panicked (Panic ''cookie values hold no invalid header bytes''))
      | Some h \<Rightarrow> Ok h)"

definition cookie_pair :: "str \<Rightarrow> str" where
  "cookie_pair v = ''Authorization='' @ [CHR 0x22] @ v @ [CHR 0x22]"

definition bearer_value :: "str \<Rightarrow> str" where
  "bearer_value token = ''Bearer '' @ token"

definition cookie_attributes :: "cookie_type \<Rightarrow> str" where
  "cookie_attributes k =
     (case k of Insecure \<Rightarrow> ''; Path=/; SameSite=lax'' | Secure \<Rightarrow> ''; HttpOnly; Path=/; SameSite=lax; Secure'')"

definition cookie_assign :: "server_lib \<Rightarrow> cookie_type \<Rightarrow> str \<Rightarrow> int \<Rightarrow> (route_failure, str) result" where
  "cookie_assign lib k token expires =
     cookie_header (cookie_pair (bearer_value token) @ ''; expires='' @ sl_http_date lib expires
                    @ cookie_attributes k)"

definition cookie_delete :: "server_lib \<Rightarrow> int \<Rightarrow> (route_failure, str) result" where
  "cookie_delete lib now =
     cookie_header (cookie_pair [] @ ''; expires='' @ sl_http_date lib now
                    @ ''; Max-Age=0; Path=/; SameSite=lax'')"

section \<open>Body fields\<close>

record body_reader =
  bd_fields :: "(str \<times> json) list"
  bd_problems :: "problem list"

definition json_invalid :: "str \<Rightarrow> api_error" where
  "json_invalid e = validation_error [Problem ''json_invalid'' [''body''] (''Invalid JSON: '' @ e)]"

definition body_parse :: "server_lib \<Rightarrow> str \<Rightarrow> (api_error, body_reader) result" where
  "body_parse lib bytes =
     (case sl_json_read lib bytes of
        Inl e \<Rightarrow> Err (json_invalid e)
      | Inr (JObject m) \<Rightarrow> Ok \<lparr>bd_fields = m, bd_problems = []\<rparr>
      | Inr _ \<Rightarrow> Err (validation_error [Problem ''model_attributes_type'' [''body'']
          ''Input should be a valid dictionary or object to extract fields from'']))"

definition body_finish :: "body_reader \<Rightarrow> (api_error, unit) result" where
  "body_finish b = (if bd_problems b = [] then Ok () else Err (validation_error (bd_problems b)))"

definition push_problem :: "problem \<Rightarrow> body_reader \<Rightarrow> body_reader" where
  "push_problem p b = b\<lparr>bd_problems := bd_problems b @ [p]\<rparr>"

definition string_type_problem :: "str \<Rightarrow> problem" where
  "string_type_problem field = Problem ''string_type'' [''body'', field] ''Input should be a valid string''"

definition missing_problem :: "str \<Rightarrow> problem" where
  "missing_problem field = Problem ''missing'' [''body'', field] ''Field required''"

definition uuid_problem :: "str \<Rightarrow> problem" where
  "uuid_problem field = Problem ''uuid_parsing'' [''body'', field] ''Input should be a valid UUID''"

definition required_string :: "str \<Rightarrow> body_reader \<Rightarrow> str option \<times> body_reader" where
  "required_string field b =
     (case map_of (bd_fields b) field of
        None \<Rightarrow> (None, push_problem (missing_problem field) b)
      | Some JNull \<Rightarrow> (None, push_problem (missing_problem field) b)
      | Some (JString v) \<Rightarrow> (Some v, b)
      | Some _ \<Rightarrow> (None, push_problem (string_type_problem field) b))"

definition optional_string :: "str \<Rightarrow> body_reader \<Rightarrow> str option \<times> body_reader" where
  "optional_string field b =
     (case map_of (bd_fields b) field of
        None \<Rightarrow> (None, b)
      | Some JNull \<Rightarrow> (None, b)
      | Some (JString v) \<Rightarrow> (Some v, b)
      | Some _ \<Rightarrow> (None, push_problem (string_type_problem field) b))"

definition required_uuid :: "server_lib \<Rightarrow> str \<Rightarrow> body_reader \<Rightarrow> uuid option \<times> body_reader" where
  "required_uuid lib field b =
     (case required_string field b of
        (None, b') \<Rightarrow> (None, b')
      | (Some t, b') \<Rightarrow>
          (case sl_uuid_parse lib t of
             Some u \<Rightarrow> (Some u, b')
           | None \<Rightarrow> (None, push_problem (uuid_problem field) b')))"

definition body_cookie :: "body_reader \<Rightarrow> cookie_type option \<times> body_reader" where
  "body_cookie b =
     (case optional_string ''cookie'' b of
        (None, b') \<Rightarrow> (None, b')
      | (Some t, b') \<Rightarrow>
          (case cookie_type_parse t [''body'', ''cookie''] of
             Inr k \<Rightarrow> (Some k, b')
           | Inl p \<Rightarrow> (None, push_problem p b')))"

section \<open>The application and its actors\<close>

record app =
  ap_auth :: "auth_settings option"
  ap_host :: host
  ap_cli :: bool
  ap_fingerprint :: "str option option"

datatype resolution = Full | Standing

definition or_host :: "(host_error, 'a) result \<Rightarrow> (api_error, 'a) result" where
  "or_host r = (case r of Inl e \<Rightarrow> Inl (api_of_host e) | Inr a \<Rightarrow> Inr a)"

definition ask_user :: "app \<Rightarrow> uuid \<Rightarrow> (api_error, user_record option) handler" where
  "ask_user a u = asks (AskUser u) (\<lambda>evs. or_host (ho_user (ap_host a) evs u))"

definition presented :: "server_lib \<Rightarrow> app \<Rightarrow> headers \<Rightarrow> event list \<Rightarrow> parsed_token option" where
  "presented lib a hs evs =
     Option.bind (ap_auth a) (\<lambda>s.
     Option.bind (bearer_token hs) (parse lib s (ho_clock (ap_host a) evs)))"

definition resolve_identity :: "server_lib \<Rightarrow> app \<Rightarrow> headers \<Rightarrow> (api_error, identity option) handler" where
  "resolve_identity lib a hs = (\<lambda>evs.
     case presented lib a hs evs of
       None \<Rightarrow> (Ok None, evs)
     | Some p \<Rightarrow> and_then (ask_user a (pt_user p)) (\<lambda>found. pure (Ok (
         case found of
           None \<Rightarrow> None
         | Some u \<Rightarrow> Some \<lparr>id_token = pt_token p, id_expires = pt_expires p, id_user = u,
                           id_impersonated_by = pt_impersonated_by p\<rparr>))) evs)"

definition unrestricted :: "app \<Rightarrow> bool" where
  "unrestricted a \<longleftrightarrow> ap_cli a \<or> ap_auth a = None"

definition actor_full :: "server_lib \<Rightarrow> app \<Rightarrow> headers \<Rightarrow> (api_error, actor) handler" where
  "actor_full lib a hs = and_then (resolve_identity lib a hs) (\<lambda>i.
     pure (Ok \<lparr>ac_user = map_option id_user i, ac_unrestricted = unrestricted a\<rparr>))"

definition gate_record :: "gate_user \<Rightarrow> user_record" where
  "gate_record g = \<lparr>us_id = gu_id g, us_admin = gu_admin g, us_disabled = gu_disabled g, us_payload = JNull\<rparr>"

definition resolve_actor :: "server_lib \<Rightarrow> app \<Rightarrow> headers \<Rightarrow> resolution \<Rightarrow> (api_error, actor) handler" where
  "resolve_actor lib a hs res = (\<lambda>evs.
     case res of
       Full \<Rightarrow> actor_full lib a hs evs
     | Standing \<Rightarrow>
         (case presented lib a hs evs of
            None \<Rightarrow> (Ok \<lparr>ac_user = None, ac_unrestricted = unrestricted a\<rparr>, evs)
          | Some p \<Rightarrow>
              (case ho_gate_user (ap_host a) evs (pt_user p) of
                 Some found \<Rightarrow>
                   (Ok \<lparr>ac_user = map_option gate_record found, ac_unrestricted = unrestricted a\<rparr>,
                    evs @ [AskGateUser (pt_user p)])
               | None \<Rightarrow> actor_full lib a hs (evs @ [AskGateUser (pt_user p)]))))"

definition app_admit ::
  "server_lib \<Rightarrow> app \<Rightarrow> headers \<Rightarrow> gate \<Rightarrow> resolution \<Rightarrow> (api_error, actor) handler" where
  "app_admit lib a hs g res = and_then (resolve_actor lib a hs res) (\<lambda>ac.
     and_then (pure (gate_admit lib g ac [])) (\<lambda>_. pure (Ok ac)))"

text \<open>The control application's layer: every request carries the token of the run, or is refused.\<close>

definition require_cli_token ::
  "str \<Rightarrow> headers \<Rightarrow> (api_error, 'a) handler \<Rightarrow> (api_error, 'a) handler" where
  "require_cli_token token hs next =
     (if Option.bind (map_of hs ''authorization'') header_to_str = Some token then next
      else pure (Err not_authenticated))"

section \<open>The authentication routes\<close>

text \<open>A body is a JSON document the framework renders, or text that is sent as it is.\<close>

datatype reply_body = Document json | Text str

record reply =
  rp_status :: nat
  rp_body :: reply_body
  rp_cookie :: "str option"

definition json_document :: "json \<Rightarrow> reply" where
  "json_document v = \<lparr>rp_status = 200, rp_body = Document v, rp_cookie = None\<rparr>"

definition WRONG_PASSWORD_DELAY :: nat where
  "WRONG_PASSWORD_DELAY = 2500"

definition refusal_of :: "(api_error, 'a) handler \<Rightarrow> (route_failure, 'a) handler" where
  "refusal_of h = (\<lambda>evs. case h evs of (Inl e, evs') \<Rightarrow> (Inl (Refused e), evs') | (Inr a, evs') \<Rightarrow> (Inr a, evs'))"

definition refuse :: "api_error \<Rightarrow> (route_failure, 'a) handler" where
  "refuse e = pure (Err (Refused e))"

definition unreachable :: "str \<Rightarrow> (route_failure, 'a) handler" where
  "unreachable m = pure (Err (Panicked (Panic m)))"

definition stall_and_refuse :: "(route_failure, 'a) handler" where
  "stall_and_refuse = asks (Sleep WRONG_PASSWORD_DELAY) (\<lambda>_. Err (Refused bad_credentials))"

definition identity_reply :: "server_lib \<Rightarrow> identity \<Rightarrow> cookie_type option \<Rightarrow> (route_failure, reply) result" where
  "identity_reply lib i kind =
     (case kind of
        None \<Rightarrow> Ok (json_document (identity_json lib i))
      | Some k \<Rightarrow> try_then (cookie_assign lib k (id_token i) (id_expires i)) (\<lambda>c.
          Ok ((json_document (identity_json lib i))\<lparr>rp_cookie := Some c\<rparr>)))"

definition minted_identity :: "minted_token \<Rightarrow> user_record \<Rightarrow> uuid option \<Rightarrow> identity" where
  "minted_identity m user imp =
     \<lparr>id_token = mt_token m, id_expires = mt_expires m, id_user = user, id_impersonated_by = imp\<rparr>"

definition identity_response ::
  "server_lib \<Rightarrow> app \<Rightarrow> auth_settings \<Rightarrow> user_record \<Rightarrow> uuid option \<Rightarrow> cookie_type option \<Rightarrow> (route_failure, reply) handler" where
  "identity_response lib a s user imp kind = (\<lambda>evs. (
     try_then (mint lib s (ho_clock (ap_host a) evs) (us_id user) imp) (\<lambda>m.
     identity_reply lib (minted_identity m user imp) kind), evs))"

definition me :: "server_lib \<Rightarrow> app \<Rightarrow> headers \<Rightarrow> (route_failure, reply) handler" where
  "me lib a hs = and_then (refusal_of (resolve_identity lib a hs)) (\<lambda>found.
     case found of
       Some i \<Rightarrow> pure (Ok (json_document (identity_json lib i)))
     | None \<Rightarrow> refuse not_authenticated)"

definition features :: "app \<Rightarrow> reply" where
  "features a = json_document (JObject
     [(''impersonate'', JBool (case ap_auth a of None \<Rightarrow> False | Some s \<Rightarrow> as_allow_impersonate s)),
      (''authority'', case Option.bind (ap_fingerprint a) id of
                        None \<Rightarrow> JNull | Some f \<Rightarrow> JObject [(''fingerprint'', JString f)])])"

definition read_login :: "body_reader \<Rightarrow> (str option \<times> str option \<times> cookie_type option) \<times> body_reader" where
  "read_login b =
     (let (username, b1) = required_string ''username'' b;
          (password, b2) = required_string ''password'' b1;
          (kind, b3) = body_cookie b2
      in ((username, password, kind), b3))"

definition read_impersonate :: "server_lib \<Rightarrow> body_reader \<Rightarrow> (uuid option \<times> cookie_type option) \<times> body_reader" where
  "read_impersonate lib b =
     (let (target, b1) = required_uuid lib ''user_id'' b;
          (kind, b2) = body_cookie b1
      in ((target, kind), b2))"

definition read_change :: "body_reader \<Rightarrow> (str option \<times> str option) \<times> body_reader" where
  "read_change b =
     (let (old_password, b1) = required_string ''old_password'' b;
          (new_password, b2) = required_string ''new_password'' b1
      in ((old_password, new_password), b2))"

definition with_body ::
  "server_lib \<Rightarrow> str \<Rightarrow> (body_reader \<Rightarrow> 'f \<times> body_reader) \<Rightarrow> (api_error, 'f) result" where
  "with_body lib bytes reads = try_then (body_parse lib bytes) (\<lambda>b.
     let (read, b') = reads b in try_then (body_finish b') (\<lambda>_. Ok read))"

definition login :: "server_lib \<Rightarrow> app \<Rightarrow> str \<Rightarrow> (route_failure, reply) handler" where
  "login lib a bytes = and_then (refusal_of (pure (with_body lib bytes read_login))) (\<lambda>(username, password, kind).
     case ap_auth a of
       None \<Rightarrow> refuse authentication_disabled
     | Some s \<Rightarrow>
         (case (username, password) of
            (Some u, Some p) \<Rightarrow>
              and_then (refusal_of (asks (AskLogin u p) (\<lambda>evs. or_host (ho_verify_login (ap_host a) evs u p)))) (\<lambda>found.
                case found of
                  Some user \<Rightarrow> identity_response lib a s user None kind
                | None \<Rightarrow> stall_and_refuse)
          | _ \<Rightarrow> unreachable ''finishing the body refused missing fields''))"

definition refresh :: "server_lib \<Rightarrow> app \<Rightarrow> headers \<Rightarrow> str \<Rightarrow> (route_failure, reply) handler" where
  "refresh lib a hs bytes = and_then (refusal_of (pure (with_body lib bytes body_cookie))) (\<lambda>kind.
     case ap_auth a of
       None \<Rightarrow> refuse authentication_disabled
     | Some s \<Rightarrow> and_then (refusal_of (resolve_identity lib a hs)) (\<lambda>found.
         case found of
           Some i \<Rightarrow> identity_response lib a s (id_user i) None kind
         | None \<Rightarrow> refuse not_authenticated))"

definition logout_reply :: "server_lib \<Rightarrow> int \<Rightarrow> identity \<Rightarrow> (route_failure, reply) result" where
  "logout_reply lib now i = try_then (cookie_delete lib now) (\<lambda>c.
     Ok ((json_document (identity_json lib i))\<lparr>rp_cookie := Some c\<rparr>))"

definition logout :: "server_lib \<Rightarrow> app \<Rightarrow> headers \<Rightarrow> (route_failure, reply) handler" where
  "logout lib a hs = and_then (refusal_of (resolve_identity lib a hs)) (\<lambda>found.
     case found of
       Some i \<Rightarrow> (\<lambda>evs. (logout_reply lib (ho_clock (ap_host a) evs) i, evs))
     | None \<Rightarrow> refuse not_authenticated)"

definition impersonate :: "server_lib \<Rightarrow> app \<Rightarrow> headers \<Rightarrow> str \<Rightarrow> (route_failure, reply) handler" where
  "impersonate lib a hs bytes =
     and_then (refusal_of (pure (with_body lib bytes (read_impersonate lib)))) (\<lambda>(target, kind).
     case ap_auth a of
       None \<Rightarrow> refuse authentication_disabled
     | Some s \<Rightarrow>
         if \<not> as_allow_impersonate s then refuse not_found
         else and_then (refusal_of (resolve_identity lib a hs)) (\<lambda>found.
           case found of
             None \<Rightarrow> refuse not_authenticated
           | Some i \<Rightarrow>
               if \<not> us_admin (id_user i) then refuse not_permitted
               else case target of
                      None \<Rightarrow> unreachable ''finishing the body refused a missing target''
                    | Some t \<Rightarrow> and_then (refusal_of (ask_user a t)) (\<lambda>found.
                        case found of
                          Some user \<Rightarrow> identity_response lib a s user (Some (us_id (id_user i))) kind
                        | None \<Rightarrow> refuse not_found)))"

definition change_password :: "server_lib \<Rightarrow> app \<Rightarrow> headers \<Rightarrow> str \<Rightarrow> (route_failure, reply) handler" where
  "change_password lib a hs bytes =
     and_then (refusal_of (app_admit lib a hs Authenticated Full)) (\<lambda>ac.
     case ac_user ac of
       None \<Rightarrow> refuse (http_error 401)
     | Some user \<Rightarrow>
         and_then (refusal_of (pure (with_body lib bytes read_change))) (\<lambda>(old_password, new_password).
         case (old_password, new_password) of
           (Some p, Some q) \<Rightarrow>
             and_then (refusal_of (asks (AskChange (us_id user) p q)
                        (\<lambda>evs. or_host (ho_change_password (ap_host a) evs (us_id user) p q)))) (\<lambda>found.
               case found of
                 Some updated \<Rightarrow> pure (Ok (json_document (us_payload updated)))
               | None \<Rightarrow> stall_and_refuse)
         | _ \<Rightarrow> unreachable ''finishing the body refused missing fields''))"

text \<open>The requests of the routes above, and the handler each reaches.\<close>

datatype auth_request =
    GetMe headers
  | PostLogin str
  | PostRefresh headers str
  | PostLogout headers
  | PostImpersonate headers str
  | PostChangePassword headers str

fun serve_auth :: "server_lib \<Rightarrow> app \<Rightarrow> auth_request \<Rightarrow> (route_failure, reply) handler" where
  "serve_auth lib a (GetMe hs) = me lib a hs"
| "serve_auth lib a (PostLogin bytes) = login lib a bytes"
| "serve_auth lib a (PostRefresh hs bytes) = refresh lib a hs bytes"
| "serve_auth lib a (PostLogout hs) = logout lib a hs"
| "serve_auth lib a (PostImpersonate hs bytes) = impersonate lib a hs bytes"
| "serve_auth lib a (PostChangePassword hs bytes) = change_password lib a hs bytes"

section \<open>Tokens come back as they were minted\<close>

text \<open>
  What the library documents: a signed token decodes under the same secret until it expires, and to no
  other claims than it was signed with; its text is base64url with dots, identifiers print and parse, and an instant's whole second is an instant.
\<close>

definition token_char :: "char \<Rightarrow> bool" where
  "token_char c \<longleftrightarrow> is_ascii_alphanumeric c \<or> c \<in> {CHR ''-'', CHR ''_'', CHR ''.''}"

definition signs_tokens :: "server_lib \<Rightarrow> bool" where
  "signs_tokens lib \<longleftrightarrow>
     (\<forall>k c t v now e. sl_jwt_encode lib k c = Some t \<longrightarrow> list_all (\<lambda>r. r \<in> fst ` set c) (jv_required v) \<longrightarrow>
        map_of c ''exp'' = Some (JInt e) \<longrightarrow> 0 \<le> now \<longrightarrow> now \<le> e + int (jv_leeway v) \<longrightarrow>
        sl_jwt_decode lib k v now t = Some c) \<and>
     (\<forall>k c t. sl_jwt_encode lib k c = Some t \<longrightarrow> list_all token_char t) \<and>
     (\<forall>k c t v now c'. sl_jwt_encode lib k c = Some t \<longrightarrow> sl_jwt_decode lib k v now t = Some c' \<longrightarrow> c' = c)"

definition prints_ids_and_instants :: "server_lib \<Rightarrow> bool" where
  "prints_ids_and_instants lib \<longleftrightarrow>
     (\<forall>u. sl_uuid_parse lib (sl_uuid_text lib u) = Some u) \<and>
     (\<forall>t. sl_instant_ok lib t \<longrightarrow>
        in_i64 (timestamp_secs t) \<and> sl_instant_ok lib (timestamp_secs t * 1000000000))"

lemma minted_decodes:
  assumes "signs_tokens lib" and "mint lib s now u imp = Ok m"
    and "0 \<le> timestamp_secs later" and "timestamp_secs later \<le> timestamp_secs (mt_expires m)"
  shows "sl_jwt_decode lib (as_secret s) token_validation (timestamp_secs later) (mt_token m) =
         Some (token_claims lib u (mt_expires m) imp)"
    and "sl_instant_ok lib (mt_expires m)" and "mt_expires m = now + as_duration s"
    and "list_all token_char (mt_token m)"
proof -
  have m: "sl_jwt_encode lib (as_secret s) (token_claims lib u (mt_expires m) imp) = Some (mt_token m)"
      "sl_instant_ok lib (mt_expires m)" "mt_expires m = now + as_duration s"
    using assms(2) by (auto simp: mint_def Let_def split: if_splits option.splits)
  then show "sl_instant_ok lib (mt_expires m)" "mt_expires m = now + as_duration s" by simp_all
  show "list_all token_char (mt_token m)"
    using assms(1) m(1) unfolding signs_tokens_def by blast
  have "map_of (token_claims lib u (mt_expires m) imp) ''exp'' = Some (JInt (timestamp_secs (mt_expires m)))"
    and "list_all (\<lambda>r. r \<in> fst ` set (token_claims lib u (mt_expires m) imp)) (jv_required token_validation)"
    by (auto simp: token_claims_def token_validation_def)
  moreover have "timestamp_secs later \<le> timestamp_secs (mt_expires m) + int (jv_leeway token_validation)"
    using assms(4) by (simp add: token_validation_def)
  ultimately show "sl_jwt_decode lib (as_secret s) token_validation (timestamp_secs later) (mt_token m) =
      Some (token_claims lib u (mt_expires m) imp)"
    using assms(1,3) m(1) unfolding signs_tokens_def by blast
qed

lemma parse_minted:
  assumes "signs_tokens lib" and "prints_ids_and_instants lib" and "mint lib s now u imp = Ok m"
    and "0 \<le> timestamp_secs later" and "timestamp_secs later \<le> timestamp_secs (mt_expires m)"
  shows "parse lib s later (mt_token m) =
         Some \<lparr>pt_token = mt_token m, pt_user = u, pt_expires = timestamp_secs (mt_expires m) * 1000000000,
               pt_impersonated_by = imp\<rparr>"
proof -
  note d = minted_decodes[OF assms(1,3,4,5)]
  have "in_i64 (timestamp_secs (mt_expires m))" "sl_instant_ok lib (timestamp_secs (mt_expires m) * 1000000000)"
    using assms(2) d(2) by (auto simp: prints_ids_and_instants_def)
  with assms(2) show ?thesis
    by (cases imp) (simp_all add: parse_def d(1) token_claims_def claim_uuid_def claim_instant_def
        prints_ids_and_instants_def)
qed

section \<open>The cookie a login sets is the token a request presents\<close>

lemma split_on_cookies:
  "list_all (\<lambda>p. CHR '';'' \<notin> set p) ps \<Longrightarrow> ps \<noteq> [] \<Longrightarrow>
   split_on CHR '';'' (join_with ''; '' ps) = hd ps # map (\<lambda>p. CHR '' '' # p) (tl ps)"
proof (induction ps)
  case (Cons p ps)
  show ?case
  proof (cases ps)
    case Nil
    with Cons show ?thesis by (simp add: split_on_atom)
  next
    case (Cons q qs)
    with Cons.prems Cons.IH show ?thesis by (simp add: split_on_append_sep)
  qed
qed simp

lemma trim_blank_Cons [simp]: "trim_blank (CHR '' '' # s) = trim_blank s"
  by (simp add: trim_blank_def)

lemma token_char_plain:
  "token_char c \<Longrightarrow> c \<noteq> CHR 0x22 \<and> c \<noteq> CHR 0x5C \<and> c \<noteq> CHR '';''"
  by (auto simp: token_char_def is_ascii_alphanumeric_def is_ascii_alphabetic_def is_ascii_digit_def)

lemma unescape_plain: "CHR 0x5C \<notin> set s \<Longrightarrow> unescape_quotes s = s"
  by (induction s rule: unescape_quotes.induct) auto

lemma trim_quotes_quoted:
  "CHR 0x22 \<notin> set s \<Longrightarrow> trim_quotes ([CHR 0x22] @ s @ [CHR 0x22]) = s"
proof (cases s rule: rev_cases)
  case Nil
  then show ?thesis by (simp add: trim_quotes_def)
next
  case (snoc t c)
  moreover assume "CHR 0x22 \<notin> set s"
  ultimately show ?thesis
    by (cases t) (auto simp: trim_quotes_def)
qed

lemma bearer_plain:
  assumes "list_all token_char t"
  shows "CHR 0x22 \<notin> set (bearer_value t)" and "CHR 0x5C \<notin> set (bearer_value t)" and "CHR '';'' \<notin> set (bearer_value t)"
  using assms token_char_plain by (auto simp: list_all_iff bearer_value_def)

lemma trim_cookie_pair [simp]: "trim_blank (cookie_pair v) = cookie_pair v"
  by (simp add: trim_blank_def cookie_pair_def)

lemma split_cookie_pair [simp]:
  "split_once CHR ''='' (cookie_pair v) = Some (''Authorization'', [CHR 0x22] @ v @ [CHR 0x22])"
  by (simp add: cookie_pair_def)

lemma cookie_pair_found:
  assumes "list_all token_char t"
  shows "cookie_pairs (cookie_pair (bearer_value t) # ps) = Some (Some (bearer_value t))"
    and "cookie_pairs ((CHR '' '' # cookie_pair (bearer_value t)) # ps) = Some (Some (bearer_value t))"
    and "CHR '';'' \<notin> set (cookie_pair (bearer_value t))"
proof -
  note plain = bearer_plain[OF assms]
  have "trim_quotes (CHR 0x22 # bearer_value t @ [CHR 0x22]) = bearer_value t"
    using trim_quotes_quoted[OF plain(1)] by simp
  then show "cookie_pairs (cookie_pair (bearer_value t) # ps) = Some (Some (bearer_value t))"
    "cookie_pairs ((CHR '' '' # cookie_pair (bearer_value t)) # ps) = Some (Some (bearer_value t))"
    using unescape_plain[OF plain(2)] by simp_all
  show "CHR '';'' \<notin> set (cookie_pair (bearer_value t))"
    using plain(3) by (simp add: cookie_pair_def)
qed

text \<open>Another cookie: a name that is not the authorization cookie's, and a value.\<close>

definition other_cookie :: "str \<Rightarrow> bool" where
  "other_cookie p \<longleftrightarrow> CHR '';'' \<notin> set p \<and>
     (case split_once CHR ''='' (trim_blank p) of None \<Rightarrow> False | Some (n, v) \<Rightarrow> n \<noteq> ''Authorization'')"

lemma cookie_pairs_skip:
  "list_all other_cookie ps \<Longrightarrow> cookie_pairs (ps @ qs) = cookie_pairs qs"
  by (induction ps) (auto simp: other_cookie_def split: option.splits)

lemma cookie_pairs_skip_blank:
  "list_all other_cookie ps \<Longrightarrow> cookie_pairs (map (\<lambda>p. CHR '' '' # p) ps @ qs) = cookie_pairs qs"
  by (induction ps) (auto simp: other_cookie_def split: option.splits)

lemma cookie_header_found:
  assumes "list_all token_char t" and "list_all other_cookie before" and "list_all (\<lambda>p. CHR '';'' \<notin> set p) after"
  shows "cookie_pairs (split_on CHR '';'' (join_with ''; '' (before @ cookie_pair (bearer_value t) # after))) =
         Some (Some (bearer_value t))"
proof -
  let ?ps = "before @ cookie_pair (bearer_value t) # after"
  have "list_all (\<lambda>p. CHR '';'' \<notin> set p) ?ps"
    using assms cookie_pair_found(3)[OF assms(1)] by (auto simp: list_all_iff other_cookie_def)
  then have split: "split_on CHR '';'' (join_with ''; '' ?ps) = hd ?ps # map (\<lambda>p. CHR '' '' # p) (tl ?ps)"
    by (intro split_on_cookies) auto
  show ?thesis
  proof (cases before)
    case Nil
    then show ?thesis using split cookie_pair_found(1)[OF assms(1)] by simp
  next
    case (Cons b bs)
    then have "cookie_pairs (b # map (\<lambda>p. CHR '' '' # p) bs @ (CHR '' '' # cookie_pair (bearer_value t)) # map (\<lambda>p. CHR '' '' # p) after) =
        Some (Some (bearer_value t))"
      using assms(2) cookie_pairs_skip[of "[b]"] cookie_pairs_skip_blank[of bs] cookie_pair_found(2)[OF assms(1)]
      by simp
    with Cons split show ?thesis by simp
  qed
qed

text \<open>A request that presents a token: in its header, or in the cookie among others.\<close>

inductive presents :: "headers \<Rightarrow> str \<Rightarrow> bool" where
  header: "map_of hs ''authorization'' = Some (bearer_value t) \<Longrightarrow> presents hs t"
| cookie: "map_of hs ''authorization'' = None \<Longrightarrow>
    filter (\<lambda>(n, v). n = ''cookie'') hs =
      (''cookie'', join_with ''; '' (before @ cookie_pair (bearer_value t) # after)) # rest \<Longrightarrow>
    header_to_str (join_with ''; '' (before @ cookie_pair (bearer_value t) # after)) \<noteq> None \<Longrightarrow>
    list_all other_cookie before \<Longrightarrow> list_all (\<lambda>p. CHR '';'' \<notin> set p) after \<Longrightarrow> presents hs t"

lemma token_header_text:
  "list_all token_char t \<Longrightarrow> header_to_str (bearer_value t) = Some (bearer_value t)"
  by (auto simp: header_to_str_def bearer_value_def list_all_iff token_char_def is_ascii_alphanumeric_def
      is_ascii_alphabetic_def is_ascii_digit_def dest!: bspec)

lemma header_to_str_Some: "header_to_str s = Some r \<Longrightarrow> r = s"
  by (simp add: header_to_str_def split: if_splits)

lemma strip_bearer: "strip_prefix ''Bearer '' (bearer_value t) = Some t"
  unfolding bearer_value_def by (rule strip_prefix_append)

lemma presents_bearer:
  assumes "presents hs t" and "list_all token_char t"
  shows "bearer_token hs = Some t"
  using assms(1)
proof cases
  case header
  then show ?thesis by (simp add: bearer_token_def token_header_text[OF assms(2)] strip_bearer)
next
  case (cookie before after rest)
  then have "authorization_cookie hs = Some (bearer_value t)"
    using cookie_header_found[OF assms(2) cookie(4,5)]
    by (auto simp: authorization_cookie_def dest: header_to_str_Some split: option.splits)
  with cookie(1) show ?thesis by (simp add: bearer_token_def strip_bearer)
qed

section \<open>What the handlers do\<close>

lemma refusal_of_apply [simp]:
  "refusal_of h evs = (case h evs of (Inl e, evs') \<Rightarrow> (Inl (Refused e), evs') | (Inr a, evs') \<Rightarrow> (Inr a, evs'))"
  by (simp add: refusal_of_def)

lemma refusal_of_pure [simp]:
  "refusal_of (pure (Inl e)) = refuse e"
  "refusal_of (pure (Inr a)) = pure (Inr a)"
  by (auto simp: refuse_def)

lemma refuse_apply [simp]: "refuse e evs = (Inl (Refused e), evs)"
  by (simp add: refuse_def)

lemma refuse_then [simp]: "and_then (refuse e) f = refuse e"
  by (simp add: refuse_def)

definition found_identity :: "parsed_token \<Rightarrow> user_record \<Rightarrow> identity" where
  "found_identity p u =
     \<lparr>id_token = pt_token p, id_expires = pt_expires p, id_user = u, id_impersonated_by = pt_impersonated_by p\<rparr>"

text \<open>Resolving an identity asks the host for the user of a valid token, and for nothing else.\<close>

lemma resolve_identity_cases:
  obtains (anonymous) "presented lib a hs evs = None" "resolve_identity lib a hs evs = (Ok None, evs)"
  | (failed) p e where "presented lib a hs evs = Some p" "ho_user (ap_host a) evs (pt_user p) = Inl e"
      "resolve_identity lib a hs evs = (Err (api_of_host e), evs @ [AskUser (pt_user p)])"
  | (unknown) p where "presented lib a hs evs = Some p" "ho_user (ap_host a) evs (pt_user p) = Ok None"
      "resolve_identity lib a hs evs = (Ok None, evs @ [AskUser (pt_user p)])"
  | (known) p u where "presented lib a hs evs = Some p" "ho_user (ap_host a) evs (pt_user p) = Ok (Some u)"
      "resolve_identity lib a hs evs = (Ok (Some (found_identity p u)), evs @ [AskUser (pt_user p)])"
proof (cases "presented lib a hs evs")
  case None
  then show ?thesis by (intro anonymous) (simp_all add: resolve_identity_def)
next
  case (Some p)
  show ?thesis
  proof (cases "ho_user (ap_host a) evs (pt_user p)")
    case (Inl e)
    with Some show ?thesis
      by (intro failed) (simp_all add: resolve_identity_def ask_user_def or_host_def)
  next
    case (Inr r)
    show ?thesis
    proof (cases r)
      case None
      with Some Inr show ?thesis
        by (intro unknown) (simp_all add: resolve_identity_def ask_user_def or_host_def)
    next
      case (Some u)
      with \<open>presented lib a hs evs = Some p\<close> Inr show ?thesis
        by (intro known) (simp_all add: resolve_identity_def ask_user_def or_host_def found_identity_def)
    qed
  qed
qed

subsection \<open>Bodies\<close>

text \<open>A reader only adds problems, and adds one whenever it finds no required value.\<close>

lemma required_string_problems:
  "required_string f b = (v, b') \<Longrightarrow> \<exists>ps. bd_problems b' = bd_problems b @ ps \<and> (v = None \<longrightarrow> ps \<noteq> [])"
  by (auto simp: required_string_def push_problem_def split: option.splits json.splits)

lemma required_uuid_problems:
  "required_uuid lib f b = (v, b') \<Longrightarrow> \<exists>ps. bd_problems b' = bd_problems b @ ps \<and> (v = None \<longrightarrow> ps \<noteq> [])"
  using required_string_problems[of f b]
  by (force simp: required_uuid_def push_problem_def split: prod.splits option.splits)

lemma body_cookie_problems: "body_cookie b = (v, b') \<Longrightarrow> \<exists>ps. bd_problems b' = bd_problems b @ ps"
  by (auto simp: body_cookie_def optional_string_def push_problem_def
      split: prod.splits option.splits json.splits sum.splits)

lemma with_body_Ok:
  assumes "with_body lib bytes reads = Ok r"
  obtains b b' where "reads b = (r, b')" and "bd_problems b' = []"
proof -
  obtain b where "(let (read, b') = reads b in try_then (body_finish b') (\<lambda>_. Ok read)) = Ok r"
    using assms by (auto simp: with_body_def try_then_Inr_iff)
  moreover obtain rd b' where "reads b = (rd, b')" by (cases "reads b")
  ultimately show thesis
    by (intro that[of b b']) (auto simp: body_finish_def split: if_splits)
qed

lemma with_body_login: "with_body lib bytes read_login = Ok (u, p, k) \<Longrightarrow> u \<noteq> None \<and> p \<noteq> None"
  by (erule with_body_Ok)
    (fastforce simp: read_login_def split: prod.splits dest!: required_string_problems body_cookie_problems)

lemma with_body_impersonate: "with_body lib bytes (read_impersonate lib) = Ok (t, k) \<Longrightarrow> t \<noteq> None"
  by (erule with_body_Ok)
    (fastforce simp: read_impersonate_def split: prod.splits dest!: required_uuid_problems body_cookie_problems)

lemma with_body_change: "with_body lib bytes read_change = Ok (p, q) \<Longrightarrow> p \<noteq> None \<and> q \<noteq> None"
  by (erule with_body_Ok)
    (fastforce simp: read_change_def split: prod.splits dest!: required_string_problems)

subsection \<open>Panics\<close>

definition never_panics :: "(route_failure, 'a) handler \<Rightarrow> bool" where
  "never_panics h \<longleftrightarrow> (\<forall>evs p. fst (h evs) \<noteq> Inl (Panicked p))"

lemma never_panics_and_then [intro]:
  "never_panics h \<Longrightarrow> (\<And>x. never_panics (f x)) \<Longrightarrow> never_panics (and_then h f)"
  unfolding never_panics_def
proof (intro allI)
  fix evs p
  assume h: "\<forall>evs p. fst (h evs) \<noteq> Inl (Panicked p)" and f: "\<And>x. \<forall>evs p. fst (f x evs) \<noteq> Inl (Panicked p)"
  obtain r mid where "h evs = (r, mid)" by (cases "h evs")
  with h[rule_format, of evs p] f show "fst (and_then h f evs) \<noteq> Inl (Panicked p)"
    by (cases r) auto
qed

lemma never_panics_simple [simp, intro]:
  "never_panics (refusal_of h)" "never_panics (refuse e)" "never_panics (pure (Inr a))"
  "never_panics stall_and_refuse"
  by (auto simp: never_panics_def refusal_of_def refuse_def stall_and_refuse_def split: prod.splits sum.splits)

lemma header_from_str_append:
  "header_from_str (s @ t) = None \<longleftrightarrow> header_from_str s = None \<or> header_from_str t = None"
  by (auto simp: header_from_str_def)

text \<open>Dates print as header text, and the clock stays a token's lifetime away from the last instant.\<close>

definition prints_dates :: "server_lib \<Rightarrow> bool" where
  "prints_dates lib \<longleftrightarrow> (\<forall>t. header_from_str (sl_http_date lib t) \<noteq> None)"

definition expiry_in_range :: "server_lib \<Rightarrow> app \<Rightarrow> bool" where
  "expiry_in_range lib a \<longleftrightarrow>
     (case ap_auth a of None \<Rightarrow> True
      | Some s \<Rightarrow> \<forall>evs. sl_instant_ok lib (ho_clock (ap_host a) evs + as_duration s))"

lemma token_header_valid: "list_all token_char t \<Longrightarrow> header_from_str t \<noteq> None"
  by (auto simp: header_from_str_def list_all_iff token_char_def is_ascii_alphanumeric_def
      is_ascii_alphabetic_def is_ascii_digit_def)

lemma cookie_assign_valid:
  assumes "prints_dates lib" and "list_all token_char t"
  shows "cookie_assign lib k t e = Ok (cookie_pair (bearer_value t) @ ''; expires='' @ sl_http_date lib e @ cookie_attributes k)"
proof -
  have "header_from_str (cookie_pair (bearer_value t)) \<noteq> None"
    using token_header_valid[OF assms(2)]
    by (auto simp: cookie_pair_def bearer_value_def header_from_str_append)
      (auto simp: header_from_str_def split: if_splits)
  moreover have "header_from_str (cookie_attributes k) \<noteq> None" "header_from_str ''; expires='' \<noteq> None"
    by (simp_all add: cookie_attributes_def header_from_str_def split: cookie_type.split)
  ultimately have "header_from_str (cookie_pair (bearer_value t) @ ''; expires='' @ sl_http_date lib e @ cookie_attributes k) \<noteq> None"
    using assms(1) by (simp only: header_from_str_append prints_dates_def) blast
  then show ?thesis
    by (simp add: cookie_assign_def cookie_header_def split: option.splits)
      (simp add: header_from_str_def split: if_splits)
qed

lemma cookie_delete_valid: "prints_dates lib \<Longrightarrow> cookie_delete lib now \<noteq> Inl e"
proof -
  assume "prints_dates lib"
  moreover have "header_from_str (cookie_pair []) \<noteq> None" "header_from_str ''; expires='' \<noteq> None"
    "header_from_str ''; Max-Age=0; Path=/; SameSite=lax'' \<noteq> None"
    by (simp_all add: cookie_pair_def header_from_str_def)
  ultimately have "header_from_str (cookie_pair [] @ ''; expires='' @ sl_http_date lib now @ ''; Max-Age=0; Path=/; SameSite=lax'') \<noteq> None"
    by (simp only: header_from_str_append prints_dates_def) blast
  then show ?thesis by (auto simp: cookie_delete_def cookie_header_def)
qed

lemma mint_token_char: "signs_tokens lib \<Longrightarrow> mint lib s now u imp = Ok m \<Longrightarrow> list_all token_char (mt_token m)"
  by (auto simp: mint_def signs_tokens_def Let_def split: if_splits option.splits)

lemma identity_response_never_panics:
  assumes "signs_tokens lib" and "prints_dates lib" and "expiry_in_range lib a" and "ap_auth a = Some s"
  shows "never_panics (identity_response lib a s user imp kind)"
proof -
  have "mint lib s (ho_clock (ap_host a) evs) u i \<noteq> Inl (Panicked p)" for evs u i p
    using assms(3,4) by (auto simp: mint_def expiry_in_range_def Let_def split: option.splits)
  with cookie_assign_valid[OF assms(2)] mint_token_char[OF assms(1)] show ?thesis
    by (auto simp: never_panics_def identity_response_def identity_reply_def minted_identity_def try_then_Inl_iff split: option.splits)
qed

lemma logout_never_panics: "prints_dates lib \<Longrightarrow> never_panics (logout lib a hs)"
proof -
  assume "prints_dates lib"
  then have "never_panics (\<lambda>evs. (logout_reply lib (clock evs) i, evs))" for clock i
    by (auto simp: never_panics_def logout_reply_def try_then_Inl_iff cookie_delete_valid)
  then show ?thesis unfolding logout_def
    by (intro never_panics_and_then) (auto split: option.splits)
qed

lemma me_never_panics: "never_panics (me lib a hs)"
  unfolding me_def by (rule never_panics_and_then) (auto split: option.splits)

lemma refresh_never_panics:
  assumes "signs_tokens lib" "prints_dates lib" "expiry_in_range lib a"
  shows "never_panics (refresh lib a hs bytes)"
  unfolding refresh_def using identity_response_never_panics[OF assms]
  by (intro never_panics_and_then) (auto split: option.splits)

lemma login_never_panics:
  assumes "signs_tokens lib" "prints_dates lib" "expiry_in_range lib a"
  shows "never_panics (login lib a bytes)"
proof (cases "with_body lib bytes read_login")
  case (Inr r)
  obtain u p k where r: "r = (u, p, k)" by (cases r) auto
  with Inr with_body_login[of lib bytes u p k] obtain u' p' where up: "u = Some u'" "p = Some p'" by auto
  show ?thesis unfolding login_def Inr r up using identity_response_never_panics[OF assms]
    by (auto split: option.splits)
qed (simp add: login_def)

lemma impersonate_never_panics:
  assumes "signs_tokens lib" "prints_dates lib" "expiry_in_range lib a"
  shows "never_panics (impersonate lib a hs bytes)"
proof (cases "with_body lib bytes (read_impersonate lib)")
  case (Inr r)
  obtain t k where r: "r = (t, k)" by (cases r) auto
  with Inr with_body_impersonate[of lib bytes t k] obtain t' where t: "t = Some t'" by auto
  have "never_panics (and_then (refusal_of (ask_user a t')) (case_option (refuse not_found)
          (\<lambda>user. identity_response lib a s user i k)))" if "ap_auth a = Some s" for s i
    using identity_response_never_panics[OF assms that] by (intro never_panics_and_then) (auto split: option.splits)
  then show ?thesis unfolding impersonate_def Inr r t
    by (auto intro!: never_panics_and_then split: option.splits)
qed (simp add: impersonate_def)

lemma change_password_never_panics: "never_panics (change_password lib a hs bytes)"
proof -
  have "never_panics (and_then (refusal_of (pure (with_body lib bytes read_change))) (\<lambda>(old_password, new_password).
         case (old_password, new_password) of
           (Some p, Some q) \<Rightarrow>
             and_then (refusal_of (asks (AskChange i p q) (reply p q))) (\<lambda>found.
               case found of
                 Some updated \<Rightarrow> pure (Ok (json_document (us_payload updated)))
               | None \<Rightarrow> stall_and_refuse)
         | _ \<Rightarrow> unreachable m))" for i reply m
  proof (cases "with_body lib bytes read_change")
    case (Inr r)
    obtain p q where r: "r = (p, q)" by (cases r) auto
    with Inr with_body_change[of lib bytes p q] obtain p' q' where pq: "p = Some p'" "q = Some q'" by auto
    show ?thesis unfolding Inr r pq by (auto split: option.splits)
  qed simp
  then show ?thesis unfolding change_password_def
    by (intro never_panics_and_then) (auto split: option.splits)
qed

subsection \<open>Replies that hand out tokens\<close>

lemma cookie_header_Ok: "cookie_header v = Ok c \<Longrightarrow> c = v"
  by (simp add: cookie_header_def header_from_str_def split: if_splits)

definition body_tokens :: "reply \<Rightarrow> str set" where
  "body_tokens r = {t. \<exists>m. rp_body r = Document (JObject m) \<and> map_of m ''token'' = Some (JString t)}"

text \<open>A browser sends the cookie's pair back, without its attributes.\<close>

definition cookie_tokens :: "reply \<Rightarrow> str set" where
  "cookie_tokens r = {t. \<exists>c. rp_cookie r = Some c \<and>
     bearer_token [(''cookie'', takeWhile (\<lambda>x. x \<noteq> CHR '';'') c)] = Some t}"

lemma body_tokens_identity [simp]:
  "rp_body r = Document (identity_json lib i) \<Longrightarrow> body_tokens r = {id_token i}"
  by (auto simp: body_tokens_def identity_json_def)

lemma cookie_pair_presents:
  assumes "list_all token_char t"
  shows "presents [(''cookie'', cookie_pair (bearer_value t))] t"
proof -
  have "header_to_str (cookie_pair (bearer_value t)) \<noteq> None"
    using token_header_text[OF assms]
    by (auto simp: header_to_str_def cookie_pair_def split: if_splits)
  then show ?thesis
    using presents.cookie[of "[(''cookie'', cookie_pair (bearer_value t))]" "[]" t "[]" "[]"] by simp
qed

lemma takeWhile_cookie:
  "list_all token_char t \<Longrightarrow>
   takeWhile (\<lambda>x. x \<noteq> CHR '';'') (cookie_pair (bearer_value t) @ ''; expires='' @ rest) = cookie_pair (bearer_value t)"
proof -
  assume "list_all token_char t"
  then have "\<forall>x \<in> set (cookie_pair (bearer_value t)). x \<noteq> CHR '';''"
    using cookie_pair_found(3) by metis
  then show ?thesis by (subst takeWhile_append2) auto
qed

definition hands_out :: "server_lib \<Rightarrow> reply \<Rightarrow> identity \<Rightarrow> bool" where
  "hands_out lib r i \<longleftrightarrow>
     rp_body r = Document (identity_json lib i) \<and>
     (rp_cookie r = None \<or> cookie_tokens r = {id_token i}) \<and> rp_status r = 200"

lemma identity_reply_Ok:
  assumes "list_all token_char (id_token i)" and "identity_reply lib i kind = Ok r"
  shows "hands_out lib r i"
proof (cases kind)
  case None
  with assms(2) show ?thesis by (auto simp: identity_reply_def hands_out_def json_document_def)
next
  case (Some k)
  then obtain c where c: "cookie_assign lib k (id_token i) (id_expires i) = Ok c"
    and r: "r = (json_document (identity_json lib i))\<lparr>rp_cookie := Some c\<rparr>"
    using assms(2) by (auto simp: identity_reply_def try_then_Inr_iff)
  from c have "c = cookie_pair (bearer_value (id_token i)) @ ''; expires='' @ (sl_http_date lib (id_expires i) @ cookie_attributes k)"
    unfolding cookie_assign_def by (rule cookie_header_Ok)
  then have "takeWhile (\<lambda>x. x \<noteq> CHR '';'') c = cookie_pair (bearer_value (id_token i))"
    by (simp only: takeWhile_cookie[OF assms(1)])
  then have "cookie_tokens r = {id_token i}"
    using presents_bearer[OF cookie_pair_presents[OF assms(1)] assms(1)] r by (simp add: cookie_tokens_def)
  then show ?thesis using r by (simp add: hands_out_def json_document_def)
qed

lemma identity_response_Ok:
  assumes "signs_tokens lib" and "identity_response lib a s user imp kind evs = (Ok r, evs')"
  obtains m where "evs' = evs" and "mint lib s (ho_clock (ap_host a) evs) (us_id user) imp = Ok m"
    and "hands_out lib r (minted_identity m user imp)"
proof -
  obtain m where m: "mint lib s (ho_clock (ap_host a) evs) (us_id user) imp = Ok m"
    and r: "identity_reply lib (minted_identity m user imp) kind = Ok r" and evs: "evs' = evs"
    using assms(2) unfolding identity_response_def prod.inject try_then_Inr_iff by blast
  have "list_all token_char (id_token (minted_identity m user imp))"
    using mint_token_char[OF assms(1) m] by (simp add: minted_identity_def)
  from that[OF evs m identity_reply_Ok[OF this r]] show thesis .
qed

lemma minted_claims:
  assumes "signs_tokens lib" and "prints_ids_and_instants lib" and "mint lib s now u imp = Ok m"
    and "parse lib s later (mt_token m) = Some p"
  shows "pt_user p = u" and "pt_impersonated_by p = imp"
proof -
  have enc: "sl_jwt_encode lib (as_secret s) (token_claims lib u (mt_expires m) imp) = Some (mt_token m)"
    using assms(3) by (auto simp: mint_def Let_def split: if_splits option.splits)
  obtain c where dec: "sl_jwt_decode lib (as_secret s) token_validation (timestamp_secs later) (mt_token m) = Some c"
    using assms(4) by (auto simp: parse_def bind_eq_Some_conv)
  have "c = token_claims lib u (mt_expires m) imp"
    using assms(1) enc dec unfolding signs_tokens_def by blast
  with dec assms(2,4) show "pt_user p = u" "pt_impersonated_by p = imp"
    by (cases imp; auto simp: parse_def bind_eq_Some_conv token_claims_def claim_uuid_def prints_ids_and_instants_def)+
qed

lemma login_Ok:
  assumes "signs_tokens lib" and "login lib a bytes evs = (Ok r, evs')"
  obtains u p user s m where "ap_auth a = Some s" and "ho_verify_login (ap_host a) evs u p = Ok (Some user)"
    and "evs' = evs @ [AskLogin u p]" and "mint lib s (ho_clock (ap_host a) evs') (us_id user) None = Ok m"
    and "hands_out lib r (minted_identity m user None)"
proof -
  obtain w where body: "with_body lib bytes read_login = Ok w"
    using assms(2) by (cases "with_body lib bytes read_login") (auto simp: login_def)
  obtain x y k where w: "w = (x, y, k)" by (cases w) auto
  with body with_body_login[of lib bytes x y k] obtain u p where up: "x = Some u" "y = Some p" by auto
  obtain s where s: "ap_auth a = Some s"
    using assms(2) body w by (cases "ap_auth a") (auto simp: login_def)
  obtain user where user: "ho_verify_login (ap_host a) evs u p = Ok (Some user)"
    and r: "identity_response lib a s user None k (evs @ [AskLogin u p]) = (Ok r, evs')"
    using assms(2) body w up s
    by (cases "ho_verify_login (ap_host a) evs u p")
      (auto simp: login_def and_then_def or_host_def stall_and_refuse_def split: option.splits)
  from r obtain m where "evs' = evs @ [AskLogin u p]" "mint lib s (ho_clock (ap_host a) evs') (us_id user) None = Ok m"
    "hands_out lib r (minted_identity m user None)"
    by (rule identity_response_Ok[OF assms(1)]) auto
  with s user show thesis by (intro that)
qed

lemma presented_Some:
  assumes "presented lib a hs evs = Some p"
  obtains s where "ap_auth a = Some s" and "bearer_token hs = Some (pt_token p)"
    and "parse lib s (ho_clock (ap_host a) evs) (pt_token p) = Some p"
  using assms by (auto simp: presented_def bind_eq_Some_conv parse_def)

definition host_finds_by_id :: "host \<Rightarrow> bool" where
  "host_finds_by_id h \<longleftrightarrow> (\<forall>evs u r. ho_user h evs u = Ok (Some r) \<longrightarrow> us_id r = u)"

text \<open>A reply that shows an identity shows the one its token names, for \<open>me\<close> and \<open>logout\<close>.\<close>

lemma me_Ok:
  assumes "me lib a hs evs = (Ok r, evs')"
  obtains p u where "presented lib a hs evs = Some p" and "ho_user (ap_host a) evs (pt_user p) = Ok (Some u)"
    and "evs' = evs @ [AskUser (pt_user p)]" and "hands_out lib r (found_identity p u)"
  by (rule resolve_identity_cases[of lib a hs evs])
    (use assms that in \<open>auto simp: me_def and_then_def hands_out_def json_document_def\<close>)

lemma bearer_deleted: "bearer_token [(''cookie'', ''Authorization='' @ [CHR 0x22, CHR 0x22])] = None"
  by (simp add: bearer_token_def authorization_cookie_def header_to_str_def trim_blank_def trim_quotes_def)

lemma logout_Ok:
  assumes "logout lib a hs evs = (Ok r, evs')"
  obtains p u where "presented lib a hs evs = Some p" and "ho_user (ap_host a) evs (pt_user p) = Ok (Some u)"
    and "evs' = evs @ [AskUser (pt_user p)]" and "rp_body r = Document (identity_json lib (found_identity p u))"
    and "cookie_tokens r = {}" and "rp_cookie r \<noteq> None"
proof (rule resolve_identity_cases[of lib a hs evs])
  fix p u
  assume p: "presented lib a hs evs = Some p" "ho_user (ap_host a) evs (pt_user p) = Ok (Some u)"
    and i: "resolve_identity lib a hs evs = (Ok (Some (found_identity p u)), evs @ [AskUser (pt_user p)])"
  have "logout lib a hs evs =
      (logout_reply lib (ho_clock (ap_host a) (evs @ [AskUser (pt_user p)])) (found_identity p u), evs @ [AskUser (pt_user p)])"
    by (simp add: logout_def and_then_def i)
  with assms have evs: "evs' = evs @ [AskUser (pt_user p)]"
    and "logout_reply lib (ho_clock (ap_host a) evs') (found_identity p u) = Ok r" by auto
  then obtain c where c: "cookie_delete lib (ho_clock (ap_host a) evs') = Ok c"
    and r: "r = (json_document (identity_json lib (found_identity p u)))\<lparr>rp_cookie := Some c\<rparr>"
    unfolding logout_reply_def try_then_Inr_iff sum.inject by metis
  have "takeWhile (\<lambda>x. x \<noteq> CHR '';'') c = ''Authorization='' @ [CHR 0x22, CHR 0x22]"
    using cookie_header_Ok[OF c[unfolded cookie_delete_def]] by (simp add: cookie_pair_def)
  with r have "cookie_tokens r = {}"
    using bearer_deleted by (simp add: cookie_tokens_def)
  with p r evs show thesis by (intro that) (simp_all add: json_document_def)
qed (use assms in \<open>auto simp: logout_def and_then_def\<close>)

lemma refresh_Ok:
  assumes "signs_tokens lib" and "refresh lib a hs bytes evs = (Ok r, evs')"
  obtains p u s m where "presented lib a hs evs = Some p" and "ap_auth a = Some s"
    and "ho_user (ap_host a) evs (pt_user p) = Ok (Some u)" and "evs' = evs @ [AskUser (pt_user p)]"
    and "mint lib s (ho_clock (ap_host a) evs') (us_id u) None = Ok m" and "hands_out lib r (minted_identity m u None)"
proof -
  obtain k where body: "with_body lib bytes body_cookie = Ok k"
    using assms(2) by (cases "with_body lib bytes body_cookie") (auto simp: refresh_def)
  obtain s where s: "ap_auth a = Some s"
    using assms(2) body by (cases "ap_auth a") (auto simp: refresh_def)
  show thesis
  proof (rule resolve_identity_cases[of lib a hs evs])
    fix p u
    assume p: "presented lib a hs evs = Some p" "ho_user (ap_host a) evs (pt_user p) = Ok (Some u)"
      and i: "resolve_identity lib a hs evs = (Ok (Some (found_identity p u)), evs @ [AskUser (pt_user p)])"
    then have "identity_response lib a s u None k (evs @ [AskUser (pt_user p)]) = (Ok r, evs')"
      using assms(2) body s by (simp add: refresh_def and_then_def found_identity_def)
    from identity_response_Ok[OF assms(1) this] p s that show thesis by metis
  qed (use assms(2) body s in \<open>auto simp: refresh_def and_then_def\<close>)
qed

lemma impersonate_Ok:
  assumes "signs_tokens lib" and "impersonate lib a hs bytes evs = (Ok r, evs')"
  obtains p u s t v m where "presented lib a hs evs = Some p" and "ap_auth a = Some s" and "as_allow_impersonate s"
    and "ho_user (ap_host a) evs (pt_user p) = Ok (Some u)" and "us_admin u"
    and "ho_user (ap_host a) (evs @ [AskUser (pt_user p)]) t = Ok (Some v)"
    and "evs' = evs @ [AskUser (pt_user p), AskUser t]"
    and "mint lib s (ho_clock (ap_host a) evs') (us_id v) (Some (us_id u)) = Ok m"
    and "hands_out lib r (minted_identity m v (Some (us_id u)))"
proof -
  obtain w where body: "with_body lib bytes (read_impersonate lib) = Ok w"
    using assms(2) by (cases "with_body lib bytes (read_impersonate lib)") (auto simp: impersonate_def)
  obtain x k where w: "w = (x, k)" by (cases w) auto
  with body with_body_impersonate[of lib bytes x k] obtain t where t: "x = Some t" by auto
  obtain s where s: "ap_auth a = Some s" "as_allow_impersonate s"
    using assms(2) body w by (cases "ap_auth a") (auto simp: impersonate_def split: if_splits)
  show thesis
  proof (rule resolve_identity_cases[of lib a hs evs])
    fix p u
    assume p: "presented lib a hs evs = Some p" "ho_user (ap_host a) evs (pt_user p) = Ok (Some u)"
      and i: "resolve_identity lib a hs evs = (Ok (Some (found_identity p u)), evs @ [AskUser (pt_user p)])"
    let ?mid = "evs @ [AskUser (pt_user p)]"
    have admin: "us_admin u"
      using assms(2) body w t s i by (auto simp: impersonate_def and_then_def found_identity_def split: if_splits)
    then obtain v where v: "ho_user (ap_host a) ?mid t = Ok (Some v)"
      and "identity_response lib a s v (Some (us_id u)) k (?mid @ [AskUser t]) = (Ok r, evs')"
      using assms(2) body w t s i
      by (cases "ho_user (ap_host a) ?mid t")
        (auto simp: impersonate_def and_then_def found_identity_def ask_user_def or_host_def split: option.splits)
    from identity_response_Ok[OF assms(1) this(2)] obtain m where "evs' = ?mid @ [AskUser t]"
      "mint lib s (ho_clock (ap_host a) (?mid @ [AskUser t])) (us_id v) (Some (us_id u)) = Ok m"
      "hands_out lib r (minted_identity m v (Some (us_id u)))" .
    with p s admin v show thesis by (intro that[of p s u t v m]) simp_all
  qed (use assms(2) body w t s in \<open>auto simp: impersonate_def and_then_def\<close>)
qed

section \<open>Sessions\<close>

text \<open>
  A run of the server's authentication routes, with the events so far and the tokens handed out. Other
  routes add events of their own. Signatures are not forged: a token that verifies was handed out.
\<close>

fun request_headers :: "auth_request \<Rightarrow> headers" where
  "request_headers (GetMe hs) = hs"
| "request_headers (PostLogin bytes) = []"
| "request_headers (PostRefresh hs bytes) = hs"
| "request_headers (PostLogout hs) = hs"
| "request_headers (PostImpersonate hs bytes) = hs"
| "request_headers (PostChangePassword hs bytes) = hs"

fun handed_out :: "auth_request \<Rightarrow> (route_failure, reply) result \<Rightarrow> str set" where
  "handed_out (PostChangePassword hs bytes) res = {}"
| "handed_out rq (Inl e) = {}"
| "handed_out rq (Inr r) = body_tokens r \<union> cookie_tokens r"

inductive session :: "server_lib \<Rightarrow> app \<Rightarrow> event list \<Rightarrow> str set \<Rightarrow> bool" for lib a where
  start: "session lib a [] {}"
| serve: "session lib a evs issued \<Longrightarrow>
    (\<And>p. presented lib a (request_headers rq) evs = Some p \<Longrightarrow> pt_token p \<in> issued) \<Longrightarrow>
    serve_auth lib a rq evs = (res, evs') \<Longrightarrow> session lib a evs' (issued \<union> handed_out rq res)"
| others: "session lib a evs issued \<Longrightarrow> session lib a (evs @ later_evs) issued"

definition logged_in :: "app \<Rightarrow> event list \<Rightarrow> uuid \<Rightarrow> bool" where
  "logged_in a evs v \<longleftrightarrow> (\<exists>pre u p rest user. evs = pre @ AskLogin u p # rest \<and>
     ho_verify_login (ap_host a) pre u p = Ok (Some user) \<and> us_id user = v)"

definition reported_admin :: "app \<Rightarrow> event list \<Rightarrow> uuid \<Rightarrow> bool" where
  "reported_admin a evs w \<longleftrightarrow> (\<exists>pre rest user. evs = pre @ AskUser w # rest \<and>
     ho_user (ap_host a) pre w = Ok (Some user) \<and> us_admin user)"

definition impersonation_on :: "app \<Rightarrow> bool" where
  "impersonation_on a \<longleftrightarrow> (case ap_auth a of None \<Rightarrow> False | Some s \<Rightarrow> as_allow_impersonate s)"

text \<open>
  A user whose password was checked, or, where the feature is on, one that some administrator whose
  password was checked may have taken on.
\<close>

definition proven :: "app \<Rightarrow> event list \<Rightarrow> uuid \<Rightarrow> bool" where
  "proven a evs v \<longleftrightarrow> logged_in a evs v \<or>
     impersonation_on a \<and> (\<exists>w. logged_in a evs w \<and> reported_admin a evs w)"

definition token_proven :: "app \<Rightarrow> event list \<Rightarrow> parsed_token \<Rightarrow> bool" where
  "token_proven a evs p \<longleftrightarrow> proven a evs (pt_user p) \<and>
     (case pt_impersonated_by p of None \<Rightarrow> True
      | Some w \<Rightarrow> impersonation_on a \<and> reported_admin a evs w \<and> proven a evs w)"

lemma logged_in_append: "logged_in a evs v \<Longrightarrow> logged_in a (evs @ later_evs) v"
  by (fastforce simp: logged_in_def)

lemma reported_admin_append: "reported_admin a evs v \<Longrightarrow> reported_admin a (evs @ later_evs) v"
  by (fastforce simp: reported_admin_def)

lemma proven_append: "proven a evs v \<Longrightarrow> proven a (evs @ later_evs) v"
  using logged_in_append reported_admin_append by (fastforce simp: proven_def)

lemma token_proven_append: "token_proven a evs p \<Longrightarrow> token_proven a (evs @ later_evs) p"
  using reported_admin_append proven_append by (fastforce simp: token_proven_def split: option.splits)

lemma hands_out_tokens: "hands_out lib r i \<Longrightarrow> body_tokens r \<union> cookie_tokens r \<subseteq> {id_token i}"
  by (auto simp: hands_out_def cookie_tokens_def)

definition tokens_proven :: "server_lib \<Rightarrow> app \<Rightarrow> event list \<Rightarrow> str set \<Rightarrow> bool" where
  "tokens_proven lib a evs issued \<longleftrightarrow>
     (\<forall>s t now p. ap_auth a = Some s \<longrightarrow> t \<in> issued \<longrightarrow> parse lib s now t = Some p \<longrightarrow> token_proven a evs p)"

lemma tokens_proven_minted:
  assumes "signs_tokens lib" and "prints_ids_and_instants lib" and "ap_auth a = Some s"
    and "mint lib s now (us_id u) imp = Ok m" and "hands_out lib r (minted_identity m u imp)"
    and "proven a evs (us_id u)"
    and "\<And>w. imp = Some w \<Longrightarrow> impersonation_on a \<and> reported_admin a evs w \<and> proven a evs w"
  shows "tokens_proven lib a evs (body_tokens r \<union> cookie_tokens r)"
  unfolding tokens_proven_def
proof (intro allI impI)
  fix s' t later p
  assume s': "ap_auth a = Some s'" and "t \<in> body_tokens r \<union> cookie_tokens r" and p: "parse lib s' later t = Some p"
  then have "t = mt_token m" using hands_out_tokens[OF assms(5)] by (auto simp: minted_identity_def)
  with p s' assms(3) have "parse lib s later (mt_token m) = Some p" by simp
  from minted_claims[OF assms(1,2,4) this] assms(6,7) show "token_proven a evs p"
    by (auto simp: token_proven_def split: option.splits)
qed

lemma tokens_proven_presented:
  assumes "tokens_proven lib a evs issued" and "presented lib a hs evs = Some p" and "pt_token p \<in> issued"
  shows "token_proven a evs p"
  using presented_Some[OF assms(2)] assms(1,3) unfolding tokens_proven_def by metis

lemma tokens_proven_Un:
  "tokens_proven lib a evs xs \<Longrightarrow> tokens_proven lib a evs ys \<Longrightarrow> tokens_proven lib a evs (xs \<union> ys)"
  by (auto simp: tokens_proven_def)

lemma tokens_proven_append: "tokens_proven lib a evs xs \<Longrightarrow> tokens_proven lib a (evs @ later_evs) xs"
  unfolding tokens_proven_def using token_proven_append by blast

lemma tokens_proven_subset: "tokens_proven lib a evs xs \<Longrightarrow> ys \<subseteq> xs \<Longrightarrow> tokens_proven lib a evs ys"
  unfolding tokens_proven_def by blast

lemma asked_admin:
  "ho_user (ap_host a) evs u = Ok (Some r) \<Longrightarrow> us_admin r \<Longrightarrow> reported_admin a (evs @ AskUser u # later_evs) u"
  by (auto simp: reported_admin_def)

lemma serve_auth_tokens_proven:
  assumes lib: "signs_tokens lib" "prints_ids_and_instants lib" and host: "host_finds_by_id (ap_host a)"
    and inv: "tokens_proven lib a evs issued"
    and used: "\<And>p. presented lib a (request_headers rq) evs = Some p \<Longrightarrow> pt_token p \<in> issued"
    and ran: "serve_auth lib a rq evs = (Ok r, evs')"
    and not_change: "\<And>hs bytes. rq \<noteq> PostChangePassword hs bytes"
  shows "\<exists>later_evs. evs' = evs @ later_evs \<and> tokens_proven lib a evs' (body_tokens r \<union> cookie_tokens r)"
proof (cases rq)
  case (GetMe hs)
  with ran obtain p u where p: "presented lib a hs evs = Some p" "evs' = evs @ [AskUser (pt_user p)]"
    and out: "hands_out lib r (found_identity p u)" by (auto elim!: me_Ok)
  have "pt_token p \<in> issued" using used GetMe p(1) by simp
  then have "body_tokens r \<union> cookie_tokens r \<subseteq> issued"
    using hands_out_tokens[OF out] by (auto simp: found_identity_def)
  from tokens_proven_subset[OF tokens_proven_append[OF inv] this] p(2) show ?thesis by blast
next
  case (PostLogout hs)
  with ran obtain p u where p: "presented lib a hs evs = Some p" "evs' = evs @ [AskUser (pt_user p)]"
    and out: "rp_body r = Document (identity_json lib (found_identity p u))" "cookie_tokens r = {}"
    by (auto elim!: logout_Ok)
  have "pt_token p \<in> issued" using used PostLogout p(1) by simp
  then have "body_tokens r \<union> cookie_tokens r \<subseteq> issued"
    by (simp add: out(2) body_tokens_identity[OF out(1)] found_identity_def)
  from tokens_proven_subset[OF tokens_proven_append[OF inv] this] p(2) show ?thesis by blast
next
  case (PostLogin bytes)
  with ran obtain u p user s m where l: "ap_auth a = Some s" "ho_verify_login (ap_host a) evs u p = Ok (Some user)"
    "evs' = evs @ [AskLogin u p]" "mint lib s (ho_clock (ap_host a) evs') (us_id user) None = Ok m"
    "hands_out lib r (minted_identity m user None)" by (auto elim!: login_Ok[OF lib(1)])
  then have "logged_in a evs' (us_id user)" unfolding logged_in_def by blast
  then have "proven a evs' (us_id user)" by (simp add: proven_def)
  with tokens_proven_minted[OF lib l(1,4,5)] l(3) show ?thesis by auto
next
  case (PostRefresh hs bytes)
  with ran obtain p u s m where l: "presented lib a hs evs = Some p" "ap_auth a = Some s"
    "ho_user (ap_host a) evs (pt_user p) = Ok (Some u)" "evs' = evs @ [AskUser (pt_user p)]"
    "mint lib s (ho_clock (ap_host a) evs') (us_id u) None = Ok m" "hands_out lib r (minted_identity m u None)"
    by (auto elim!: refresh_Ok[OF lib(1)])
  have "token_proven a evs p"
    using tokens_proven_presented[OF inv l(1)] used PostRefresh l(1) by simp
  then have "proven a evs' (us_id u)"
    using host l(3,4) proven_append by (auto simp: host_finds_by_id_def token_proven_def)
  with tokens_proven_minted[OF lib l(2,5,6)] l(4) show ?thesis by auto
next
  case (PostImpersonate hs bytes)
  with ran obtain p u s t v m where l: "presented lib a hs evs = Some p" "ap_auth a = Some s" "as_allow_impersonate s"
    "ho_user (ap_host a) evs (pt_user p) = Ok (Some u)" "us_admin u"
    "evs' = evs @ [AskUser (pt_user p), AskUser t]"
    "mint lib s (ho_clock (ap_host a) evs') (us_id v) (Some (us_id u)) = Ok m"
    "hands_out lib r (minted_identity m v (Some (us_id u)))" by (auto elim!: impersonate_Ok[OF lib(1)])
  have u: "us_id u = pt_user p" using host l(4) by (auto simp: host_finds_by_id_def)
  have "token_proven a evs p"
    using tokens_proven_presented[OF inv l(1)] used PostImpersonate l(1) by simp
  then have pu: "proven a evs' (us_id u)"
    using l(6) u proven_append by (auto simp: token_proven_def)
  moreover have on: "impersonation_on a" using l(2,3) by (simp add: impersonation_on_def)
  moreover have ra: "reported_admin a evs' (us_id u)" using asked_admin[OF l(4,5)] l(6) u by simp
  moreover have "proven a evs' (us_id v)" using pu on ra by (auto simp: proven_def)
  ultimately show ?thesis using tokens_proven_minted[OF lib l(2,7,8)] l(6) by auto
next
  case (PostChangePassword hs bytes)
  with not_change show ?thesis by blast
qed

definition extends :: "('e, 'a) handler \<Rightarrow> bool" where
  "extends h \<longleftrightarrow> (\<forall>evs. prefix evs (snd (h evs)))"

lemma extends_and_then [intro]: "extends h \<Longrightarrow> (\<And>x. extends (f x)) \<Longrightarrow> extends (and_then h f)"
  unfolding extends_def
proof (intro allI)
  fix evs
  assume h: "\<forall>evs. prefix evs (snd (h evs))" and f: "\<And>x. \<forall>evs. prefix evs (snd (f x evs))"
  obtain r mid where "h evs = (r, mid)" by (cases "h evs")
  with h[rule_format, of evs] f show "prefix evs (snd (and_then h f evs))"
    by (cases r) (auto intro: prefix_order.trans)
qed

lemma extends_simple [simp, intro]:
  "extends (pure r)" "extends (asks ev reply)" "extends (refuse e)" "extends stall_and_refuse"
  "extends (unreachable m)" "extends (identity_response lib a s user imp kind)" "extends (ask_user a u)"
  "extends (\<lambda>evs. (f evs, evs))"
  by (auto simp: extends_def refuse_def stall_and_refuse_def unreachable_def identity_response_def ask_user_def)

lemma extends_refusal_of [intro]: "extends h \<Longrightarrow> extends (refusal_of h)"
  unfolding extends_def refusal_of_def by (auto split: prod.splits sum.splits) (metis snd_conv)+

lemma extends_identity [simp, intro]: "extends (resolve_identity lib a hs)"
  unfolding extends_def
proof
  fix evs
  show "prefix evs (snd (resolve_identity lib a hs evs))"
    by (rule resolve_identity_cases[of lib a hs evs]) simp_all
qed

lemma extends_admit_full [simp, intro]: "extends (app_admit lib a hs g Full)"
  unfolding app_admit_def by (intro extends_and_then)
    (auto simp: resolve_actor_def actor_full_def)

lemma extends_serve_auth: "extends (serve_auth lib a rq)"
  by (cases rq)
    (auto simp: me_def login_def refresh_def logout_def impersonate_def change_password_def
      split: option.splits intro!: extends_and_then extends_refusal_of)

lemma session_tokens_proven:
  assumes lib: "signs_tokens lib" "prints_ids_and_instants lib" and host: "host_finds_by_id (ap_host a)"
    and run: "session lib a evs issued"
  shows "tokens_proven lib a evs issued"
  using run
proof induction
  case start
  show ?case by (simp add: tokens_proven_def)
next
  case (serve evs issued rq res evs')
  have "prefix evs evs'"
    using extends_serve_auth[of lib a rq] serve(3) by (auto simp: extends_def dest!: spec[of _ evs])
  then obtain l where l: "evs' = evs @ l" by (auto simp: prefix_def)
  have "tokens_proven lib a evs' (handed_out rq res)"
  proof (cases "(\<exists>hs bytes. rq = PostChangePassword hs bytes) \<or> (\<exists>e. res = Inl e)")
    case True
    then have "handed_out rq res = {}" by (cases rq) auto
    then show ?thesis by (simp add: tokens_proven_def)
  next
    case False
    then obtain r where r: "res = Inr r" by (cases res) auto
    with False have "handed_out rq res = body_tokens r \<union> cookie_tokens r" by (cases rq) auto
    with serve_auth_tokens_proven[OF lib host serve(4,2)] serve(3) r False show ?thesis by metis
  qed
  with tokens_proven_append[OF serve(4), of l] l show ?case by (auto intro: tokens_proven_Un)
next
  case (others evs issued later_evs)
  then show ?case by (intro tokens_proven_append)
qed

section \<open>Properties\<close>

text \<open>A small deployment: two users, two sets of claims that sign, and a clock at fifty seconds.\<close>

definition demo_claims :: "uuid \<Rightarrow> uuid option \<Rightarrow> (str \<times> json) list" where
  "demo_claims u imp =
     [(''sub'', JString (replicate (unat u) CHR ''x'')), (''exp'', JInt 100)]
     @ (case imp of None \<Rightarrow> [] | Some i \<Rightarrow> [(''imp'', JString (replicate (unat i) CHR ''x''))])"

definition demo_encode :: "str \<Rightarrow> (str \<times> json) list \<Rightarrow> str option" where
  "demo_encode k c =
     (if k \<noteq> ''key'' then None
      else if c = demo_claims 1 None then Some ''own.one.sig''
      else if c = demo_claims 2 (Some 1) then Some ''taken.two.sig'' else None)"

definition demo_decode :: "str \<Rightarrow> jwt_validation \<Rightarrow> int \<Rightarrow> str \<Rightarrow> (str \<times> json) list option" where
  "demo_decode k v now t =
     (if k \<noteq> ''key'' \<or> now < 0 \<or> 100 + int (jv_leeway v) < now then None
      else if t = ''own.one.sig'' then Some (demo_claims 1 None)
      else if t = ''taken.two.sig'' then Some (demo_claims 2 (Some 1)) else None)"

definition demo_read :: "str \<Rightarrow> (str, json) result" where
  "demo_read t =
     (if t = ''login'' then Ok (JObject [(''username'', JString ''root''), (''password'', JString ''pw''),
                                         (''cookie'', JString ''secure'')])
      else if t = ''take'' then Ok (JObject [(''user_id'', JString ''xx'')])
      else Err ''expected value'')"

definition demo_lib :: server_lib where
  "demo_lib =
     \<lparr>sl_json_read = demo_read, sl_json_write = (\<lambda>v. ''json''),
      sl_uuid_parse = (\<lambda>t. Some (of_nat (length t))), sl_uuid_text = (\<lambda>u. replicate (unat u) CHR ''x''),
      sl_jwt_encode = demo_encode, sl_jwt_decode = demo_decode,
      sl_instant_ok = (\<lambda>t. 0 \<le> t \<and> t < 10 ^ 18), sl_http_date = (\<lambda>t. ''Thu''),
      sl_timestamp = (\<lambda>t. JInt t), sl_query_pairs = (\<lambda>q. [])\<rparr>"

definition demo_user :: "uuid \<Rightarrow> bool \<Rightarrow> bool \<Rightarrow> user_record" where
  "demo_user u admin disabled = \<lparr>us_id = u, us_admin = admin, us_disabled = disabled, us_payload = JNull\<rparr>"

definition demo_host :: "bool \<Rightarrow> host" where
  "demo_host disabled =
     \<lparr>ho_user = (\<lambda>evs u. Ok (if u = 1 then Some (demo_user 1 True disabled)
                            else if u = 2 then Some (demo_user 2 False False) else None)),
      ho_gate_user = (\<lambda>evs u. None),
      ho_verify_login = (\<lambda>evs n p. Ok (if n = ''root'' \<and> p = ''pw'' then Some (demo_user 1 True disabled) else None)),
      ho_change_password = (\<lambda>evs u p q. Ok None),
      ho_records = (\<lambda>evs t q. None), ho_count = (\<lambda>evs t q. None), ho_record = (\<lambda>evs t u. None),
      ho_operate = (\<lambda>evs opn args. Ok (Payload ''done'')), ho_clock = (\<lambda>evs. 50000000000)\<rparr>"

definition demo_app :: "bool \<Rightarrow> bool \<Rightarrow> app" where
  "demo_app impersonation disabled =
     \<lparr>ap_auth = Some \<lparr>as_duration = 50000000000, as_allow_impersonate = impersonation, as_secret = ''key''\<rparr>,
      ap_host = demo_host disabled, ap_cli = False, ap_fingerprint = None\<rparr>"

lemma demo_signs: "signs_tokens demo_lib"
  unfolding signs_tokens_def demo_lib_def server_lib.simps
proof (intro conjI allI impI)
  fix k c t and v :: jwt_validation and now e
  assume "demo_encode k c = Some t" "map_of c ''exp'' = Some (JInt e)" "(0 :: int) \<le> now" "now \<le> e + int (jv_leeway v)"
  then show "demo_decode k v now t = Some c"
    by (auto simp: demo_encode_def demo_decode_def demo_claims_def split: if_splits)
next
  fix k c t
  assume "demo_encode k c = Some t"
  then show "list_all token_char t"
    by (auto simp: demo_encode_def token_char_def is_ascii_alphanumeric_def is_ascii_alphabetic_def split: if_splits)
next
  fix k c t and v :: jwt_validation and now c'
  assume "demo_encode k c = Some t" "demo_decode k v now t = Some c'"
  then show "c' = c" by (auto simp: demo_encode_def demo_decode_def split: if_splits)
qed

lemma demo_prints: "prints_ids_and_instants demo_lib" "prints_dates demo_lib"
  by (auto simp: prints_ids_and_instants_def prints_dates_def demo_lib_def timestamp_secs_def in_i64_def header_from_str_def)

lemma demo_app_ok: "expiry_in_range demo_lib (demo_app i d)" "host_finds_by_id (ap_host (demo_app i d))"
  by (auto simp: expiry_in_range_def host_finds_by_id_def demo_lib_def demo_app_def demo_host_def demo_user_def)

lemma demo_login:
  "login demo_lib (demo_app i d) ''login'' [] =
     (Ok \<lparr>rp_status = 200,
          rp_body = Document (identity_json demo_lib (minted_identity \<lparr>mt_token = ''own.one.sig'', mt_expires = 100000000000\<rparr> (demo_user 1 True d) None)),
          rp_cookie = Some (cookie_pair (bearer_value ''own.one.sig'') @ ''; expires=Thu; HttpOnly; Path=/; SameSite=lax; Secure'')\<rparr>,
      [AskLogin ''root'' ''pw''])"
proof -
  have "with_body demo_lib ''login'' read_login = Ok (Some ''root'', Some ''pw'', Some Secure)"
    by (simp add: with_body_def body_parse_def demo_lib_def demo_read_def read_login_def required_string_def
        body_cookie_def optional_string_def cookie_type_parse_def body_finish_def)
  moreover have "cookie_assign demo_lib Secure ''own.one.sig'' 100000000000 =
      Ok (cookie_pair (bearer_value ''own.one.sig'') @ ''; expires=Thu; HttpOnly; Path=/; SameSite=lax; Secure'')"
    using cookie_assign_valid[OF demo_prints(2), of "''own.one.sig''" Secure]
    by (simp add: token_char_def is_ascii_alphanumeric_def is_ascii_alphabetic_def demo_lib_def cookie_attributes_def)
  moreover have "mint demo_lib \<lparr>as_duration = 50000000000, as_allow_impersonate = i, as_secret = ''key''\<rparr> 50000000000 1 None =
      Ok \<lparr>mt_token = ''own.one.sig'', mt_expires = 100000000000\<rparr>"
    by (simp add: mint_def demo_lib_def demo_encode_def token_claims_def demo_claims_def timestamp_secs_def)
  ultimately show ?thesis
    by (simp add: login_def demo_app_def demo_host_def or_host_def and_then_def identity_response_def identity_reply_def
        minted_identity_def json_document_def demo_user_def)
qed

lemma demo_session:
  "session demo_lib (demo_app i d) [AskLogin ''root'' ''pw''] {''own.one.sig''}"
proof -
  have hands: "list_all token_char ''own.one.sig''"
    by (simp add: token_char_def is_ascii_alphanumeric_def is_ascii_alphabetic_def)
  obtain r where r: "login demo_lib (demo_app i d) ''login'' [] = (Ok r, [AskLogin ''root'' ''pw''])"
    and c: "rp_cookie r = Some (cookie_pair (bearer_value ''own.one.sig'') @ ''; expires='' @ ''Thu; HttpOnly; Path=/; SameSite=lax; Secure'')"
    and b: "rp_body r = Document (identity_json demo_lib (minted_identity \<lparr>mt_token = ''own.one.sig'', mt_expires = 100000000000\<rparr> (demo_user 1 True d) None))"
    unfolding demo_login by simp
  have "cookie_tokens r = {''own.one.sig''}"
    using presents_bearer[OF cookie_pair_presents[OF hands] hands] c
    by (simp only: cookie_tokens_def takeWhile_cookie[OF hands]) (simp add: takeWhile_cookie[OF hands, simplified])
  then have "handed_out (PostLogin ''login'') (Ok r) = {''own.one.sig''}"
    using body_tokens_identity[OF b] by (simp add: minted_identity_def)
  moreover have "presented demo_lib (demo_app i d) (request_headers (PostLogin ''login'')) [] = None"
    by (simp add: presented_def bearer_token_def authorization_cookie_def demo_app_def)
  ultimately show ?thesis
    using session.serve[OF session.start, of demo_lib "demo_app i d" "PostLogin ''login''" "Ok r"] r by simp
qed

text \<open>
  C11. Every token a run of the server hands out names a user whose password the host checked in that
  run, or, where impersonation is on, one that an administrator whose password was checked could take
  on; and a token marked as an impersonation names an impersonator the host reported as an
  administrator. The marker exists only where the feature is on.
\<close>
theorem tokens_come_from_logins:
  assumes "signs_tokens lib" and "prints_ids_and_instants lib" and "host_finds_by_id (ap_host a)"
    and "session lib a evs issued" and "t \<in> issued" and "ap_auth a = Some s" and "parse lib s now t = Some p"
  shows "(logged_in a evs (pt_user p) \<or>
          impersonation_on a \<and> (\<exists>w. logged_in a evs w \<and> reported_admin a evs w)) \<and>
         (\<forall>w. pt_impersonated_by p = Some w \<longrightarrow> impersonation_on a \<and> reported_admin a evs w)"
  using session_tokens_proven[OF assms(1-4)] assms(5-7)
  unfolding tokens_proven_def token_proven_def proven_def by (fastforce split: option.splits)

theorem tokens_come_from_logins_witness:
  "logged_in (demo_app False False) [AskLogin ''root'' ''pw''] 1"
proof -
  obtain s where s: "ap_auth (demo_app False False) = Some s" "\<not> as_allow_impersonate s" "as_secret s = ''key''"
    by (simp add: demo_app_def)
  have p: "parse demo_lib s 0 ''own.one.sig'' =
      Some \<lparr>pt_token = ''own.one.sig'', pt_user = 1, pt_expires = 100000000000, pt_impersonated_by = None\<rparr>"
    using s(3) by (simp add: parse_def demo_lib_def demo_decode_def demo_claims_def claim_uuid_def claim_instant_def
        timestamp_secs_def in_i64_def)
  from tokens_come_from_logins[OF demo_signs demo_prints(1) demo_app_ok(2) demo_session _ s(1) p] s(1,2)
  show ?thesis by (auto simp: impersonation_on_def)
qed



text \<open>
  C33. No request to the authentication routes panics: the fields a handler expects after \<open>finish\<close> are
  there, and the cookies it sets are header values, as long as a token's expiry is an instant.
\<close>
theorem auth_routes_never_panic:
  assumes "signs_tokens lib" and "prints_dates lib" and "expiry_in_range lib a"
  shows "fst (serve_auth lib a rq evs) \<noteq> Inl (Panicked x)"
proof -
  have "never_panics (serve_auth lib a rq)"
    using me_never_panics login_never_panics[OF assms] refresh_never_panics[OF assms]
      logout_never_panics[OF assms(2)] impersonate_never_panics[OF assms] change_password_never_panics
    by (cases rq) auto
  then show ?thesis by (simp add: never_panics_def)
qed

theorem auth_routes_never_panic_witness:
  "fst (serve_auth demo_lib (demo_app True False) (PostLogin ''nonsense'') []) \<noteq> Inl (Panicked (Panic []))"
  by (rule auth_routes_never_panic[OF demo_signs demo_prints(2) demo_app_ok(1)])

text \<open>
  Behaviour worth knowing. The gates refuse a disabled user, but taking on another identity asks only
  for the administrator flag; and a cookie without a value hides the ones after it.
\<close>

lemma disabled_admin_impersonates:
  "\<exists>r. fst (impersonate demo_lib (demo_app True True)
          [(''authorization'', ''Bearer own.one.sig'')] ''take'' []) = Ok r"
  by (simp add: impersonate_def with_body_def body_parse_def demo_lib_def demo_read_def read_impersonate_def
      required_uuid_def required_string_def body_cookie_def optional_string_def body_finish_def demo_app_def
      resolve_identity_def presented_def bearer_token_def header_to_str_def parse_def demo_decode_def demo_claims_def
      claim_uuid_def claim_instant_def timestamp_secs_def in_i64_def ask_user_def or_host_def and_then_def demo_host_def
      demo_user_def identity_response_def identity_reply_def mint_def demo_encode_def token_claims_def Let_def)

lemma valueless_cookie_hides_token:
  "bearer_token [(''cookie'', ''flag; Authorization=Bearer t'')] = None"
  "bearer_token [(''cookie'', ''Authorization=Bearer t; flag'')] = Some ''t''"
  by (simp_all add: bearer_token_def authorization_cookie_def header_to_str_def trim_blank_def trim_quotes_def)

end
