(* ===== verification/File_System.thy ===== *)
theory File_System
  imports Prelude "HOL-Library.List_Lexorder" "HOL-Library.Char_ord"
begin

text \<open>
  The part of \<open>std::fs\<close> and \<open>std::path\<close> that the file browser calls, on Linux: a tree of inodes
  under absolute paths, resolution of symbolic links, and one function per call with the errors
  it reports. What the operating system may refuse beyond the shape of the tree (permissions, a
  full disk, a file system without hard links) is the function \<open>fault\<close> of the state, so every
  error branch of the callers can be reached. The handlers run one request at a time here:
  interference by other processes between two calls of a request is not modelled. The times of
  a directory are not updated when its entries change.
\<close>

section \<open>Paths and names\<close>

type_synonym path = "str list"

text \<open>\<open>Path::components\<close> of a textual path.\<close>

datatype component = RootDir | CurDir | ParentDir | Normal str

definition piece_component :: "str \<Rightarrow> component list" where
  "piece_component s =
     (if s = '''' \<or> s = ''.'' then [] else if s = ''..'' then [ParentDir] else [Normal s])"

definition components :: "str \<Rightarrow> component list" where
  "components s =
     (if s = '''' then []
      else (case split_on CHR ''/'' s of
        [] \<Rightarrow> []
      | first # rest \<Rightarrow>
          (if first = '''' then [RootDir] else if first = ''.'' then [CurDir] else piece_component first)
          @ concat (map piece_component rest)))"

text \<open>The bytes of a path as text (none for the root, which is short anyway), and the most a call accepts.\<close>

definition path_len :: "path \<Rightarrow> nat" where
  "path_len p = sum_list (map (\<lambda>n. Suc (length n)) p)"

definition PATH_MAX :: nat where
  "PATH_MAX = 4095"

text \<open>
  \<open>OsStr::to_str\<close> and \<open>to_string_lossy\<close>: names are bytes, and each maximal part of a sequence that
  is not UTF-8 is replaced by U+FFFD. \<open>utf8_chunk\<close> tells whether the bytes start with a whole
  character, and how many bytes that character or the invalid part takes.
\<close>

definition in_range :: "nat \<Rightarrow> nat \<Rightarrow> str \<Rightarrow> nat \<Rightarrow> bool" where
  "in_range lo hi s i \<longleftrightarrow> i < length s \<and> lo \<le> (of_char (s ! i) :: nat) \<and> (of_char (s ! i) :: nat) \<le> hi"

definition utf8_chunk :: "str \<Rightarrow> bool \<times> nat" where
  "utf8_chunk s =
     (if in_range 0 127 s 0 then (True, 1)
      else if in_range 194 223 s 0 then (if in_range 128 191 s 1 then (True, 2) else (False, 1))
      else if in_range 224 239 s 0 then
        (let lo = (if in_range 224 224 s 0 then 160 else 128);
             hi = (if in_range 237 237 s 0 then 159 else 191)
         in if \<not> in_range lo hi s 1 then (False, 1)
            else if in_range 128 191 s 2 then (True, 3) else (False, 2))
      else if in_range 240 244 s 0 then
        (let lo = (if in_range 240 240 s 0 then 144 else 128);
             hi = (if in_range 244 244 s 0 then 143 else 191)
         in if \<not> in_range lo hi s 1 then (False, 1)
            else if \<not> in_range 128 191 s 2 then (False, 2)
            else if in_range 128 191 s 3 then (True, 4) else (False, 3))
      else (False, 1))"

lemma utf8_chunk_pos: "0 < snd (utf8_chunk s)"
  by (auto simp: utf8_chunk_def Let_def)

function to_string_lossy :: "str \<Rightarrow> str" where
  "to_string_lossy s =
     (if s = [] then []
      else (let (ok, n) = utf8_chunk s in
        (if ok then take n s else [CHR 0xEF, CHR 0xBF, CHR 0xBD]) @ to_string_lossy (drop n s)))"
  by auto
termination
  by (relation "measure length") (use utf8_chunk_pos in \<open>auto simp: prod_eq_iff\<close>)

declare to_string_lossy.simps [simp del]

function is_utf8 :: "str \<Rightarrow> bool" where
  "is_utf8 s = (if s = [] then True else (let (ok, n) = utf8_chunk s in if ok then is_utf8 (drop n s) else False))"
  by auto
termination
  by (relation "measure length") (use utf8_chunk_pos in \<open>auto simp: prod_eq_iff\<close>)

declare is_utf8.simps [simp del]

section \<open>The file tree\<close>

datatype node_type = File str | Directory | Symlink str | Special

record inode =
  ident :: nat
  itype :: node_type
  modified :: "int option"
  created :: "int option"

text \<open>
  \<open>ident\<close> stands for the device and inode numbers together; the times are nanoseconds since the
  epoch, absent where the file system keeps none. \<open>fs::Metadata\<close> reads an inode.
\<close>

definition is_file :: "inode \<Rightarrow> bool" where
  "is_file n = (case itype n of File _ \<Rightarrow> True | _ \<Rightarrow> False)"

definition is_dir :: "inode \<Rightarrow> bool" where
  "is_dir n = (itype n = Directory)"

definition is_symlink :: "inode \<Rightarrow> bool" where
  "is_symlink n = (case itype n of Symlink _ \<Rightarrow> True | _ \<Rightarrow> False)"

definition content :: "inode \<Rightarrow> str" where
  "content n = (case itype n of File s \<Rightarrow> s | _ \<Rightarrow> [])"

datatype error_kind =
    NotFound | AlreadyExists | DirectoryNotEmpty | IsADirectory | NotADirectory
  | CrossesDevices | InvalidFilename | InvalidInput | StorageFull | QuotaExceeded
  | PermissionDenied | ReadOnlyFilesystem | FilesystemLoop | Unsupported | OtherKind

datatype sys_call =
    Canonicalize | Stat | Lstat | FileType | ReadDir | ReadEntry | OpenRead | ReadData | CreateNew
  | WriteData | SyncData | CreateDir | HardLink | Rename | RenameExclusive | RemoveFile
  | RemoveDir | CopyFile

record file_system =
  nodes :: "(path \<times> inode) list"
  fault :: "sys_call \<Rightarrow> path \<Rightarrow> error_kind option"
  cwd :: path
  next_ident :: nat
  now :: int

definition root_inode :: inode where
  "root_inode = \<lparr>ident = 0, itype = Directory, modified = None, created = None\<rparr>"

definition node_at :: "file_system \<Rightarrow> path \<Rightarrow> inode option" where
  "node_at fs p = (if p = [] then Some root_inode else map_of (nodes fs) p)"

definition children :: "file_system \<Rightarrow> path \<Rightarrow> str list" where
  "children fs p = map last (filter (\<lambda>q. q \<noteq> [] \<and> butlast q = p) (map fst (nodes fs)))"

text \<open>
  A tree: an entry has one inode, a name that is not empty and holds no slash, a directory it stands in, and a
  number the next inode will not take.
\<close>

definition entry_name :: "str \<Rightarrow> bool" where
  "entry_name n \<longleftrightarrow> n \<noteq> [] \<and> CHR ''/'' \<notin> set n"

definition wf_tree :: "file_system \<Rightarrow> bool" where
  "wf_tree fs \<longleftrightarrow>
     distinct (map fst (nodes fs)) \<and>
     (\<forall>(p, n) \<in> set (nodes fs).
        p \<noteq> [] \<and> entry_name (last p) \<and> ident n < next_ident fs \<and>
        (case node_at fs (butlast p) of Some d \<Rightarrow> is_dir d | None \<Rightarrow> False))"

text \<open>What a call checks first: the length of its path and the refusals of the system.\<close>

definition admitted :: "file_system \<Rightarrow> sys_call \<Rightarrow> path \<Rightarrow> (error_kind, unit) result" where
  "admitted fs c p =
     (if PATH_MAX < path_len p then Err InvalidFilename
      else (case fault fs c p of Some e \<Rightarrow> Err e | None \<Rightarrow> Ok ()))"

definition parent_dir :: "file_system \<Rightarrow> path \<Rightarrow> (error_kind, unit) result" where
  "parent_dir fs p =
     (case node_at fs (butlast p) of
        None \<Rightarrow> Err NotFound
      | Some d \<Rightarrow> if is_dir d then Ok () else Err NotADirectory)"

section \<open>Calls that read\<close>

text \<open>
  Following a path name by name. A symbolic link continues with its target, at most 40 of them;
  the last name may be missing, which the callers tell apart.
\<close>

definition MAX_SYMLINKS :: nat where
  "MAX_SYMLINKS = 40"

function follow ::
  "file_system \<Rightarrow> nat \<Rightarrow> path \<Rightarrow> component list \<Rightarrow> (error_kind, path) result" where
  "follow fs links at [] = Ok at"
| "follow fs links at (RootDir # cs) = follow fs links [] cs"
| "follow fs links at (CurDir # cs) = follow fs links at cs"
| "follow fs links at (ParentDir # cs) = follow fs links (butlast at) cs"
| "follow fs links at (Normal n # cs) =
     (case node_at fs (at @ [n]) of
        None \<Rightarrow> if cs = [] then Ok (at @ [n]) else Err NotFound
      | Some nd \<Rightarrow>
          (case itype nd of
             Directory \<Rightarrow> follow fs links (at @ [n]) cs
           | Symlink t \<Rightarrow>
               (case links of
                  0 \<Rightarrow> Err FilesystemLoop
                | Suc k \<Rightarrow> follow fs k at (components t @ cs))
           | _ \<Rightarrow> if cs = [] then Ok (at @ [n]) else Err NotADirectory))"
  by pat_completeness auto
termination
  by (relation "measures [\<lambda>(fs, l, p, cs). l, \<lambda>(fs, l, p, cs). length cs]") auto

text \<open>\<open>fs::canonicalize\<close>, of a path whose names are given and of a textual path.\<close>

definition fs_canonicalize :: "file_system \<Rightarrow> path \<Rightarrow> (error_kind, path) result" where
  "fs_canonicalize fs p =
     try_then (admitted fs Canonicalize p) (\<lambda>_.
     try_then (follow fs MAX_SYMLINKS [] (map Normal p)) (\<lambda>q.
     if node_at fs q = None then Err NotFound else Ok q))"

definition fs_canonicalize_text :: "file_system \<Rightarrow> str \<Rightarrow> (error_kind, path) result" where
  "fs_canonicalize_text fs s =
     (if PATH_MAX < length s then Err InvalidFilename
      else if s = '''' then Err NotFound
      else try_then (follow fs MAX_SYMLINKS (cwd fs) (components s)) (\<lambda>q.
        if node_at fs q = None then Err NotFound
        else try_then (admitted fs Canonicalize q) (\<lambda>_. Ok q)))"

text \<open>
  The other calls take paths whose directories are canonical, as the file browser's always are,
  so the entry is looked up where it stands. \<open>fs::metadata\<close> is asked of canonical paths only.
\<close>

definition stat_call :: "sys_call \<Rightarrow> file_system \<Rightarrow> path \<Rightarrow> (error_kind, inode) result" where
  "stat_call c fs p =
     try_then (admitted fs c p) (\<lambda>_.
     case node_at fs p of None \<Rightarrow> Err NotFound | Some n \<Rightarrow> Ok n)"

definition fs_metadata :: "file_system \<Rightarrow> path \<Rightarrow> (error_kind, inode) result" where
  "fs_metadata = stat_call Stat"

definition fs_symlink_metadata :: "file_system \<Rightarrow> path \<Rightarrow> (error_kind, inode) result" where
  "fs_symlink_metadata = stat_call Lstat"

text \<open>The entries of a directory, each of which may itself fail to be read.\<close>

definition fs_read_dir :: "file_system \<Rightarrow> path \<Rightarrow> (error_kind, (error_kind, str) result list) result" where
  "fs_read_dir fs p =
     try_then (admitted fs ReadDir p) (\<lambda>_.
     case node_at fs p of
       None \<Rightarrow> Err NotFound
     | Some d \<Rightarrow>
         if is_dir d then
           Ok (map (\<lambda>n. case fault fs ReadEntry (p @ [n]) of Some e \<Rightarrow> Err e | None \<Rightarrow> Ok n)
                 (children fs p))
         else Err NotADirectory)"

definition fs_file_type :: "file_system \<Rightarrow> path \<Rightarrow> (error_kind, inode) result" where
  "fs_file_type = stat_call FileType"

text \<open>Opening for reading with \<open>O_NOFOLLOW\<close>, and reading all a file holds.\<close>

definition open_without_following :: "file_system \<Rightarrow> path \<Rightarrow> (error_kind, inode) result" where
  "open_without_following fs p =
     try_then (stat_call OpenRead fs p) (\<lambda>n.
     if is_symlink n then Err FilesystemLoop else Ok n)"

definition fs_read_all :: "file_system \<Rightarrow> path \<Rightarrow> inode \<Rightarrow> (error_kind, str) result" where
  "fs_read_all fs p n =
     (case fault fs ReadData p of
        Some e \<Rightarrow> Err e
      | None \<Rightarrow> if is_dir n then Err IsADirectory else Ok (content n))"

section \<open>Calls that write\<close>

definition add_node :: "path \<Rightarrow> inode \<Rightarrow> file_system \<Rightarrow> file_system" where
  "add_node p n fs = fs\<lparr>nodes := nodes fs @ [(p, n)]\<rparr>"

definition drop_node :: "path \<Rightarrow> file_system \<Rightarrow> file_system" where
  "drop_node p fs = fs\<lparr>nodes := filter (\<lambda>(q, _). q \<noteq> p) (nodes fs)\<rparr>"

definition new_node :: "path \<Rightarrow> node_type \<Rightarrow> file_system \<Rightarrow> file_system" where
  "new_node p t fs =
     (add_node p \<lparr>ident = next_ident fs, itype = t, modified = Some (now fs), created = Some (now fs)\<rparr> fs)
       \<lparr>next_ident := Suc (next_ident fs)\<rparr>"

text \<open>A call that makes a new entry: refused when one exists or its directory is
  missing. The answer is the number of the inode made, which an open file is known by.\<close>

definition create_call ::
  "sys_call \<Rightarrow> node_type \<Rightarrow> file_system \<Rightarrow> path \<Rightarrow> (error_kind, nat) result \<times> file_system" where
  "create_call c t fs p =
     (case try_then (admitted fs c p) (\<lambda>_.
           if node_at fs p \<noteq> None then Err AlreadyExists else parent_dir fs p) of
        Inl e \<Rightarrow> (Err e, fs)
      | Inr _ \<Rightarrow> (Ok (next_ident fs), new_node p t fs))"

definition fs_create_new :: "file_system \<Rightarrow> path \<Rightarrow> (error_kind, nat) result \<times> file_system" where
  "fs_create_new = create_call CreateNew (File [])"

definition fs_create_dir :: "file_system \<Rightarrow> path \<Rightarrow> (error_kind, nat) result \<times> file_system" where
  "fs_create_dir = create_call CreateDir Directory"

text \<open>Writing to an open file changes its inode, under every name it has.\<close>

definition set_content :: "nat \<Rightarrow> (str \<Rightarrow> str) \<Rightarrow> file_system \<Rightarrow> file_system" where
  "set_content i f fs =
     fs\<lparr>nodes := map (\<lambda>(q, n).
          (q, if ident n = i \<and> is_file n
              then n\<lparr>itype := File (f (content n)), modified := Some (now fs)\<rparr> else n)) (nodes fs)\<rparr>"

definition fs_write_all ::
  "file_system \<Rightarrow> path \<Rightarrow> nat \<Rightarrow> str \<Rightarrow> (error_kind, unit) result \<times> file_system" where
  "fs_write_all fs p i data =
     (case fault fs WriteData p of
        Some e \<Rightarrow> (Err e, fs)
      | None \<Rightarrow> (Ok (), set_content i (\<lambda>s. s @ data) fs))"

definition fs_sync :: "file_system \<Rightarrow> path \<Rightarrow> (error_kind, unit) result" where
  "fs_sync fs p = (case fault fs SyncData p of Some e \<Rightarrow> Err e | None \<Rightarrow> Ok ())"

definition fs_hard_link ::
  "file_system \<Rightarrow> path \<Rightarrow> path \<Rightarrow> (error_kind, unit) result \<times> file_system" where
  "fs_hard_link fs from to =
     (case try_then (admitted fs HardLink to) (\<lambda>_.
           case node_at fs from of
             None \<Rightarrow> Err NotFound
           | Some n \<Rightarrow>
               if node_at fs to \<noteq> None then Err AlreadyExists
               else if is_dir n then Err PermissionDenied
               else try_then (parent_dir fs to) (\<lambda>_. Ok n)) of
        Inl e \<Rightarrow> (Err e, fs)
      | Inr n \<Rightarrow> (Ok (), add_node to n fs))"

text \<open>Moving a whole subtree, in place of what stood at its new name.\<close>

definition move_path :: "path \<Rightarrow> path \<Rightarrow> path \<Rightarrow> path" where
  "move_path from to q = (if prefix from q then to @ drop (length from) q else q)"

definition move_nodes :: "path \<Rightarrow> path \<Rightarrow> file_system \<Rightarrow> file_system" where
  "move_nodes from to fs =
     fs\<lparr>nodes := map (\<lambda>(q, n). (move_path from to q, n)) (nodes (drop_node to fs))\<rparr>"

definition rename_check ::
  "file_system \<Rightarrow> path \<Rightarrow> path \<Rightarrow> (error_kind, inode \<times> inode option) result" where
  "rename_check fs from to =
     (case node_at fs from of
        None \<Rightarrow> Err NotFound
      | Some n \<Rightarrow> try_then (parent_dir fs to) (\<lambda>_.
          if is_dir n \<and> strict_prefix from to then Err InvalidInput
          else Ok (n, node_at fs to)))"

text \<open>\<open>fs::rename\<close>: two names of one inode are left alone, a directory only replaces an empty one.\<close>

definition fs_rename ::
  "file_system \<Rightarrow> path \<Rightarrow> path \<Rightarrow> (error_kind, unit) result \<times> file_system" where
  "fs_rename fs from to =
     (case try_then (admitted fs Rename from) (\<lambda>_. try_then (admitted fs Rename to) (\<lambda>_.
           rename_check fs from to)) of
        Inl e \<Rightarrow> (Err e, fs)
      | Inr (n, None) \<Rightarrow> (Ok (), move_nodes from to fs)
      | Inr (n, Some old) \<Rightarrow>
          if ident old = ident n then (Ok (), fs)
          else if is_dir n then
            if \<not> is_dir old then (Err NotADirectory, fs)
            else if children fs to \<noteq> [] then (Err DirectoryNotEmpty, fs)
            else (Ok (), move_nodes from to fs)
          else if is_dir old then (Err IsADirectory, fs)
          else (Ok (), move_nodes from to fs))"

text \<open>\<open>renameat2\<close> with \<open>RENAME_NOREPLACE\<close>.\<close>

definition exclusive_rename ::
  "file_system \<Rightarrow> path \<Rightarrow> path \<Rightarrow> (error_kind, unit) result \<times> file_system" where
  "exclusive_rename fs from to =
     (case try_then (admitted fs RenameExclusive from) (\<lambda>_. try_then (admitted fs RenameExclusive to) (\<lambda>_.
           rename_check fs from to)) of
        Inl e \<Rightarrow> (Err e, fs)
      | Inr (n, None) \<Rightarrow> (Ok (), move_nodes from to fs)
      | Inr (n, Some _) \<Rightarrow> (Err AlreadyExists, fs))"

definition fs_remove_file :: "file_system \<Rightarrow> path \<Rightarrow> (error_kind, unit) result \<times> file_system" where
  "fs_remove_file fs p =
     (case stat_call RemoveFile fs p of
        Inl e \<Rightarrow> (Err e, fs)
      | Inr n \<Rightarrow> if is_dir n then (Err IsADirectory, fs) else (Ok (), drop_node p fs))"

definition fs_remove_dir :: "file_system \<Rightarrow> path \<Rightarrow> (error_kind, unit) result \<times> file_system" where
  "fs_remove_dir fs p =
     (case stat_call RemoveDir fs p of
        Inl e \<Rightarrow> (Err e, fs)
      | Inr n \<Rightarrow>
          if \<not> is_dir n then (Err NotADirectory, fs)
          else if children fs p \<noteq> [] then (Err DirectoryNotEmpty, fs)
          else (Ok (), drop_node p fs))"

text \<open>
  \<open>fs::remove_dir_all\<close>: what the directory holds goes before the directory itself, without
  following links, up to the first entry the system refuses to remove.
\<close>

definition subtree_order :: "file_system \<Rightarrow> path \<Rightarrow> path list" where
  "subtree_order fs p = rev (sort_key length (filter (prefix p) (map fst (nodes fs))))"

fun remove_each :: "file_system \<Rightarrow> path list \<Rightarrow> (error_kind, unit) result \<times> file_system" where
  "remove_each fs [] = (Ok (), fs)"
| "remove_each fs (q # qs) =
     (case fault fs RemoveFile q of
        Some e \<Rightarrow> (Err e, fs)
      | None \<Rightarrow> remove_each (drop_node q fs) qs)"

definition fs_remove_dir_all :: "file_system \<Rightarrow> path \<Rightarrow> (error_kind, unit) result \<times> file_system" where
  "fs_remove_dir_all fs p =
     (case stat_call RemoveDir fs p of
        Inl e \<Rightarrow> (Err e, fs)
      | Inr n \<Rightarrow>
          if is_symlink n then (Ok (), drop_node p fs)
          else if \<not> is_dir n then (Err NotADirectory, fs)
          else remove_each fs (subtree_order fs p))"

text \<open>
  \<open>fs::copy\<close> of a regular file. The target is created, or truncated where it exists; a link
  there is followed, also to a name that does not exist yet.
\<close>

definition open_target :: "file_system \<Rightarrow> path \<Rightarrow> (error_kind, path) result" where
  "open_target fs p =
     (case node_at fs p of
        Some n \<Rightarrow> (case itype n of Symlink _ \<Rightarrow> follow fs MAX_SYMLINKS [] (map Normal p) | _ \<Rightarrow> Ok p)
      | None \<Rightarrow> Ok p)"

definition fs_copy ::
  "file_system \<Rightarrow> path \<Rightarrow> path \<Rightarrow> (error_kind, unit) result \<times> file_system" where
  "fs_copy fs from to =
     (case try_then (stat_call OpenRead fs from) (\<lambda>n.
           if \<not> is_file n then Err InvalidInput
           else try_then (admitted fs CopyFile to) (\<lambda>_.
           try_then (open_target fs to) (\<lambda>q. Ok (content n, q)))) of
        Inl e \<Rightarrow> (Err e, fs)
      | Inr (s, q) \<Rightarrow>
          (case node_at fs q of
             None \<Rightarrow> (case parent_dir fs q of Inl e \<Rightarrow> (Err e, fs) | Inr _ \<Rightarrow> (Ok (), new_node q (File s) fs))
           | Some old \<Rightarrow>
               if is_dir old then (Err IsADirectory, fs)
               else (Ok (), set_content (ident old) (\<lambda>_. s) fs)))"

section \<open>What a call leaves alone\<close>

text \<open>The entry at a path and everything below it.\<close>

definition subtree :: "path \<Rightarrow> path set" where
  "subtree p = {q. prefix p q}"

definition same_outside :: "path set \<Rightarrow> file_system \<Rightarrow> file_system \<Rightarrow> bool" where
  "same_outside R fs fs' \<longleftrightarrow> (\<forall>q. q \<notin> R \<longrightarrow> node_at fs' q = node_at fs q)"

named_theorems frame \<open>the region a call may change\<close>

lemma subtree_self [simp]: "p \<in> subtree p"
  by (simp add: subtree_def)

lemma subtree_append [simp]: "p @ q \<in> subtree p"
  by (simp add: subtree_def)

lemma same_outside_refl [simp]: "same_outside R fs fs"
  by (simp add: same_outside_def)

lemma same_outside_trans:
  "same_outside R fs fs' \<Longrightarrow> same_outside R fs' fs'' \<Longrightarrow> same_outside R fs fs''"
  by (simp add: same_outside_def)

lemma same_outside_mono: "same_outside R fs fs' \<Longrightarrow> R \<subseteq> Q \<Longrightarrow> same_outside Q fs fs'"
  by (auto simp: same_outside_def)

lemma same_outside_restored:
  assumes "same_outside (insert p R) fs fs'" and "node_at fs' p = node_at fs p"
  shows "same_outside R fs fs'"
  unfolding same_outside_def
proof (intro allI impI)
  fix q assume "q \<notin> R"
  then show "node_at fs' q = node_at fs q"
    using assms by (cases "q = p") (simp_all add: same_outside_def)
qed

lemma same_outside_node: "same_outside R fs fs' \<Longrightarrow> q \<notin> R \<Longrightarrow> node_at fs' q = node_at fs q"
  by (simp add: same_outside_def)

lemma node_at_root [simp]: "node_at fs [] = Some root_inode"
  by (simp add: node_at_def)

lemma node_at_drop_node:
  "node_at (drop_node p fs) q = (if q = p \<and> p \<noteq> [] then None else node_at fs q)"
proof -
  have "map_of (filter (\<lambda>(q, _). q \<noteq> p) xs) q = (if q = p then None else map_of xs q)" for xs :: "(path \<times> inode) list"
    by (induction xs) auto
  from this[of "nodes fs"] show ?thesis
    by (auto simp: node_at_def drop_node_def)
qed

lemma node_at_add_node:
  "node_at fs p = None \<Longrightarrow> node_at (add_node p n fs) q = (if q = p then Some n else node_at fs q)"
  by (auto simp: node_at_def add_node_def map_add_def split: if_splits option.splits)

lemma node_at_next_ident [simp]: "node_at (fs\<lparr>next_ident := i\<rparr>) q = node_at fs q"
  by (simp add: node_at_def)

lemma node_at_new_node:
  "node_at fs p = None \<Longrightarrow>
     node_at (new_node p t fs) q =
       (if q = p
        then Some \<lparr>ident = next_ident fs, itype = t, modified = Some (now fs), created = Some (now fs)\<rparr>
        else node_at fs q)"
  by (simp add: new_node_def node_at_add_node)

lemma node_at_set_content:
  "node_at (set_content i f fs) q =
     map_option (\<lambda>n. if ident n = i \<and> is_file n
       then n\<lparr>itype := File (f (content n)), modified := Some (now fs)\<rparr> else n) (node_at fs q)"
proof -
  have "map_of (map (\<lambda>(q, n). (q, g n)) xs) q = map_option g (map_of xs q)" for g :: "inode \<Rightarrow> inode" and xs :: "(path \<times> inode) list"
    by (induction xs) auto
  then show ?thesis
    by (simp add: node_at_def set_content_def root_inode_def is_file_def)
qed

lemma move_path_outside:
  "q \<notin> subtree from \<Longrightarrow> q \<notin> subtree to \<Longrightarrow> move_path from to r = q \<longleftrightarrow> r = q"
  by (auto simp: move_path_def subtree_def)

lemma map_of_moved:
  assumes "q \<notin> subtree from" and "q \<notin> subtree to"
  shows "map_of (map (\<lambda>(r, n). (move_path from to r, n)) xs) q = map_of xs q"
proof (induction xs)
  case (Cons x xs)
  then show ?case
    using move_path_outside[OF assms, of "fst x"] by (cases x) auto
qed simp

lemma move_nodes_frame: "same_outside (subtree from \<union> subtree to) fs (move_nodes from to fs)"
proof -
  have "node_at (move_nodes from to fs) q = node_at fs q"
    if "q \<notin> subtree from" "q \<notin> subtree to" for q
  proof -
    have "node_at (move_nodes from to fs) q = node_at (drop_node to fs) q"
      using map_of_moved[OF \<open>q \<notin> subtree from\<close> \<open>q \<notin> subtree to\<close>, of "nodes (drop_node to fs)"] by (simp add: node_at_def move_nodes_def)
    then show ?thesis
      using \<open>q \<notin> subtree to\<close> by (auto simp: node_at_drop_node subtree_def)
  qed
  then show ?thesis
    by (simp add: same_outside_def)
qed

lemma create_call_frame: "same_outside {p} fs (snd (create_call c t fs p))"
  by (auto simp: create_call_def same_outside_def node_at_new_node try_then_Inr_iff
      split: sum.splits if_splits)

lemma fs_create_new_frame [frame]: "same_outside {p} fs (snd (fs_create_new fs p))"
  by (simp add: fs_create_new_def create_call_frame)

lemma fs_create_dir_frame [frame]: "same_outside {p} fs (snd (fs_create_dir fs p))"
  by (simp add: fs_create_dir_def create_call_frame)

lemma fs_hard_link_frame [frame]: "same_outside {to} fs (snd (fs_hard_link fs from to))"
  by (auto simp: fs_hard_link_def same_outside_def node_at_add_node try_then_Inr_iff
      split: sum.splits if_splits option.splits)

lemma fs_rename_frame [frame]: "same_outside (subtree from \<union> subtree to) fs (snd (fs_rename fs from to))"
  using move_nodes_frame[of "from" to fs] by (simp add: fs_rename_def split: sum.splits option.splits)

lemma exclusive_rename_frame [frame]:
  "same_outside (subtree from \<union> subtree to) fs (snd (exclusive_rename fs from to))"
  using move_nodes_frame[of "from" to fs] by (simp add: exclusive_rename_def split: sum.splits option.splits)

lemma fs_remove_file_frame [frame]: "same_outside {p} fs (snd (fs_remove_file fs p))"
  by (auto simp: fs_remove_file_def same_outside_def node_at_drop_node split: sum.splits)

lemma fs_remove_dir_frame [frame]: "same_outside {p} fs (snd (fs_remove_dir fs p))"
  by (auto simp: fs_remove_dir_def same_outside_def node_at_drop_node split: sum.splits)

lemma remove_each_frame: "set qs \<subseteq> R \<Longrightarrow> same_outside R fs (snd (remove_each fs qs))"
proof (induction qs arbitrary: fs)
  case (Cons q qs)
  have "same_outside R fs (drop_node q fs)"
    using Cons.prems by (auto simp: same_outside_def node_at_drop_node)
  then show ?case
    using Cons by (auto split: option.splits intro: same_outside_trans)
qed simp

lemma fs_remove_dir_all_frame [frame]: "same_outside (subtree p) fs (snd (fs_remove_dir_all fs p))"
proof -
  have "set (subtree_order fs p) \<subseteq> subtree p"
    by (auto simp: subtree_order_def subtree_def)
  then show ?thesis
    by (auto simp: fs_remove_dir_all_def remove_each_frame split: sum.splits)
      (auto simp: same_outside_def node_at_drop_node)
qed

lemma fs_copy_new_frame:
  "node_at fs to = None \<Longrightarrow> same_outside {to} fs (snd (fs_copy fs from to))"
  by (auto simp: fs_copy_def open_target_def same_outside_def node_at_new_node try_then_Inr_iff
      split: sum.splits option.splits)

text \<open>Two names of one inode are left alone by a rename.\<close>

lemma fs_rename_same:
  assumes "node_at fs from = Some n" and "node_at fs to = Some old" and "ident old = ident n"
  shows "snd (fs_rename fs from to) = fs"
  using assms by (auto simp: fs_rename_def rename_check_def try_then_Inr_iff split: sum.splits option.splits if_splits)

section \<open>Trees\<close>

lemma wf_treeD:
  assumes "wf_tree fs" and "node_at fs p = Some n" and "p \<noteq> []"
  shows "entry_name (last p)" and "ident n < next_ident fs"
    and "\<exists>d. node_at fs (butlast p) = Some d \<and> is_dir d"
proof -
  have "(p, n) \<in> set (nodes fs)"
    using assms(2,3) by (auto simp: node_at_def dest: map_of_SomeD)
  then have "entry_name (last p) \<and> ident n < next_ident fs \<and>
      (case node_at fs (butlast p) of Some d \<Rightarrow> is_dir d | None \<Rightarrow> False)"
    using assms(1) unfolding wf_tree_def by blast
  then show "entry_name (last p)" "ident n < next_ident fs"
      "\<exists>d. node_at fs (butlast p) = Some d \<and> is_dir d"
    by (auto split: option.splits)
qed

text \<open>Every proper leading part of a path that exists is a directory.\<close>

lemma wf_tree_ancestor:
  assumes "wf_tree fs" and "node_at fs (p @ r) = Some n" and "r \<noteq> []"
  shows "\<exists>d. node_at fs p = Some d \<and> is_dir d"
  using assms(2,3)
proof (induction r arbitrary: n rule: rev_induct)
  case (snoc x xs)
  have "\<exists>d. node_at fs (butlast (p @ xs @ [x])) = Some d \<and> is_dir d"
    using wf_treeD(3)[OF assms(1) snoc.prems(1)] by simp
  then obtain d where d: "node_at fs (p @ xs) = Some d" "is_dir d"
    by (auto simp: butlast_append)
  show ?case
  proof (cases "xs = []")
    case True
    then show ?thesis using d by auto
  next
    case False
    then show ?thesis using snoc.IH[OF d(1)] by simp
  qed
qed simp

lemma wf_tree_below_missing:
  "wf_tree fs \<Longrightarrow> node_at fs p = None \<Longrightarrow> q \<in> subtree p \<Longrightarrow> node_at fs q = None"
  using wf_tree_ancestor[of fs p "drop (length p) q"]
  by (cases "node_at fs q"; cases "drop (length p) q = []") (auto simp: subtree_def prefix_def)

lemma wf_tree_below_file:
  "wf_tree fs \<Longrightarrow> node_at fs p = Some n \<Longrightarrow> \<not> is_dir n \<Longrightarrow> q \<in> subtree p \<Longrightarrow> q \<noteq> p \<Longrightarrow> node_at fs q = None"
  using wf_tree_ancestor[of fs p "drop (length p) q"]
  by (cases "node_at fs q"; cases "drop (length p) q = []") (auto simp: subtree_def prefix_def)

lemma wf_tree_names:
  assumes "wf_tree fs" and "node_at fs (p @ r) = Some n"
  shows "\<forall>x \<in> set r. entry_name x"
proof
  fix x assume "x \<in> set r"
  then obtain a b where r: "r = a @ x # b"
    by (auto dest: split_list)
  have "\<exists>k. node_at fs ((p @ a) @ [x]) = Some k"
  proof (cases "b = []")
    case True
    then show ?thesis using assms(2) r by simp
  next
    case False
    then show ?thesis using wf_tree_ancestor[OF assms(1), of "(p @ a) @ [x]" b n] assms(2) r by auto
  qed
  then obtain k where "node_at fs ((p @ a) @ [x]) = Some k"
    by blast
  from wf_treeD(1)[OF assms(1) this] show "entry_name x"
    by simp
qed

lemma child_listed:
  "node_at fs (p @ [n]) \<noteq> None \<Longrightarrow> n \<in> set (children fs p)"
  by (force simp: children_def node_at_def dest: map_of_SomeD split: if_splits)

lemma child_exists:
  "n \<in> set (children fs p) \<Longrightarrow> \<exists>i. node_at fs (p @ [n]) = Some i"
proof -
  assume "n \<in> set (children fs p)"
  then obtain q i where q: "(q, i) \<in> set (nodes fs)" "q \<noteq> []" "butlast q = p" "last q = n"
    by (auto simp: children_def)
  then have "q = p @ [n]"
    by (metis append_butlast_last_id)
  with q(1) show ?thesis
    by (auto simp: node_at_def weak_map_of_SomeI)
qed

section \<open>A copy stays below its target\<close>

text \<open>
  While a directory is copied to \<open>p\<close>, where nothing stood in the tree \<open>fs\<close> it started from, all
  that changes is below \<open>p\<close>, and what stands there was made since.
\<close>

definition sandbox :: "path \<Rightarrow> file_system \<Rightarrow> file_system \<Rightarrow> bool" where
  "sandbox p fs fs' \<longleftrightarrow>
     same_outside (subtree p) fs fs' \<and>
     next_ident fs \<le> next_ident fs' \<and>
     (\<forall>q \<in> subtree p. \<forall>n. node_at fs' q = Some n \<longrightarrow> next_ident fs \<le> ident n \<and> (is_file n \<or> is_dir n))"

lemma sandbox_outside: "sandbox p fs fs' \<Longrightarrow> same_outside (subtree p) fs fs'"
  by (simp add: sandbox_def)

lemma sandbox_start:
  assumes "wf_tree fs" and "node_at fs p = None"
  shows "sandbox p fs fs"
  using wf_tree_below_missing[OF assms] by (simp add: sandbox_def)

lemma next_ident_new_node [simp]: "next_ident (new_node q t fs) = Suc (next_ident fs)"
  by (simp add: new_node_def)

lemma next_ident_set_content [simp]: "next_ident (set_content i f fs) = next_ident fs"
  by (simp add: set_content_def)

lemma sandbox_new_node:
  assumes "sandbox p fs fs'" and "q \<in> subtree p" and "node_at fs' q = None"
    and "t = Directory \<or> (\<exists>s. t = File s)"
  shows "sandbox p fs (new_node q t fs')"
proof -
  have "same_outside (subtree p) fs' (new_node q t fs')"
    using assms(2,3) by (auto simp: same_outside_def node_at_new_node)
  then show ?thesis
    using assms same_outside_trans by (auto simp: sandbox_def node_at_new_node is_file_def is_dir_def)
qed

lemma sandbox_create_dir:
  assumes "sandbox p fs fs'" and "q \<in> subtree p"
  shows "sandbox p fs (snd (fs_create_dir fs' q))"
  using assms by (auto simp: fs_create_dir_def create_call_def try_then_Inr_iff
      intro!: sandbox_new_node split: sum.splits if_splits)

lemma sandbox_set_content:
  assumes "wf_tree fs" and "sandbox p fs fs'" and "next_ident fs \<le> i" and "p \<noteq> []"
  shows "sandbox p fs (set_content i f fs')"
proof -
  have "node_at (set_content i f fs') q = node_at fs' q" if q: "q \<notin> subtree p" for q
  proof (cases "q = []")
    case False
    have "node_at fs' q = node_at fs q"
      using assms(2) q by (auto simp: sandbox_def same_outside_def)
    then have "ident n \<noteq> i" if "node_at fs' q = Some n" for n
      using wf_treeD(2)[OF assms(1), of q n] False assms(3) that by auto
    then show ?thesis
      by (cases "node_at fs' q") (auto simp: node_at_set_content)
  qed simp
  then have "same_outside (subtree p) fs' (set_content i f fs')"
    by (simp add: same_outside_def)
  then show ?thesis
    using assms(2) same_outside_trans
    by (auto simp: sandbox_def node_at_set_content is_file_def is_dir_def split: if_splits)
qed

lemma sandbox_copy:
  assumes "wf_tree fs" and "sandbox p fs fs'" and "q \<in> subtree p" and "p \<noteq> []"
  shows "sandbox p fs (snd (fs_copy fs' from q))"
proof -
  have target: "open_target fs' q = Ok q"
  proof (cases "node_at fs' q")
    case (Some n)
    then have "is_file n \<or> is_dir n"
      using assms(2,3) by (auto simp: sandbox_def)
    then show ?thesis
      using Some by (auto simp: open_target_def is_file_def is_dir_def split: node_type.splits)
  qed (simp add: open_target_def)
  show ?thesis
  proof (cases "node_at fs' q")
    case None
    then show ?thesis
      using assms sandbox_new_node[OF assms(2,3) None]
      by (auto simp: fs_copy_def target try_then_Inr_iff split: sum.splits)
  next
    case (Some n)
    then have "next_ident fs \<le> ident n"
      using assms(2,3) by (auto simp: sandbox_def)
    then show ?thesis
      using Some assms sandbox_set_content
      by (auto simp: fs_copy_def target try_then_Inr_iff split: sum.splits)
  qed
qed

section \<open>Moving a file\<close>

text \<open>
  A path that holds nothing below it moves to a name that is not above it: the new name has its
  inode, the old one has none, and the rest is as it was.
\<close>

lemma move_path_eq:
  "move_path from to r = q \<longleftrightarrow> (\<exists>s. r = from @ s \<and> q = to @ s) \<or> (\<not> prefix from r \<and> r = q)"
  by (auto simp: move_path_def prefix_def)

lemma map_of_mapped:
  assumes "\<And>r. r \<in> fst ` set xs \<Longrightarrow> f r = q \<longleftrightarrow> r = p"
  shows "map_of (map (\<lambda>(r, n). (f r, n)) xs) q = map_of xs p"
  using assms by (induction xs) force+

lemma move_nodes_leaf:
  assumes "to \<noteq> []" and "\<not> prefix to from" and "\<not> prefix from to" and "from \<noteq> []"
    and leaf: "\<And>s. s \<noteq> [] \<Longrightarrow> node_at fs (from @ s) = None"
  shows "node_at (move_nodes from to fs) q =
     (if q = to then node_at fs from else if q = from then None else node_at fs q)"
proof -
  let ?xs = "nodes (drop_node to fs)"
  have keys: "r \<noteq> to \<and> (\<forall>s. s \<noteq> [] \<longrightarrow> r \<noteq> from @ s)" if "r \<in> fst ` set ?xs" for r
  proof -
    have "r \<in> fst ` set (nodes fs)"
      using that by (force simp: drop_node_def)
    then have "node_at fs r \<noteq> None" if "r \<noteq> []"
      using that by (simp add: node_at_def map_of_eq_None_iff)
    then show ?thesis
      using that leaf assms(4) by (auto simp: drop_node_def)
  qed
  have at: "node_at (move_nodes from to fs) q = (if q = [] then Some root_inode
      else map_of (map (\<lambda>(r, n). (move_path from to r, n)) ?xs) q)"
    by (simp add: node_at_def move_nodes_def)
  consider "q = to" | "q = from" "q \<noteq> to" | "q \<noteq> to" "q \<noteq> from"
    by blast
  then show ?thesis
  proof cases
    case 1
    have "map_of (map (\<lambda>(r, n). (move_path from to r, n)) ?xs) to = map_of ?xs from"
      by (rule map_of_mapped) (use keys in \<open>auto simp: move_path_eq\<close>)
    moreover have "map_of ?xs from = node_at fs from"
      using node_at_drop_node[of to fs "from"] assms(2,4) by (auto simp: node_at_def split: if_splits)
    ultimately show ?thesis
      using 1 assms(1) at by simp
  next
    case 2
    have "from \<noteq> move_path from to r" for r
      using assms(2) move_path_eq[of "from" to r "from"] by (metis prefixI prefix_order.refl)
    then have "map_of (map (\<lambda>(r, n). (move_path from to r, n)) ?xs) from = None"
      by (auto simp: map_of_eq_None_iff)
    then show ?thesis
      using 2 assms(4) at by simp
  next
    case 3
    have "map_of (map (\<lambda>(r, n). (move_path from to r, n)) ?xs) q = map_of ?xs q"
    proof (rule map_of_mapped)
      fix r assume "r \<in> fst ` set ?xs"
      then show "move_path from to r = q \<longleftrightarrow> r = q"
        using keys[of r] 3 by (auto simp: move_path_eq prefix_def)
    qed
    then show ?thesis
      using 3 at node_at_drop_node[of to fs q] by (auto simp: node_at_def split: if_splits)
  qed
qed

section \<open>UTF-8\<close>

lemma to_string_lossy_Nil [simp]: "to_string_lossy [] = []"
  by (simp add: to_string_lossy.simps)

lemma to_string_lossy_utf8: "is_utf8 s \<Longrightarrow> to_string_lossy s = s"
proof (induction s rule: is_utf8.induct)
  case (1 s)
  show ?case
  proof (cases "s = []")
    case False
    obtain ok n where c: "utf8_chunk s = (ok, n)"
      by (cases "utf8_chunk s")
    have "ok \<and> is_utf8 (drop n s)"
      using "1.prems" False c by (simp add: is_utf8.simps[of s] split: if_splits)
    then show ?thesis
      using "1.IH"[OF False c[symmetric]] c False by (simp add: to_string_lossy.simps[of s])
  qed simp
qed

lemma to_string_lossy_empty [simp]: "to_string_lossy s = [] \<longleftrightarrow> s = []"
proof -
  have "to_string_lossy s \<noteq> []" if "s \<noteq> []"
  proof -
    obtain ok n where c: "utf8_chunk s = (ok, n)"
      by (cases "utf8_chunk s")
    then have "0 < n"
      using utf8_chunk_pos[of s] by simp
    then show ?thesis
      using that c by (subst to_string_lossy.simps) simp
  qed
  then show ?thesis
    by auto
qed

lemma to_string_lossy_no_slash:
  "CHR ''/'' \<notin> set s \<Longrightarrow> CHR ''/'' \<notin> set (to_string_lossy s)"
proof (induction s rule: to_string_lossy.induct)
  case (1 s)
  obtain ok n where c: "utf8_chunk s = (ok, n)"
    by (cases "utf8_chunk s")
  show ?case
  proof (cases "s = []")
    case False
    have "CHR ''/'' \<notin> set (to_string_lossy (drop n s))"
      using "1.IH"[OF False c[symmetric] refl] "1.prems" by (meson in_set_dropD)
    moreover have "CHR ''/'' \<notin> set (take n s)"
      using "1.prems" by (meson in_set_takeD)
    ultimately show ?thesis
      using False c by (simp add: to_string_lossy.simps[of s])
  qed simp
qed

text \<open>A slash is no part of a longer character, so the pieces of a path's text are text.\<close>

lemma in_range_append:
  "128 \<le> lo \<Longrightarrow> i \<le> length a \<Longrightarrow> in_range lo hi (a @ CHR ''/'' # b) i = in_range lo hi a i"
  by (cases "i = length a") (auto simp: in_range_def nth_append)

lemma utf8_chunk_slash:
  assumes "a \<noteq> []" and "utf8_chunk (a @ CHR ''/'' # b) = (True, n)"
  shows "n \<le> length a \<and> utf8_chunk a = (True, n)"
proof -
  have first: "in_range lo hi (a @ CHR ''/'' # b) 0 = in_range lo hi a 0" for lo hi
    using assms(1) by (cases a) (auto simp: in_range_def)
  have low: "128 \<le> lo \<Longrightarrow> in_range lo hi (a @ CHR ''/'' # b) (Suc 0) = in_range lo hi a (Suc 0)" for lo hi
    using assms(1) in_range_append[of lo "Suc 0" a hi b] by (cases a) auto
  have at: "in_range lo hi a i \<Longrightarrow> i < length a" for lo hi i
    by (simp add: in_range_def)
  have two: "in_range lo hi a (Suc 0) \<Longrightarrow> in_range 128 191 (a @ CHR ''/'' # b) 2 = in_range 128 191 a 2" for lo hi
    using at[of lo hi "Suc 0"] in_range_append[of 128 2 a 191 b] by auto
  have three: "in_range 128 191 a 2 \<Longrightarrow> in_range 128 191 (a @ CHR ''/'' # b) 3 = in_range 128 191 a 3"
    using at[of 128 191 2] in_range_append[of 128 3 a 191 b] by auto
  have long: "in_range 128 191 a 3 \<Longrightarrow> 4 \<le> length a" "in_range 128 191 a 2 \<Longrightarrow> 3 \<le> length a"
      "in_range lo hi a (Suc 0) \<Longrightarrow> 2 \<le> length a" "1 \<le> length a" for lo hi
    using at[of 128 191 3] at[of 128 191 2] at[of lo hi "Suc 0"] assms(1) by (auto simp: Suc_le_eq)
  show ?thesis
  proof (cases "in_range 240 244 a 0")
    case True
    then have no: "\<not> in_range 0 127 a 0" "\<not> in_range 194 223 a 0" "\<not> in_range 224 239 a 0"
      by (auto simp: in_range_def)
    define lo hi where "lo = (if in_range 240 240 a 0 then 144 else 128 :: nat)"
      and "hi = (if in_range 244 244 a 0 then 143 else 191 :: nat)"
    have "128 \<le> lo"
      by (simp add: lo_def)
    then show ?thesis
      using assms(2) True no low[of lo hi] two[of lo hi] three long(1,3)
      unfolding utf8_chunk_def first lo_def[symmetric] hi_def[symmetric] by (simp split: if_splits)
  next
    case not4: False
    show ?thesis
    proof (cases "in_range 224 239 a 0")
      case True
      then have no: "\<not> in_range 0 127 a 0" "\<not> in_range 194 223 a 0"
        by (auto simp: in_range_def)
      define lo hi where "lo = (if in_range 224 224 a 0 then 160 else 128 :: nat)"
        and "hi = (if in_range 237 237 a 0 then 159 else 191 :: nat)"
      have "128 \<le> lo"
        by (simp add: lo_def)
      then show ?thesis
        using assms(2) True no low[of lo hi] two[of lo hi] long(2,3)
        unfolding utf8_chunk_def first lo_def[symmetric] hi_def[symmetric] by (simp split: if_splits)
    next
      case False
      then show ?thesis
        using assms(2) not4 low[of 128 191] long(3)[of 128 191] long(4)
        unfolding utf8_chunk_def first by (simp split: if_splits)
    qed
  qed
qed

lemma is_utf8_slash: "is_utf8 (a @ CHR ''/'' # b) \<Longrightarrow> is_utf8 a \<and> is_utf8 b"
proof (induction a rule: length_induct)
  case (1 a)
  show ?case
  proof (cases "a = []")
    case True
    then show ?thesis
      using "1.prems" by (simp add: is_utf8.simps[of "CHR ''/'' # b"] is_utf8.simps[of "[]"] utf8_chunk_def in_range_def)
  next
    case False
    obtain ok n where c: "utf8_chunk (a @ CHR ''/'' # b) = (ok, n)"
      by (cases "utf8_chunk (a @ CHR ''/'' # b)")
    then have ok: "ok" "is_utf8 (drop n (a @ CHR ''/'' # b))"
      using "1.prems" by (simp_all add: is_utf8.simps[of "a @ CHR ''/'' # b"] split: if_splits)
    have n: "n \<le> length a" "utf8_chunk a = (True, n)" "0 < n"
      using utf8_chunk_slash[OF False, of b n] c ok(1) utf8_chunk_pos[of a] by auto
    then have "is_utf8 (drop n a) \<and> is_utf8 b"
      using "1.IH"[rule_format, of "drop n a"] ok(2) False by simp
    then show ?thesis
      using n False by (simp add: is_utf8.simps[of a])
  qed
qed

lemma is_utf8_pieces: "is_utf8 s \<Longrightarrow> x \<in> set (split_on CHR ''/'' s) \<Longrightarrow> is_utf8 x"
proof (induction "length s" arbitrary: s rule: less_induct)
  case less
  show ?case
  proof (cases "CHR ''/'' \<in> set s")
    case True
    then obtain a b where s: "s = a @ CHR ''/'' # b" "CHR ''/'' \<notin> set a"
      by (meson split_list_first)
    then show ?thesis
      using less.hyps[of b] less.prems is_utf8_slash[of a b] by (auto simp: split_on_append_sep)
  next
    case False
    then show ?thesis
      using less.prems by (simp add: split_on_atom)
  qed
qed

end
