(* ===== verification/Mounts.thy ===== *)
theory Mounts
  imports Api File_System Selector
begin

text \<open>
  The reading half of \<open>ceres-server/src/api/files.rs\<close> and the exclusion rules of
  \<open>ceres-config/src/files.rs\<close>: which mount and which names a URL means, where a mount may be
  entered, and how an entry is found, listed, described and walked. The glob matcher, the UUID
  parser and generator, the case mapping and the formatting of instants are the parameters of
  \<open>files_lib\<close>.
\<close>

section \<open>Library and errors\<close>

record files_lib =
  fl_glob :: "str \<Rightarrow> (str, str \<Rightarrow> bool) result"
  fl_glob_set :: "(str \<Rightarrow> bool) list \<Rightarrow> (str, str \<Rightarrow> bool) result"
  fl_uuid_ok :: "str \<Rightarrow> bool"
  fl_new_uuid :: str
  fl_lowercase :: "str \<Rightarrow> str"
  fl_trim :: "str \<Rightarrow> str"
  fl_rfc3339 :: "int \<Rightarrow> str"
  fl_percent_encode :: "str \<Rightarrow> str"
  fl_destination :: "str \<Rightarrow> str option"
  fl_query_pairs :: "str \<Rightarrow> (str \<times> str) list"

definition explained :: "nat \<Rightarrow> str \<Rightarrow> api_error" where
  "explained s m = (case http_error s of ApiError s k fs t \<Rightarrow> ApiError s k (AList.update ''message'' (JString m) fs) t)"

text \<open>\<open>map_err\<close>: another error in place of the one a call reports.\<close>

definition or_error :: "('e, 'a) result \<Rightarrow> ('e \<Rightarrow> 'f) \<Rightarrow> ('f, 'a) result" where
  "or_error r f = (case r of Inl e \<Rightarrow> Inl (f e) | Inr a \<Rightarrow> Inr a)"

lemma or_error_simps [simp]:
  "or_error (Inl e) f = Inl (f e)"
  "or_error (Inr a) f = Inr a"
  "or_error r f = Inr a \<longleftrightarrow> r = Inr a"
  by (auto simp: or_error_def split: sum.splits)

section \<open>Names, mounts and queries\<close>

definition name_parse :: "str \<Rightarrow> bool" where
  "name_parse s =
     (case s of
        [] \<Rightarrow> False
      | c # cs \<Rightarrow>
          (is_ascii_alphabetic c \<or> c = CHR ''_'' \<or> c = CHR ''-'') \<and>
          list_all (\<lambda>c. is_ascii_alphanumeric c \<or> c = CHR ''_'' \<or> c = CHR ''-'') cs)"

text \<open>\<open>MountId::parse\<close>: the mount's ID and the path under it.\<close>

definition mount_id_parse :: "str \<Rightarrow> str \<Rightarrow> (api_error, str \<times> str) result" where
  "mount_id_parse first rest =
     (if \<not> starts_with ''@'' first then
        if name_parse first then Ok (first, rest) else Err not_found
      else try_then (or_error (address_parse first) (\<lambda>_. not_found)) (\<lambda>_.
        let (name, path) = (case split_once CHR ''/'' rest of Some s \<Rightarrow> s | None \<Rightarrow> (rest, ''''))
        in if name_parse name then Ok (first @ ''/'' @ name, path) else Err not_found))"

datatype mount_access = NoAccess | View | Edit

record resolved_mount =
  rm_path :: str
  rm_access :: mount_access
  rm_exclude :: "str list"
  rm_max_upload :: "nat option"
  rm_reveal_paths :: bool

record file_query =
  q_after :: "str option"
  q_stat :: bool
  q_download :: bool
  q_directory :: bool
  q_recursive :: bool
  q_overwrite :: bool
  q_hidden :: bool
  q_entries :: "str list"

definition query_default :: file_query where
  "query_default = \<lparr>q_after = None, q_stat = False, q_download = False, q_directory = False,
     q_recursive = False, q_overwrite = False, q_hidden = False, q_entries = []\<rparr>"

definition query_pair :: "str \<times> str \<Rightarrow> file_query \<Rightarrow> file_query" where
  "query_pair nv q =
     (let name = fst nv; value = snd nv; set = value \<noteq> ''false'' in
      if name = ''stat'' then q\<lparr>q_stat := set\<rparr>
      else if name = ''download'' then q\<lparr>q_download := set\<rparr>
      else if name = ''directory'' then q\<lparr>q_directory := set\<rparr>
      else if name = ''recursive'' then q\<lparr>q_recursive := set\<rparr>
      else if name = ''overwrite'' then q\<lparr>q_overwrite := set\<rparr>
      else if name = ''hidden'' then q\<lparr>q_hidden := set\<rparr>
      else if name = ''entry'' then q\<lparr>q_entries := q_entries q @ [value]\<rparr>
      else if name = ''after'' then q\<lparr>q_after := Some value\<rparr>
      else q)"

definition file_query_parse :: "files_lib \<Rightarrow> str option \<Rightarrow> file_query" where
  "file_query_parse lib query =
     fold query_pair (case query of None \<Rightarrow> [] | Some q \<Rightarrow> fl_query_pairs lib q) query_default"

text \<open>\<open>split_path\<close>: the names of a captured path, refusing any that could leave the root.\<close>

definition normal_name :: "str \<Rightarrow> bool" where
  "normal_name name \<longleftrightarrow>
     components name = [Normal name] \<and>
     CHR 0x00 \<notin> set name \<and> CHR ''/'' \<notin> set name"

definition split_path :: "str \<Rightarrow> (api_error, str list) result" where
  "split_path path =
     (if path = '''' then Ok []
      else try_map (\<lambda>name. if normal_name name then Ok name else Err (http_error 400))
        (split_on CHR ''/'' path))"

section \<open>Exclusions\<close>

text \<open>
  \<open>FileExclusion\<close>: the globs without a slash match names, those with one match leading runs of
  names. A set is its matcher and whether it holds no glob.
\<close>

record file_exclusion =
  ex_names :: "str \<Rightarrow> bool"
  ex_anchored :: "str \<Rightarrow> bool"
  ex_empty :: bool

definition exclusion_glob :: "files_lib \<Rightarrow> str \<Rightarrow> (str, str \<Rightarrow> bool) result" where
  "exclusion_glob lib pattern =
     fl_glob lib (case strip_prefix ''/'' pattern of Some s \<Rightarrow> s | None \<Rightarrow> pattern)"

fun exclusion_globs ::
  "files_lib \<Rightarrow> str list \<Rightarrow> (str \<Rightarrow> bool) list \<times> (str \<Rightarrow> bool) list \<Rightarrow>
     (str, (str \<Rightarrow> bool) list \<times> (str \<Rightarrow> bool) list) result" where
  "exclusion_globs lib [] sets = Ok sets"
| "exclusion_globs lib (p # ps) (names, anchored) =
     try_then (exclusion_glob lib p) (\<lambda>g.
       exclusion_globs lib ps
         (if contains_str ''/'' p then (names, anchored @ [g]) else (names @ [g], anchored)))"

definition file_exclusion_new :: "files_lib \<Rightarrow> str list \<Rightarrow> (str, file_exclusion) result" where
  "file_exclusion_new lib patterns =
     try_then (exclusion_globs lib patterns ([], [])) (\<lambda>(names, anchored).
     try_then (fl_glob_set lib names) (\<lambda>n.
     try_then (fl_glob_set lib anchored) (\<lambda>a.
     Ok \<lparr>ex_names = n, ex_anchored = a, ex_empty = (names = [] \<and> anchored = [])\<rparr>)))"

fun excludes_from :: "file_exclusion \<Rightarrow> str \<Rightarrow> nat \<Rightarrow> str list \<Rightarrow> bool" where
  "excludes_from ex relative end [] = False"
| "excludes_from ex relative end (name # rest) =
     (let end' = end + length name in
      if ex_names ex name \<or> ex_anchored ex (take end' relative) then True
      else excludes_from ex relative (end' + 1) rest)"

definition excludes :: "file_exclusion \<Rightarrow> str \<Rightarrow> bool" where
  "excludes ex relative =
     (if relative = '''' then False
      else excludes_from ex relative 0 (split_on CHR ''/'' relative))"

section \<open>Opening a mount\<close>

record open_mount =
  om_canonical :: path
  om_exclusion :: file_exclusion
  om_reveal_paths :: bool

definition mount_open ::
  "files_lib \<Rightarrow> file_system \<Rightarrow> resolved_mount \<Rightarrow> (api_error, open_mount) result" where
  "mount_open lib fs resolved =
     try_then (or_error (file_exclusion_new lib (rm_exclude resolved)) (\<lambda>_. internal_error)) (\<lambda>ex.
     try_then (or_error (fs_canonicalize_text fs (rm_path resolved)) (\<lambda>_. not_found)) (\<lambda>canonical.
     Ok \<lparr>om_canonical = canonical, om_exclusion = ex, om_reveal_paths = rm_reveal_paths resolved\<rparr>))"

text \<open>\<open>OpenMount::relative\<close>: the joined names below the root, \<open>None\<close> outside.\<close>

definition relative_text :: "path \<Rightarrow> str" where
  "relative_text names = join_with ''/'' (map to_string_lossy names)"

definition mount_relative :: "open_mount \<Rightarrow> path \<Rightarrow> str option" where
  "mount_relative m canonical = map_option relative_text (strip_prefix (om_canonical m) canonical)"

definition admit :: "open_mount \<Rightarrow> file_system \<Rightarrow> path \<Rightarrow> path option" where
  "admit m fs p =
     (case fs_canonicalize fs p of
        Inl _ \<Rightarrow> None
      | Inr canonical \<Rightarrow>
          (case mount_relative m canonical of
             None \<Rightarrow> None
           | Some relative \<Rightarrow> if excludes (om_exclusion m) relative then None else Some canonical))"

definition relative_or_empty :: "open_mount \<Rightarrow> path \<Rightarrow> str" where
  "relative_or_empty m p = (case mount_relative m p of Some r \<Rightarrow> r | None \<Rightarrow> '''')"

definition join_path :: "str \<Rightarrow> str \<Rightarrow> str" where
  "join_path base name = (if base = '''' then name else base @ ''/'' @ name)"

section \<open>Parts of uploads\<close>

text \<open>\<open>is_part\<close>: the shape \<open>.<name>.<uuid>.part\<close>.\<close>

definition rsplit_once :: "char \<Rightarrow> str \<Rightarrow> (str \<times> str) option" where
  "rsplit_once c s = map_option (\<lambda>(b, a). (rev a, rev b)) (split_once c (rev s))"

definition is_part :: "files_lib \<Rightarrow> str \<Rightarrow> bool" where
  "is_part lib name =
     (case Option.bind (strip_prefix ''.'' name) (strip_suffix ''.part'') of
        None \<Rightarrow> False
      | Some stem \<Rightarrow>
          (case rsplit_once CHR ''.'' stem of
             None \<Rightarrow> False
           | Some (target, i) \<Rightarrow> target \<noteq> '''' \<and> length i = 36 \<and> fl_uuid_ok lib i))"

text \<open>\<open>PART_LIFETIME\<close>, one hour in nanoseconds.\<close>

definition PART_LIFETIME :: int where
  "PART_LIFETIME = 60 * 60 * 1000000000"

definition stale_part :: "file_system \<Rightarrow> path \<Rightarrow> bool" where
  "stale_part fs p =
     (case fs_symlink_metadata fs p of
        Inl _ \<Rightarrow> False
      | Inr n \<Rightarrow> is_file n \<and>
          (case modified n of
             None \<Rightarrow> False
           | Some t \<Rightarrow> t \<le> now fs \<and> PART_LIFETIME < now fs - t))"

definition sweep_if_stale :: "file_system \<Rightarrow> path \<Rightarrow> bool \<times> file_system" where
  "sweep_if_stale fs p =
     (if \<not> stale_part fs p then (False, fs)
      else (case fs_remove_file fs p of (Inl _, fs') \<Rightarrow> (False, fs') | (Inr _, fs') \<Rightarrow> (True, fs')))"

section \<open>Entries and listings\<close>

datatype entry_kind = KFile | KDirectory | KOther

definition kind_of :: "inode \<Rightarrow> entry_kind" where
  "kind_of n = (if is_file n then KFile else if is_dir n then KDirectory else KOther)"

record file_entry =
  fe_name :: str
  fe_kind :: entry_kind
  fe_size :: "nat option"
  fe_modified :: "str option"
  fe_created :: "str option"

definition file_entry_new :: "files_lib \<Rightarrow> str \<Rightarrow> entry_kind \<Rightarrow> inode option \<Rightarrow> file_entry" where
  "file_entry_new lib name kind metadata =
     \<lparr>fe_name = name, fe_kind = kind,
      fe_size = (if kind = KFile then map_option (\<lambda>n. length (content n)) metadata else None),
      fe_modified = Option.bind metadata (\<lambda>n. map_option (fl_rfc3339 lib) (modified n)),
      fe_created = Option.bind metadata (\<lambda>n. map_option (fl_rfc3339 lib) (created n))\<rparr>"

record candidate =
  cd_name :: str
  cd_path :: path
  cd_unicode :: bool

definition LISTING_CAP :: nat where
  "LISTING_CAP = 10000"

text \<open>\<open>OpenMount::describe\<close>: \<open>None\<close> for a link into an excluded path.\<close>

definition describe :: "files_lib \<Rightarrow> open_mount \<Rightarrow> file_system \<Rightarrow> candidate \<Rightarrow> file_entry option" where
  "describe lib m fs c =
     (let entry = file_entry_new lib (cd_name c) in
      if \<not> cd_unicode c then Some (entry KOther None)
      else (case fs_symlink_metadata fs (cd_path c) of
        Inl _ \<Rightarrow> Some (entry KOther None)
      | Inr metadata \<Rightarrow>
          if \<not> is_symlink metadata then Some (entry (kind_of metadata) (Some metadata))
          else (case fs_canonicalize fs (cd_path c) of
            Inl _ \<Rightarrow> Some (entry KOther (Some metadata))
          | Inr canonical \<Rightarrow>
              (case mount_relative m canonical of
                 None \<Rightarrow> Some (entry KOther (Some metadata))
               | Some relative \<Rightarrow>
                   if excludes (om_exclusion m) relative then None
                   else (case fs_metadata fs canonical of
                     Inl _ \<Rightarrow> None
                   | Inr target \<Rightarrow> Some (entry (kind_of target) (Some target)))))))"

text \<open>
  The heap of \<open>OpenMount::list\<close>, by what it gives back: \<open>push\<close> puts a candidate among those kept,
  in order of their names, and \<open>pop\<close> takes the greatest.
\<close>

definition heap_push :: "candidate \<Rightarrow> candidate list \<Rightarrow> candidate list" where
  "heap_push c kept = insort_key cd_name c kept"

definition keep_candidate :: "candidate \<Rightarrow> candidate list \<Rightarrow> candidate list" where
  "keep_candidate c kept =
     (let pushed = heap_push c kept
      in if LISTING_CAP + 1 < length pushed then butlast pushed else pushed)"

text \<open>One turn of the loop over the directory: \<open>reader.flatten()\<close> passes over failed entries.\<close>

definition list_entry ::
  "files_lib \<Rightarrow> open_mount \<Rightarrow> path \<Rightarrow> str \<Rightarrow> file_query \<Rightarrow> (error_kind, str) result \<Rightarrow>
     candidate list \<times> file_system \<Rightarrow> candidate list \<times> file_system" where
  "list_entry lib m directory pre query entry st =
     (case entry of
        Inl _ \<Rightarrow> st
      | Inr os_name \<Rightarrow>
          (let (kept, fs) = st;
               unicode = is_utf8 os_name;
               name = (if unicode then os_name else to_string_lossy os_name);
               (swept, fs') =
                 (if unicode \<and> is_part lib name then sweep_if_stale fs (directory @ [os_name])
                  else (False, fs))
           in if swept
                 \<or> (case q_after query of None \<Rightarrow> False | Some after \<Rightarrow> name \<le> after)
                 \<or> excludes (om_exclusion m) (pre @ name)
              then (kept, fs')
              else (keep_candidate
                      \<lparr>cd_name = name, cd_path = directory @ [os_name], cd_unicode = unicode\<rparr> kept, fs')))"

record file_listing =
  fl_entries :: "file_entry list"
  fl_truncated :: bool

definition mount_list ::
  "files_lib \<Rightarrow> open_mount \<Rightarrow> file_system \<Rightarrow> path \<Rightarrow> file_query \<Rightarrow>
     (api_error, file_listing) result \<times> file_system" where
  "mount_list lib m fs directory query =
     (let relative = relative_or_empty m directory;
          pre = (if relative = '''' then '''' else relative @ ''/'')
      in case fs_read_dir fs directory of
           Inl _ \<Rightarrow> (Err not_found, fs)
         | Inr reader \<Rightarrow>
             (let (candidates, fs') = fold (list_entry lib m directory pre query) reader ([], fs);
                  truncated = LISTING_CAP < length candidates
              in (Ok \<lparr>fl_entries = List.map_filter (describe lib m fs') (take LISTING_CAP candidates),
                       fl_truncated = truncated\<rparr>, fs')))"

section \<open>Walking a directory\<close>

datatype walked =
    WFile path inode
  | WLinked path inode
  | WDirectory inode
  | WExcluded

text \<open>
  What a walk calls: an error, a break with a value, or nothing to say; it may change the file
  system and a state of its own.
\<close>

type_synonym ('s, 'b) visit =
  "str \<Rightarrow> walked \<Rightarrow> file_system \<times> 's \<Rightarrow> (error_kind, 'b option) result \<times> file_system \<times> 's"

lemma read_dir_short: "fs_read_dir fs p = Inr es \<Longrightarrow> path_len p \<le> PATH_MAX"
  by (auto simp: fs_read_dir_def admitted_def try_then_Inr_iff split: if_splits)

text \<open>
  One entry at \<open>p\<close>: \<open>descend\<close> walks what a directory holds. The recursion ends because a path
  longer than \<open>PATH_MAX\<close> cannot be read as a directory.
\<close>

definition walk_entry ::
  "open_mount \<Rightarrow> ('s, 'b) visit \<Rightarrow> path \<Rightarrow> str \<Rightarrow> str \<Rightarrow>
     ((error_kind, str) result list \<Rightarrow> file_system \<times> 's \<Rightarrow> (error_kind, 'b option) result \<times> file_system \<times> 's) \<Rightarrow>
     file_system \<times> 's \<Rightarrow> (error_kind, 'b option) result \<times> file_system \<times> 's" where
  "walk_entry m visit p relative below descend st =
     (case fs_file_type (fst st) p of
        Inl e \<Rightarrow> (Err e, st)
      | Inr file_type \<Rightarrow>
          if excludes (om_exclusion m) relative then visit below WExcluded st
          else if is_dir file_type then
            (case fs_symlink_metadata (fst st) p of
               Inl e \<Rightarrow> (Err e, st)
             | Inr metadata \<Rightarrow>
                 (case visit below (WDirectory metadata) st of
                    (Inr None, st1) \<Rightarrow>
                      (case fs_read_dir (fst st1) p of
                         Inl e \<Rightarrow> (Err e, st1)
                       | Inr es1 \<Rightarrow> descend es1 st1)
                  | broken \<Rightarrow> broken))
          else if is_file file_type then
            (case fs_symlink_metadata (fst st) p of
               Inl e \<Rightarrow> (Err e, st)
             | Inr metadata \<Rightarrow> visit below (WFile p metadata) st)
          else if is_symlink file_type then
            (case admit m (fst st) p of
               None \<Rightarrow> (Ok None, st)
             | Some target \<Rightarrow>
                 (case fs_metadata (fst st) target of
                    Inl _ \<Rightarrow> (Ok None, st)
                  | Inr metadata \<Rightarrow>
                      if is_file metadata then visit below (WLinked target metadata) st
                      else (Ok None, st)))
          else (Ok None, st))"

lemma walk_entry_cong [fundef_cong]:
  assumes "m = m'" "visit = visit'" "p = p'" "relative = relative'" "below = below'" "st = st'"
    and "\<And>es1 st1. path_len p' \<le> PATH_MAX \<Longrightarrow> descend es1 st1 = descend' es1 st1"
  shows "walk_entry m visit p relative below descend st = walk_entry m' visit' p' relative' below' descend' st'"
  using assms(7)
  unfolding walk_entry_def assms(1-6) by (auto dest: read_dir_short split: sum.splits prod.splits option.splits)

function walk_entries ::
  "files_lib \<Rightarrow> open_mount \<Rightarrow> bool \<Rightarrow> ('s, 'b) visit \<Rightarrow> path \<Rightarrow> str \<Rightarrow> str \<Rightarrow>
     (error_kind, str) result list \<Rightarrow> file_system \<times> 's \<Rightarrow>
     (error_kind, 'b option) result \<times> file_system \<times> 's" where
  "walk_entries lib m hidden visit directory relative below [] st = (Ok None, st)"
| "walk_entries lib m hidden visit directory relative below (Inl e # es) st = (Err e, st)"
| "walk_entries lib m hidden visit directory relative below (Inr raw # es) st =
     (let name = to_string_lossy raw in
      if (\<not> hidden \<and> starts_with ''.'' name) \<or> is_part lib name
      then walk_entries lib m hidden visit directory relative below es st
      else
        (case walk_entry m visit (directory @ [raw]) (join_path relative name) (join_path below name)
                (\<lambda>es1 st1. walk_entries lib m hidden visit (directory @ [raw]) (join_path relative name)
                   (join_path below name) es1 st1) st of
           (Inr None, st') \<Rightarrow> walk_entries lib m hidden visit directory relative below es st'
         | (flow, st') \<Rightarrow> (flow, st')))"
  by pat_completeness auto
termination
  by (relation "measures [\<lambda>(l, m, h, v, d, r, b, es, st). Suc PATH_MAX - path_len d,
      \<lambda>(l, m, h, v, d, r, b, es, st). length es]") (auto simp: path_len_def)

definition mount_walk ::
  "files_lib \<Rightarrow> open_mount \<Rightarrow> path \<Rightarrow> str \<Rightarrow> bool \<Rightarrow> ('s, 'b) visit \<Rightarrow> file_system \<times> 's \<Rightarrow>
     (error_kind, 'b option) result \<times> file_system \<times> 's" where
  "mount_walk lib m directory relative hidden visit st =
     (case fs_read_dir (fst st) directory of
        Inl e \<Rightarrow> (Err e, st)
      | Inr es \<Rightarrow> walk_entries lib m hidden visit directory relative '''' es st)"

definition visit_excluded :: "(unit, unit) visit" where
  "visit_excluded below w st = (case w of WExcluded \<Rightarrow> (Ok (Some ()), st) | _ \<Rightarrow> (Ok None, st))"

definition holds_excluded ::
  "files_lib \<Rightarrow> open_mount \<Rightarrow> file_system \<Rightarrow> path \<Rightarrow> str \<Rightarrow> (error_kind, bool) result" where
  "holds_excluded lib m fs directory relative =
     try_then (fst (mount_walk lib m directory relative True visit_excluded (fs, ())))
       (\<lambda>found. Ok (found \<noteq> None))"

section \<open>Finding an entry\<close>

record archive =
  ar_directory :: path
  ar_relative :: str
  ar_entries :: "str list"
  ar_hidden :: bool
  ar_name :: str

text \<open>\<open>OpenMount::archive\<close>: every entry is checked before the response starts.\<close>

definition archive_check :: "open_mount \<Rightarrow> file_system \<Rightarrow> path \<Rightarrow> str \<Rightarrow> str \<Rightarrow> (api_error, unit) result" where
  "archive_check m fs canonical relative entry =
     try_then (split_path entry) (\<lambda>names.
     case names of
       [name] \<Rightarrow>
         if excludes (om_exclusion m) (join_path relative name) \<or> admit m fs (canonical @ [entry]) = None
         then Err not_found else Ok ()
     | _ \<Rightarrow> Err (http_error 400))"

definition mount_archive ::
  "open_mount \<Rightarrow> file_system \<Rightarrow> path \<Rightarrow> file_query \<Rightarrow> (api_error, archive) result" where
  "mount_archive m fs canonical query =
     (let relative = relative_or_empty m canonical;
          entries = remdups_adj (sort (q_entries query))
      in try_then (try_map (archive_check m fs canonical relative) entries) (\<lambda>_.
         let stem = (if canonical = [] then ''files'' else to_string_lossy (last canonical))
         in Ok \<lparr>ar_directory = canonical, ar_relative = relative, ar_entries = entries,
                ar_hidden = q_hidden query, ar_name = stem @ ''.zip''\<rparr>))"

text \<open>\<open>VerifiedFile::open\<close>: the file opened is the one the walk found.\<close>

record verified_file =
  vf_path :: path
  vf_inode :: inode

definition same_file :: "inode \<Rightarrow> inode \<Rightarrow> bool option" where
  "same_file a b = Some (ident a = ident b)"

definition verified_open :: "file_system \<Rightarrow> path \<Rightarrow> inode \<Rightarrow> verified_file option" where
  "verified_open fs canonical found =
     (case open_without_following fs canonical of
        Inl _ \<Rightarrow> None
      | Inr n \<Rightarrow>
          if is_file n \<and> (case same_file found n of Some b \<Rightarrow> b | None \<Rightarrow> True)
          then Some \<lparr>vf_path = canonical, vf_inode = n\<rparr> else None)"

record file_stat =
  fs_entry :: file_entry
  fs_path :: "str option"

datatype found =
    FoundListing file_listing
  | FoundStat file_stat
  | FoundFile verified_file str
  | FoundArchive archive

definition path_text :: "path \<Rightarrow> str" where
  "path_text p = (if p = [] then ''/'' else concat (map (\<lambda>n. CHR ''/'' # n) p))"

text \<open>\<open>OpenMount::find\<close> from the metadata on, and as a whole.\<close>

definition find_at ::
  "files_lib \<Rightarrow> open_mount \<Rightarrow> file_system \<Rightarrow> path \<Rightarrow> inode \<Rightarrow> str \<Rightarrow> file_query \<Rightarrow>
     (api_error, found) result \<times> file_system" where
  "find_at lib m fs canonical metadata name query =
     (if q_stat query then
        (Ok (FoundStat \<lparr>fs_entry = file_entry_new lib name (kind_of metadata) (Some metadata),
           fs_path = (if om_reveal_paths m then Some (to_string_lossy (path_text canonical)) else None)\<rparr>), fs)
      else if q_entries query \<noteq> [] \<and> (\<not> q_download query \<or> \<not> is_dir metadata) then
        (Err (http_error 400), fs)
      else if is_dir metadata then
        (if q_download query then
           (try_then (mount_archive m fs canonical query) (\<lambda>a. Ok (FoundArchive a)), fs)
         else
           (case mount_list lib m fs canonical query of
              (r, fs') \<Rightarrow> (try_then r (\<lambda>l. Ok (FoundListing l)), fs')))
      else if is_file metadata then
        (case verified_open fs canonical metadata of
           None \<Rightarrow> (Err not_found, fs)
         | Some file \<Rightarrow> (Ok (FoundFile file name), fs))
      else (Err not_found, fs))"

definition mount_find ::
  "files_lib \<Rightarrow> open_mount \<Rightarrow> file_system \<Rightarrow> str list \<Rightarrow> file_query \<Rightarrow>
     (api_error, found) result \<times> file_system" where
  "mount_find lib m fs names query =
     (if excludes (om_exclusion m) (join_with ''/'' names) then (Err not_found, fs)
      else (case admit m fs (om_canonical m @ names) of
        None \<Rightarrow> (Err not_found, fs)
      | Some canonical \<Rightarrow>
          (case fs_metadata fs canonical of
             Inl _ \<Rightarrow> (Err not_found, fs)
           | Inr metadata \<Rightarrow>
               find_at lib m fs canonical metadata (if names = [] then '''' else last names) query)))"

section \<open>Archives\<close>

text \<open>What is written to the \<open>ZipWriter\<close>: the members in order, a directory or a file's bytes.\<close>

datatype member = MemberFile path str | MemberDirectory

type_synonym zip = "(str \<times> member) list"

definition add_member :: "str \<Rightarrow> walked \<Rightarrow> file_system \<times> zip \<Rightarrow> (error_kind, unit) result \<times> file_system \<times> zip" where
  "add_member name w st =
     (let fs = fst st; zip = snd st;
          file = (\<lambda>p. case try_then (open_without_following fs p) (fs_read_all fs p) of
             Inl e \<Rightarrow> (Err e, fs, zip)
           | Inr bytes \<Rightarrow> (Ok (), fs, zip @ [(name, MemberFile p bytes)]))
      in case w of
           WFile p _ \<Rightarrow> file p
         | WLinked p _ \<Rightarrow> file p
         | WDirectory _ \<Rightarrow> (Ok (), fs, zip @ [(name, MemberDirectory)])
         | WExcluded \<Rightarrow> (Ok (), fs, zip))"

definition visit_add :: "str \<Rightarrow> (zip, unit) visit" where
  "visit_add base below w st =
     (case add_member (base @ below) w st of
        (Inl e, st') \<Rightarrow> (Err e, st')
      | (Inr _, st') \<Rightarrow> (Ok None, st'))"

text \<open>One entry of a download that names some.\<close>

definition archive_entry ::
  "files_lib \<Rightarrow> open_mount \<Rightarrow> archive \<Rightarrow> str \<Rightarrow> file_system \<times> zip \<Rightarrow>
     (error_kind, unit) result \<times> file_system \<times> zip" where
  "archive_entry lib m a entry st =
     (case admit m (fst st) (ar_directory a @ [entry]) of
        None \<Rightarrow> (Err NotFound, st)
      | Some p \<Rightarrow>
          (case fs_metadata (fst st) p of
             Inl e \<Rightarrow> (Err e, st)
           | Inr metadata \<Rightarrow>
               if is_file metadata then add_member entry (WFile p metadata) st
               else if is_dir metadata then
                 (case add_member entry (WDirectory metadata) st of
                    (Inl e, st') \<Rightarrow> (Err e, st')
                  | (Inr _, st') \<Rightarrow>
                      (case mount_walk lib m p (relative_or_empty m p) (ar_hidden a)
                              (visit_add (entry @ ''/'')) st' of
                         (Inl e, st'') \<Rightarrow> (Err e, st'')
                       | (Inr _, st'') \<Rightarrow> (Ok (), st'')))
               else (Ok (), st)))"

fun archive_entries ::
  "files_lib \<Rightarrow> open_mount \<Rightarrow> archive \<Rightarrow> str list \<Rightarrow> file_system \<times> zip \<Rightarrow>
     (error_kind, unit) result \<times> file_system \<times> zip" where
  "archive_entries lib m a [] st = (Ok (), st)"
| "archive_entries lib m a (e # es) st =
     (case archive_entry lib m a e st of
        (Inl err, st') \<Rightarrow> (Err err, st')
      | (Inr _, st') \<Rightarrow> archive_entries lib m a es st')"

definition write_archive ::
  "files_lib \<Rightarrow> open_mount \<Rightarrow> file_system \<Rightarrow> archive \<Rightarrow> (error_kind, unit) result \<times> zip" where
  "write_archive lib m fs a =
     (case (if ar_entries a = [] then
              (case mount_walk lib m (ar_directory a) (ar_relative a) (ar_hidden a) (visit_add '''') (fs, []) of
                 (Inl e, st) \<Rightarrow> (Err e, st)
               | (Inr _, st) \<Rightarrow> archive_entries lib m a (ar_entries a) st)
            else archive_entries lib m a (ar_entries a) (fs, [])) of
        (r, st) \<Rightarrow> (r, snd st))"

section \<open>The target of a write\<close>

record write_target =
  wt_parent :: path
  wt_name :: str
  wt_relative :: str

definition wt_path :: "write_target \<Rightarrow> path" where
  "wt_path t = wt_parent t @ [wt_name t]"

definition mount_target :: "open_mount \<Rightarrow> file_system \<Rightarrow> str list \<Rightarrow> (api_error, write_target) result" where
  "mount_target m fs names =
     (if names = [] then Err (http_error 400)
      else if excludes (om_exclusion m) (join_with ''/'' names) then Err not_found
      else (case admit m fs (om_canonical m @ butlast names) of
        None \<Rightarrow> Err not_found
      | Some parent \<Rightarrow>
          if (case fs_metadata fs parent of Inl _ \<Rightarrow> True | Inr n \<Rightarrow> \<not> is_dir n) then Err not_found
          else
            (let name = last names; relative = join_path (relative_or_empty m parent) name
             in if excludes (om_exclusion m) relative then Err not_found
                else Ok \<lparr>wt_parent = parent, wt_name = name, wt_relative = relative\<rparr>)))"

section \<open>Names below a root\<close>

lemma join_with_snoc: "xs \<noteq> [] \<Longrightarrow> join_with sep (xs @ [y]) = join_with sep xs @ sep @ y"
  by (induction sep xs rule: join_with.induct) auto

lemma join_with_empty: "join_with [c] xs = [] \<longleftrightarrow> xs = [] \<or> xs = [[]]"
  by (cases "([c], xs)" rule: join_with.cases) auto

lemma relative_text_Nil [simp]: "relative_text [] = []"
  by (simp add: relative_text_def)

lemma relative_text_empty: "\<forall>n \<in> set r. entry_name n \<Longrightarrow> relative_text r = [] \<longleftrightarrow> r = []"
  by (auto simp: relative_text_def join_with_empty entry_name_def map_eq_Cons_conv)

lemma relative_text_snoc:
  "\<forall>n \<in> set r. entry_name n \<Longrightarrow>
     relative_text (r @ [n]) = join_path (relative_text r) (to_string_lossy n)"
  using relative_text_empty[of r]
  by (cases "r = []") (auto simp: join_path_def relative_text_def join_with_snoc)

lemma split_join:
  "ns \<noteq> [] \<Longrightarrow> \<forall>n \<in> set ns. c \<notin> set n \<Longrightarrow> split_on c (join_with [c] ns) = ns"
  by (induction "[c]" ns rule: join_with.induct) (auto simp: split_on_atom split_on_append_sep)

lemma mount_relative_Some:
  "mount_relative m p = Some t \<longleftrightarrow> (\<exists>r. p = om_canonical m @ r \<and> t = relative_text r)"
  by (auto simp: mount_relative_def strip_prefix_Some)

lemma relative_or_empty_below [simp]: "relative_or_empty m (om_canonical m @ r) = relative_text r"
  by (simp add: relative_or_empty_def mount_relative_def)

section \<open>What is excluded\<close>

text \<open>
  The rule of \<open>FileExclusion\<close> on the names of a path: some name matches, or some leading run of
  names does. Whatever an excluded directory holds is excluded with it.
\<close>

definition rel_excluded :: "file_exclusion \<Rightarrow> str list \<Rightarrow> bool" where
  "rel_excluded ex ns \<longleftrightarrow>
     (\<exists>i < length ns. ex_names ex (ns ! i) \<or> ex_anchored ex (join_with ''/'' (take (Suc i) ns)))"

locale closed_exclusion =
  fixes excl :: "str list \<Rightarrow> bool"
  assumes root_kept: "\<not> excl []"
    and held_with: "excl r \<Longrightarrow> excl (r @ s)"
begin

lemma kept_above: "\<not> excl (r @ s) \<Longrightarrow> \<not> excl r"
  using held_with by blast

lemma kept_prefixes: "\<not> excl r \<Longrightarrow> prefix p r \<Longrightarrow> \<not> excl p"
  using kept_above by (auto simp: prefix_def)

text \<open>The directory where an exclusion starts: the first leading run of names excluded.\<close>

lemma excluded_from:
  "excl r \<Longrightarrow> \<exists>p n s. r = p @ n # s \<and> \<not> excl p \<and> excl (p @ [n])"
proof (induction r rule: rev_induct)
  case Nil
  then show ?case using root_kept by simp
next
  case (snoc x xs)
  show ?case
  proof (cases "excl xs")
    case True
    then show ?thesis using snoc.IH by (metis append.assoc append_Cons)
  next
    case False
    then show ?thesis using snoc.prems by blast
  qed
qed

end

interpretation rel_exclusion: closed_exclusion "rel_excluded ex" for ex
proof
  show "\<not> rel_excluded ex []"
    by (simp add: rel_excluded_def)
next
  fix r s
  assume "rel_excluded ex r"
  then obtain i where i: "i < length r"
      "ex_names ex (r ! i) \<or> ex_anchored ex (join_with ''/'' (take (Suc i) r))"
    by (auto simp: rel_excluded_def)
  then have "i < length (r @ s)"
      "ex_names ex ((r @ s) ! i) \<or> ex_anchored ex (join_with ''/'' (take (Suc i) (r @ s)))"
    by (simp_all add: nth_append)
  then show "rel_excluded ex (r @ s)"
    unfolding rel_excluded_def by blast
qed

lemma join_with_prefix: "\<exists>t. join_with sep (xs @ ys) = join_with sep xs @ t"
proof (induction sep xs rule: join_with.induct)
  case (2 sep s)
  then show ?case by (cases ys) auto
qed auto

lemma excludes_from_run:
  "excludes_from ex (join_with ''/'' (pre @ ns)) (if pre = [] then 0 else Suc (length (join_with ''/'' pre))) ns
     \<longleftrightarrow> (\<exists>i < length ns. ex_names ex (ns ! i) \<or>
           ex_anchored ex (join_with ''/'' (pre @ take (Suc i) ns)))"
proof (induction ns arbitrary: pre)
  case Nil
  then show ?case by simp
next
  case (Cons n ns)
  have run: "take ((if pre = [] then 0 else Suc (length (join_with ''/'' pre))) + length n)
      (join_with ''/'' (pre @ n # ns)) = join_with ''/'' (pre @ [n])"
  proof -
    have "\<exists>t. join_with ''/'' (pre @ n # ns) = join_with ''/'' (pre @ [n]) @ t"
      using join_with_prefix[of "''/''" "pre @ [n]" ns] by simp
    then obtain t where "join_with ''/'' (pre @ n # ns) = join_with ''/'' (pre @ [n]) @ t"
      by blast
    then show ?thesis
      by (cases "pre = []") (simp_all add: join_with_snoc)
  qed
  have rest: "excludes_from ex (join_with ''/'' (pre @ n # ns))
      (Suc ((if pre = [] then 0 else Suc (length (join_with ''/'' pre))) + length n)) ns
      = (\<exists>i < length ns. ex_names ex (ns ! i) \<or> ex_anchored ex (join_with ''/'' ((pre @ [n]) @ take (Suc i) ns)))"
    using Cons.IH[of "pre @ [n]"] by (cases "pre = []") (simp_all add: join_with_snoc)
  have "(\<exists>i < length (n # ns). P i) \<longleftrightarrow> P 0 \<or> (\<exists>i < length ns. P (Suc i))" for P
    by (auto simp: less_Suc_eq_0_disj)
  then show ?case
    unfolding excludes_from.simps Let_def run using rest by simp
qed

lemma excludes_rel:
  assumes "\<forall>n \<in> set ns. n \<noteq> [] \<and> CHR ''/'' \<notin> set n"
  shows "excludes ex (join_with ''/'' ns) = rel_excluded ex ns"
proof (cases "ns = []")
  case False
  then have "join_with ''/'' ns \<noteq> []" "split_on CHR ''/'' (join_with ''/'' ns) = ns"
    using assms by (auto simp: join_with_empty split_join)
  then show ?thesis
    using excludes_from_run[of ex "[]" ns] by (simp add: excludes_def rel_excluded_def)
qed (simp add: excludes_def rel_excluded_def)

lemma excludes_relative_text:
  "\<forall>n \<in> set r. entry_name n \<Longrightarrow>
     excludes ex (relative_text r) = rel_excluded ex (map to_string_lossy r)"
  unfolding relative_text_def
  by (rule excludes_rel) (auto simp: entry_name_def to_string_lossy_no_slash)

section \<open>What a walk visits\<close>

text \<open>
  The contract between a walk and what it calls. \<open>keeps\<close> is what the visitor maintains, \<open>reached\<close>
  what it may rely on of the entry it is shown, \<open>below_root\<close> what a directory walked and its
  relative text have in common, and \<open>named\<close> what is known of the names read.
\<close>

locale walk_contract =
  fixes m :: open_mount
    and visit :: "('s, 'b) visit"
    and keeps :: "file_system \<times> 's \<Rightarrow> bool"
    and reached :: "walked \<Rightarrow> bool"
    and below_root :: "path \<Rightarrow> str \<Rightarrow> bool"
    and named :: "str \<Rightarrow> bool"
  assumes visit_keeps: "keeps st \<Longrightarrow> reached w \<Longrightarrow> keeps (snd (visit below w st))"
    and read_named: "keeps st \<Longrightarrow> fs_read_dir (fst st) d = Ok es \<Longrightarrow> Ok n \<in> set es \<Longrightarrow> named n"
    and step_below: "below_root d r \<Longrightarrow> named n \<Longrightarrow> below_root (d @ [n]) (join_path r (to_string_lossy n))"
    and file_reached: "below_root p r \<Longrightarrow> \<not> excludes (om_exclusion m) r \<Longrightarrow> reached (WFile p i)"
    and link_reached: "keeps st \<Longrightarrow> admit m (fst st) p = Some t \<Longrightarrow> reached (WLinked t i)"
    and other_reached: "reached (WDirectory i)" "reached WExcluded"
begin

lemma entry_keeps:
  assumes "keeps st" and "below_root p relative"
    and "\<And>(es1 :: (error_kind, str) result list) st1.
           path_len p \<le> PATH_MAX \<Longrightarrow> keeps st1 \<Longrightarrow> (\<And>n. Ok n \<in> set es1 \<Longrightarrow> named n) \<Longrightarrow>
           keeps (snd (descend es1 st1))"
  shows "keeps (snd (walk_entry m visit p relative below descend st))"
proof -
  have seen: "reached w \<Longrightarrow> keeps (snd (visit below w st))" for w
    by (rule visit_keeps[OF assms(1)])
  have entered: "keeps st1" if "visit below (WDirectory i) st = (r, st1)" for i r st1
    using seen[OF other_reached(1)[of i]] that by simp
  have descent: "keeps (snd (descend es1 st1))"
    if "visit below (WDirectory i) st = (r, st1)" "fs_read_dir (fst st1) p = Ok es1" for i r es1 st1
    using assms(3) read_dir_short[OF that(2)] read_named[OF entered[OF that(1)] that(2)] entered[OF that(1)]
    by blast
  have plain: "\<not> excludes (om_exclusion m) relative \<Longrightarrow> keeps (snd (visit below (WFile p i) st))" for i
    using seen file_reached[OF assms(2)] by blast
  have link: "admit m (fst st) p = Some t \<Longrightarrow> keeps (snd (visit below (WLinked t i) st))" for t i
    using seen link_reached[OF assms(1)] by blast
  show ?thesis
    using assms(1) seen[OF other_reached(2)] plain link
    by (auto simp: walk_entry_def descent entered split: sum.splits prod.splits option.splits)
qed

lemma entries_keep:
  assumes "keeps st" and "below_root directory relative" and "\<And>n. Ok n \<in> set es \<Longrightarrow> named n"
  shows "keeps (snd (walk_entries lib m hidden visit directory relative below es st))"
proof -
  have "keeps (snd (walk_entries lib m' hidden visit' directory relative below es st))"
    if "m' = m" "visit' = visit" "keeps st" "below_root directory relative" "\<And>n. Ok n \<in> set es \<Longrightarrow> named n"
    for m' visit'
    using that
  proof (induction lib m' hidden visit' directory relative below es st rule: walk_entries.induct)
    case (3 lib m' hidden visit' directory relative below raw es st)
    let ?n = "to_string_lossy raw"
    have later: "\<And>n. Ok n \<in> set es \<Longrightarrow> named n"
      using "3.prems"(5) by simp
    show ?case
    proof (cases "(\<not> hidden \<and> starts_with ''.'' ?n) \<or> is_part lib ?n")
      case True
      then show ?thesis
        using "3.IH"(1)[OF refl True "3.prems"(1-4) later] by (simp add: Let_def)
    next
      case False
      let ?one = "walk_entry m' visit' (directory @ [raw]) (join_path relative ?n) (join_path below ?n)
        (\<lambda>es1 st1. walk_entries lib m' hidden visit' (directory @ [raw]) (join_path relative ?n)
           (join_path below ?n) es1 st1) st"
      have here: "below_root (directory @ [raw]) (join_path relative ?n)"
        using step_below[OF "3.prems"(4)] "3.prems"(5)[of raw] by simp
      have one: "keeps (snd ?one)"
        unfolding "3.prems"(1,2)
      proof (rule entry_keeps[OF "3.prems"(3) here])
        fix es1 :: "(error_kind, str) result list" and st1
        assume short: "path_len (directory @ [raw]) \<le> PATH_MAX" and kept: "keeps st1"
          and names: "\<And>n. Ok n \<in> set es1 \<Longrightarrow> named n"
        show "keeps (snd (walk_entries lib m hidden visit (directory @ [raw]) (join_path relative ?n)
            (join_path below ?n) es1 st1))"
          using "3.IH"(2)[OF refl False short "3.prems"(1,2) kept here names] unfolding "3.prems"(1,2) .
      qed
      obtain r st' where r: "?one = (r, st')"
        by (cases ?one)
      show ?thesis
      proof (cases "r = Inr None")
        case True
        have "keeps st'"
          using one r by simp
        then show ?thesis
          using "3.IH"(3)[OF refl False r[symmetric] True refl "3.prems"(1,2) _ "3.prems"(4) later] False r True
          by (auto simp: Let_def)
      next
        case no: False
        then show ?thesis
          using False one r by (cases r) (auto simp: Let_def split: option.splits)
      qed
    qed
  qed auto
  then show ?thesis
    using assms by blast
qed

lemma walk_keeps:
  assumes "keeps st" and "below_root directory relative"
  shows "keeps (snd (mount_walk lib m directory relative hidden visit st))"
  using entries_keep[OF assms] read_named[OF assms(1)] assms(1)
  by (auto simp: mount_walk_def split: sum.splits)

end

section \<open>Entries inside a mount\<close>

text \<open>A path a request may reach: below the root of the mount and not excluded.\<close>

definition admitted_path :: "open_mount \<Rightarrow> path \<Rightarrow> bool" where
  "admitted_path m p \<longleftrightarrow>
     (\<exists>r. p = om_canonical m @ r \<and> \<not> excludes (om_exclusion m) (relative_text r))"

definition below_mount :: "open_mount \<Rightarrow> path \<Rightarrow> str \<Rightarrow> bool" where
  "below_mount m d t \<longleftrightarrow>
     (\<exists>r. d = om_canonical m @ r \<and> t = relative_text r \<and> (\<forall>n \<in> set r. entry_name n))"

definition reached_admitted :: "open_mount \<Rightarrow> walked \<Rightarrow> bool" where
  "reached_admitted m w =
     (case w of WFile p _ \<Rightarrow> admitted_path m p | WLinked p _ \<Rightarrow> admitted_path m p | _ \<Rightarrow> True)"

lemma read_dir_names:
  assumes "wf_tree fs" and "fs_read_dir fs d = Ok es" and "Ok n \<in> set es"
  shows "entry_name n"
proof -
  have "n \<in> set (children fs d)"
    using assms(2,3) by (auto simp: fs_read_dir_def try_then_Inr_iff split: option.splits if_splits)
  then obtain i where "node_at fs (d @ [n]) = Some i"
    using child_exists by blast
  from wf_treeD(1)[OF assms(1) this] show ?thesis
    by simp
qed

lemma canonicalize_exists: "fs_canonicalize fs p = Ok q \<Longrightarrow> \<exists>i. node_at fs q = Some i"
  by (auto simp: fs_canonicalize_def try_then_Inr_iff split: if_splits)

lemma admit_Some:
  assumes "admit m fs p = Some q"
  shows "admitted_path m q" and "\<exists>i. node_at fs q = Some i" and "fs_canonicalize fs p = Ok q"
  using assms canonicalize_exists[of fs p q]
  by (auto simp: admit_def admitted_path_def mount_relative_Some split: sum.splits option.splits if_splits)

lemma below_mount_start:
  assumes "wf_tree fs" and "admitted_path m d" and "\<exists>i. node_at fs d = Some i"
  shows "below_mount m d (relative_or_empty m d)"
  using assms wf_tree_names[OF assms(1)] by (auto simp: admitted_path_def below_mount_def)

lemma below_mount_step:
  "below_mount m d r \<Longrightarrow> entry_name n \<Longrightarrow> below_mount m (d @ [n]) (join_path r (to_string_lossy n))"
  unfolding below_mount_def using relative_text_snoc by force

lemma below_mount_admitted:
  "below_mount m p r \<Longrightarrow> \<not> excludes (om_exclusion m) r \<Longrightarrow> admitted_path m p"
  by (auto simp: below_mount_def admitted_path_def)

subsection \<open>The members of a download\<close>

definition zip_ok :: "open_mount \<Rightarrow> file_system \<Rightarrow> file_system \<times> zip \<Rightarrow> bool" where
  "zip_ok m fs st \<longleftrightarrow>
     wf_tree fs \<and> fst st = fs \<and>
     (\<forall>name p bytes. (name, MemberFile p bytes) \<in> set (snd st) \<longrightarrow>
        admitted_path m p \<and> (\<exists>i. node_at fs p = Some i \<and> \<not> is_symlink i \<and> bytes = content i))"

lemma stat_call_node: "stat_call c fs p = Ok i \<Longrightarrow> node_at fs p = Some i"
  by (auto simp: stat_call_def try_then_Inr_iff split: option.splits)

lemma add_member_ok:
  assumes "zip_ok m fs st" and "reached_admitted m w"
  shows "zip_ok m fs (snd (add_member name w st))"
proof -
  have "zip_ok m fs (snd (case try_then (open_without_following fs p) (fs_read_all fs p) of
      Inl e \<Rightarrow> (Err e, fs, snd st) | Inr bytes \<Rightarrow> (Ok (), fs, snd st @ [(name, MemberFile p bytes)])))"
    if "admitted_path m p" for p
    using assms(1) that
    by (auto simp: zip_ok_def open_without_following_def fs_read_all_def try_then_Inr_iff
        split: sum.splits if_splits option.splits dest: stat_call_node)
  then show ?thesis
    using assms by (auto simp: add_member_def reached_admitted_def Let_def zip_ok_def split: walked.splits)
qed

interpretation zip_walk:
  walk_contract m "visit_add base" "zip_ok m fs" "reached_admitted m" "below_mount m" entry_name
  for m base fs
proof
  show "zip_ok m fs (snd (visit_add base below w st))" if "zip_ok m fs st" "reached_admitted m w" for st w below
    using add_member_ok[OF that, of "base @ below"]
    by (auto simp: visit_add_def split: sum.splits prod.splits)
  show "entry_name n" if "zip_ok m fs st" "fs_read_dir (fst st) d = Ok es" "Ok n \<in> set es" for st d n
      and es :: "(error_kind, str) result list"
    using that read_dir_names by (auto simp: zip_ok_def)
  show "reached_admitted m (WLinked t i)" if "zip_ok m fs st" "admit m (fst st) p = Some t" for st p t i
    using that admit_Some(1) by (simp add: reached_admitted_def)
qed (auto simp: reached_admitted_def below_mount_step below_mount_admitted)

lemma archive_entries_ok:
  "zip_ok m fs st \<Longrightarrow> zip_ok m fs (snd (archive_entries lib m a es st))"
proof (induction es arbitrary: st)
  case (Cons e es)
  have fs: "fst st = fs" "wf_tree fs"
    using Cons.prems by (simp_all add: zip_ok_def)
  have "zip_ok m fs (snd (archive_entry lib m a e st))"
  proof (cases "admit m fs (ar_directory a @ [e])")
    case (Some p)
    have start: "below_mount m p (relative_or_empty m p)"
      using below_mount_start[OF fs(2)] admit_Some(1,2)[OF Some] by blast
    show ?thesis
    proof (cases "fs_metadata fs p")
      case (Inr i)
      have plain: "zip_ok m fs (snd (add_member e (WFile p i) st))"
        using add_member_ok[OF Cons.prems] admit_Some(1)[OF Some] by (simp add: reached_admitted_def)
      have dir: "zip_ok m fs (snd (add_member e (WDirectory i) st))"
        using add_member_ok[OF Cons.prems] by (simp add: reached_admitted_def)
      have walk: "zip_ok m fs (snd (mount_walk lib m p (relative_or_empty m p) h (visit_add b) st'))"
        if "zip_ok m fs st'" for st' h b
        using zip_walk.walk_keeps[OF that start] .
      show ?thesis
        using Some Inr fs Cons.prems dir walk[of "snd (add_member e (WDirectory i) st)" "ar_hidden a" "e @ ''/''"] plain
        by (auto simp: archive_entry_def split: sum.splits prod.splits)
    qed (use Some fs Cons.prems in \<open>simp add: archive_entry_def\<close>)
  qed (use fs Cons.prems in \<open>simp add: archive_entry_def\<close>)
  then show ?case
    using Cons.IH by (auto split: sum.splits prod.splits)
qed simp

lemma write_archive_ok:
  assumes "wf_tree fs" and "below_mount m (ar_directory a) (ar_relative a)"
  shows "zip_ok m fs (fs, snd (write_archive lib m fs a))"
proof -
  have start: "zip_ok m fs (fs, [])"
    using assms(1) by (simp add: zip_ok_def)
  have walk: "zip_ok m fs (snd (mount_walk lib m (ar_directory a) (ar_relative a) (ar_hidden a) (visit_add []) (fs, [])))"
    using zip_walk.walk_keeps[OF start assms(2)] .
  have same: "zip_ok m fs (fs, snd st)" if "zip_ok m fs st" for st
    using that by (simp add: zip_ok_def)
  show ?thesis
    using walk start archive_entries_ok[of m fs _ lib a] same
    by (auto simp: write_archive_def split: prod.splits sum.splits) (metis snd_conv)+
qed

subsection \<open>Looking for excluded entries\<close>

interpretation excluded_walk:
  walk_contract m visit_excluded "\<lambda>st. st = st0" "\<lambda>_. True" "\<lambda>_ _. True" "\<lambda>_. True"
  for m st0
  by unfold_locales (auto simp: visit_excluded_def split: walked.splits)

lemma walk_excluded_state:
  "snd (walk_entries lib m hidden visit_excluded d r b es st) = st"
  by (rule excluded_walk.entries_keep) simp_all

lemma walk_entry_excluded:
  assumes "walk_entry m visit_excluded p r b descend st = (Ok None, st')"
    and "\<And>es s. snd (descend es s) = s"
  shows "st' = st" and "\<not> excludes (om_exclusion m) r"
    and "\<exists>t. fs_file_type (fst st) p = Ok t \<and>
           (is_dir t \<longrightarrow> (\<exists>es. fs_read_dir (fst st) p = Ok es \<and> fst (descend es st) = Ok None))"
proof -
  have pair: "descend es s = (x, s') \<Longrightarrow> s' = s" for es s x s'
    using assms(2)[of es s] by simp
  obtain t where t: "fs_file_type (fst st) p = Ok t"
    using assms(1) by (auto simp: walk_entry_def split: sum.splits)
  show "\<not> excludes (om_exclusion m) r"
    using assms(1) t by (auto simp: walk_entry_def visit_excluded_def split: if_splits)
  then show "st' = st"
    using assms(1) t
    by (auto simp: walk_entry_def visit_excluded_def dest: pair split: sum.splits if_splits option.splits)
  show "\<exists>t. fs_file_type (fst st) p = Ok t \<and>
      (is_dir t \<longrightarrow> (\<exists>es. fs_read_dir (fst st) p = Ok es \<and> fst (descend es st) = Ok None))"
    using assms(1) t \<open>\<not> excludes (om_exclusion m) r\<close>
    by (auto simp: walk_entry_def visit_excluded_def split: sum.splits)
qed

lemma walk_finds_none:
  assumes "fst (walk_entries lib m True visit_excluded d r b es (fs, ())) = Ok None" and "e \<in> set es"
  shows "\<exists>raw. e = Ok raw \<and> (\<not> is_part lib (to_string_lossy raw) \<longrightarrow>
     \<not> excludes (om_exclusion m) (join_path r (to_string_lossy raw)) \<and>
     (\<exists>t. fs_file_type fs (d @ [raw]) = Ok t \<and>
        (is_dir t \<longrightarrow> (\<exists>es1 b1. fs_read_dir fs (d @ [raw]) = Ok es1 \<and>
           fst (walk_entries lib m True visit_excluded (d @ [raw]) (join_path r (to_string_lossy raw)) b1 es1 (fs, ())) = Ok None))))"
  using assms
proof (induction es)
  case (Cons x es)
  show ?case
  proof (cases x)
    case (Inl err)
    then show ?thesis using Cons.prems(1) by simp
  next
    case (Inr raw)
    let ?n = "to_string_lossy raw"
    show ?thesis
    proof (cases "is_part lib ?n")
      case True
      then have "fst (walk_entries lib m True visit_excluded d r b es (fs, ())) = Ok None"
        using Cons.prems(1) Inr by (simp add: Let_def)
      then show ?thesis
        using Cons.IH Cons.prems(2) Inr True by (cases "e = x") auto
    next
      case False
      let ?descend = "walk_entries lib m True visit_excluded (d @ [raw]) (join_path r ?n) (join_path b ?n)"
      obtain st' where one: "walk_entry m visit_excluded (d @ [raw]) (join_path r ?n) (join_path b ?n)
          ?descend (fs, ()) = (Ok None, st')"
        and rest: "fst (walk_entries lib m True visit_excluded d r b es st') = Ok None"
        using Cons.prems(1) Inr False by (auto simp: Let_def split: sum.splits option.splits prod.splits)
      note found = walk_entry_excluded[OF one walk_excluded_state]
      have "fst (walk_entries lib m True visit_excluded d r b es (fs, ())) = Ok None"
        using rest found(1) by simp
      then show ?thesis
        using Cons.IH Cons.prems(2) Inr False found(2,3) by (cases "e = x") auto
    qed
  qed
qed simp

text \<open>When the walk finds none, no entry below is excluded, parts of uploads and what they hold aside.\<close>

lemma nothing_excluded_below:
  assumes tree: "wf_tree fs"
    and none: "fst (walk_entries lib m True visit_excluded d (relative_text r) b es (fs, ())) = Ok None"
    and es: "fs_read_dir fs d = Ok es"
    and names: "\<forall>x \<in> set r. entry_name x"
    and exists: "node_at fs (d @ s) = Some i" and s: "s \<noteq> []"
    and parts: "\<forall>x \<in> set s. \<not> is_part lib (to_string_lossy x)"
  shows "\<not> excludes (om_exclusion m) (relative_text (r @ s))"
  using none es names exists s parts
proof (induction s arbitrary: d r b es)
  case (Cons n s)
  have valid: "entry_name n"
    using wf_tree_names[OF tree Cons.prems(4)] by simp
  have there: "\<exists>i. node_at fs (d @ [n]) = Some i"
    using wf_tree_ancestor[OF tree, of "d @ [n]" s i] Cons.prems(4) by (cases "s = []") auto
  then have "n \<in> set (children fs d)"
    using child_listed[of fs d n] by auto
  then obtain e where e: "e \<in> set es" "\<forall>raw. e = Ok raw \<longrightarrow> raw = n"
    using Cons.prems(2) by (force simp: fs_read_dir_def try_then_Inr_iff split: option.splits if_splits)
  from walk_finds_none[OF Cons.prems(1) e(1)] e(2) Cons.prems(6)
  obtain t es1 b1 where here: "\<not> excludes (om_exclusion m) (relative_text (r @ [n]))"
      "fs_file_type fs (d @ [n]) = Ok t"
      "is_dir t \<longrightarrow> fs_read_dir fs (d @ [n]) = Ok es1 \<and>
         fst (walk_entries lib m True visit_excluded (d @ [n]) (relative_text (r @ [n])) b1 es1 (fs, ())) = Ok None"
    using relative_text_snoc[OF Cons.prems(3)] by fastforce
  show ?case
  proof (cases "s = []")
    case False
    obtain k where k: "node_at fs (d @ [n]) = Some k" "is_dir k"
      using wf_tree_ancestor[OF tree, of "d @ [n]" s i] Cons.prems(4) False by auto
    then have "is_dir t"
      using here(2) stat_call_node unfolding fs_file_type_def by fastforce
    then show ?thesis
      using Cons.IH[of "d @ [n]" "r @ [n]" b1 es1] here(3) Cons.prems(3,4,6) valid False by simp
  qed (use here in simp)
qed simp

lemma unit_option: "a \<noteq> Some () \<longleftrightarrow> a = None"
  by (cases a) auto

lemma holds_excluded_complete:
  assumes "wf_tree fs" and "holds_excluded lib m fs (om_canonical m @ r) (relative_text r) = Ok False"
    and "\<forall>x \<in> set r. entry_name x"
    and "node_at fs (om_canonical m @ r @ s) = Some i" and "s \<noteq> []"
    and "\<forall>x \<in> set s. \<not> is_part lib (to_string_lossy x)"
  shows "\<not> excludes (om_exclusion m) (relative_text (r @ s))"
proof -
  obtain es where "fs_read_dir fs (om_canonical m @ r) = Ok es"
      "fst (walk_entries lib m True visit_excluded (om_canonical m @ r) (relative_text r) [] es (fs, ())) = Ok None"
    using assms(2) by (auto simp: holds_excluded_def mount_walk_def try_then_Inr_iff unit_option split: sum.splits)
  from nothing_excluded_below[OF assms(1) this(2,1) assms(3) _ assms(5,6)] assms(4)
  show ?thesis
    by simp
qed

section \<open>Listings\<close>

text \<open>The candidate an entry gives, and whether a listing takes it.\<close>

definition entry_candidate :: "path \<Rightarrow> str \<Rightarrow> candidate" where
  "entry_candidate directory raw =
     \<lparr>cd_name = (if is_utf8 raw then raw else to_string_lossy raw),
      cd_path = directory @ [raw], cd_unicode = is_utf8 raw\<rparr>"

definition lists_entry ::
  "files_lib \<Rightarrow> open_mount \<Rightarrow> file_system \<Rightarrow> path \<Rightarrow> file_query \<Rightarrow> str \<Rightarrow> bool" where
  "lists_entry lib m fs directory query raw \<longleftrightarrow>
     (let name = cd_name (entry_candidate directory raw); relative = relative_or_empty m directory in
      \<not> (is_utf8 raw \<and> is_part lib raw \<and> fst (sweep_if_stale fs (directory @ [raw]))) \<and>
      (case q_after query of None \<Rightarrow> True | Some after \<Rightarrow> after < name) \<and>
      \<not> excludes (om_exclusion m) ((if relative = [] then [] else relative @ ''/'') @ name))"

text \<open>The names a directory is read to hold.\<close>

definition read_names :: "(error_kind, str) result list \<Rightarrow> str list" where
  "read_names es = List.map_filter (\<lambda>e. case e of Inl _ \<Rightarrow> None | Inr n \<Rightarrow> Some n) es"

lemma read_names_simps [simp]:
  "read_names [] = []" "read_names (Inl e # es) = read_names es" "read_names (Inr n # es) = n # read_names es"
  by (simp_all add: read_names_def map_filter_simps)

lemma sweep_frame [frame]: "same_outside {p} fs (snd (sweep_if_stale fs p))"
  using fs_remove_file_frame[of p fs] by (auto simp: sweep_if_stale_def split: sum.splits prod.splits)

lemma sweep_context:
  "fault (snd (sweep_if_stale fs p)) = fault fs" "now (snd (sweep_if_stale fs p)) = now fs"
  by (auto simp: sweep_if_stale_def fs_remove_file_def drop_node_def split: sum.splits prod.splits if_splits)

lemma sweep_local:
  assumes "node_at fs' p = node_at fs p" and "fault fs' = fault fs" and "now fs' = now fs"
  shows "fst (sweep_if_stale fs' p) = fst (sweep_if_stale fs p)"
proof -
  have stat: "stat_call c fs' p = stat_call c fs p" for c
    using assms by (simp add: stat_call_def admitted_def)
  have "fst (fs_remove_file fs' p) = fst (fs_remove_file fs p)"
    by (simp add: fs_remove_file_def stat split: sum.splits)
  moreover have "stale_part fs' p = stale_part fs p"
    unfolding stale_part_def fs_symlink_metadata_def stat assms(3) ..
  moreover have "fst (sweep_if_stale g p) = (stale_part g p \<and> (\<exists>u. fst (fs_remove_file g p) = Inr u))" for g
    by (auto simp: sweep_if_stale_def split: sum.splits prod.splits)
  ultimately show ?thesis
    by simp
qed

lemma list_entry_frame:
  "same_outside {q. \<exists>n. q = d @ [n] \<and> is_part lib n \<and> is_utf8 n} (snd st) (snd (list_entry lib m d pre query e st))"
proof (cases "\<exists>n. e = Inr n \<and> is_utf8 n \<and> is_part lib n")
  case True
  then obtain n where n: "e = Inr n" "is_utf8 n" "is_part lib n"
    by blast
  have "same_outside {q. \<exists>n. q = d @ [n] \<and> is_part lib n \<and> is_utf8 n} (snd st) (snd (sweep_if_stale (snd st) (d @ [n])))"
    by (rule same_outside_mono[OF sweep_frame]) (use n in auto)
  then show ?thesis
    using n by (cases st) (auto simp: list_entry_def Let_def split: prod.splits)
next
  case False
  then show ?thesis
    by (cases st) (auto simp: list_entry_def Let_def split: sum.splits)
qed

lemma list_fold_frame:
  "same_outside {q. \<exists>n. q = d @ [n] \<and> is_part lib n \<and> is_utf8 n} (snd st)
     (snd (fold (list_entry lib m d pre query) es st))"
proof (induction es arbitrary: st)
  case (Cons e es)
  then show ?case
    using same_outside_trans[OF list_entry_frame[of d lib st m pre query e] Cons] by simp
qed simp

lemma mount_list_frame:
  "same_outside {q. \<exists>n. q = d @ [n] \<and> is_part lib n \<and> is_utf8 n} fs (snd (mount_list lib m fs d query))"
proof (cases "fs_read_dir fs d")
  case (Inr es)
  define pre where "pre = (if relative_or_empty m d = [] then [] else relative_or_empty m d @ ''/'')"
  have "snd (mount_list lib m fs d query) = snd (fold (list_entry lib m d pre query) es ([], fs))"
    by (simp add: mount_list_def Inr Let_def pre_def split: prod.splits)
  then show ?thesis
    using list_fold_frame[of d lib "([], fs)" m pre query es] by simp
qed (simp add: mount_list_def Let_def)

text \<open>The heap that keeps the least names is the start of the sorted whole.\<close>

lemma take_insort_key:
  "take k (insort_key f c (take k xs)) = take k (insort_key f c xs)"
proof (induction xs arbitrary: k)
  case (Cons x xs)
  show ?case
    by (cases k) (auto simp: Cons.IH take_Cons')
qed simp

lemma keep_candidate_take:
  "keep_candidate c (take (LISTING_CAP + 1) xs) = take (LISTING_CAP + 1) (heap_push c xs)"
proof -
  have "keep_candidate c (take (LISTING_CAP + 1) xs) =
      take (LISTING_CAP + 1) (insort_key cd_name c (take (LISTING_CAP + 1) xs))"
  proof -
    define kept where "kept = take (LISTING_CAP + 1) xs"
    have "length kept \<le> LISTING_CAP + 1"
      by (simp add: kept_def)
    then have "keep_candidate c kept = take (LISTING_CAP + 1) (insort_key cd_name c kept)"
      by (cases "length kept = LISTING_CAP + 1")
        (simp_all add: keep_candidate_def heap_push_def Let_def butlast_conv_take)
    then show ?thesis
      by (simp add: kept_def)
  qed
  then show ?thesis
    by (simp only: take_insort_key heap_push_def)
qed

lemma fold_keep_take:
  "fold keep_candidate cs (take (LISTING_CAP + 1) xs) = take (LISTING_CAP + 1) (fold heap_push cs xs)"
  by (induction cs arbitrary: xs) (simp_all add: keep_candidate_take del: take_Suc_Cons One_nat_def)

lemma fold_keep_sorted:
  "fold keep_candidate cs [] = take (LISTING_CAP + 1) (sort_key cd_name (rev cs))"
proof -
  have "fold heap_push cs [] = sort_key cd_name (rev cs)"
    by (simp add: sort_key_def foldr_conv_fold heap_push_def[abs_def])
  then show ?thesis
    using fold_keep_take[of cs "[]"] by simp
qed

text \<open>
  The loop over a directory keeps what a listing takes: a part swept on the way changes nothing
  that a later entry is judged by.
\<close>

lemma list_fold_candidates:
  assumes "pre = (if relative_or_empty m d = [] then [] else relative_or_empty m d @ ''/'')"
    and "distinct (read_names es)" and "fault fs' = fault fs" and "now fs' = now fs"
    and "\<forall>n \<in> set (read_names es). node_at fs' (d @ [n]) = node_at fs (d @ [n])"
  shows "fst (fold (list_entry lib m d pre query) es (kept, fs')) =
     fold keep_candidate (map (entry_candidate d) (filter (lists_entry lib m fs d query) (read_names es))) kept"
  using assms(2-)
proof (induction es arbitrary: kept fs')
  case (Cons e es)
  show ?case
  proof (cases e)
    case (Inl err)
    then show ?thesis
      using Cons by (simp add: list_entry_def)
  next
    case (Inr n)
    have n: "n \<notin> set (read_names es)" "distinct (read_names es)"
      using Cons.prems(1) Inr by simp_all
    obtain kept1 fs1 where step: "list_entry lib m d pre query e (kept, fs') = (kept1, fs1)"
      by (cases "list_entry lib m d pre query e (kept, fs')")
    have fs1: "fs1 = (if is_utf8 n \<and> is_part lib n then snd (sweep_if_stale fs' (d @ [n])) else fs')"
      using step Inr by (auto simp: list_entry_def Let_def split: prod.splits if_splits)
    have swept: "fst (sweep_if_stale fs' (d @ [n])) = fst (sweep_if_stale fs (d @ [n]))"
      using Cons.prems Inr by (intro sweep_local) simp_all
    have kept1: "kept1 = (if lists_entry lib m fs d query n then keep_candidate (entry_candidate d n) kept else kept)"
      using step Inr swept
      by (auto simp: list_entry_def lists_entry_def entry_candidate_def assms(1)[symmetric] Let_def not_le not_less
          split: prod.splits if_splits option.splits)
    have "fault fs1 = fault fs" "now fs1 = now fs"
      using Cons.prems(2,3) by (simp_all add: fs1 sweep_context)
    moreover have "\<forall>k \<in> set (read_names es). node_at fs1 (d @ [k]) = node_at fs (d @ [k])"
    proof
      fix k assume k: "k \<in> set (read_names es)"
      then have "node_at (snd (sweep_if_stale fs' (d @ [n]))) (d @ [k]) = node_at fs' (d @ [k])"
        using n(1) by (intro same_outside_node[OF sweep_frame]) auto
      then show "node_at fs1 (d @ [k]) = node_at fs (d @ [k])"
        using Cons.prems(4) Inr k by (simp add: fs1)
    qed
    ultimately show ?thesis
      using Cons.IH[OF n(2), of fs1 kept1] step Inr kept1 by simp
  qed
qed simp

lemma read_names_distinct:
  assumes "wf_tree fs" and "fs_read_dir fs d = Ok es"
  shows "distinct (read_names es)"
proof -
  have "inj_on last {q. q \<noteq> [] \<and> butlast q = d}" for d :: path
    by (rule inj_onI) (metis (mono_tags, lifting) append_butlast_last_id mem_Collect_eq)
  then have "distinct (children fs d)"
    using assms(1) by (auto simp: children_def wf_tree_def distinct_map intro: inj_on_subset)
  moreover have "es = map (\<lambda>n. case fault fs ReadEntry (d @ [n]) of Some e \<Rightarrow> Err e | None \<Rightarrow> Ok n) (children fs d)"
    using assms(2) by (auto simp: fs_read_dir_def try_then_Inr_iff split: option.splits if_splits)
  moreover have "read_names (map (\<lambda>n. case f n of Some e \<Rightarrow> Err e | None \<Rightarrow> Ok n) ns) = filter (\<lambda>n. f n = None) ns"
    for f :: "str \<Rightarrow> error_kind option" and ns
    by (induction ns) (auto split: option.splits)
  ultimately show ?thesis
    by simp
qed

lemma mount_list_page:
  assumes "wf_tree fs" and "mount_list lib m fs d query = (Ok l, fs')" and "fs_read_dir fs d = Ok es"
  defines "cs \<equiv> sort_key cd_name (rev (map (entry_candidate d) (filter (lists_entry lib m fs d query) (read_names es))))"
  shows "fl_entries l = List.map_filter (describe lib m fs') (take LISTING_CAP cs)"
    and "fl_truncated l = (LISTING_CAP < length cs)"
proof -
  define pre where "pre = (if relative_or_empty m d = [] then [] else relative_or_empty m d @ ''/'')"
  have "fst (fold (list_entry lib m d pre query) es ([], fs)) = take (LISTING_CAP + 1) cs"
    unfolding cs_def fold_keep_sorted[symmetric]
    by (rule list_fold_candidates[OF pre_def read_names_distinct[OF assms(1,3)]]) simp_all
  then obtain f where f: "fold (list_entry lib m d pre query) es ([], fs) = (take (LISTING_CAP + 1) cs, f)"
    by (cases "fold (list_entry lib m d pre query) es ([], fs)") simp
  then have l: "l = \<lparr>fl_entries = List.map_filter (describe lib m f) (take LISTING_CAP (take (LISTING_CAP + 1) cs)),
      fl_truncated = LISTING_CAP < length (take (LISTING_CAP + 1) cs)\<rparr>" "fs' = f"
    using assms(2) by (auto simp: mount_list_def assms(3) Let_def pre_def[symmetric])
  show "fl_entries l = List.map_filter (describe lib m fs') (take LISTING_CAP cs)"
    by (simp add: l min_def)
  show "fl_truncated l = (LISTING_CAP < length cs)"
    by (simp add: l(1))
qed

section \<open>What a read finds\<close>

definition swept_names :: "files_lib \<Rightarrow> open_mount \<Rightarrow> path set" where
  "swept_names lib m = {q. \<exists>r n. q = om_canonical m @ r @ [n] \<and> is_part lib n \<and> is_utf8 n}"

lemma mount_find_at:
  assumes "mount_find lib m fs names query = (Ok found, fs')"
  obtains p i name where "admit m fs (om_canonical m @ names) = Some p" and "fs_metadata fs p = Ok i"
    and "find_at lib m fs p i name query = (Ok found, fs')"
  using assms by (auto simp: mount_find_def split: sum.splits option.splits if_splits)

lemma mount_find_frame: "same_outside (swept_names lib m) fs (snd (mount_find lib m fs names query))"
proof (cases "admit m fs (om_canonical m @ names)")
  case (Some d)
  obtain r where d: "d = om_canonical m @ r"
    using admit_Some(1)[OF Some] by (auto simp: admitted_path_def)
  have listed: "same_outside (swept_names lib m) fs (snd (mount_list lib m fs d query))"
    by (rule same_outside_mono[OF mount_list_frame]) (auto simp: swept_names_def d)
  have "same_outside (swept_names lib m) fs (snd (find_at lib m fs d i name query))" for i name
    using listed by (auto simp: find_at_def split: option.splits prod.splits)
  then show ?thesis
    using Some by (simp add: mount_find_def split: sum.splits)
qed (simp add: mount_find_def)

lemma mount_find_file:
  assumes "mount_find lib m fs names query = (Ok (FoundFile f name), fs')"
  shows "admitted_path m (vf_path f)" and "node_at fs (vf_path f) = Some (vf_inode f)"
    and "is_file (vf_inode f)" and "fs' = fs"
proof -
  obtain p i n where p: "admit m fs (om_canonical m @ names) = Some p"
      "find_at lib m fs p i n query = (Ok (FoundFile f name), fs')"
    using mount_find_at[OF assms] by blast
  have open_f: "verified_open fs p i = Some f" "fs' = fs"
    using p(2) by (auto simp: find_at_def try_then_Inr_iff split: option.splits if_splits prod.splits)
  then have "vf_path f = p" "open_without_following fs p = Ok (vf_inode f)" "is_file (vf_inode f)"
    by (auto simp: verified_open_def split: sum.splits if_splits)
  then show "admitted_path m (vf_path f)" "node_at fs (vf_path f) = Some (vf_inode f)"
      "is_file (vf_inode f)" "fs' = fs"
    using admit_Some(1)[OF p(1)] open_f(2) stat_call_node
    by (auto simp: open_without_following_def try_then_Inr_iff split: if_splits)
qed

lemma mount_find_archive:
  assumes "wf_tree fs" and "mount_find lib m fs names query = (Ok (FoundArchive a), fs')"
  shows "below_mount m (ar_directory a) (ar_relative a)" and "fs' = fs"
proof -
  obtain p i n where p: "admit m fs (om_canonical m @ names) = Some p"
      "find_at lib m fs p i n query = (Ok (FoundArchive a), fs')"
    using mount_find_at[OF assms(2)] by blast
  have a: "mount_archive m fs p query = Ok a" "fs' = fs"
    using p(2) by (auto simp: find_at_def try_then_Inr_iff split: option.splits if_splits prod.splits)
  then have "ar_directory a = p" "ar_relative a = relative_or_empty m p"
    by (auto simp: mount_archive_def Let_def try_then_Inr_iff)
  then show "below_mount m (ar_directory a) (ar_relative a)" "fs' = fs"
    using below_mount_start[OF assms(1) admit_Some(1,2)[OF p(1)]] a(2) by auto
qed

section \<open>The target of a write\<close>

lemma mount_target_facts:
  assumes "wf_tree fs" and "mount_target m fs names = Ok t" and "\<forall>n \<in> set names. is_utf8 n"
  obtains r where "wt_parent t = om_canonical m @ r" and "wt_relative t = relative_text (r @ [wt_name t])"
    and "\<not> excludes (om_exclusion m) (wt_relative t)" and "\<forall>n \<in> set r. entry_name n"
    and "wt_name t = last names" and "names \<noteq> []"
proof -
  obtain p where p: "admit m fs (om_canonical m @ butlast names) = Some p" "names \<noteq> []"
      "t = \<lparr>wt_parent = p, wt_name = last names, wt_relative = join_path (relative_or_empty m p) (last names)\<rparr>"
      "\<not> excludes (om_exclusion m) (join_path (relative_or_empty m p) (last names))"
    using assms(2) by (auto simp: mount_target_def Let_def split: option.splits if_splits)
  obtain r where r: "p = om_canonical m @ r" "\<forall>n \<in> set r. entry_name n"
    using below_mount_start[OF assms(1) admit_Some(1,2)[OF p(1)]] by (auto simp: below_mount_def)
  have "to_string_lossy (last names) = last names"
    using assms(3) p(2) by (simp add: to_string_lossy_utf8)
  then have "join_path (relative_or_empty m p) (last names) = relative_text (r @ [last names])"
    using r relative_text_snoc[OF r(2), of "last names"] by simp
  then show ?thesis
    using that[of r] p r by simp
qed

lemma split_path_names:
  assumes "split_path s = Ok names" and "is_utf8 s"
  shows "\<forall>n \<in> set names. is_utf8 n \<and> entry_name n \<and> n \<noteq> ''.'' \<and> n \<noteq> ''..''"
    and "join_with ''/'' names = s"
proof -
  have all: "names = split_on CHR ''/'' s \<and> (\<forall>n \<in> set names. normal_name n)" if "s \<noteq> []"
  proof -
    have "list_all2 (\<lambda>x y. x = y \<and> normal_name x) (split_on CHR ''/'' s) names"
      using assms(1) that by (auto simp: split_path_def try_map_Inr elim!: list_all2_mono split: if_splits)
    then show ?thesis
      by (induction rule: list_all2_induct) auto
  qed
  have normal: "n \<noteq> [] \<and> n \<noteq> ''.'' \<and> n \<noteq> ''..''" if "normal_name n" for n
    using that by (auto simp: normal_name_def components_def piece_component_def split_on_atom)
  have "is_utf8 n \<and> entry_name n \<and> n \<noteq> ''.'' \<and> n \<noteq> ''..''" if n: "n \<in> set names" for n
  proof (cases "s = []")
    case False
    then have "n \<in> set (split_on CHR ''/'' s)" "normal_name n"
      using all n by auto
    then show ?thesis
      using normal[of n] is_utf8_pieces[OF assms(2)] by (auto simp: entry_name_def normal_name_def)
  qed (use assms(1) n in \<open>simp add: split_path_def\<close>)
  then show "\<forall>n \<in> set names. is_utf8 n \<and> entry_name n \<and> n \<noteq> ''.'' \<and> n \<noteq> ''..''"
    by blast
  show "join_with ''/'' names = s"
    using all assms(1) by (cases "s = []") (auto simp: split_path_def)
qed

end
