(* ===== verification/Files.thy ===== *)
theory Files
  imports Mounts
begin

text \<open>
  The handlers of \<open>ceres-server/src/api/files.rs\<close>: access levels, downloads, uploads through a part
  that takes the target's name once it is whole, new directories, moves, copies and deletes. A
  handler takes the file system and returns its answer with the file system it leaves. The
  host's \<open>files.resolve\<close> and \<open>ServeDir\<close> are outside: the first is an argument, and a served file is
  the inode handed to the second with the headers the handler sets.
\<close>

section \<open>Errors of a write\<close>

definition write_error :: "error_kind \<Rightarrow> api_error" where
  "write_error e =
     (case e of
        NotFound \<Rightarrow> not_found
      | AlreadyExists \<Rightarrow> http_error 409
      | DirectoryNotEmpty \<Rightarrow> http_error 409
      | IsADirectory \<Rightarrow> http_error 409
      | NotADirectory \<Rightarrow> http_error 409
      | CrossesDevices \<Rightarrow> http_error 409
      | InvalidFilename \<Rightarrow> explained 400 ''The filesystem refuses the name, which may be too long.''
      | InvalidInput \<Rightarrow> http_error 400
      | StorageFull \<Rightarrow> http_error 507
      | QuotaExceeded \<Rightarrow> http_error 507
      | PermissionDenied \<Rightarrow> http_error 403
      | ReadOnlyFilesystem \<Rightarrow> http_error 403
      | _ \<Rightarrow> internal_error)"

definition expired :: api_error where
  "expired = explained 409 ''The upload expired before it finished.''"

section \<open>Requests\<close>

datatype http_method = GET | HEAD | PUT | PATCH | POST | DELETE | OtherMethod

record file_request =
  rq_method :: http_method
  rq_query :: "str option"
  rq_if_none_match :: "str option"
  rq_if_match :: "str option"
  rq_content_length :: "str option"
  rq_body :: "(unit, str) result list"

text \<open>\<open>str::parse::<u64>\<close>.\<close>

fun digits_value :: "nat \<Rightarrow> str \<Rightarrow> nat option" where
  "digits_value acc [] = Some acc"
| "digits_value acc (c # cs) =
     (if is_ascii_digit c then
        (let acc' = acc * 10 + (of_char c - 48)
         in if 2 ^ 64 \<le> acc' then None else digits_value acc' cs)
      else None)"

definition parse_u64 :: "str \<Rightarrow> nat option" where
  "parse_u64 s =
     (let d = (case strip_prefix ''+'' s of Some r \<Rightarrow> r | None \<Rightarrow> s)
      in if d = '''' then None else digits_value 0 d)"

section \<open>Upload conditions\<close>

record upload_conditions =
  uc_create_only :: bool
  uc_if_match :: "str option"

definition conditions_parse :: "files_lib \<Rightarrow> file_request \<Rightarrow> upload_conditions" where
  "conditions_parse lib rq =
     (let text = (\<lambda>h. map_option (fl_trim lib) (Option.bind h header_to_str))
      in \<lparr>uc_create_only = (text (rq_if_none_match rq) = Some ''*''),
          uc_if_match = text (rq_if_match rq)\<rparr>)"

fun hex_text :: "nat \<Rightarrow> str" where
  "hex_text n =
     (let d = (\<lambda>k. if k < 10 then char_of (48 + k) else char_of (87 + k))
      in if n < 16 then [d n] else hex_text (n div 16) @ [d (n mod 16)])"

declare hex_text.simps [simp del]

definition pad8 :: "str \<Rightarrow> str" where
  "pad8 s = replicate (8 - length s) CHR ''0'' @ s"

text \<open>The tag a read serves, \<open>None\<close> without a time or for one before the epoch.\<close>

definition etag :: "inode \<Rightarrow> str option" where
  "etag n =
     (case modified n of
        None \<Rightarrow> None
      | Some t \<Rightarrow>
          if t < 0 then None
          else Some (CHR 0x22 # hex_text (nat (t div 1000000000)) @ ''.'' @
                 pad8 (hex_text (nat (t mod 1000000000))) @ ''-'' @
                 hex_text (length (content n)) @ [CHR 0x22]))"

definition conditions_check ::
  "files_lib \<Rightarrow> upload_conditions \<Rightarrow> inode option \<Rightarrow> (api_error, unit) result" where
  "conditions_check lib uc existing =
     (case existing of
        None \<Rightarrow> (case uc_if_match uc of Some _ \<Rightarrow> Err (http_error 412) | None \<Rightarrow> Ok ())
      | Some n \<Rightarrow>
          if \<not> is_file n then Err (http_error 409)
          else
            (let matched =
               (case uc_if_match uc of
                  None \<Rightarrow> True
                | Some tags \<Rightarrow>
                    list_ex (\<lambda>tag. tag = ''*'' \<or> Some tag = etag n)
                      (map (fl_trim lib) (split_on CHR '','' tags)))
             in if uc_create_only uc \<or> \<not> matched then Err (http_error 412) else Ok ()))"

section \<open>Targets and parts\<close>

definition wt_existing :: "file_system \<Rightarrow> write_target \<Rightarrow> (api_error, inode option) result" where
  "wt_existing fs t =
     (case fs_symlink_metadata fs (wt_path t) of
        Inr n \<Rightarrow> Ok (Some n)
      | Inl e \<Rightarrow> if e = NotFound then Ok None else Err (write_error e))"

definition is_unsupported :: "error_kind \<Rightarrow> bool" where
  "is_unsupported e = (e = InvalidInput \<or> e = Unsupported)"

definition rename_without_replacing ::
  "file_system \<Rightarrow> path \<Rightarrow> path \<Rightarrow> (error_kind, unit) result \<times> file_system" where
  "rename_without_replacing fs from to =
     (case exclusive_rename fs from to of
        (Inl e, fs') \<Rightarrow> if is_unsupported e then fs_rename fs' from to else (Err e, fs')
      | r \<Rightarrow> r)"

text \<open>\<open>PartFile::beside\<close>: the path of the part of a target.\<close>

definition part_beside :: "files_lib \<Rightarrow> write_target \<Rightarrow> path" where
  "part_beside lib t =
     wt_parent t @ [''.'' @ wt_name t @ ''.'' @ fl_new_uuid lib @ ''.part'']"

definition part_remove :: "file_system \<Rightarrow> path \<Rightarrow> file_system" where
  "part_remove fs p =
     (case fs_symlink_metadata fs p of
        Inr n \<Rightarrow> if is_dir n then snd (fs_remove_dir_all fs p) else snd (fs_remove_file fs p)
      | Inl _ \<Rightarrow> snd (fs_remove_file fs p))"

text \<open>\<open>PartFile::discard\<close> and \<open>Drop\<close>: remove the part unless it was moved into place.\<close>

definition part_discard :: "file_system \<Rightarrow> path option \<Rightarrow> file_system" where
  "part_discard fs part = (case part of None \<Rightarrow> fs | Some p \<Rightarrow> part_remove fs p)"

text \<open>\<open>PartFile::place\<close> and \<open>PartFile::commit\<close> return what is left of the part.\<close>

definition part_place ::
  "file_system \<Rightarrow> path option \<Rightarrow> write_target \<Rightarrow> bool \<Rightarrow>
     (error_kind, unit) result \<times> path option \<times> file_system" where
  "part_place fs part t replace =
     (case part of
        None \<Rightarrow> (Err NotFound, part, fs)
      | Some p \<Rightarrow>
          (case (if replace then fs_rename fs p (wt_path t)
                 else rename_without_replacing fs p (wt_path t)) of
             (Inl e, fs') \<Rightarrow> (Err e, part, fs')
           | (Inr _, fs') \<Rightarrow> (Ok (), None, fs')))"

definition part_commit ::
  "files_lib \<Rightarrow> file_system \<Rightarrow> path option \<Rightarrow> write_target \<Rightarrow> upload_conditions \<Rightarrow>
     (api_error, bool) result \<times> path option \<times> file_system" where
  "part_commit lib fs part t uc =
     (case part of
        None \<Rightarrow> (Err (http_error 409), part, fs)
      | Some p \<Rightarrow>
          (case try_then (wt_existing fs t) (\<lambda>existing.
                try_then (conditions_check lib uc existing) (\<lambda>_. Ok existing)) of
             Inl e \<Rightarrow> (Err e, part, fs)
           | Inr existing \<Rightarrow>
               (case (if uc_create_only uc then
                        (case fs_hard_link fs p (wt_path t) of
                           (Inr _, fs') \<Rightarrow> Some (Ok True, part, fs')
                         | (Inl e, fs') \<Rightarrow>
                             if e = AlreadyExists then Some (Err (http_error 412), part, fs') else None)
                      else None) of
                  Some r \<Rightarrow> r
                | None \<Rightarrow>
                    (case fs_rename fs p (wt_path t) of
                       (Inl e, fs') \<Rightarrow>
                         (Err (if e = NotFound then expired else write_error e), part, fs')
                     | (Inr _, fs') \<Rightarrow> (Ok (existing = None), None, fs')))))"

section \<open>Answers\<close>

datatype response =
    RListing file_listing
  | RStat file_stat
  | RFile verified_file "(str \<times> str) list"
  | RZip "(str \<times> str) list" "((error_kind, unit) result \<times> zip) option"
  | RStatus nat

text \<open>
  \<open>attachment\<close>: every character outside printable ASCII, a quote and a backslash give one
  underscore in the fallback name; a continuation byte of UTF-8 belongs to the character before it.
\<close>

definition fallback_char :: "char \<Rightarrow> str" where
  "fallback_char c =
     (let b = (of_char c :: nat) in
      if 128 \<le> b \<and> b < 192 then []
      else if b = 32 \<or> (33 \<le> b \<and> b \<le> 126 \<and> c \<noteq> CHR 0x22 \<and> c \<noteq> CHR 0x5C) then [c]
      else ''_'')"

definition attachment :: "files_lib \<Rightarrow> str \<Rightarrow> str" where
  "attachment lib name =
     (let fallback = concat (map fallback_char name);
          encoded = fl_percent_encode lib name
      in case header_from_str (''attachment; filename='' @ [CHR 0x22] @ fallback @ [CHR 0x22] @
                ''; filename*=UTF-8'' @ [CHR 0x27, CHR 0x27] @ encoded) of
           Some v \<Rightarrow> v
         | None \<Rightarrow> ''attachment'')"

definition stream_archive ::
  "files_lib \<Rightarrow> open_mount \<Rightarrow> file_system \<Rightarrow> archive \<Rightarrow> bool \<Rightarrow> response" where
  "stream_archive lib m fs a head =
     RZip [(''content-type'', ''application/zip''),
           (''content-disposition'', attachment lib (ar_name a)),
           (''x-content-type-options'', ''nosniff'')]
       (if head then None else Some (write_archive lib m fs a))"

section \<open>Handlers\<close>

definition files_read ::
  "files_lib \<Rightarrow> file_system \<Rightarrow> resolved_mount \<Rightarrow> str list \<Rightarrow> file_query \<Rightarrow> file_request \<Rightarrow>
     (api_error, response) result \<times> file_system" where
  "files_read lib fs resolved names query rq =
     (case mount_open lib fs resolved of
        Inl e \<Rightarrow> (Err e, fs)
      | Inr m \<Rightarrow>
          (case mount_find lib m fs names query of
             (Inl e, fs') \<Rightarrow> (Err e, fs')
           | (Inr found, fs') \<Rightarrow>
               (Ok (case found of
                  FoundListing l \<Rightarrow> RListing l
                | FoundStat s \<Rightarrow> RStat s
                | FoundArchive a \<Rightarrow> stream_archive lib m fs' a (rq_method rq = HEAD)
                | FoundFile f name \<Rightarrow>
                    RFile f ([(''content-security-policy'', ''sandbox''),
                              (''x-content-type-options'', ''nosniff'')] @
                             (if q_download query
                              then [(''content-disposition'', attachment lib name)] else []))), fs')))"

text \<open>\<open>write_body\<close>: the chunks in turn, refused past the limit, then synced.\<close>

fun write_body ::
  "file_system \<Rightarrow> path \<Rightarrow> nat \<Rightarrow> nat option \<Rightarrow> nat \<Rightarrow> (unit, str) result list \<Rightarrow>
     (api_error, unit) result \<times> file_system" where
  "write_body fs p i limit written [] = (or_error (fs_sync fs p) write_error, fs)"
| "write_body fs p i limit written (Inl _ # cs) = (Err (http_error 400), fs)"
| "write_body fs p i limit written (Inr c # cs) =
     (let written' = written + length c in
      if (case limit of Some l \<Rightarrow> l < written' | None \<Rightarrow> False) then (Err (http_error 413), fs)
      else (case fs_write_all fs p i c of
        (Inl e, fs') \<Rightarrow> (Err (write_error e), fs')
      | (Inr _, fs') \<Rightarrow> write_body fs' p i limit written' cs))"

text \<open>The first blocking half of an upload: the target, and the part opened beside it.\<close>

definition upload_begin ::
  "files_lib \<Rightarrow> file_system \<Rightarrow> resolved_mount \<Rightarrow> str list \<Rightarrow> upload_conditions \<Rightarrow>
     (api_error, write_target \<times> path \<times> nat) result \<times> file_system" where
  "upload_begin lib fs resolved names uc =
     (case try_then (mount_open lib fs resolved) (\<lambda>m.
           try_then (mount_target m fs names) (\<lambda>t.
           if is_part lib (wt_name t) then Err (http_error 400)
           else try_then (wt_existing fs t) (\<lambda>existing.
                try_then (conditions_check lib uc existing) (\<lambda>_. Ok t)))) of
        Inl e \<Rightarrow> (Err e, fs)
      | Inr t \<Rightarrow>
          (let p = part_beside lib t in
           case fs_create_new fs p of
             (Inl e, fs') \<Rightarrow> (Err (write_error e), part_discard fs' (Some p))
           | (Inr i, fs') \<Rightarrow> (Ok (t, p, i), fs')))"

text \<open>The rest of it: the body, and the part moved into place or discarded.\<close>

definition upload_finish ::
  "files_lib \<Rightarrow> file_system \<Rightarrow> upload_conditions \<Rightarrow> nat option \<Rightarrow> (unit, str) result list \<Rightarrow>
     write_target \<Rightarrow> path \<Rightarrow> nat \<Rightarrow> (api_error, response) result \<times> file_system" where
  "upload_finish lib fs1 uc limit body t p i =
     (case write_body fs1 p i limit 0 body of
        (Inl e, fs2) \<Rightarrow> (Err e, part_discard fs2 (Some p))
      | (Inr _, fs2) \<Rightarrow>
          (case part_commit lib fs2 (Some p) t uc of
             (made, part, fs3) \<Rightarrow>
               (try_then made (\<lambda>c. Ok (RStatus (if c then 201 else 204))), part_discard fs3 part)))"

definition upload ::
  "files_lib \<Rightarrow> file_system \<Rightarrow> resolved_mount \<Rightarrow> str list \<Rightarrow> file_request \<Rightarrow>
     (api_error, response) result \<times> file_system" where
  "upload lib fs resolved names rq =
     (let limit = rm_max_upload resolved;
          declared = Option.bind (Option.bind (rq_content_length rq) header_to_str) parse_u64;
          uc = conditions_parse lib rq
      in if (case (limit, declared) of (Some l, Some d) \<Rightarrow> l < d | _ \<Rightarrow> False)
         then (Err (http_error 413), fs)
         else (case upload_begin lib fs resolved names uc of
           (Inl e, fs1) \<Rightarrow> (Err e, fs1)
         | (Inr (t, p, i), fs1) \<Rightarrow> upload_finish lib fs1 uc limit (rq_body rq) t p i))"

definition create_directory ::
  "files_lib \<Rightarrow> file_system \<Rightarrow> resolved_mount \<Rightarrow> str list \<Rightarrow>
     (api_error, response) result \<times> file_system" where
  "create_directory lib fs resolved names =
     (case try_then (mount_open lib fs resolved) (\<lambda>m. mount_target m fs names) of
        Inl e \<Rightarrow> (Err e, fs)
      | Inr t \<Rightarrow>
          (case fs_create_dir fs (wt_path t) of
             (Inl e, fs') \<Rightarrow> (Err (write_error e), fs')
           | (Inr _, fs') \<Rightarrow> (Ok (RStatus 201), fs')))"

definition DESTINATION_BODY_LIMIT :: nat where
  "DESTINATION_BODY_LIMIT = 64 * 1024"

definition destination_read :: "files_lib \<Rightarrow> file_request \<Rightarrow> (api_error, str list) result" where
  "destination_read lib rq =
     (case try_map (\<lambda>c. c) (rq_body rq) of
        Inl _ \<Rightarrow> Err (http_error 400)
      | Inr chunks \<Rightarrow>
          if DESTINATION_BODY_LIMIT < length (concat chunks) then Err (http_error 400)
          else (case fl_destination lib (concat chunks) of
            None \<Rightarrow> Err (http_error 400)
          | Some to \<Rightarrow> split_path to))"

definition refuse_excluded_below ::
  "files_lib \<Rightarrow> open_mount \<Rightarrow> file_system \<Rightarrow> write_target \<Rightarrow> inode \<Rightarrow> (api_error, unit) result" where
  "refuse_excluded_below lib m fs t metadata =
     (if is_dir metadata \<and> \<not> ex_empty (om_exclusion m) then
        try_then (or_error (holds_excluded lib m fs (wt_path t) (wt_relative t)) write_error) (\<lambda>held.
        if held then Err (http_error 409) else Ok ())
      else Ok ())"

text \<open>
  Whether a move replaces what stands at its destination. A rename that changes only the case of
  a name finds the source itself there.
\<close>

definition rename_replaces ::
  "files_lib \<Rightarrow> write_target \<Rightarrow> write_target \<Rightarrow> inode \<Rightarrow> inode option \<Rightarrow> file_query \<Rightarrow>
     (api_error, bool) result" where
  "rename_replaces lib source destination moved found query =
     (let case_only = (wt_parent destination = wt_parent source \<and>
            fl_lowercase lib (wt_name destination) = fl_lowercase lib (wt_name source))
      in case found of
           None \<Rightarrow> Ok False
         | Some existing \<Rightarrow>
             if same_file moved existing = Some True then
               if \<not> case_only then Err (http_error 409) else Ok True
             else if is_dir existing \<or> \<not> q_overwrite query then Err (http_error 409)
             else Ok True)"

text \<open>The checks of a move up to the rename: source and destination, and whether it replaces.\<close>

definition rename_plan ::
  "files_lib \<Rightarrow> file_system \<Rightarrow> resolved_mount \<Rightarrow> str list \<Rightarrow> str list \<Rightarrow> file_query \<Rightarrow>
     (api_error, write_target \<times> write_target \<times> bool) result" where
  "rename_plan lib fs resolved names to query =
     try_then (mount_open lib fs resolved) (\<lambda>m.
     try_then (mount_target m fs names) (\<lambda>source.
     try_then (mount_target m fs to) (\<lambda>destination.
     if is_part lib (wt_name destination) then Err (http_error 400)
     else try_then (wt_existing fs source) (\<lambda>existing.
     case existing of
       None \<Rightarrow> Err not_found
     | Some moved \<Rightarrow>
         if is_dir moved \<and> prefix (wt_path source) (wt_parent destination) then Err (http_error 400)
         else try_then (wt_existing fs destination) (\<lambda>found.
              try_then (rename_replaces lib source destination moved found query) (\<lambda>replace.
              try_then (refuse_excluded_below lib m fs source moved) (\<lambda>_.
              Ok (source, destination, replace))))))))"

definition rename ::
  "files_lib \<Rightarrow> file_system \<Rightarrow> resolved_mount \<Rightarrow> str list \<Rightarrow> file_query \<Rightarrow> file_request \<Rightarrow>
     (api_error, response) result \<times> file_system" where
  "rename lib fs resolved names query rq =
     (case try_then (destination_read lib rq) (\<lambda>to. rename_plan lib fs resolved names to query) of
        Inl e \<Rightarrow> (Err e, fs)
      | Inr (source, destination, replace) \<Rightarrow>
          (case (if replace then fs_rename fs (wt_path source) (wt_path destination)
                 else rename_without_replacing fs (wt_path source) (wt_path destination)) of
             (Inl e, fs') \<Rightarrow> (Err (write_error e), fs')
           | (Inr _, fs') \<Rightarrow> (Ok (RStatus 204), fs')))"

text \<open>\<open>OpenMount::copy_entry\<close>: a file, or a directory with the files and directories below it.\<close>

definition visit_copy :: "path \<Rightarrow> (unit, unit) visit" where
  "visit_copy to below w st =
     (let target = to @ split_on CHR ''/'' below in
      case w of
        WDirectory _ \<Rightarrow>
          (case fs_create_dir (fst st) target of
             (Inl e, fs') \<Rightarrow> (Err e, fs', ()) | (Inr _, fs') \<Rightarrow> (Ok None, fs', ()))
      | WFile p _ \<Rightarrow>
          (case fs_copy (fst st) p target of
             (Inl e, fs') \<Rightarrow> (Err e, fs', ()) | (Inr _, fs') \<Rightarrow> (Ok None, fs', ()))
      | WLinked _ _ \<Rightarrow> (Ok None, st)
      | WExcluded \<Rightarrow> (Ok None, st))"

definition copy_entry ::
  "files_lib \<Rightarrow> open_mount \<Rightarrow> file_system \<Rightarrow> write_target \<Rightarrow> inode \<Rightarrow> path \<Rightarrow>
     (error_kind, unit) result \<times> file_system" where
  "copy_entry lib m fs source metadata to =
     (if is_file metadata then fs_copy fs (wt_path source) to
      else (case fs_create_dir fs to of
        (Inl e, fs') \<Rightarrow> (Err e, fs')
      | (Inr _, fs') \<Rightarrow>
          (case mount_walk lib m (wt_path source) (wt_relative source) True (visit_copy to) (fs', ()) of
             (Inl e, fs'', _) \<Rightarrow> (Err e, fs'')
           | (Inr _, fs'', _) \<Rightarrow> (Ok (), fs''))))"

definition copy_replaces :: "inode \<Rightarrow> inode option \<Rightarrow> file_query \<Rightarrow> (api_error, bool) result" where
  "copy_replaces copied found query =
     (case found of
        None \<Rightarrow> Ok False
      | Some existing \<Rightarrow>
          if q_overwrite query \<and> is_file copied \<and> is_file existing
             \<and> same_file copied existing \<noteq> Some True
          then Ok True else Err (http_error 409))"

definition copy_plan ::
  "files_lib \<Rightarrow> file_system \<Rightarrow> resolved_mount \<Rightarrow> str list \<Rightarrow> str list \<Rightarrow> file_query \<Rightarrow>
     (api_error, open_mount \<times> write_target \<times> write_target \<times> inode \<times> bool) result" where
  "copy_plan lib fs resolved names to query =
     try_then (mount_open lib fs resolved) (\<lambda>m.
     try_then (mount_target m fs names) (\<lambda>source.
     try_then (mount_target m fs to) (\<lambda>destination.
     if is_part lib (wt_name destination) then Err (http_error 400)
     else try_then (wt_existing fs source) (\<lambda>existing.
     case existing of
       None \<Rightarrow> Err not_found
     | Some copied \<Rightarrow>
         if \<not> (is_file copied \<or> is_dir copied)
            \<or> (is_dir copied \<and> prefix (wt_path source) (wt_parent destination)) then Err (http_error 400)
         else try_then (wt_existing fs destination) (\<lambda>found.
              try_then (copy_replaces copied found query) (\<lambda>replace.
              try_then (refuse_excluded_below lib m fs source copied) (\<lambda>_.
              Ok (m, source, destination, copied, replace))))))))"

definition files_copy ::
  "files_lib \<Rightarrow> file_system \<Rightarrow> resolved_mount \<Rightarrow> str list \<Rightarrow> file_query \<Rightarrow> file_request \<Rightarrow>
     (api_error, response) result \<times> file_system" where
  "files_copy lib fs resolved names query rq =
     (case try_then (destination_read lib rq) (\<lambda>to. copy_plan lib fs resolved names to query) of
        Inl e \<Rightarrow> (Err e, fs)
      | Inr (m, source, destination, copied, replace) \<Rightarrow>
          (let p = part_beside lib destination in
           case (case copy_entry lib m fs source copied p of
                   (Inl e, fs1) \<Rightarrow> (Err e, Some p, fs1)
                 | (Inr _, fs1) \<Rightarrow> part_place fs1 (Some p) destination replace) of
             (written, part, fs2) \<Rightarrow>
               (case written of Inl e \<Rightarrow> Err (write_error e) | Inr _ \<Rightarrow> Ok (RStatus 201),
                part_discard fs2 part)))"

definition files_delete ::
  "files_lib \<Rightarrow> file_system \<Rightarrow> resolved_mount \<Rightarrow> str list \<Rightarrow> file_query \<Rightarrow>
     (api_error, response) result \<times> file_system" where
  "files_delete lib fs resolved names query =
     (case try_then (mount_open lib fs resolved) (\<lambda>m.
           try_then (mount_target m fs names) (\<lambda>t.
           try_then (wt_existing fs t) (\<lambda>found.
           case found of
             None \<Rightarrow> Err not_found
           | Some existing \<Rightarrow>
               try_then (if is_dir existing \<and> q_recursive query
                         then refuse_excluded_below lib m fs t existing else Ok ()) (\<lambda>_.
               Ok (t, existing))))) of
        Inl e \<Rightarrow> (Err e, fs)
      | Inr (t, existing) \<Rightarrow>
          (case (if \<not> is_dir existing then fs_remove_file fs (wt_path t)
                 else if q_recursive query then fs_remove_dir_all fs (wt_path t)
                 else fs_remove_dir fs (wt_path t)) of
             (Inl e, fs') \<Rightarrow> (Err (write_error e), fs')
           | (Inr _, fs') \<Rightarrow> (Ok (RStatus 204), fs')))"

text \<open>\<open>respond\<close>: the host resolves the mount, and the access level gates the method.\<close>

definition respond ::
  "files_lib \<Rightarrow> (str \<Rightarrow> (api_error, resolved_mount) result) \<Rightarrow> file_system \<Rightarrow> str \<Rightarrow> str \<Rightarrow>
     file_request \<Rightarrow> (api_error, response) result \<times> file_system" where
  "respond lib host fs mount path rq =
     (let query = file_query_parse lib (rq_query rq) in
      case try_then (host mount) (\<lambda>resolved.
           try_then (split_path path) (\<lambda>names. Ok (resolved, names))) of
        Inl e \<Rightarrow> (Err e, fs)
      | Inr (resolved, names) \<Rightarrow>
          if rm_access resolved = NoAccess then (Err not_found, fs)
          else if rq_method rq = GET \<or> rq_method rq = HEAD then files_read lib fs resolved names query rq
          else if rm_access resolved \<noteq> Edit then (Err not_permitted, fs)
          else (case rq_method rq of
            PUT \<Rightarrow> if q_directory query then create_directory lib fs resolved names
                   else upload lib fs resolved names rq
          | PATCH \<Rightarrow> rename lib fs resolved names query rq
          | POST \<Rightarrow> files_copy lib fs resolved names query rq
          | DELETE \<Rightarrow> files_delete lib fs resolved names query
          | _ \<Rightarrow> (Err (http_error 405), fs)))"

text \<open>\<open>mount_top\<close> and \<open>mount_entry\<close>: a URL's segments after \<open>/api/files/\<close>.\<close>

definition mount_entry ::
  "files_lib \<Rightarrow> (str \<Rightarrow> (api_error, resolved_mount) result) \<Rightarrow> file_system \<Rightarrow> str \<Rightarrow> str \<Rightarrow>
     file_request \<Rightarrow> (api_error, response) result \<times> file_system" where
  "mount_entry lib host fs first rest rq =
     (case mount_id_parse first rest of
        Inl e \<Rightarrow> (Err e, fs)
      | Inr (mount, path) \<Rightarrow> respond lib host fs mount path rq)"

section \<open>What a request may not change\<close>

text \<open>
  The entries a request must leave as they are: everything outside the mount, and every entry
  the mount excludes, unless an upload's part is on its path.
\<close>

definition protected :: "files_lib \<Rightarrow> open_mount \<Rightarrow> file_system \<Rightarrow> path \<Rightarrow> bool" where
  "protected lib m fs q \<longleftrightarrow>
     (case strip_prefix (om_canonical m) q of
        None \<Rightarrow> True
      | Some r \<Rightarrow>
          node_at fs q \<noteq> None \<and> excludes (om_exclusion m) (relative_text r) \<and>
          list_all (\<lambda>n. \<not> is_part lib (to_string_lossy n)) r)"

text \<open>The name drawn for the part of an upload or a copy is not in use.\<close>

definition fresh_uuid :: "files_lib \<Rightarrow> file_system \<Rightarrow> bool" where
  "fresh_uuid lib fs \<longleftrightarrow>
     list_all (\<lambda>(p, _). \<not> ends_with (''.'' @ fl_new_uuid lib @ ''.part'') (last p)) (nodes fs)"

lemma protected_inside:
  "protected lib m fs (om_canonical m @ r) \<longleftrightarrow>
     node_at fs (om_canonical m @ r) \<noteq> None \<and> excludes (om_exclusion m) (relative_text r) \<and>
     list_all (\<lambda>n. \<not> is_part lib (to_string_lossy n)) r"
  by (simp add: protected_def)

lemma protected_not_swept: "protected lib m fs q \<Longrightarrow> q \<notin> swept_names lib m"
  by (auto simp: swept_names_def protected_inside to_string_lossy_utf8)

lemma protected_below:
  assumes "protected lib m fs q" and "q \<in> subtree (om_canonical m @ r)"
  obtains s where "q = om_canonical m @ r @ s" and "node_at fs (om_canonical m @ r @ s) \<noteq> None"
    and "excludes (om_exclusion m) (relative_text (r @ s))"
    and "list_all (\<lambda>n. \<not> is_part lib (to_string_lossy n)) (r @ s)"
proof -
  obtain s where "q = om_canonical m @ r @ s"
    using assms(2) by (auto simp: subtree_def prefix_def)
  then show ?thesis
    using that[of s] assms(1) protected_inside[of lib m fs "r @ s"] by simp
qed

text \<open>A part beside a target does not exist yet, so nothing protected is at it or below it.\<close>

lemma part_fresh:
  assumes "fresh_uuid lib fs"
  shows "node_at fs (part_beside lib t) = None"
proof -
  have "(part_beside lib t, n) \<notin> set (nodes fs)" for n
    using assms by (auto simp: fresh_uuid_def part_beside_def list_all_iff ends_with_iff)
  then show ?thesis
    by (auto simp: node_at_def part_beside_def map_of_eq_None_iff)
qed

lemma protected_not_missing:
  assumes "wf_tree fs" and "node_at fs (om_canonical m @ r) = None" and "protected lib m fs q"
  shows "q \<notin> subtree (om_canonical m @ r)"
  using protected_below[OF assms(3)] wf_tree_below_missing[OF assms(1,2)] by (metis subtree_append append.assoc)

text \<open>A target is not excluded, so nothing protected is there, and nothing below unless it is a directory.\<close>

lemma protected_not_target:
  assumes "wf_tree fs" and "mount_target m fs names = Ok t" and "\<forall>n \<in> set names. is_utf8 n"
    and "protected lib m fs q" and "\<And>i. node_at fs (wt_path t) = Some i \<Longrightarrow> \<not> is_dir i"
  shows "q \<notin> subtree (wt_path t)"
proof
  assume q: "q \<in> subtree (wt_path t)"
  obtain r where r: "wt_parent t = om_canonical m @ r" "wt_relative t = relative_text (r @ [wt_name t])"
      "\<not> excludes (om_exclusion m) (wt_relative t)"
    using mount_target_facts[OF assms(1-3)] by blast
  have path: "wt_path t = om_canonical m @ r @ [wt_name t]"
    by (simp add: wt_path_def r(1))
  obtain s where s: "q = om_canonical m @ (r @ [wt_name t]) @ s" "node_at fs q \<noteq> None"
      "excludes (om_exclusion m) (relative_text ((r @ [wt_name t]) @ s))"
    using protected_below[OF assms(4), of "r @ [wt_name t]"] q unfolding path by blast
  show False
  proof (cases "s = []")
    case True
    then show ?thesis using s(3) r(2,3) by simp
  next
    case False
    then show ?thesis
      using wf_tree_below_missing[OF assms(1) _ q] wf_tree_below_file[OF assms(1) _ _ q] assms(5) s(1,2) path
      by (cases "node_at fs (wt_path t)") auto
  qed
qed

text \<open>Nor below a directory that was found to hold nothing excluded.\<close>

lemma protected_not_cleared:
  assumes "wf_tree fs" and "mount_target m fs names = Ok t" and "\<forall>n \<in> set names. is_utf8 n \<and> entry_name n"
    and "refuse_excluded_below lib m fs t i = Ok ()" and "node_at fs (wt_path t) = Some i"
    and "ex_empty (om_exclusion m) \<Longrightarrow> (\<forall>s. \<not> excludes (om_exclusion m) s)"
    and "protected lib m fs q"
  shows "q \<notin> subtree (wt_path t)"
proof (cases "is_dir i")
  case False
  show ?thesis
    by (rule protected_not_target[OF assms(1,2) _ assms(7)]) (use assms(3,5) False in auto)
next
  case True
  obtain r where r: "wt_parent t = om_canonical m @ r" "wt_relative t = relative_text (r @ [wt_name t])"
      "\<not> excludes (om_exclusion m) (wt_relative t)" "\<forall>n \<in> set r. entry_name n" "wt_name t = last names" "names \<noteq> []"
    using mount_target_facts[OF assms(1,2)] assms(3) by blast
  have path: "wt_path t = om_canonical m @ r @ [wt_name t]"
    by (simp add: wt_path_def r(1))
  show ?thesis
  proof
    assume "q \<in> subtree (wt_path t)"
    then obtain s where s: "q = om_canonical m @ (r @ [wt_name t]) @ s" "node_at fs q \<noteq> None"
        "excludes (om_exclusion m) (relative_text ((r @ [wt_name t]) @ s))"
        "list_all (\<lambda>n. \<not> is_part lib (to_string_lossy n)) ((r @ [wt_name t]) @ s)"
      using protected_below[OF assms(7), of "r @ [wt_name t]"] unfolding path by blast
    have "\<not> ex_empty (om_exclusion m)"
      using assms(6) s(3) by blast
    then have "holds_excluded lib m fs (om_canonical m @ r @ [wt_name t]) (relative_text (r @ [wt_name t])) = Ok False"
      using assms(4) True r(2) path by (auto simp: refuse_excluded_below_def try_then_Inr_iff split: if_splits)
    moreover have "\<forall>x \<in> set (r @ [wt_name t]). entry_name x"
      using r(4,5,6) assms(3) by simp
    moreover have "s \<noteq> []"
      using s(3) r(2,3) by auto
    ultimately show False
      using holds_excluded_complete[OF assms(1), of lib m "r @ [wt_name t]" s] s by (auto simp: list_all_iff)
  qed
qed

section \<open>Handlers stay in their mount\<close>

text \<open>
  What the library and the system are relied on for: an empty set of globs matches nothing, a
  destination is a string, and only a missing entry is reported missing.
\<close>

definition lib_ok :: "files_lib \<Rightarrow> bool" where
  "lib_ok lib \<longleftrightarrow>
     (\<forall>g s. fl_glob_set lib [] = Ok g \<longrightarrow> \<not> g s) \<and> (\<forall>b s. fl_destination lib b = Some s \<longrightarrow> is_utf8 s)"

definition honest_faults :: "file_system \<Rightarrow> bool" where
  "honest_faults fs \<longleftrightarrow> (\<forall>c p. fault fs c p \<noteq> Some NotFound)"

definition leaves_protected :: "files_lib \<Rightarrow> open_mount \<Rightarrow> file_system \<Rightarrow> file_system \<Rightarrow> bool" where
  "leaves_protected lib m fs fs' \<longleftrightarrow> (\<forall>q. protected lib m fs q \<longrightarrow> node_at fs' q = node_at fs q)"

lemma leaves_protected_same [simp]: "leaves_protected lib m fs fs"
  by (simp add: leaves_protected_def)

lemma leaves_protectedI:
  "same_outside R fs fs' \<Longrightarrow> (\<And>q. protected lib m fs q \<Longrightarrow> q \<notin> R) \<Longrightarrow> leaves_protected lib m fs fs'"
  by (auto simp: leaves_protected_def same_outside_def)

lemma empty_exclusion:
  assumes "lib_ok lib" and "mount_open lib fs resolved = Ok m" and "ex_empty (om_exclusion m)"
  shows "\<not> excludes (om_exclusion m) s"
proof -
  have "\<not> excludes_from ex t e ns" if "\<And>s. \<not> ex_names ex s" "\<And>s. \<not> ex_anchored ex s" for ex t e ns
    using that by (induction ns arbitrary: e) (simp_all add: Let_def)
  moreover have "\<not> ex_names (om_exclusion m) s" "\<not> ex_anchored (om_exclusion m) s" for s
    using assms by (auto simp: mount_open_def file_exclusion_new_def lib_ok_def try_then_Inr_iff)
  ultimately show ?thesis
    by (auto simp: excludes_def)
qed

lemma wt_existing_Some: "wt_existing fs t = Ok (Some i) \<Longrightarrow> node_at fs (wt_path t) = Some i"
  using stat_call_node by (auto simp: wt_existing_def fs_symlink_metadata_def split: sum.splits if_splits)

lemma wt_existing_None:
  "honest_faults fs \<Longrightarrow> wt_existing fs t = Ok None \<Longrightarrow> node_at fs (wt_path t) = None"
  by (auto simp: wt_existing_def fs_symlink_metadata_def stat_call_def admitted_def honest_faults_def try_then_Inl_iff
      split: sum.splits if_splits option.splits)

lemma conditions_check_file: "conditions_check lib uc (Some i) = Ok () \<Longrightarrow> is_file i"
  by (auto simp: conditions_check_def split: if_splits)

lemma file_not_dir: "is_file i \<Longrightarrow> \<not> is_dir i"
  by (auto simp: is_file_def is_dir_def split: node_type.splits)

lemma part_path_nonempty [simp]: "part_beside lib t \<noteq> []"
  by (simp add: part_beside_def)

lemma protected_not_self:
  assumes "wf_tree fs" and "mount_target m fs names = Ok t" and "\<forall>n \<in> set names. is_utf8 n"
    and "protected lib m fs q"
  shows "q \<noteq> wt_path t"
proof
  assume q: "q = wt_path t"
  obtain r where "wt_parent t = om_canonical m @ r" "wt_relative t = relative_text (r @ [wt_name t])"
      "\<not> excludes (om_exclusion m) (wt_relative t)"
    using mount_target_facts[OF assms(1-3)] by blast
  then show False
    using assms(4) protected_inside[of lib m fs "r @ [wt_name t]"] by (simp add: q wt_path_def)
qed

lemma protected_not_part:
  assumes "wf_tree fs" and "mount_target m fs names = Ok t" and "\<forall>n \<in> set names. is_utf8 n"
    and "fresh_uuid lib fs" and "protected lib m fs q"
  shows "q \<notin> subtree (part_beside lib t)"
proof -
  obtain r where r: "wt_parent t = om_canonical m @ r"
    using mount_target_facts[OF assms(1-3)] by blast
  then obtain n where "part_beside lib t = om_canonical m @ r @ [n]"
    by (simp add: part_beside_def)
  then show ?thesis
    using protected_not_missing[OF assms(1) _ assms(5)] part_fresh[OF assms(4)] by metis
qed

lemma rename_without_replacing_frame [frame]:
  "same_outside (subtree from \<union> subtree to) fs (snd (rename_without_replacing fs from to))"
  using exclusive_rename_frame[of "from" to fs] fs_rename_frame[of "from" to] same_outside_trans
  by (fastforce simp: rename_without_replacing_def split: sum.splits prod.splits)

lemma part_remove_frame [frame]: "same_outside (subtree p) fs (snd ((), part_remove fs p))"
proof -
  have "same_outside (subtree p) fs (snd (fs_remove_file fs p))"
    by (rule same_outside_mono[OF fs_remove_file_frame]) simp
  then show ?thesis
    using fs_remove_dir_all_frame[of p fs] by (simp add: part_remove_def split: sum.splits)
qed

lemma part_discard_frame:
  "part = Some p \<or> part = None \<Longrightarrow> same_outside (subtree p) fs (part_discard fs part)"
  using part_remove_frame[of p fs] by (auto simp: part_discard_def)

lemma part_place_frame:
  assumes "part_place fs (Some p) t replace = (r, part, fs')"
  shows "same_outside (subtree p \<union> subtree (wt_path t)) fs fs'" and "part = Some p \<or> part = None"
  using assms fs_rename_frame[of p "wt_path t" fs] rename_without_replacing_frame[of p "wt_path t" fs]
  by (auto simp: part_place_def split: sum.splits prod.splits if_splits)

lemma part_commit_frame:
  assumes "part_commit lib fs (Some p) t uc = (r, part, fs')"
  shows "same_outside (subtree p \<union> subtree (wt_path t)) fs fs'" and "part = Some p \<or> part = None"
proof -
  have link: "same_outside (subtree p \<union> subtree (wt_path t)) fs (snd (fs_hard_link fs p (wt_path t)))"
    by (rule same_outside_mono[OF fs_hard_link_frame]) simp
  show "same_outside (subtree p \<union> subtree (wt_path t)) fs fs'" "part = Some p \<or> part = None"
    using assms link fs_rename_frame[of p "wt_path t" fs]
    by (auto simp: part_commit_def split: sum.splits prod.splits if_splits option.splits)
qed

lemma write_body_sandbox:
  assumes "wf_tree fs" and "p \<noteq> []" and "next_ident fs \<le> i" and "sandbox p fs fs1"
  shows "sandbox p fs (snd (write_body fs1 p i limit written cs))"
  using assms(4)
proof (induction cs arbitrary: fs1 written)
  case (Cons c cs)
  show ?case
  proof (cases c)
    case (Inr s)
    have "sandbox p fs (snd (fs_write_all fs1 p i s))"
      using sandbox_set_content[OF assms(1) Cons.prems assms(3,2)] Cons.prems
      by (simp add: fs_write_all_def split: option.splits)
    then show ?thesis
      using Cons Inr by (auto simp: Let_def split: sum.splits prod.splits)
  qed (use Cons in simp)
qed simp

interpretation copy_walk:
  walk_contract m "visit_copy to" "\<lambda>st. wf_tree fs \<and> to \<noteq> [] \<and> sandbox to fs (fst st)" "\<lambda>_. True" "\<lambda>_ _. True" "\<lambda>_. True"
  for m to fs
proof (unfold_locales, goal_cases)
  case (1 st w below)
  have at: "to @ split_on CHR ''/'' below \<in> subtree to"
    by simp
  have made: "sandbox to fs f" if "fs_create_dir (fst st) (to @ split_on CHR ''/'' below) = (r, f)" for r f
    using sandbox_create_dir[OF _ at, of fs "fst st"] 1 that by simp
  have copied: "sandbox to fs f" if "fs_copy (fst st) p (to @ split_on CHR ''/'' below) = (r, f)" for p r f
    using sandbox_copy[OF _ _ at, of fs "fst st" p] 1 that by simp
  show ?case
    using 1
    by (auto dest: made copied simp: visit_copy_def Let_def split: walked.splits sum.splits prod.splits)
qed simp_all

lemma copy_entry_sandbox:
  assumes "wf_tree fs" and "node_at fs p = None" and "p \<noteq> []"
  shows "sandbox p fs (snd (copy_entry lib m fs source i p))"
proof (cases "is_file i")
  case True
  then show ?thesis
    using sandbox_copy[OF assms(1) sandbox_start[OF assms(1,2)] _ assms(3), of p] by (simp add: copy_entry_def)
next
  case False
  have made: "sandbox p fs (snd (fs_create_dir fs p))"
    by (rule sandbox_create_dir[OF sandbox_start[OF assms(1,2)]]) simp
  have walked: "sandbox p fs fs2"
    if "sandbox p fs fs'" "mount_walk lib m d r h (visit_copy p) (fs', ()) = (x, fs2, u)" for fs' d r h x fs2 u
  proof -
    have "wf_tree fs \<and> p \<noteq> [] \<and> sandbox p fs (fst (snd (mount_walk lib m d r h (visit_copy p) (fs', ()))))"
      by (rule copy_walk.walk_keeps) (use assms(1,3) that in simp_all)
    then show ?thesis
      using that(2) by simp
  qed
  show ?thesis
    using False made by (auto simp: copy_entry_def dest: walked split: sum.splits prod.splits)
qed

text \<open>Each handler, under the names \<open>split_path\<close> gives.\<close>

lemma create_directory_leaves:
  assumes "wf_tree fs" and "mount_open lib fs resolved = Ok m" and "\<forall>n \<in> set names. is_utf8 n"
    and "create_directory lib fs resolved names = (r, fs')"
  shows "leaves_protected lib m fs fs'"
proof (cases "mount_target m fs names")
  case (Inr t)
  have "same_outside {wt_path t} fs fs'"
    using assms(2,4) Inr fs_create_dir_frame[of "wt_path t" fs]
    by (auto simp: create_directory_def split: sum.splits prod.splits)
  then show ?thesis
    by (rule leaves_protectedI) (use protected_not_self[OF assms(1) Inr assms(3)] in auto)
qed (use assms in \<open>simp add: create_directory_def\<close>)

lemma upload_leaves:
  assumes "wf_tree fs" and "honest_faults fs" and "fresh_uuid lib fs"
    and "mount_open lib fs resolved = Ok m" and "\<forall>n \<in> set names. is_utf8 n"
    and "upload lib fs resolved names rq = (r, fs')"
  shows "leaves_protected lib m fs fs'"
proof (cases "\<exists>t existing. mount_target m fs names = Ok t \<and> wt_existing fs t = Ok existing \<and>
    conditions_check lib (conditions_parse lib rq) existing = Ok ()")
  case True
  then obtain t existing where t: "mount_target m fs names = Ok t" "wt_existing fs t = Ok existing"
      "conditions_check lib (conditions_parse lib rq) existing = Ok ()"
    by blast
  let ?p = "part_beside lib t"
  define R where "R = subtree ?p \<union> subtree (wt_path t)"
  have part: "node_at fs ?p = None"
    by (rule part_fresh[OF assms(3)])
  have disjoint: "q \<notin> R" if "protected lib m fs q" for q
  proof -
    have "\<not> is_dir i" if "node_at fs (wt_path t) = Some i" for i
      using that t(2,3) wt_existing_Some wt_existing_None[OF assms(2)] conditions_check_file file_not_dir
      by (cases existing) fastforce+
    then show ?thesis
      using protected_not_target[OF assms(1) t(1) assms(5) that] protected_not_part[OF assms(1) t(1) assms(5,3) that]
      by (auto simp: R_def)
  qed
  have discard: "same_outside R fs (part_discard f part)" if "same_outside R fs f" "part = Some ?p \<or> part = None" for f part
    using same_outside_trans[OF that(1) same_outside_mono[OF part_discard_frame[OF that(2)]]] by (auto simp: R_def)
  have new: "sandbox ?p fs (snd (fs_create_new fs ?p))"
    using sandbox_start[OF assms(1) part] sandbox_new_node[OF sandbox_start[OF assms(1) part] _ part]
    by (auto simp: fs_create_new_def create_call_def split: sum.splits)
  have outside: "same_outside R fs f" if "sandbox ?p fs f" for f
    by (rule same_outside_mono[OF sandbox_outside[OF that]]) (simp add: R_def)
  have body: "sandbox ?p fs (snd (write_body f ?p (next_ident fs) limit 0 cs))" if "sandbox ?p fs f" for f limit cs
    by (rule write_body_sandbox[OF assms(1) _ _ that]) simp_all
  have commit: "same_outside R fs (part_discard f' part)"
    if "sandbox ?p fs f" "part_commit lib f (Some ?p) t uc = (x, part, f')" for f f' x part uc
    using discard[OF same_outside_trans[OF outside[OF that(1)]]] part_commit_frame[OF that(2)] by (auto simp: R_def)
  show ?thesis
  proof (rule leaves_protectedI[OF _ disjoint])
    show "same_outside R fs fs'"
    proof (cases "upload_begin lib fs resolved names (conditions_parse lib rq)")
      case (Pair x f)
      consider (err) e where "x = Inl e" "same_outside R fs f"
        | (ok) "x = Inr (t, ?p, next_ident fs)" "f = snd (fs_create_new fs ?p)"
      proof -
        obtain y g where y: "fs_create_new fs ?p = (y, g)"
          by (cases "fs_create_new fs ?p")
        have "y = Inr i \<Longrightarrow> i = next_ident fs" for i
          using y by (auto simp: fs_create_new_def create_call_def split: sum.splits)
        moreover have "same_outside R fs (part_discard g (Some ?p))"
          using discard[OF outside[OF new]] y by simp
        moreover have "(x, f) = (if is_part lib (wt_name t) then (Err (http_error 400), fs)
            else (case y of Inl e \<Rightarrow> (Err (write_error e), part_discard g (Some ?p)) | Inr i \<Rightarrow> (Ok (t, ?p, i), g)))"
          using Pair y by (cases "is_part lib (wt_name t)"; cases y) (auto simp: upload_begin_def t assms(4) Let_def)
        ultimately show ?thesis
          using that y by (cases y) (auto split: if_splits)
      qed
      then show ?thesis
      proof cases
        case err
        then show ?thesis using assms(6) Pair by (auto simp: upload_def Let_def split: if_splits)
      next
        case ok
        have "sandbox ?p fs f" using ok(2) new by simp
        note body = body[OF this, of "rm_max_upload resolved" "rq_body rq"]
        show ?thesis
          using assms(6) Pair ok(1) body discard[OF outside[OF body]] commit[OF body]
          by (auto simp: upload_def upload_finish_def Let_def split: if_splits sum.splits prod.splits)
      qed
    qed
  qed
next
  case False
  then have "\<exists>e. upload_begin lib fs resolved names (conditions_parse lib rq) = (Err e, fs)"
    using assms(4) by (auto simp: upload_begin_def try_then_Inr_iff split: sum.splits if_splits)
  then show ?thesis
    using assms(6) by (auto simp: upload_def Let_def split: if_splits)
qed

lemma destination_names:
  assumes "lib_ok lib" and "destination_read lib rq = Ok to"
  shows "\<forall>n \<in> set to. is_utf8 n \<and> entry_name n"
  using assms split_path_names(1)
  by (fastforce simp: destination_read_def lib_ok_def split: sum.splits if_splits option.splits)

lemma rename_replaces_facts:
  assumes "rename_replaces lib s d moved found query = Ok replace"
  shows "replace = (found \<noteq> None)" and "found = Some i \<Longrightarrow> ident i = ident moved \<or> \<not> is_dir i"
  using assms by (auto simp: rename_replaces_def same_file_def Let_def split: option.splits if_splits)

lemma rename_plan_facts:
  assumes "mount_open lib fs resolved = Ok m" and "rename_plan lib fs resolved names to query = Ok (s, d, replace)"
  obtains moved found where "mount_target m fs names = Ok s" and "mount_target m fs to = Ok d"
    and "wt_existing fs s = Ok (Some moved)" and "wt_existing fs d = Ok found"
    and "refuse_excluded_below lib m fs s moved = Ok ()"
    and "replace = (found \<noteq> None)"
    and "\<And>i. found = Some i \<Longrightarrow> ident i = ident moved \<or> \<not> is_dir i"
proof -
  from assms obtain moved found where "mount_target m fs names = Ok s" "mount_target m fs to = Ok d"
      "wt_existing fs s = Ok (Some moved)" "wt_existing fs d = Ok found"
      "refuse_excluded_below lib m fs s moved = Ok ()"
      "rename_replaces lib s d moved found query = Ok replace"
    by (auto simp: rename_plan_def try_then_Inr_iff split: option.splits if_splits)
  then show ?thesis
    using that[of moved found] rename_replaces_facts[of lib s d moved found query replace] by blast
qed

lemma rename_leaves:
  assumes "wf_tree fs" and "honest_faults fs" and "lib_ok lib"
    and "mount_open lib fs resolved = Ok m" and "\<forall>n \<in> set names. is_utf8 n \<and> entry_name n"
    and "rename lib fs resolved names query rq = (r, fs')"
  shows "leaves_protected lib m fs fs'"
proof (cases "\<exists>to s d replace. destination_read lib rq = Ok to \<and> rename_plan lib fs resolved names to query = Ok (s, d, replace)")
  case True
  then obtain to s d replace where plan: "destination_read lib rq = Ok to"
      "rename_plan lib fs resolved names to query = Ok (s, d, replace)"
    by blast
  obtain moved found where f: "mount_target m fs names = Ok s" "mount_target m fs to = Ok d"
      "wt_existing fs s = Ok (Some moved)" "wt_existing fs d = Ok found"
      "refuse_excluded_below lib m fs s moved = Ok ()" "replace = (found \<noteq> None)"
      "\<And>i. found = Some i \<Longrightarrow> ident i = ident moved \<or> \<not> is_dir i"
    using rename_plan_facts[OF assms(4) plan(2)] by blast
  have source: "node_at fs (wt_path s) = Some moved"
    by (rule wt_existing_Some[OF f(3)])
  have fs': "fs' = snd (if replace then fs_rename fs (wt_path s) (wt_path d)
      else rename_without_replacing fs (wt_path s) (wt_path d))"
    using assms(6) plan by (auto simp: rename_def split: sum.splits prod.splits if_splits)
  show ?thesis
  proof (cases "\<exists>i. found = Some i \<and> ident i = ident moved")
    case True
    then obtain i where i: "found = Some i" "ident i = ident moved"
      by blast
    then have "fs' = fs"
      using fs_rename_same[OF source wt_existing_Some] f(4,6) fs' by simp
    then show ?thesis
      by simp
  next
    case False
    have "same_outside (subtree (wt_path s) \<union> subtree (wt_path d)) fs fs'"
      using fs' fs_rename_frame rename_without_replacing_frame by simp
    then show ?thesis
    proof (rule leaves_protectedI)
      fix q assume q: "protected lib m fs q"
      have "q \<notin> subtree (wt_path s)"
        using protected_not_cleared[OF assms(1) f(1) assms(5) f(5) source _ q] empty_exclusion[OF assms(3,4)] by blast
      moreover have "\<not> is_dir i" if "node_at fs (wt_path d) = Some i" for i
        using that False f(4,7) wt_existing_Some wt_existing_None[OF assms(2)] by (cases found) fastforce+
      then have "q \<notin> subtree (wt_path d)"
        using protected_not_target[OF assms(1) f(2) _ q] destination_names[OF assms(3) plan(1)] by blast
      ultimately show "q \<notin> subtree (wt_path s) \<union> subtree (wt_path d)"
        by simp
    qed
  qed
next
  case False
  then have "fs' = fs"
    using assms(6) by (auto simp: rename_def try_then_Inr_iff split: sum.splits)
  then show ?thesis
    by simp
qed

lemma copy_plan_facts:
  assumes "copy_plan lib fs resolved names to query = Ok (m', s, d, copied, replace)"
    and "mount_open lib fs resolved = Ok m"
  obtains found where "m' = m" and "mount_target m fs to = Ok d" and "wt_existing fs d = Ok found"
    and "\<And>i. found = Some i \<Longrightarrow> is_file i"
proof -
  from assms obtain found where found: "m' = m" "mount_target m fs to = Ok d" "wt_existing fs d = Ok found"
      "copy_replaces copied found query = Ok replace"
    by (auto simp: copy_plan_def try_then_Inr_iff split: option.splits if_splits)
  have "is_file i" if "found = Some i" for i
    using found(4) that by (auto simp: copy_replaces_def split: if_splits)
  then show ?thesis
    using that found by blast
qed

lemma files_copy_leaves:
  assumes "wf_tree fs" and "honest_faults fs" and "lib_ok lib" and "fresh_uuid lib fs"
    and "mount_open lib fs resolved = Ok m"
    and "files_copy lib fs resolved names query rq = (r, fs')"
  shows "leaves_protected lib m fs fs'"
proof (cases "\<exists>to m' s d copied replace. destination_read lib rq = Ok to \<and>
    copy_plan lib fs resolved names to query = Ok (m', s, d, copied, replace)")
  case True
  then obtain to m' s d copied replace where plan: "destination_read lib rq = Ok to"
      "copy_plan lib fs resolved names to query = Ok (m', s, d, copied, replace)"
    by blast
  obtain found where f: "m' = m" "mount_target m fs to = Ok d" "wt_existing fs d = Ok found"
      "\<And>i. found = Some i \<Longrightarrow> is_file i"
    using copy_plan_facts[OF plan(2) assms(5)] by blast
  have names: "\<forall>n \<in> set to. is_utf8 n"
    using destination_names[OF assms(3) plan(1)] by blast
  let ?p = "part_beside lib d"
  define R where "R = subtree ?p \<union> subtree (wt_path d)"
  obtain c f1 where c: "copy_entry lib m fs s copied ?p = (c, f1)"
    by (cases "copy_entry lib m fs s copied ?p")
  have "sandbox ?p fs f1"
    using copy_entry_sandbox[OF assms(1) part_fresh[OF assms(4)], of d lib m s copied] c by simp
  then have f1: "same_outside R fs f1"
    using same_outside_mono[OF sandbox_outside] by (simp add: R_def)
  obtain w part f2 where w: "(case c of Inl e \<Rightarrow> (Err e, Some ?p, f1) | Inr _ \<Rightarrow> part_place f1 (Some ?p) d replace) = (w, part, f2)"
    by (cases "case c of Inl e \<Rightarrow> (Err e, Some ?p, f1) | Inr _ \<Rightarrow> part_place f1 (Some ?p) d replace")
  have f2: "same_outside R f1 f2" "part = Some ?p \<or> part = None"
    using w part_place_frame[of f1 ?p d replace] by (auto simp: R_def split: sum.splits)
  have "fs' = part_discard f2 part"
    using assms(6) plan c w f(1) by (cases c) (auto simp: files_copy_def Let_def)
  then have "same_outside R fs fs'"
    using same_outside_trans[OF same_outside_trans[OF f1 f2(1)] same_outside_mono[OF part_discard_frame[OF f2(2)]]]
    by (simp add: R_def)
  then show ?thesis
  proof (rule leaves_protectedI)
    fix q assume q: "protected lib m fs q"
    have "\<not> is_dir i" if "node_at fs (wt_path d) = Some i" for i
      using that f(3,4) wt_existing_Some wt_existing_None[OF assms(2)] file_not_dir by (cases found) fastforce+
    then show "q \<notin> R"
      using protected_not_target[OF assms(1) f(2) names q] protected_not_part[OF assms(1) f(2) names assms(4) q]
      by (auto simp: R_def)
  qed
next
  case False
  then have "fs' = fs"
    using assms(6) by (auto simp: files_copy_def try_then_Inr_iff split: sum.splits)
  then show ?thesis
    by simp
qed

lemma files_delete_leaves:
  assumes "wf_tree fs" and "lib_ok lib"
    and "mount_open lib fs resolved = Ok m" and "\<forall>n \<in> set names. is_utf8 n \<and> entry_name n"
    and "files_delete lib fs resolved names query = (r, fs')"
  shows "leaves_protected lib m fs fs'"
proof (cases "\<exists>t i. mount_target m fs names = Ok t \<and> wt_existing fs t = Ok (Some i) \<and>
    (is_dir i \<and> q_recursive query \<longrightarrow> refuse_excluded_below lib m fs t i = Ok ())")
  case True
  then obtain t i where t: "mount_target m fs names = Ok t" "wt_existing fs t = Ok (Some i)"
      "is_dir i \<and> q_recursive query \<longrightarrow> refuse_excluded_below lib m fs t i = Ok ()"
    by blast
  have fs': "fs' = snd (if \<not> is_dir i then fs_remove_file fs (wt_path t)
      else if q_recursive query then fs_remove_dir_all fs (wt_path t) else fs_remove_dir fs (wt_path t))"
    using assms(3,5) t by (auto simp: files_delete_def split: sum.splits prod.splits if_splits)
  show ?thesis
  proof (cases "is_dir i \<and> q_recursive query")
    case True
    then have "same_outside (subtree (wt_path t)) fs fs'"
      using fs' fs_remove_dir_all_frame by simp
    then show ?thesis
    proof (rule leaves_protectedI)
      fix q assume q: "protected lib m fs q"
      have "refuse_excluded_below lib m fs t i = Ok ()"
        using t(3) True by blast
      from protected_not_cleared[OF assms(1) t(1) assms(4) this wt_existing_Some[OF t(2)] _ q]
      show "q \<notin> subtree (wt_path t)"
        using empty_exclusion[OF assms(2,3)] by blast
    qed
  next
    case False
    then have "same_outside {wt_path t} fs fs'"
      using fs' fs_remove_file_frame fs_remove_dir_frame by auto
    then show ?thesis
      by (rule leaves_protectedI) (use protected_not_self[OF assms(1) t(1)] assms(4) in blast)
  qed
next
  case False
  then have "fs' = fs"
    using assms(3,5) by (auto simp: files_delete_def try_then_Inr_iff split: sum.splits option.splits if_splits)
  then show ?thesis
    by simp
qed

lemma files_read_leaves:
  assumes "mount_open lib fs resolved = Ok m" and "files_read lib fs resolved names query rq = (r, fs')"
  shows "same_outside (swept_names lib m) fs fs'"
  using assms mount_find_frame[of lib m fs names query]
  by (auto simp: files_read_def split: sum.splits prod.splits)

section \<open>An upload lands whole\<close>

text \<open>
  While its body is written, an upload's part is a file of its own inode; the rest of the tree
  and the system's refusals stay as they were. When the body ends well the part holds all of it.
\<close>

definition part_state :: "file_system \<Rightarrow> file_system \<Rightarrow> path \<Rightarrow> nat \<Rightarrow> str \<Rightarrow> bool" where
  "part_state fs f p i s \<longleftrightarrow>
     same_outside {p} fs f \<and> fault f = fault fs \<and>
     (\<exists>n. node_at f p = Some n \<and> ident n = i \<and> itype n = File s)"

lemma part_state_created:
  assumes "fs_create_new fs p = (Ok i, f)"
  shows "part_state fs f p i []" and "i = next_ident fs"
proof -
  have f: "node_at fs p = None" "f = new_node p (File []) fs" "i = next_ident fs"
    using assms by (auto simp: fs_create_new_def create_call_def try_then_Inr_iff split: sum.splits if_splits)
  have "fault f = fault fs"
    by (simp add: f(2) new_node_def add_node_def)
  then show "part_state fs f p i []"
    using f(1,3) by (simp add: part_state_def same_outside_def f(2) node_at_new_node)
  show "i = next_ident fs"
    by (rule f(3))
qed

lemma part_state_written:
  assumes "wf_tree fs" and "next_ident fs \<le> i" and "part_state fs f p i s" and "fs_write_all f p i c = (r, f')"
  shows "part_state fs f' p i (if r = Ok () then s @ c else s)"
proof (cases "fault f WriteData p")
  case None
  then have f': "f' = set_content i (\<lambda>s. s @ c) f" "r = Ok ()"
    using assms(4) by (auto simp: fs_write_all_def)
  obtain n where n: "node_at f p = Some n" "ident n = i" "itype n = File s"
    using assms(3) by (auto simp: part_state_def)
  have "node_at f' q = node_at fs q" if "q \<noteq> p" for q
  proof -
    have same: "node_at f q = node_at fs q"
      using assms(3) that by (simp add: part_state_def same_outside_def)
    show ?thesis
    proof (cases "node_at fs q")
      case (Some k)
      then have "ident k \<noteq> i \<or> \<not> is_file k"
        using wf_treeD(2)[OF assms(1) Some] assms(2) by (cases "q = []") (auto simp: root_inode_def is_file_def)
      then show ?thesis
        using Some same by (auto simp: f'(1) node_at_set_content)
    qed (simp add: f'(1) node_at_set_content same)
  qed
  moreover have "\<exists>k. node_at f' p = Some k \<and> ident k = i \<and> itype k = File (s @ c)"
    using n by (simp add: f'(1) node_at_set_content is_file_def content_def)
  moreover have "fault f' = fault fs"
    using assms(3) by (simp add: f'(1) set_content_def part_state_def)
  ultimately show ?thesis
    using f'(2) by (simp add: part_state_def same_outside_def)
qed (use assms in \<open>auto simp: fs_write_all_def\<close>)

lemma write_body_part:
  assumes "wf_tree fs" and "next_ident fs \<le> i"
  shows "part_state fs f p i s \<Longrightarrow> write_body f p i limit (length s) cs = (r, f') \<Longrightarrow>
     (\<And>l. limit = Some l \<Longrightarrow> length s \<le> l) \<Longrightarrow>
     (\<exists>s'. part_state fs f' p i s') \<and>
     (r = Ok () \<longrightarrow> (\<exists>chunks. cs = map Ok chunks \<and> part_state fs f' p i (s @ concat chunks) \<and>
        (\<forall>l. limit = Some l \<longrightarrow> length (s @ concat chunks) \<le> l)))"
proof (induction cs arbitrary: f s)
  case Nil
  then show ?case by auto
next
  case (Cons c cs)
  show ?case
  proof (cases c)
    case (Inl u)
    then show ?thesis using Cons.prems by auto
  next
    case (Inr d)
    show ?thesis
    proof (cases "case limit of Some l \<Rightarrow> l < length s + length d | None \<Rightarrow> False")
      case True
      then show ?thesis using Cons.prems Inr by (auto simp: Let_def)
    next
      case False
      obtain w g where w: "fs_write_all f p i d = (w, g)"
        by (cases "fs_write_all f p i d")
      note step = part_state_written[OF assms Cons.prems(1) w]
      show ?thesis
      proof (cases w)
        case (Inl e)
        then show ?thesis using Cons.prems(2) Inr False w step by (auto simp: Let_def)
      next
        case wrote: (Inr u)
        have next_g: "part_state fs g p i (s @ d)"
          using step wrote by simp
        have "write_body g p i limit (length (s @ d)) cs = (r, f')"
          using Cons.prems(2) Inr False w wrote by (simp add: Let_def)
        moreover have "\<And>l. limit = Some l \<Longrightarrow> length (s @ d) \<le> l"
          using False by simp
        ultimately have rest: "(\<exists>s'. part_state fs f' p i s') \<and>
            (r = Ok () \<longrightarrow> (\<exists>chunks. cs = map Ok chunks \<and> part_state fs f' p i ((s @ d) @ concat chunks) \<and>
               (\<forall>l. limit = Some l \<longrightarrow> length ((s @ d) @ concat chunks) \<le> l)))"
          using Cons.IH[OF next_g] by blast
        show ?thesis
        proof (intro conjI impI)
          show "\<exists>s'. part_state fs f' p i s'"
            using rest by blast
          assume "r = Ok ()"
          then obtain chunks where chunks: "cs = map Ok chunks" "part_state fs f' p i ((s @ d) @ concat chunks)"
              "\<forall>l. limit = Some l \<longrightarrow> length ((s @ d) @ concat chunks) \<le> l"
            using rest by blast
          then show "\<exists>chunks. c # cs = map Ok chunks \<and> part_state fs f' p i (s @ concat chunks) \<and>
              (\<forall>l. limit = Some l \<longrightarrow> length (s @ concat chunks) \<le> l)"
            using Inr by (intro exI[of _ "d # chunks"]) simp
        qed
      qed
    qed
  qed
qed

lemma part_apart:
  "\<not> prefix (part_beside lib t) (wt_path t)" "\<not> prefix (wt_path t) (part_beside lib t)"
proof -
  have "length (''.'' @ wt_name t @ ''.'' @ fl_new_uuid lib @ ''.part'') \<noteq> length (wt_name t)"
    by simp
  then have "part_beside lib t \<noteq> wt_path t"
    by (metis part_beside_def wt_path_def last_snoc)
  then show "\<not> prefix (part_beside lib t) (wt_path t)" "\<not> prefix (wt_path t) (part_beside lib t)"
    by (auto simp: part_beside_def wt_path_def)
qed

lemma part_removed:
  assumes "\<And>q. fault f RemoveFile q = None" and "path_len p \<le> PATH_MAX \<or> node_at f p = None" and "p \<noteq> []"
    and "\<And>n. node_at f p = Some n \<Longrightarrow> is_file n"
  shows "same_outside {p} f (part_remove f p)" and "node_at (part_remove f p) p = None"
proof -
  have gone: "node_at (snd (fs_remove_file f p)) p = None"
    using assms file_not_dir
    by (auto simp: fs_remove_file_def stat_call_def admitted_def node_at_drop_node split: option.splits)
  have "\<not> is_dir n" if "fs_symlink_metadata f p = Ok n" for n
    using that assms(4) stat_call_node file_not_dir by (auto simp: fs_symlink_metadata_def)
  then have "part_remove f p = snd (fs_remove_file f p)"
    by (auto simp: part_remove_def split: sum.splits)
  then show "same_outside {p} f (part_remove f p)" "node_at (part_remove f p) p = None"
    using gone fs_remove_file_frame by simp_all
qed

lemma fault_add_node [simp]: "fault (add_node p n fs) = fault fs"
  by (simp add: add_node_def)

lemma commit_rename:
  assumes tree: "wf_tree fs" and p: "p = part_beside lib t" "node_at fs p = None"
    and state: "part_state fs f p (next_ident fs) s" and ok: "fs_rename f p (wt_path t) = (Ok (), f')"
  shows "node_at f' q = (if q = wt_path t then node_at f p else if q = p then None else node_at fs q)"
proof -
  obtain n where n: "node_at f p = Some n" "ident n = next_ident fs" "itype n = File s"
    using state by (auto simp: part_state_def)
  have apart: "\<not> prefix p (wt_path t)" "\<not> prefix (wt_path t) p"
    using part_apart p(1) by simp_all
  then have target: "node_at f (wt_path t) = node_at fs (wt_path t)"
    using state by (auto simp: part_state_def same_outside_def)
  have "ident old \<noteq> ident n" if "node_at f (wt_path t) = Some old" for old
    using wf_treeD(2)[OF tree, of "wt_path t" old] target that n(2) by (simp add: wt_path_def)
  moreover have "\<not> is_dir n"
    using n(3) by (simp add: is_dir_def)
  ultimately have "f' = move_nodes p (wt_path t) f"
    using ok n(1)
    by (auto simp: fs_rename_def rename_check_def try_then_Inr_iff split: sum.splits option.splits if_splits)
  moreover have "node_at f (p @ r) = None" if "r \<noteq> []" for r
  proof -
    have "node_at fs (p @ r) = None"
      by (rule wf_tree_below_missing[OF tree p(2)]) simp
    then show ?thesis
      using state that by (simp add: part_state_def same_outside_def)
  qed
  ultimately have "node_at f' q = (if q = wt_path t then node_at f p else if q = p then None else node_at f q)"
    using move_nodes_leaf[of "wt_path t" p f q] apart p(1) by (simp add: wt_path_def)
  then show ?thesis
    using state by (auto simp: part_state_def same_outside_def)
qed

lemma commit_result:
  assumes tree: "wf_tree fs" and honest: "honest_faults fs" and p: "p = part_beside lib t" "node_at fs p = None"
    and state: "part_state fs f p (next_ident fs) s"
    and commit: "part_commit lib f (Some p) t uc = (r, part, f')"
  shows "(\<forall>e. r = Inl e \<longrightarrow> f' = f \<and> part = Some p) \<and>
     (\<forall>c. r = Inr c \<longrightarrow>
        (\<exists>n. node_at f' (wt_path t) = Some n \<and> itype n = File s) \<and>
        same_outside {p, wt_path t} fs f' \<and> fault f' = fault fs \<and>
        (case part of None \<Rightarrow> node_at f' p = None | Some p' \<Rightarrow> p' = p \<and> node_at f' p = node_at f p) \<and>
        c = (node_at fs (wt_path t) = None))"
proof -
  obtain n where n: "node_at f p = Some n" "itype n = File s"
    using state by (auto simp: part_state_def)
  have ne: "p \<noteq> wt_path t"
    using part_apart(1) p(1) by (metis prefix_order.refl)
  have target: "node_at f (wt_path t) = node_at fs (wt_path t)"
    using state ne by (auto simp: part_state_def same_outside_def)
  have honest_f: "honest_faults f"
    using honest state by (simp add: honest_faults_def part_state_def)
  have linked_new: "node_at f (wt_path t) = None \<and> g = add_node (wt_path t) n f" if "fs_hard_link f p (wt_path t) = (Ok (), g)" for g
    using that n(1) by (auto simp: fs_hard_link_def try_then_Inr_iff split: sum.splits if_splits)
  have linked: "fs_hard_link f p (wt_path t) = (Err e, g) \<Longrightarrow> g = f" for e g
    by (auto simp: fs_hard_link_def split: sum.splits)
  have renamed: "fs_rename f p (wt_path t) = (Err e, g) \<Longrightarrow> g = f" for e g
    by (auto simp: fs_rename_def split: sum.splits option.splits if_splits)
  have fault_rename: "fs_rename f p (wt_path t) = (x, g) \<Longrightarrow> fault g = fault f" for x g
    by (auto simp: fs_rename_def move_nodes_def split: sum.splits option.splits if_splits)
  show ?thesis
  proof (cases r)
    case (Inl e)
    then show ?thesis
      using commit linked renamed
      by (auto simp: part_commit_def split: sum.splits prod.splits if_splits option.splits)
  next
    case (Inr c)
    obtain ex where ex: "wt_existing f t = Ok ex"
      using commit Inr by (auto simp: part_commit_def try_then_Inr_iff split: sum.splits)
    have ex_None: "(ex = None) = (node_at fs (wt_path t) = None)"
      using ex target wt_existing_Some[of f t] wt_existing_None[OF honest_f, of t] by (cases ex) auto
    consider (link) g where "fs_hard_link f p (wt_path t) = (Ok (), g)" "f' = g" "part = Some p" "c"
      | (move) "fs_rename f p (wt_path t) = (Ok (), f')" "part = None" "c = (ex = None)"
      using commit Inr ex
      by (auto simp: part_commit_def try_then_Inr_iff split: sum.splits prod.splits if_splits option.splits)
    then show ?thesis
    proof cases
      case link
      have g: "node_at f (wt_path t) = None" "f' = add_node (wt_path t) n f"
        using linked_new[of g] link by auto
      show ?thesis
        using Inr link(3,4) n ne target g state
        by (auto simp: node_at_add_node same_outside_def part_state_def)
    next
      case move
      show ?thesis
        using Inr move(2,3) n ne ex_None commit_rename[OF tree p state move(1)] fault_rename[OF move(1)] state
        by (auto simp: same_outside_def part_state_def)
    qed
  qed
qed

section \<open>A small tree\<close>

text \<open>
  A mount at \<open>/srv\<close> that excludes \<open>key\<close>, with a directory, a file outside and a link to it; the library's
  functions are simple ones that keep the laws.
\<close>

definition sample_lib :: files_lib where
  "sample_lib = \<lparr>fl_glob = (\<lambda>p. Ok (\<lambda>s. s = p)), fl_glob_set = (\<lambda>gs. Ok (\<lambda>s. list_ex (\<lambda>g. g s) gs)),
     fl_uuid_ok = (\<lambda>_. True), fl_new_uuid = replicate 36 CHR ''0'', fl_lowercase = (\<lambda>s. s), fl_trim = (\<lambda>s. s),
     fl_rfc3339 = (\<lambda>_. []), fl_percent_encode = (\<lambda>s. s),
     fl_destination = (\<lambda>s. if is_utf8 s then Some s else None),
     fl_query_pairs = (\<lambda>s. [(s, ''true'')])\<rparr>"

definition sample_node :: "nat \<Rightarrow> node_type \<Rightarrow> inode" where
  "sample_node i t = \<lparr>ident = i, itype = t, modified = Some 0, created = None\<rparr>"

definition sample_fs :: file_system where
  "sample_fs = \<lparr>nodes =
      [([''srv''], sample_node 1 Directory), ([''srv'', ''a''], sample_node 2 Directory),
       ([''srv'', ''a'', ''f''], sample_node 3 (File ''x'')), ([''srv'', ''key''], sample_node 4 (File ''k'')),
       ([''etc''], sample_node 5 (File ''y'')), ([''srv'', ''out''], sample_node 6 (Symlink ''../etc''))],
     fault = (\<lambda>_ _. None), cwd = [], next_ident = 7, now = 5\<rparr>"

definition sample_mount :: "mount_access \<Rightarrow> resolved_mount" where
  "sample_mount a = \<lparr>rm_path = ''/srv'', rm_access = a, rm_exclude = [''key''], rm_max_upload = Some 9,
     rm_reveal_paths = True\<rparr>"

definition sample_request :: "http_method \<Rightarrow> str option \<Rightarrow> file_request" where
  "sample_request me q = \<lparr>rq_method = me, rq_query = q, rq_if_none_match = None, rq_if_match = None,
     rq_content_length = None, rq_body = [Ok ''ab'', Ok ''cd'']\<rparr>"

definition sample_open :: "mount_access \<Rightarrow> open_mount" where
  "sample_open a = projr (mount_open sample_lib sample_fs (sample_mount a))"

definition sample_answer ::
  "mount_access \<Rightarrow> http_method \<Rightarrow> str option \<Rightarrow> str \<Rightarrow> (api_error, response) result \<times> file_system" where
  "sample_answer a me q path =
     respond sample_lib (\<lambda>_. Ok (sample_mount a)) sample_fs ''m'' path (sample_request me q)"

lemma sample_tree: "wf_tree sample_fs"
  by code_simp

lemma sample_fresh: "fresh_uuid sample_lib sample_fs"
  by code_simp

lemma sample_laws: "lib_ok sample_lib" "honest_faults sample_fs" "fault sample_fs c p = None"
  by (simp_all add: lib_ok_def honest_faults_def sample_lib_def sample_fs_def)

lemma sample_opens: "mount_open sample_lib sample_fs (sample_mount a) = Ok (sample_open a)"
proof -
  have "\<not> isl (mount_open sample_lib sample_fs (sample_mount Edit))"
    by code_simp
  moreover have "mount_open sample_lib sample_fs (sample_mount a) = mount_open sample_lib sample_fs (sample_mount Edit)"
    by (simp add: mount_open_def sample_mount_def)
  ultimately show ?thesis
    by (simp add: sample_open_def)
qed

lemma sample_responds:
  "respond sample_lib (\<lambda>_. Ok (sample_mount a)) sample_fs ''m'' path (sample_request me q) =
     (fst (sample_answer a me q path), snd (sample_answer a me q path))"
  by (simp add: sample_answer_def)

section \<open>Properties\<close>

lemma respond_handlers:
  assumes "host mount = Ok resolved" and "respond lib host fs mount path rq = (r, fs')"
  obtains "fs' = fs"
    | names query where "split_path path = Ok names" and "files_read lib fs resolved names query rq = (r, fs')"
        and "rq_method rq = GET \<or> rq_method rq = HEAD" and "rm_access resolved \<noteq> NoAccess"
    | names query where "split_path path = Ok names" and "rm_access resolved = Edit"
        and "create_directory lib fs resolved names = (r, fs') \<or>
             upload lib fs resolved names rq = (r, fs') \<or>
             rename lib fs resolved names query rq = (r, fs') \<or>
             files_copy lib fs resolved names query rq = (r, fs') \<or>
             files_delete lib fs resolved names query = (r, fs')"
proof (cases "split_path path")
  case (Inr names)
  then show ?thesis
    using that(1) that(2)[of names "file_query_parse lib (rq_query rq)"]
      that(3)[of names "file_query_parse lib (rq_query rq)"] assms
    by (auto simp: respond_def Let_def split: if_splits http_method.splits)
qed (use assms that(1) in \<open>simp add: respond_def Let_def\<close>)

text \<open>
  C15. Whatever a request asks, and whatever the system refuses on the way, the files API leaves
  alone everything outside the mount and every entry the mount excludes: after the request each
  such entry has the inode it had. Symbolic links inside the mount do not lead a write out of it,
  a move or a recursive delete does not take an excluded entry along, and a listing removes
  nothing but stale parts of uploads. An excluded entry counts as protected unless one of the
  names on its path has the shape of an upload's part, which the search for excluded entries
  below a directory passes over.
\<close>

theorem requests_stay_in_their_mount:
  assumes "wf_tree fs" and "honest_faults fs" and "lib_ok lib" and "fresh_uuid lib fs" and "is_utf8 path"
    and "host mount = Ok resolved" and "mount_open lib fs resolved = Ok m"
    and "respond lib host fs mount path rq = (r, fs')" and "protected lib m fs q"
  shows "node_at fs' q = node_at fs q"
  using assms(6,8)
proof (cases rule: respond_handlers)
  case (2 names query)
  then show ?thesis
    using files_read_leaves[OF assms(7)] protected_not_swept[OF assms(9)] same_outside_node by blast
next
  case (3 names query)
  have names: "\<forall>n \<in> set names. is_utf8 n \<and> entry_name n" "\<forall>n \<in> set names. is_utf8 n"
    using split_path_names(1)[OF 3(1) assms(5)] by auto
  have "leaves_protected lib m fs fs'"
    using 3(3) create_directory_leaves[OF assms(1,7) names(2)] upload_leaves[OF assms(1,2,4,7) names(2)]
      rename_leaves[OF assms(1-3,7) names(1)] files_copy_leaves[OF assms(1-4,7)]
      files_delete_leaves[OF assms(1,3,7) names(1)]
    by blast
  then show ?thesis
    using assms(9) by (simp add: leaves_protected_def)
qed simp

theorem requests_stay_in_their_mount_witness:
  "fst (sample_answer Edit DELETE (Some ''recursive'') ''a'') = Ok (RStatus 204) \<and>
   node_at (snd (sample_answer Edit DELETE (Some ''recursive'') ''a'')) [''srv'', ''key''] = Some (sample_node 4 (File ''k'')) \<and>
   node_at (snd (sample_answer Edit DELETE (Some ''recursive'') ''a'')) [''etc''] = Some (sample_node 5 (File ''y''))"
proof -
  have answered: "fst (sample_answer Edit DELETE (Some ''recursive'') ''a'') = Ok (RStatus 204)"
    by code_simp
  have kept: "protected sample_lib (sample_open Edit) sample_fs [''srv'', ''key'']"
      "protected sample_lib (sample_open Edit) sample_fs [''etc'']"
    by code_simp+
  have "is_utf8 ''a''"
    by code_simp
  note stay = requests_stay_in_their_mount[OF sample_tree sample_laws(2,1) sample_fresh this refl sample_opens sample_responds]
  have "node_at sample_fs [''srv'', ''key''] = Some (sample_node 4 (File ''k''))"
      "node_at sample_fs [''etc''] = Some (sample_node 5 (File ''y''))"
    by code_simp+
  then show ?thesis
    using answered stay[OF kept(1)] stay[OF kept(2)] by simp
qed


text \<open>
  C16. What a request is served comes from inside the mount: a file answered is a regular file
  below the root at a path that is not excluded, with the inode that stood there when the request
  came; and every member of a zip holds the bytes of such a path, links resolved.
\<close>

theorem served_bytes_are_admitted:
  assumes "wf_tree fs" and "host mount = Ok resolved" and "mount_open lib fs resolved = Ok m"
    and "respond lib host fs mount path rq = (Ok answer, fs')"
  shows "case answer of
      RFile f _ \<Rightarrow> admitted_path m (vf_path f) \<and> node_at fs (vf_path f) = Some (vf_inode f) \<and> is_file (vf_inode f)
    | RZip _ (Some (_, members)) \<Rightarrow>
        list_all (\<lambda>(_, member). case member of
          MemberFile p bytes \<Rightarrow> admitted_path m p \<and> map_option content (node_at fs p) = Some bytes
        | MemberDirectory \<Rightarrow> True) members
    | _ \<Rightarrow> True"
proof -
  consider "\<forall>f hs. answer \<noteq> RFile f hs" "\<forall>hs z. answer \<noteq> RZip hs z"
    | names query where "files_read lib fs resolved names query rq = (Ok answer, fs')"
    using assms(2,4)
    by (auto simp: respond_def create_directory_def upload_def upload_finish_def rename_def files_copy_def files_delete_def Let_def
        try_then_Inr_iff split: sum.splits prod.splits if_splits http_method.splits)
  then show ?thesis
  proof cases
    case 1
    then show ?thesis by (auto split: response.splits)
  next
    case (2 names query)
    obtain found where found: "mount_find lib m fs names query = (Ok found, fs')"
      using 2 assms(3) by (auto simp: files_read_def split: sum.splits prod.splits)
    have answer: "answer = (case found of
        FoundListing l \<Rightarrow> RListing l | FoundStat s \<Rightarrow> RStat s
      | FoundArchive a \<Rightarrow> stream_archive lib m fs' a (rq_method rq = HEAD)
      | FoundFile f name \<Rightarrow> RFile f ([(''content-security-policy'', ''sandbox''), (''x-content-type-options'', ''nosniff'')] @
          (if q_download query then [(''content-disposition'', attachment lib name)] else [])))"
      using 2 assms(3) found by (auto simp: files_read_def)
    show ?thesis
    proof (cases found)
      case (FoundFile f name)
      then show ?thesis
        using mount_find_file[of lib m fs names query f name fs'] found answer by simp
    next
      case (FoundArchive a)
      have "zip_ok m fs (fs, snd (write_archive lib m fs a))"
        using mount_find_archive(1)[OF assms(1)] found FoundArchive write_archive_ok[OF assms(1)] by blast
      then show ?thesis
        using mount_find_archive(2)[OF assms(1)] found FoundArchive answer
        by (fastforce simp: stream_archive_def zip_ok_def list_all_iff split: member.splits)
    qed (use answer in simp_all)
  qed
qed

theorem served_bytes_are_admitted_witness:
  "fst (sample_answer View GET None ''a/f'') =
     Ok (RFile \<lparr>vf_path = [''srv'', ''a'', ''f''], vf_inode = sample_node 3 (File ''x'')\<rparr>
       [(''content-security-policy'', ''sandbox''), (''x-content-type-options'', ''nosniff'')]) \<and>
   admitted_path (sample_open View) [''srv'', ''a'', ''f'']"
proof -
  have got: "fst (sample_answer View GET None ''a/f'') =
     Ok (RFile \<lparr>vf_path = [''srv'', ''a'', ''f''], vf_inode = sample_node 3 (File ''x'')\<rparr>
       [(''content-security-policy'', ''sandbox''), (''x-content-type-options'', ''nosniff'')])"
    by code_simp
  then show ?thesis
    using served_bytes_are_admitted[OF sample_tree refl sample_opens sample_responds[of View "''a/f''" GET None, unfolded got]]
    by simp
qed





lemma upload_part_cleared:
  assumes "\<And>q. fault fs RemoveFile q = None" and "path_len p \<le> PATH_MAX" and "p \<noteq> []" and "node_at fs p = None"
    and "part_state fs f p i s"
  shows "same_outside {} fs (part_discard f (Some p))"
proof -
  have f: "fault f = fault fs" "\<And>n. node_at f p = Some n \<Longrightarrow> is_file n" "same_outside {p} fs f"
    using assms(5) by (auto simp: part_state_def is_file_def)
  have "same_outside {p} f (part_remove f p)" "node_at (part_remove f p) p = None"
    using part_removed[of f p] assms(1-3) f(1,2) by auto
  then have "same_outside {p} fs (part_remove f p)" "node_at (part_remove f p) p = node_at fs p"
    using same_outside_trans[OF f(3)] assms(4) by simp_all
  then show ?thesis
    using same_outside_restored by (simp add: part_discard_def)
qed

text \<open>After a commit nothing is left of the part, whether it was moved or linked.\<close>

lemma commit_discarded:
  assumes p: "p = part_beside lib t" "node_at fs p = None" "path_len p \<le> PATH_MAX"
    and "\<And>q. fault fs RemoveFile q = None" and state: "part_state fs g p i s"
    and outside: "same_outside {p, wt_path t} fs h" and "fault h = fault fs"
    and "case pt of None \<Rightarrow> node_at h p = None | Some p' \<Rightarrow> p' = p \<and> node_at h p = node_at g p"
  shows "same_outside {wt_path t} fs (part_discard h pt) \<and>
     node_at (part_discard h pt) (wt_path t) = node_at h (wt_path t)"
proof (cases pt)
  case None
  then show ?thesis
    using same_outside_restored[OF outside] assms(8) p(2) by (simp add: part_discard_def)
next
  case (Some p')
  have ne: "p \<noteq> wt_path t"
    using part_apart(1) p(1) by (metis prefix_order.refl)
  have "same_outside {p} h (part_remove h p)" "node_at (part_remove h p) p = None"
    using part_removed[of h p] assms(4,7,8) p(1,3) Some state by (auto simp: part_state_def is_file_def)
  then have "same_outside {p, wt_path t} fs (part_remove h p)" "node_at (part_remove h p) p = node_at fs p"
      "node_at (part_remove h p) (wt_path t) = node_at h (wt_path t)"
    using outside p(2) ne by (auto simp: same_outside_def)
  then show ?thesis
    using same_outside_restored Some assms(8) by (simp add: part_discard_def)
qed

lemma upload_begin_cases:
  assumes "mount_open lib fs resolved = Ok m" and "mount_target m fs names = Ok t"
    and "upload_begin lib fs resolved names uc = (x, f)" and "node_at fs (part_beside lib t) = None"
    and "\<And>q. fault fs RemoveFile q = None"
  obtains (err) e where "x = Inl e" and "same_outside {} fs f"
    | (ok) "x = Inr (t, part_beside lib t, next_ident fs)" and "path_len (part_beside lib t) \<le> PATH_MAX"
        and "part_state fs f (part_beside lib t) (next_ident fs) []"
proof -
  let ?p = "part_beside lib t"
  obtain y g where y: "fs_create_new fs ?p = (y, g)"
    by (cases "fs_create_new fs ?p")
  consider e where "x = Inl e" "f = fs" | "(x, f) = (case y of Inl e \<Rightarrow> (Err (write_error e), part_discard g (Some ?p))
      | Inr i \<Rightarrow> (Ok (t, ?p, i), g))"
    using assms(1-3) y by (auto simp: upload_begin_def Let_def try_then_Inr_iff split: sum.splits if_splits)
  then show ?thesis
  proof cases
    case 1
    then show ?thesis using err by simp
  next
    case 2
    show ?thesis
    proof (cases y)
      case (Inl e)
      then have "g = fs"
        using y by (auto simp: fs_create_new_def create_call_def split: sum.splits)
      have "same_outside {?p} fs (part_remove fs ?p)" "node_at (part_remove fs ?p) ?p = None"
        using part_removed[of fs ?p] assms(4,5) by simp_all
      then have "same_outside {} fs (part_remove fs ?p)"
        using same_outside_restored assms(4) by simp
      then show ?thesis
        using err 2 Inl \<open>g = fs\<close> by (simp add: part_discard_def)
    next
      case (Inr i)
      have "path_len ?p \<le> PATH_MAX"
        using y Inr by (auto simp: fs_create_new_def create_call_def admitted_def try_then_Inr_iff
            split: sum.splits if_splits)
      then show ?thesis
        using ok 2 Inr part_state_created[of fs ?p i g] y by simp
    qed
  qed
qed

text \<open>What a finished upload leaves, from the state its part was created in.\<close>

lemma upload_finish_result:
  assumes "wf_tree fs" and "honest_faults fs" and "\<And>q. fault fs RemoveFile q = None"
    and p: "p = part_beside lib t" "node_at fs p = None" "path_len p \<le> PATH_MAX"
    and start: "part_state fs f p (next_ident fs) []"
    and finish: "upload_finish lib f uc limit body t p (next_ident fs) = (r, fs')"
  shows "case r of
       Inl _ \<Rightarrow> same_outside {} fs fs'
     | Inr answer \<Rightarrow> same_outside {wt_path t} fs fs' \<and>
         (\<exists>chunks n. body = map Ok chunks \<and>
            node_at fs' (wt_path t) = Some n \<and> itype n = File (concat chunks) \<and>
            (\<forall>l. limit = Some l \<longrightarrow> length (concat chunks) \<le> l) \<and>
            answer = RStatus (if node_at fs (wt_path t) = None then 201 else 204))"
proof -
  have p0: "p \<noteq> []"
    by (simp add: p(1))
  obtain w g where w: "write_body f p (next_ident fs) limit 0 body = (w, g)"
    by (cases "write_body f p (next_ident fs) limit 0 body")
  have written: "\<exists>s. part_state fs g p (next_ident fs) s"
    "w = Ok () \<Longrightarrow> \<exists>chunks. body = map Ok chunks \<and> part_state fs g p (next_ident fs) (concat chunks) \<and>
       (\<forall>l. limit = Some l \<longrightarrow> length (concat chunks) \<le> l)"
    using write_body_part[OF assms(1) order.refl start, of limit body w g] w by auto
  show ?thesis
  proof (cases w)
    case (Inl e)
    then show ?thesis
      using finish w written(1) upload_part_cleared[OF assms(3) p(3) p0 p(2)] by (auto simp: upload_finish_def)
  next
    case (Inr u)
    then obtain chunks where c: "body = map Ok chunks" "part_state fs g p (next_ident fs) (concat chunks)"
        "\<forall>l. limit = Some l \<longrightarrow> length (concat chunks) \<le> l"
      using written(2) by auto
    obtain made pt h where k: "part_commit lib g (Some p) t uc = (made, pt, h)"
      by (cases "part_commit lib g (Some p) t uc")
    note result = commit_result[OF assms(1,2) p(1,2) c(2) k]
    have final: "r = try_then made (\<lambda>c. Ok (RStatus (if c then 201 else 204)))" "fs' = part_discard h pt"
      using finish w Inr k by (simp_all add: upload_finish_def)
    show ?thesis
    proof (cases made)
      case (Inl e)
      then show ?thesis
        using result final upload_part_cleared[OF assms(3) p(3) p0 p(2) c(2)] by simp
    next
      case made: (Inr b)
      have "same_outside {wt_path t} fs fs' \<and> node_at fs' (wt_path t) = node_at h (wt_path t)"
        using commit_discarded[OF p(1,2,3) assms(3) c(2)] result made final(2) by blast
      then show ?thesis
        using result made final(1) c by auto
    qed
  qed
qed

text \<open>
  C17. An upload lands whole or not at all. When it succeeds, the target holds exactly the bytes of
  the body, which are no more than the mount's limit, and the answer tells whether the entry is
  new; when it fails, whatever the reason, the target is as it was. Nothing else changes, and no
  part is left behind, as long as the system lets files be removed.
\<close>

theorem uploads_land_whole_or_not_at_all:
  assumes "wf_tree fs" and "honest_faults fs" and "fresh_uuid lib fs" and "\<And>q. fault fs RemoveFile q = None"
    and "mount_open lib fs resolved = Ok m" and "mount_target m fs names = Ok t"
    and "upload lib fs resolved names rq = (r, fs')"
  shows "(case r of
       Inl _ \<Rightarrow> same_outside {} fs fs'
     | Inr answer \<Rightarrow> same_outside {wt_path t} fs fs' \<and>
         (\<exists>chunks n. rq_body rq = map Ok chunks \<and>
            node_at fs' (wt_path t) = Some n \<and> itype n = File (concat chunks) \<and>
            (\<forall>l. rm_max_upload resolved = Some l \<longrightarrow> length (concat chunks) \<le> l) \<and>
            answer = RStatus (if node_at fs (wt_path t) = None then 201 else 204)))"
proof -
  let ?uc = "conditions_parse lib rq" and ?limit = "rm_max_upload resolved"
  have part: "node_at fs (part_beside lib t) = None"
    by (rule part_fresh[OF assms(3)])
  obtain x f where x: "upload_begin lib fs resolved names ?uc = (x, f)"
    by (cases "upload_begin lib fs resolved names ?uc")
  show ?thesis
  proof (cases "case (?limit, Option.bind (Option.bind (rq_content_length rq) header_to_str) parse_u64) of
      (Some l, Some d) \<Rightarrow> l < d | _ \<Rightarrow> False")
    case True
    then show ?thesis
      using assms(7) by (auto simp: upload_def Let_def)
  next
    case False
    have started: "(r, fs') = (case x of Inl e \<Rightarrow> (Err e, f) | Inr (t, p, i) \<Rightarrow>
        upload_finish lib f ?uc ?limit (rq_body rq) t p i)"
      using assms(7) x False unfolding upload_def Let_def by (cases x) simp_all
    from assms(5,6) x part assms(4) show ?thesis
    proof (cases rule: upload_begin_cases)
      case (err e)
      then show ?thesis using started by simp
    next
      case ok
      then show ?thesis
        using upload_finish_result[OF assms(1,2,4) refl part ok(2,3)] started by simp
    qed
  qed
qed

theorem uploads_land_whole_or_not_at_all_witness:
  "fst (upload sample_lib sample_fs (sample_mount Edit) [''a'', ''g''] (sample_request PUT None)) = Ok (RStatus 201) \<and>
   (\<exists>n. node_at (snd (upload sample_lib sample_fs (sample_mount Edit) [''a'', ''g''] (sample_request PUT None)))
      [''srv'', ''a'', ''g''] = Some n \<and> itype n = File ''abcd'')"
proof -
  define r where "r = upload sample_lib sample_fs (sample_mount Edit) [''a'', ''g''] (sample_request PUT None)"
  have created: "fst r = Ok (RStatus 201)"
    unfolding r_def by code_simp
  then have run: "upload sample_lib sample_fs (sample_mount Edit) [''a'', ''g''] (sample_request PUT None) = (Ok (RStatus 201), snd r)"
    by (metis prod.collapse r_def)
  have t: "mount_target (sample_open Edit) sample_fs [''a'', ''g''] =
      Ok \<lparr>wt_parent = [''srv'', ''a''], wt_name = ''g'', wt_relative = ''a/g''\<rparr>"
    by code_simp
  have "\<exists>n. node_at (snd r) [''srv'', ''a'', ''g''] = Some n \<and> itype n = File ''abcd''"
    using uploads_land_whole_or_not_at_all[OF sample_tree sample_laws(2) sample_fresh sample_laws(3) sample_opens t run]
    by (auto simp: wt_path_def sample_request_def Cons_eq_map_conv)
  then show ?thesis
    using created by (simp add: r_def)
qed

text \<open>
  C19. A listing is the first page of what the directory holds: of the entries that are not
  excluded, not at or before \<open>after\<close> and not swept, in the order of their names, the first 10,000,
  described; it says it is truncated exactly when there are more. The heap the loop keeps and the
  sweeping of stale parts during it do not show.
\<close>

theorem listing_is_the_first_page:
  assumes "wf_tree fs" and "fs_read_dir fs d = Ok es" and "mount_list lib m fs d query = (Ok l, fs')"
  shows "fl_entries l = List.map_filter (describe lib m fs') (take LISTING_CAP (sort_key cd_name
       (rev (map (entry_candidate d) (filter (lists_entry lib m fs d query) (read_names es)))))) \<and>
     fl_truncated l = (LISTING_CAP < length (filter (lists_entry lib m fs d query) (read_names es)))"
  using mount_list_page[OF assms(1,3,2)] by simp

theorem listing_is_the_first_page_witness:
  "\<exists>l. fst (mount_list sample_lib (sample_open View) sample_fs [''srv''] query_default) = Ok l \<and>
     map fe_name (fl_entries l) = [''a'', ''out''] \<and> \<not> fl_truncated l"
proof -
  let ?run = "mount_list sample_lib (sample_open View) sample_fs [''srv''] query_default"
  have es: "fs_read_dir sample_fs [''srv''] = Ok [Ok ''a'', Ok ''key'', Ok ''out'']"
    by code_simp
  have "\<not> isl (fst ?run)"
    by code_simp
  then obtain l where l: "?run = (Ok l, snd ?run)"
    by (metis isl_def prod.collapse sum.exhaust)
  have kept: "filter (lists_entry sample_lib (sample_open View) sample_fs [''srv''] query_default)
      (read_names [Ok ''a'', Ok ''key'', Ok ''out'' :: (error_kind, str) result]) = [''a'', ''out'']"
    by code_simp
  have described: "map fe_name (List.map_filter (describe sample_lib (sample_open View) (snd ?run))
      (take LISTING_CAP (sort_key cd_name (rev (map (entry_candidate [''srv'']) [''a'', ''out'']))))) = [''a'', ''out'']"
    by code_simp
  have "fst ?run = Ok l"
    by (metis fst_conv l)
  then show ?thesis
    using listing_is_the_first_page[OF sample_tree es l] described unfolding kept
    by (auto simp: LISTING_CAP_def intro!: exI[of _ l])
qed

section \<open>Where the model departs from the comments\<close>

text \<open>
  A recursive delete removes an excluded entry that stands below a directory named like an
  upload's part, because the search for excluded entries passes over such names.
\<close>

definition part_name :: str where
  "part_name = ''.x.'' @ replicate 36 CHR ''0'' @ ''.part''"

definition hidden_fs :: file_system where
  "hidden_fs = sample_fs\<lparr>nodes := nodes sample_fs @
     [([''srv'', ''a'', part_name], sample_node 8 Directory),
      ([''srv'', ''a'', part_name, ''key''], sample_node 9 (File ''s''))], next_ident := 10\<rparr>"

lemma part_hides_excluded:
  "wf_tree hidden_fs"
  "node_at hidden_fs [''srv'', ''a'', part_name, ''key''] \<noteq> None"
  "excludes (om_exclusion (sample_open Edit)) (relative_text [''a'', part_name, ''key''])"
  "node_at (snd (respond sample_lib (\<lambda>_. Ok (sample_mount Edit)) hidden_fs ''m'' ''a''
      (sample_request DELETE (Some ''recursive'')))) [''srv'', ''a'', part_name, ''key''] = None"
  by code_simp+

text \<open>
  A copy of a directory names its entries by the text of their names, so two names that are not
  UTF-8 may meet: the copy then holds one file, with the bytes of the later one, and reports
  no error.
\<close>

definition lossy_fs :: file_system where
  "lossy_fs = sample_fs\<lparr>nodes :=
     [([''srv''], sample_node 1 Directory), ([''srv'', ''a''], sample_node 2 Directory),
      ([''srv'', ''a'', [CHR 0xFE]], sample_node 8 (File ''1'')),
      ([''srv'', ''a'', [CHR 0xFF]], sample_node 9 (File ''2''))], next_ident := 10\<rparr>"

definition lossy_copy :: "(error_kind, unit) result \<times> file_system" where
  "lossy_copy = copy_entry sample_lib (sample_open Edit) lossy_fs
     \<lparr>wt_parent = [''srv''], wt_name = ''a'', wt_relative = ''a''\<rparr> (sample_node 2 Directory) [''srv'', ''b'']"

lemma copy_merges_names:
  "length (children lossy_fs [''srv'', ''a'']) = 2"
  "(fst lossy_copy, length (children (snd lossy_copy) [''srv'', ''b''])) = (Ok (), 1)"
  by code_simp+

end
