(* ===== verification/Routes.thy ===== *)
theory Routes
  imports Auth Files
begin

text \<open>
  The routes of \<open>ceres-server\<close> that reach the engine: the table of host-dispatched routes and how one
  is gated and forwarded (\<open>api/dispatch.rs\<close>), the configuration sections (\<open>api/config.rs\<close>), the
  record and status routes (\<open>api/records.rs\<close>, \<open>api/streams.rs\<close>), and the file browser's question to
  the host. A route matched by the router is a row of the table with the text it captured.
\<close>

section \<open>Dispatch\<close>

datatype kind = Raw | Uuid

datatype host_route =
  HostRoute (hr_method: http_method) (hr_path: str) (hr_gate: gate) (hr_operation: str)
    (hr_params: "(str \<times> str \<times> kind) list") (hr_body: bool) (hr_status: nat) (hr_scrub: bool)

definition engine_routes :: "host_route list" where
  "engine_routes =
    [HostRoute POST ''/api/reload'' Admin ''engine.reload''
       [] False 200 True,
     HostRoute POST ''/api/start'' Authenticated ''engine.start''
       [] True 200 False,
     HostRoute POST ''/api/stop'' Authenticated ''engine.stop''
       [] True 200 False,
     HostRoute POST ''/api/enable'' Authenticated ''engine.enable''
       [] True 200 False,
     HostRoute POST ''/api/disable'' Authenticated ''engine.disable''
       [] True 200 False,
     HostRoute POST ''/api/up'' Authenticated ''engine.up''
       [] True 200 False,
     HostRoute POST ''/api/down'' Authenticated ''engine.down''
       [] True 200 False,
     HostRoute POST ''/api/exports/pending'' Admin ''exports.pending''
       [] True 200 False]"

definition user_routes :: "host_route list" where
  "user_routes =
    [HostRoute GET ''/api/users'' Authenticated ''users.list''
       [] False 200 False,
     HostRoute GET ''/api/users/count'' Authenticated ''users.count''
       [] False 200 False,
     HostRoute GET ''/api/users/{id}'' Authenticated ''users.get''
       [(''id'', ''id'', Uuid)] False 200 False,
     HostRoute POST ''/api/users'' Admin ''users.create''
       [] True 201 False,
     HostRoute PATCH ''/api/users/{id}'' (SelfOrAdmin ''id'') ''users.update''
       [(''id'', ''id'', Uuid)] True 200 False,
     HostRoute DELETE ''/api/users/{id}'' Admin ''users.delete''
       [(''id'', ''id'', Uuid)] False 200 False]"

definition group_routes :: "host_route list" where
  "group_routes =
    [HostRoute GET ''/api/groups'' Authenticated ''groups.list''
       [] False 200 False,
     HostRoute GET ''/api/groups/count'' Authenticated ''groups.count''
       [] False 200 False,
     HostRoute GET ''/api/groups/{id}'' Authenticated ''groups.get''
       [(''id'', ''id'', Uuid)] False 200 False,
     HostRoute POST ''/api/groups'' Admin ''groups.create''
       [] True 200 False,
     HostRoute PATCH ''/api/groups/{id}'' Admin ''groups.update''
       [(''id'', ''id'', Uuid)] True 200 False,
     HostRoute DELETE ''/api/groups/{id}'' Admin ''groups.delete''
       [(''id'', ''id'', Uuid)] False 200 False,
     HostRoute GET ''/api/groups/{id}/members'' Authenticated ''groups.members''
       [(''id'', ''id'', Uuid)] False 200 False,
     HostRoute POST ''/api/groups/{id}/members'' Admin ''groups.add_member''
       [(''id'', ''id'', Uuid)] True 200 False,
     HostRoute DELETE ''/api/groups/{id}/members/{second}'' Admin ''groups.remove_member''
       [(''id'', ''id'', Uuid), (''second'', ''user_id'', Uuid)] False 200 False,
     HostRoute GET ''/api/users/{id}/group-memberships'' Authenticated ''memberships.list''
       [(''id'', ''user_id'', Uuid)] False 200 False,
     HostRoute POST ''/api/users/{id}/group-memberships/{second}'' Admin ''memberships.add''
       [(''id'', ''user_id'', Uuid), (''second'', ''group_id'', Uuid)] False 200 False,
     HostRoute DELETE ''/api/users/{id}/group-memberships/{second}'' Admin ''memberships.remove''
       [(''id'', ''user_id'', Uuid), (''second'', ''group_id'', Uuid)] False 200 False]"

definition permission_routes :: "host_route list" where
  "permission_routes =
    [HostRoute GET ''/api/permissions/user/{id}'' (SelfOrAdmin ''user_id'') ''permissions.user''
       [(''id'', ''user_id'', Uuid)] False 200 False,
     HostRoute GET ''/api/permissions/group/{id}'' Admin ''permissions.group''
       [(''id'', ''group_id'', Uuid)] False 200 False,
     HostRoute PUT ''/api/permissions/user/{id}'' Admin ''permissions.assign_user''
       [(''id'', ''user_id'', Uuid)] True 200 False,
     HostRoute DELETE ''/api/permissions/user/{id}'' Admin ''permissions.delete_user''
       [(''id'', ''user_id'', Uuid)] True 200 False,
     HostRoute PUT ''/api/permissions/group/{id}'' Admin ''permissions.assign_group''
       [(''id'', ''group_id'', Uuid)] True 200 False,
     HostRoute DELETE ''/api/permissions/group/{id}'' Admin ''permissions.delete_group''
       [(''id'', ''group_id'', Uuid)] True 200 False,
     HostRoute GET ''/api/permissions/effective/{id}'' (SelfOrAdmin ''user_id'') ''permissions.effective''
       [(''id'', ''user_id'', Uuid)] False 200 False,
     HostRoute GET ''/api/permissions/effective/{id}/{*address}'' (SelfOrAdmin ''user_id'') ''permissions.effective_at''
       [(''id'', ''user_id'', Uuid), (''address'', ''address'', Raw)] False 200 False]"

definition workspace_routes :: "host_route list" where
  "workspace_routes =
    [HostRoute GET ''/api/workspaces'' Authenticated ''workspaces.list''
       [] False 200 False,
     HostRoute GET ''/api/workspaces/{id}'' Authenticated ''workspaces.get''
       [(''id'', ''id'', Uuid)] False 200 False,
     HostRoute POST ''/api/workspaces'' Authenticated ''workspaces.create''
       [] True 200 False,
     HostRoute PATCH ''/api/workspaces/{id}'' Authenticated ''workspaces.update''
       [(''id'', ''id'', Uuid)] True 200 False,
     HostRoute DELETE ''/api/workspaces/{id}'' Authenticated ''workspaces.delete''
       [(''id'', ''id'', Uuid)] False 200 False,
     HostRoute GET ''/api/users/{id}/workspace-edits'' (SelfOrAdmin ''user_id'') ''edits.list''
       [(''id'', ''user_id'', Uuid)] False 200 False,
     HostRoute GET ''/api/users/{id}/workspace-edits/{second}'' (SelfOrAdmin ''user_id'') ''edits.get''
       [(''id'', ''user_id'', Uuid), (''second'', ''workspace_id'', Uuid)] False 200 False,
     HostRoute POST ''/api/users/{id}/workspace-edits/{second}'' (SelfOrAdmin ''user_id'') ''edits.create''
       [(''id'', ''user_id'', Uuid), (''second'', ''workspace_id'', Uuid)] True 200 False,
     HostRoute PUT ''/api/users/{id}/workspace-edits/{second}'' (SelfOrAdmin ''user_id'') ''edits.assign''
       [(''id'', ''user_id'', Uuid), (''second'', ''workspace_id'', Uuid)] True 200 False,
     HostRoute DELETE ''/api/users/{id}/workspace-edits/{second}'' (SelfOrAdmin ''user_id'') ''edits.delete''
       [(''id'', ''user_id'', Uuid), (''second'', ''workspace_id'', Uuid)] False 200 False]"

definition instrument_routes :: "host_route list" where
  "instrument_routes =
    [HostRoute GET ''/api/settings/{id}/{second}'' Open ''settings.get''
       [(''id'', ''user_id'', Raw), (''second'', ''name'', Raw)] False 200 False,
     HostRoute PUT ''/api/settings'' Open ''settings.assign''
       [] True 200 False,
     HostRoute GET ''/api/statistics'' Authenticated ''statistics.list''
       [] False 200 False,
     HostRoute GET ''/api/statuses/{id}'' Authenticated ''statuses.get''
       [(''id'', ''address'', Raw)] False 200 False,
     HostRoute GET ''/api/files'' Authenticated ''files.mounts''
       [] False 200 False,
     HostRoute GET ''/api/components'' Authenticated ''components.list''
       [] False 200 False,
     HostRoute GET ''/api/components/{id}'' Authenticated ''components.get''
       [(''id'', ''address'', Raw)] False 200 False,
     HostRoute GET ''/api/components/{id}/config'' Authenticated ''components.config''
       [(''id'', ''address'', Raw)] False 200 False,
     HostRoute GET ''/api/components/{id}/connections'' Authenticated ''components.connections''
       [(''id'', ''address'', Raw)] False 200 False,
     HostRoute GET ''/api/components/{id}/jobs'' Authenticated ''components.jobs''
       [(''id'', ''address'', Raw)] False 200 False,
     HostRoute GET ''/api/components/{id}/exporters'' Authenticated ''exporters.list''
       [(''id'', ''address'', Raw)] False 200 False,
     HostRoute GET ''/api/components/{id}/exporters/{second}/runs'' Authenticated ''exporters.runs''
       [(''id'', ''address'', Raw), (''second'', ''name'', Raw)] False 200 False,
     HostRoute GET ''/api/components/{id}/playbacks'' Authenticated ''playbacks.list''
       [(''id'', ''address'', Raw)] False 200 False,
     HostRoute GET ''/api/components/{id}/procedures'' Authenticated ''procedures.list''
       [(''id'', ''address'', Raw)] False 200 False,
     HostRoute GET ''/api/components/{id}/procedures/{second}'' Authenticated ''procedures.get''
       [(''id'', ''address'', Raw), (''second'', ''name'', Raw)] False 200 False,
     HostRoute GET ''/api/components/{id}/queries'' Authenticated ''queries.list''
       [(''id'', ''address'', Raw)] False 200 False,
     HostRoute GET ''/api/components/{id}/queries/{second}'' Authenticated ''queries.get''
       [(''id'', ''address'', Raw), (''second'', ''name'', Raw)] False 200 False,
     HostRoute GET ''/api/components/{id}/actions'' Authenticated ''actions.list''
       [(''id'', ''address'', Raw)] False 200 False,
     HostRoute GET ''/api/components/{id}/actions/{second}'' Authenticated ''actions.get''
       [(''id'', ''address'', Raw), (''second'', ''name'', Raw)] False 200 False,
     HostRoute POST ''/api/components/{id}/procedures/{second}/call'' Open ''procedures.call''
       [(''id'', ''address'', Raw), (''second'', ''name'', Raw)] True 200 False,
     HostRoute POST ''/api/components/{id}/exporters/{second}/runs'' Open ''exporters.run''
       [(''id'', ''address'', Raw), (''second'', ''name'', Raw)] True 200 False,
     HostRoute POST ''/api/components/{id}/playbacks'' Open ''playbacks.run''
       [(''id'', ''address'', Raw)] True 200 False,
     HostRoute GET ''/api/components/{id}/procedures/{second}/call'' Open ''procedures.call_get''
       [(''id'', ''address'', Raw), (''second'', ''name'', Raw)] False 200 False,
     HostRoute POST ''/api/components/{id}/queries/{second}/call'' Open ''queries.call''
       [(''id'', ''address'', Raw), (''second'', ''name'', Raw)] True 200 False,
     HostRoute GET ''/api/components/{id}/queries/{second}/call'' Open ''queries.call_get''
       [(''id'', ''address'', Raw), (''second'', ''name'', Raw)] False 200 False,
     HostRoute POST ''/api/components/{id}/actions/{second}/call'' Open ''actions.call''
       [(''id'', ''address'', Raw), (''second'', ''name'', Raw)] True 200 False,
     HostRoute POST ''/api/components/{id}/connections/{second}/send'' Authenticated ''components.send''
       [(''id'', ''address'', Raw), (''second'', ''connection'', Raw)] True 200 False]"

definition host_routes :: "host_route list" where
  "host_routes = engine_routes @ user_routes @ group_routes @ permission_routes @ workspace_routes @ instrument_routes"

record dispatch =
  dp_gate :: gate
  dp_operation :: str
  dp_parameters :: "(str \<times> str \<times> kind) list"
  dp_body :: "str option"
  dp_status :: nat
  dp_scrub :: bool

text \<open>The handler \<open>register\<close> makes of a row, for the captured fields and the request's body.\<close>

definition route_dispatch :: "host_route \<Rightarrow> (str \<Rightarrow> str) \<Rightarrow> str \<Rightarrow> dispatch" where
  "route_dispatch row captured bytes =
     \<lparr>dp_gate = hr_gate row, dp_operation = hr_operation row,
      dp_parameters = map (\<lambda>(field, name, k). (name, captured field, k)) (hr_params row),
      dp_body = (if hr_body row then Some bytes else None),
      dp_status = hr_status row, dp_scrub = hr_scrub row\<rparr>"

definition dispatch_lookup :: "gate \<Rightarrow> str \<Rightarrow> (str \<times> str) list \<Rightarrow> dispatch" where
  "dispatch_lookup g operation parameters =
     \<lparr>dp_gate = g, dp_operation = operation, dp_parameters = map (\<lambda>(n, v). (n, v, Raw)) parameters,
      dp_body = None, dp_status = 200, dp_scrub = False\<rparr>"

definition dispatch_procedure :: "str \<Rightarrow> str \<Rightarrow> str \<Rightarrow> dispatch" where
  "dispatch_procedure operation address name =
     dispatch_lookup Open operation [(''address'', address), (''name'', name)]"

definition query_pairs :: "server_lib \<Rightarrow> str option \<Rightarrow> (str \<times> str) list" where
  "query_pairs lib q = (case q of None \<Rightarrow> [] | Some q \<Rightarrow> sl_query_pairs lib q)"

definition pairs_json :: "(str \<times> str) list \<Rightarrow> json" where
  "pairs_json ps = JArray (map (\<lambda>(n, v). JArray [JString n, JString v]) ps)"

definition actor_arguments :: "server_lib \<Rightarrow> actor \<Rightarrow> json" where
  "actor_arguments lib ac =
     JObject [(''user'', case ac_user ac of None \<Rightarrow> JNull | Some u \<Rightarrow> JString (sl_uuid_text lib (us_id u))),
              (''admin'', JBool (actor_admin ac)), (''unrestricted'', JBool (ac_unrestricted ac))]"

definition insert_parameter ::
  "server_lib \<Rightarrow> str \<times> str \<times> kind \<Rightarrow> (str \<times> json) list \<Rightarrow> (api_error, (str \<times> json) list) result" where
  "insert_parameter lib q m =
     (case q of (name, v, k) \<Rightarrow>
        if k = Uuid \<and> sl_uuid_parse lib v = None then Err not_found
        else Ok (AList.update name (JString v) m))"

definition path_object ::
  "server_lib \<Rightarrow> (str \<times> str \<times> kind) list \<Rightarrow> (api_error, (str \<times> json) list) result" where
  "path_object lib parameters = try_fold (insert_parameter lib) parameters []"

definition dispatch_body :: "server_lib \<Rightarrow> str option \<Rightarrow> (api_error, json) result" where
  "dispatch_body lib body =
     (case body of
        None \<Rightarrow> Ok JNull
      | Some bytes \<Rightarrow>
          if bytes = [] then Ok JNull
          else (case sl_json_read lib bytes of Inl e \<Rightarrow> Err (json_invalid e) | Inr v \<Rightarrow> Ok v))"

definition host_operate :: "app \<Rightarrow> str \<Rightarrow> json \<Rightarrow> (api_error, answer) handler" where
  "host_operate a operation args =
     asks (Operate operation args) (\<lambda>evs. or_host (ho_operate (ap_host a) evs operation args))"

definition dispatch_arguments ::
  "server_lib \<Rightarrow> actor \<Rightarrow> (str \<times> json) list \<Rightarrow> str option \<Rightarrow> json \<Rightarrow> json" where
  "dispatch_arguments lib ac path query body =
     JObject [(''actor'', actor_arguments lib ac), (''path'', JObject path),
              (''query'', pairs_json (query_pairs lib query)), (''body'', body)]"

definition path_values :: "dispatch \<Rightarrow> (str \<times> str) list" where
  "path_values d = map (\<lambda>(n, v, k). (n, v)) (dp_parameters d)"

definition dispatch_answer ::
  "server_lib \<Rightarrow> app \<Rightarrow> dispatch \<Rightarrow> headers \<Rightarrow> str option \<Rightarrow> (api_error, answer) handler" where
  "dispatch_answer lib a d hs query =
     and_then (pure (path_object lib (dp_parameters d))) (\<lambda>path.
     and_then (resolve_actor lib a hs Full) (\<lambda>ac.
     and_then (pure (gate_admit lib (dp_gate d) ac (path_values d))) (\<lambda>_.
     and_then (pure (dispatch_body lib (dp_body d))) (\<lambda>body.
     host_operate a (dp_operation d) (dispatch_arguments lib ac path query body)))))"

datatype route_reply =
    Replied reply
  | Described served
  | Upgraded str json

definition payload_reply :: "server_lib \<Rightarrow> dispatch \<Rightarrow> str \<Rightarrow> reply" where
  "payload_reply lib d payload =
     \<lparr>rp_status = (case status_from_u16 (dp_status d) of Some s \<Rightarrow> s | None \<Rightarrow> 200),
      rp_body = Text (if dp_scrub d then scrub_json (sl_json_read lib) (sl_json_write lib) payload else payload),
      rp_cookie = None\<rparr>"

definition dispatch_respond ::
  "server_lib \<Rightarrow> app \<Rightarrow> dispatch \<Rightarrow> headers \<Rightarrow> str option \<Rightarrow> (api_error, route_reply) handler" where
  "dispatch_respond lib a d hs query = and_then (dispatch_answer lib a d hs query) (\<lambda>answer.
     pure (case answer of
       Payload payload \<Rightarrow> Ok (Replied (payload_reply lib d payload))
     | Served s \<Rightarrow> Ok (Described s)
     | LiveAnswer h \<Rightarrow> Err internal_error))"

section \<open>Configuration, records and statuses\<close>

definition text_response :: "str \<Rightarrow> route_reply" where
  "text_response t = Replied \<lparr>rp_status = 200, rp_body = Text t, rp_cookie = None\<rparr>"

definition host_payload :: "app \<Rightarrow> str \<Rightarrow> json \<Rightarrow> (api_error, str) handler" where
  "host_payload a operation args = and_then (host_operate a operation args) (\<lambda>answer.
     pure (case answer of
       Payload payload \<Rightarrow> Ok payload
     | Served s \<Rightarrow> Err internal_error
     | LiveAnswer h \<Rightarrow> Err internal_error))"

definition serve_section :: "server_lib \<Rightarrow> app \<Rightarrow> str \<Rightarrow> (api_error, route_reply) handler" where
  "serve_section lib a operation = and_then (host_payload a operation (JObject [])) (\<lambda>payload.
     pure (Ok (text_response (scrub_json (sl_json_read lib) (sl_json_write lib) payload))))"

datatype config_section = FullConfig | ServiceConfig | ServerConfig | DatabaseConfig

fun section_operation :: "config_section \<Rightarrow> str" where
  "section_operation FullConfig = ''config''"
| "section_operation ServiceConfig = ''config.service''"
| "section_operation ServerConfig = ''config.server''"
| "section_operation DatabaseConfig = ''config.database''"

definition config_get :: "server_lib \<Rightarrow> app \<Rightarrow> config_section \<Rightarrow> headers \<Rightarrow> (api_error, route_reply) handler" where
  "config_get lib a sec hs = and_then (app_admit lib a hs Admin Full) (\<lambda>_.
     serve_section lib a (section_operation sec))"

definition console_config :: "server_lib \<Rightarrow> app \<Rightarrow> (api_error, route_reply) handler" where
  "console_config lib a = serve_section lib a ''config.console''"

definition record_arguments :: "str \<Rightarrow> (str \<times> str) list \<Rightarrow> json" where
  "record_arguments table pairs = JObject [(''table'', JString table), (''query'', pairs_json pairs)]"

text \<open>A listing, or, when the request asks to upgrade, a stream of the same operation family.\<close>

definition records_list ::
  "server_lib \<Rightarrow> app \<Rightarrow> str \<Rightarrow> headers \<Rightarrow> str option \<Rightarrow> bool \<Rightarrow> (api_error, route_reply) handler" where
  "records_list lib a table hs query upgrade = and_then (app_admit lib a hs Authenticated Standing) (\<lambda>_.
     let pairs = query_pairs lib query in
     if upgrade then pure (Ok (Upgraded ''records.stream'' (record_arguments table pairs)))
     else and_then (asks (AskRecords table pairs) (\<lambda>evs. Ok (ho_records (ap_host a) evs table pairs))) (\<lambda>native.
       case native of
         Some payload \<Rightarrow> pure (Ok (text_response payload))
       | None \<Rightarrow> and_then (host_payload a ''records.list'' (record_arguments table pairs)) (\<lambda>payload.
           pure (Ok (text_response payload)))))"

definition records_count ::
  "server_lib \<Rightarrow> app \<Rightarrow> str \<Rightarrow> headers \<Rightarrow> str option \<Rightarrow> (api_error, route_reply) handler" where
  "records_count lib a table hs query = and_then (app_admit lib a hs Authenticated Standing) (\<lambda>_.
     let pairs = query_pairs lib query in
     and_then (asks (AskCount table pairs) (\<lambda>evs. Ok (ho_count (ap_host a) evs table pairs))) (\<lambda>native.
       case native of
         Some payload \<Rightarrow> pure (Ok (text_response payload))
       | None \<Rightarrow> and_then (host_payload a ''records.count'' (record_arguments table pairs)) (\<lambda>payload.
           pure (Ok (text_response payload)))))"

definition record_found :: "str \<Rightarrow> (api_error, route_reply) result" where
  "record_found payload = (if payload = ''null'' then Err not_found else Ok (text_response payload))"

definition records_get ::
  "server_lib \<Rightarrow> app \<Rightarrow> str \<Rightarrow> headers \<Rightarrow> str \<Rightarrow> (api_error, route_reply) handler" where
  "records_get lib a table hs i =
     (case sl_uuid_parse lib i of
        None \<Rightarrow> pure (Err not_found)
      | Some u \<Rightarrow> and_then (app_admit lib a hs Authenticated Standing) (\<lambda>_.
          and_then (asks (AskRecord table u) (\<lambda>evs. Ok (ho_record (ap_host a) evs table u))) (\<lambda>native.
            case native of
              Some payload \<Rightarrow> pure (record_found payload)
            | None \<Rightarrow> and_then (host_payload a ''records.get''
                        (JObject [(''table'', JString table), (''id'', JString i)])) (\<lambda>payload.
                pure (record_found payload)))))"

definition statuses ::
  "server_lib \<Rightarrow> app \<Rightarrow> headers \<Rightarrow> str option \<Rightarrow> bool \<Rightarrow> (api_error, route_reply) handler" where
  "statuses lib a hs query upgrade = and_then (app_admit lib a hs Authenticated Full) (\<lambda>_.
     let args = JObject [(''query'', pairs_json (query_pairs lib query))] in
     if upgrade then pure (Ok (Upgraded ''statuses.stream'' args))
     else and_then (host_payload a ''statuses.list'' args) (\<lambda>payload. pure (Ok (text_response payload))))"

datatype records_route = Messages | Particles | Alerts | Logs

fun records_route_name :: "records_route \<Rightarrow> str" where
  "records_route_name Messages = ''messages''"
| "records_route_name Particles = ''particles''"
| "records_route_name Alerts = ''alerts''"
| "records_route_name Logs = ''logs''"

text \<open>
  \<open>pump\<close>: once upgraded, the socket relays the host's messages until the peer leaves, a send fails, or the
  stream ends or is closed by the engine. The steps are the arms of the \<open>select\<close> in the order they became
  ready; a host message carries whether sending it succeeded.
\<close>

datatype frame = TextFrame str | CloseFrame nat str

datatype pump_step = FromPeer bool | FromHost "(nat \<times> str, str option) result" bool

fun pump_loop :: "pump_step list \<Rightarrow> frame list \<times> bool" where
  "pump_loop [] = ([], False)"
| "pump_loop (FromPeer leaves # steps) = (if leaves then ([], True) else pump_loop steps)"
| "pump_loop (FromHost (Inr (Some t)) sent # steps) =
     (if sent then (case pump_loop steps of (fs, finished) \<Rightarrow> (TextFrame t # fs, finished)) else ([], True))"
| "pump_loop (FromHost (Inr None) sent # steps) = ([], True)"
| "pump_loop (FromHost (Inl (code, reason)) sent # steps) = ([CloseFrame code reason], True)"

definition pump :: "(nat \<times> str, nat) result \<Rightarrow> pump_step list \<Rightarrow> frame list \<times> nat list" where
  "pump opened steps =
     (case opened of
        Inl (code, reason) \<Rightarrow> ([CloseFrame code reason], [])
      | Inr handle \<Rightarrow> (case pump_loop steps of (fs, finished) \<Rightarrow> (fs, if finished then [handle] else [])))"

text \<open>The socket-only routes, which leave access to the operation.\<close>

definition socket_arguments :: "server_lib \<Rightarrow> str \<Rightarrow> str \<Rightarrow> str option \<Rightarrow> json" where
  "socket_arguments lib address name query =
     JObject [(''path'', JObject [(''address'', JString address), (''name'', JString name)]),
              (''query'', pairs_json (query_pairs lib query))]"

section \<open>The routes together\<close>

datatype api_request =
    Dispatched host_route "str \<Rightarrow> str" headers "str option" str
  | GetConfig config_section headers
  | GetConsoleConfig headers
  | ListRecords records_route headers "str option" bool
  | CountRecords records_route headers "str option"
  | GetRecord records_route headers str
  | GetStatuses headers "str option" bool

fun serve_api :: "server_lib \<Rightarrow> app \<Rightarrow> api_request \<Rightarrow> (api_error, route_reply) handler" where
  "serve_api lib a (Dispatched row captured hs query bytes) =
     dispatch_respond lib a (route_dispatch row captured bytes) hs query"
| "serve_api lib a (GetConfig sec hs) = config_get lib a sec hs"
| "serve_api lib a (GetConsoleConfig hs) = console_config lib a"
| "serve_api lib a (ListRecords t hs query upgrade) = records_list lib a (records_route_name t) hs query upgrade"
| "serve_api lib a (CountRecords t hs query) = records_count lib a (records_route_name t) hs query"
| "serve_api lib a (GetRecord t hs i) = records_get lib a (records_route_name t) hs i"
| "serve_api lib a (GetStatuses hs query upgrade) = statuses lib a hs query upgrade"

fun api_headers :: "api_request \<Rightarrow> headers" where
  "api_headers (Dispatched row captured hs query bytes) = hs"
| "api_headers (GetConfig sec hs) = hs"
| "api_headers (GetConsoleConfig hs) = hs"
| "api_headers (ListRecords t hs query upgrade) = hs"
| "api_headers (CountRecords t hs query) = hs"
| "api_headers (GetRecord t hs i) = hs"
| "api_headers (GetStatuses hs query upgrade) = hs"

text \<open>\<open>build_router\<close> puts the whole application behind the control token when it has one.\<close>

definition serve_app :: "server_lib \<Rightarrow> app \<Rightarrow> str option \<Rightarrow> api_request \<Rightarrow> (api_error, route_reply) handler" where
  "serve_app lib a cli_token rq =
     (case cli_token of
        None \<Rightarrow> serve_api lib (a\<lparr>ap_cli := False\<rparr>) rq
      | Some token \<Rightarrow> require_cli_token token (api_headers rq) (serve_api lib (a\<lparr>ap_cli := True\<rparr>) rq))"

section \<open>Who reaches the engine\<close>

definition engine_event :: "event \<Rightarrow> bool" where
  "engine_event ev \<longleftrightarrow> (case ev of AskUser u \<Rightarrow> False | AskGateUser u \<Rightarrow> False | _ \<Rightarrow> True)"

text \<open>The user the host reports for the token a request presents, at some point of the request.\<close>

definition caller :: "server_lib \<Rightarrow> app \<Rightarrow> headers \<Rightarrow> event list \<Rightarrow> user_record \<Rightarrow> bool" where
  "caller lib a hs evs u \<longleftrightarrow> (\<exists>mid p. prefix evs mid \<and> presented lib a hs mid = Some p \<and>
     (ho_user (ap_host a) mid (pt_user p) = Ok (Some u) \<or>
      (\<exists>g. ho_gate_user (ap_host a) mid (pt_user p) = Some (Some g) \<and> u = gate_record g)))"

definition permits :: "server_lib \<Rightarrow> gate \<Rightarrow> user_record \<Rightarrow> (str \<times> str) list \<Rightarrow> bool" where
  "permits lib g u values \<longleftrightarrow>
     (case g of
        Open \<Rightarrow> True
      | Authenticated \<Rightarrow> \<not> us_disabled u
      | Admin \<Rightarrow> \<not> us_disabled u \<and> us_admin u
      | SelfOrAdmin n \<Rightarrow> \<not> us_disabled u \<and>
          (us_admin u \<or> Option.bind (map_of values n) (sl_uuid_parse lib) = Some (us_id u)))"

lemma gate_admit_Ok:
  assumes "gate_admit lib g ac values = Ok ()"
  shows "ac_unrestricted ac \<or> g = Open \<or> (\<exists>u. ac_user ac = Some u \<and> permits lib g u values)"
  using assms
  by (cases g)
    (auto simp: gate_admit_def permits_def require_authenticated_def require_admin_def require_self_or_admin_def
      actor_admin_def try_then_Inr_iff split: if_splits option.splits)

lemma gate_admit_permits:
  assumes "ac_user ac = Some u" and "permits lib g u values"
  shows "gate_admit lib g ac values = Ok ()"
  using assms
  by (cases g)
    (auto simp: gate_admit_def permits_def require_authenticated_def require_admin_def require_self_or_admin_def
      actor_admin_def split: option.splits)

definition asks_only :: "event list \<Rightarrow> bool" where
  "asks_only l \<longleftrightarrow> (\<forall>ev \<in> set l. \<not> engine_event ev)"

lemma asks_only_simps [simp]:
  "asks_only []" "asks_only (AskUser u # l) \<longleftrightarrow> asks_only l" "asks_only (AskGateUser u # l) \<longleftrightarrow> asks_only l"
  "\<not> asks_only (Operate opn args # l)" "asks_only (l @ m) \<longleftrightarrow> asks_only l \<and> asks_only m"
  by (auto simp: asks_only_def engine_event_def)

definition actor_of :: "server_lib \<Rightarrow> app \<Rightarrow> headers \<Rightarrow> event list \<Rightarrow> actor \<Rightarrow> bool" where
  "actor_of lib a hs evs ac \<longleftrightarrow>
     ac_unrestricted ac = unrestricted a \<and> (\<forall>u. ac_user ac = Some u \<longrightarrow> caller lib a hs evs u)"

lemma caller_prefix: "caller lib a hs evs' u \<Longrightarrow> prefix evs evs' \<Longrightarrow> caller lib a hs evs u"
  unfolding caller_def using prefix_order.trans[of evs evs'] by blast

lemma caller_now:
  "presented lib a hs evs = Some p \<Longrightarrow> ho_user (ap_host a) evs (pt_user p) = Ok (Some u) \<Longrightarrow> caller lib a hs evs u"
  "presented lib a hs evs = Some p \<Longrightarrow> ho_gate_user (ap_host a) evs (pt_user p) = Some (Some g) \<Longrightarrow>
   caller lib a hs evs (gate_record g)"
  unfolding caller_def by blast+

lemma actor_full_run:
  assumes "actor_full lib a hs evs = (r, evs')"
  shows "\<exists>l. evs' = evs @ l \<and> asks_only l \<and> (\<forall>ac. r = Ok ac \<longrightarrow> actor_of lib a hs evs ac)"
  by (rule resolve_identity_cases[of lib a hs evs])
    (use assms in \<open>auto simp: actor_full_def and_then_def actor_of_def found_identity_def intro: caller_now\<close>)

lemma resolve_actor_run:
  assumes "resolve_actor lib a hs res evs = (r, evs')"
  shows "\<exists>l. evs' = evs @ l \<and> asks_only l \<and> (\<forall>ac. r = Ok ac \<longrightarrow> actor_of lib a hs evs ac)"
proof (cases res)
  case Full
  with assms show ?thesis using actor_full_run by (simp add: resolve_actor_def)
next
  case Standing
  show ?thesis
  proof (cases "presented lib a hs evs")
    case None
    with Standing assms show ?thesis by (auto simp: resolve_actor_def actor_of_def)
  next
    case (Some p)
    show ?thesis
    proof (cases "ho_gate_user (ap_host a) evs (pt_user p)")
      case None
      with Some Standing assms have "actor_full lib a hs (evs @ [AskGateUser (pt_user p)]) = (r, evs')"
        by (simp add: resolve_actor_def)
      from actor_full_run[OF this] obtain l where
        "evs' = evs @ AskGateUser (pt_user p) # l" "asks_only l"
        "\<forall>ac. r = Ok ac \<longrightarrow> actor_of lib a hs (evs @ [AskGateUser (pt_user p)]) ac" by auto
      then show ?thesis
        by (intro exI[of _ "AskGateUser (pt_user p) # l"]) (auto simp: actor_of_def intro: caller_prefix)
    next
      case (Some g)
      with \<open>presented lib a hs evs = Some p\<close> Standing assms show ?thesis
        by (auto simp: resolve_actor_def actor_of_def intro: caller_now)
    qed
  qed
qed

definition gate_admitted :: "server_lib \<Rightarrow> app \<Rightarrow> headers \<Rightarrow> event list \<Rightarrow> gate \<Rightarrow> (str \<times> str) list \<Rightarrow> bool" where
  "gate_admitted lib a hs evs g values \<longleftrightarrow>
     unrestricted a \<or> g = Open \<or> (\<exists>u. caller lib a hs evs u \<and> permits lib g u values)"

lemma actor_of_admitted:
  "actor_of lib a hs evs ac \<Longrightarrow> gate_admit lib g ac values = Ok () \<Longrightarrow> gate_admitted lib a hs evs g values"
  using gate_admit_Ok by (fastforce simp: actor_of_def gate_admitted_def)

text \<open>A handler behind a gate: without admission it neither succeeds nor reaches the engine.\<close>

definition gated :: "server_lib \<Rightarrow> app \<Rightarrow> headers \<Rightarrow> gate \<Rightarrow> (api_error, 'a) handler \<Rightarrow> bool" where
  "gated lib a hs g h \<longleftrightarrow> (\<forall>evs r evs'. h evs = (r, evs') \<longrightarrow>
     gate_admitted lib a hs evs g [] \<or> (\<exists>e l. r = Inl e \<and> evs' = evs @ l \<and> asks_only l))"

lemma app_admit_run:
  assumes "app_admit lib a hs g res evs = (r, evs')"
  shows "\<exists>l. evs' = evs @ l \<and> asks_only l \<and> (\<forall>ac. r = Ok ac \<longrightarrow> gate_admitted lib a hs evs g [])"
  using assms unfolding app_admit_def
proof (rule and_then_cases)
  fix e
  assume "resolve_actor lib a hs res evs = (Inl e, evs')" "r = Inl e"
  then show ?thesis using resolve_actor_run by fastforce
next
  fix ac mid
  assume m: "resolve_actor lib a hs res evs = (Inr ac, mid)"
    and r: "and_then (pure (gate_admit lib g ac [])) (\<lambda>_. pure (Ok ac)) mid = (r, evs')"
  from resolve_actor_run[OF m] obtain l where l: "mid = evs @ l" "asks_only l" "actor_of lib a hs evs ac" by auto
  from r have "evs' = mid \<and> (\<forall>ac'. r = Ok ac' \<longrightarrow> gate_admit lib g ac [] = Ok ())"
    by (cases "gate_admit lib g ac []") auto
  with l actor_of_admitted[OF l(3)] show ?thesis by auto
qed

lemma gated_refused: "gated lib a hs g (pure (Inl e))"
  by (auto simp: gated_def)

lemma gated_admit: "gated lib a hs g (and_then (app_admit lib a hs g res) f)"
  unfolding gated_def
proof (intro allI impI)
  fix evs r evs'
  assume "and_then (app_admit lib a hs g res) f evs = (r, evs')"
  then show "gate_admitted lib a hs evs g [] \<or> (\<exists>e l. r = Inl e \<and> evs' = evs @ l \<and> asks_only l)"
    by (cases rule: and_then_cases) (use app_admit_run in fastforce)+
qed

subsection \<open>The dispatch table\<close>

text \<open>Each row's host names are distinct, and a self-or-admin gate reads one that parses as an identifier.\<close>

definition row_ok :: "host_route \<Rightarrow> bool" where
  "row_ok row \<longleftrightarrow> distinct (map (\<lambda>(f, n, k). n) (hr_params row)) \<and> 100 \<le> hr_status row \<and> hr_status row \<le> 999 \<and>
     (case hr_gate row of SelfOrAdmin g \<Rightarrow> list_ex (\<lambda>(f, n, k). n = g \<and> k = Uuid) (hr_params row) | _ \<Rightarrow> True)"

lemma host_routes_ok: "list_all row_ok host_routes"
  unfolding host_routes_def engine_routes_def user_routes_def group_routes_def permission_routes_def
    workspace_routes_def instrument_routes_def
  by (simp add: row_ok_def)

lemma host_routes_distinct: "distinct (map (\<lambda>r. (hr_method r, hr_path r)) host_routes)"
  unfolding host_routes_def engine_routes_def user_routes_def group_routes_def permission_routes_def
    workspace_routes_def instrument_routes_def
  by code_simp

text \<open>Every route that changes something, other than those whose operation checks access, has a gate.\<close>

lemma open_routes:
  "map hr_operation (filter (\<lambda>r. hr_gate r = Open) host_routes) =
     [''settings.get'', ''settings.assign'', ''procedures.call'', ''exporters.run'', ''playbacks.run'',
      ''procedures.call_get'', ''queries.call'', ''queries.call_get'', ''actions.call'']"
  unfolding host_routes_def engine_routes_def user_routes_def group_routes_def permission_routes_def
    workspace_routes_def instrument_routes_def
  by simp

lemma path_object_run:
  "try_fold (insert_parameter lib) ps m = Ok path \<Longrightarrow> distinct (map fst m @ map fst ps) \<Longrightarrow>
   path = m @ map (\<lambda>(n, v, k). (n, JString v)) ps"
proof (induction ps arbitrary: m)
  case (Cons q ps)
  obtain n v k where q: "q = (n, v, k)" by (cases q)
  have "n \<notin> fst ` set m" using Cons.prems(2) q by auto
  then have upd: "AList.update n (JString v) m = m @ [(n, JString v)]"
    by (induction m) auto
  obtain m' where "insert_parameter lib q m = Ok m'" and m': "try_fold (insert_parameter lib) ps m' = Ok path"
    using Cons.prems(1) by (auto simp: try_then_Inr_iff)
  then have "m' = m @ [(n, JString v)]"
    using upd q by (auto simp: insert_parameter_def split: if_splits)
  with m' have "try_fold (insert_parameter lib) ps (m @ [(n, JString v)]) = Ok path" by simp
  with Cons.IH[OF this] Cons.prems(2) q show ?case by simp
qed simp

lemma path_object_values:
  assumes "path_object lib (dp_parameters d) = Ok path" and "distinct (map fst (dp_parameters d))"
  shows "map_of path n = map_option JString (map_of (path_values d) n)"
proof -
  have "path = map (\<lambda>(n, v, k). (n, JString v)) (dp_parameters d)"
    using path_object_run[of lib "dp_parameters d" "[]"] assms by (simp add: path_object_def)
  moreover have "map_of (map (\<lambda>(n, v, k). (n, JString v)) ps) n = map_option JString (map_of (map (\<lambda>(n, v, k). (n, v)) ps) n)"
    for ps :: "(str \<times> str \<times> kind) list"
    by (induction ps) auto
  ultimately show ?thesis by (simp add: path_values_def)
qed

lemma dispatch_answer_run:
  assumes "dispatch_answer lib a d hs q evs = (r, evs')"
  obtains (refused) e l where "r = Inl e" "evs' = evs @ l" "asks_only l"
  | (asked) ac path body l where "path_object lib (dp_parameters d) = Ok path" "actor_of lib a hs evs ac"
      "gate_admit lib (dp_gate d) ac (path_values d) = Ok ()" "asks_only l"
      "evs' = evs @ l @ [Operate (dp_operation d) (dispatch_arguments lib ac path q body)]"
proof -
  consider e where "path_object lib (dp_parameters d) = Inl e" | path where "path_object lib (dp_parameters d) = Ok path"
    by (cases "path_object lib (dp_parameters d)")
  then show thesis
  proof cases
    case 1
    with assms show thesis by (intro refused[of e "[]"]) (auto simp: dispatch_answer_def)
  next
    case (2 path)
    obtain x mid where x: "resolve_actor lib a hs Full evs = (x, mid)" by fastforce
    from resolve_actor_run[OF x] obtain l where l: "mid = evs @ l" "asks_only l"
      "\<And>ac. x = Ok ac \<Longrightarrow> actor_of lib a hs evs ac" by auto
    show thesis
    proof (cases x)
      case (Inl e)
      with assms 2 x l show thesis by (intro refused[of e l]) (auto simp: dispatch_answer_def and_then_def)
    next
      case (Inr ac)
      show thesis
      proof (cases "gate_admit lib (dp_gate d) ac (path_values d)")
        case (Inl e)
        with assms 2 x l Inr show thesis by (intro refused[of e l]) (auto simp: dispatch_answer_def and_then_def)
      next
        case gate: (Inr u)
        show thesis
        proof (cases "dispatch_body lib (dp_body d)")
          case (Inl e)
          with assms 2 x l Inr gate show thesis by (intro refused[of e l]) (auto simp: dispatch_answer_def and_then_def)
        next
          case body: (Inr body)
          have "evs' = evs @ l @ [Operate (dp_operation d) (dispatch_arguments lib ac path q body)]"
            using assms 2 x l(1) Inr gate body by (auto simp: dispatch_answer_def and_then_def host_operate_def)
          with 2 l Inr gate show thesis by (intro asked[of path ac l body]) auto
        qed
      qed
    qed
  qed
qed

lemma dispatch_respond_events:
  assumes "dispatch_respond lib a d hs q evs = (r, evs')"
  obtains x where "dispatch_answer lib a d hs q evs = (x, evs')" and "\<And>e. x = Inl e \<Longrightarrow> r = Inl e"
  using assms unfolding dispatch_respond_def by (cases rule: and_then_cases) auto

lemma arguments_at:
  "json_at (dispatch_arguments lib ac path q body) [AtKey ''path'', AtKey n] = map_of path n"
  "json_at (dispatch_arguments lib ac path q body) [AtKey ''actor'', AtKey ''user''] =
     Some (case ac_user ac of None \<Rightarrow> JNull | Some u \<Rightarrow> JString (sl_uuid_text lib (us_id u)))"
  by (auto simp: dispatch_arguments_def actor_arguments_def split: option.splits)

fun api_gate :: "api_request \<Rightarrow> gate" where
  "api_gate (Dispatched row captured hs query bytes) = hr_gate row"
| "api_gate (GetConfig sec hs) = Admin"
| "api_gate (GetConsoleConfig hs) = Open"
| "api_gate rq = Authenticated"

fun declared :: "api_request \<Rightarrow> bool" where
  "declared (Dispatched row captured hs query bytes) = (row \<in> set host_routes)"
| "declared rq = True"

lemma gated_others:
  assumes "\<And>row c hs q b. rq \<noteq> Dispatched row c hs q b" and "api_gate rq \<noteq> Open"
  shows "gated lib a (api_headers rq) (api_gate rq) (serve_api lib a rq)"
proof (cases rq)
  case (GetRecord t hs i)
  then show ?thesis
    by (cases "sl_uuid_parse lib i") (simp_all add: records_get_def gated_admit gated_refused)
qed (use assms gated_admit in \<open>auto simp: config_get_def records_list_def records_count_def statuses_def\<close>)

section \<open>The file browser behind its gate\<close>

text \<open>
  \<open>files.rs\<close> asks the host to resolve a mount, through a lookup gated on an authenticated caller. Decoding
  the payload is derived code, an argument.
\<close>

definition resolve_answer :: "(str \<Rightarrow> resolved_mount option) \<Rightarrow> answer \<Rightarrow> (api_error, resolved_mount) result" where
  "resolve_answer read_mount answer =
     (case answer of
        Payload payload \<Rightarrow> (case read_mount payload of Some m \<Rightarrow> Ok m | None \<Rightarrow> Err internal_error)
      | Served s \<Rightarrow> Err internal_error
      | LiveAnswer h \<Rightarrow> Err internal_error)"

definition files_host ::
  "server_lib \<Rightarrow> (str \<Rightarrow> resolved_mount option) \<Rightarrow> app \<Rightarrow> headers \<Rightarrow> event list \<Rightarrow> str \<Rightarrow> (api_error, resolved_mount) result" where
  "files_host lib read_mount a hs evs mount =
     try_then (fst (dispatch_answer lib a (dispatch_lookup Authenticated ''files.resolve'' [(''mount'', mount)]) hs None evs))
       (resolve_answer read_mount)"

subsection \<open>Answers of the host\<close>

text \<open>The last event is the operation the host answered.\<close>

definition host_answered :: "app \<Rightarrow> answer \<Rightarrow> event list \<Rightarrow> bool" where
  "host_answered a ans evs' \<longleftrightarrow> (\<exists>earlier opn args. evs' = earlier @ [Operate opn args] \<and>
     ho_operate (ap_host a) earlier opn args = Ok ans)"

lemma and_then_pure_Inr:
  "and_then (pure r) f evs = (Inr b, evs') \<longleftrightarrow> (\<exists>x. r = Inr x \<and> f x evs = (Inr b, evs'))"
  by (cases r) auto

lemma and_then_Inr_iff:
  "and_then h f evs = (Inr b, evs') \<longleftrightarrow> (\<exists>x mid. h evs = (Inr x, mid) \<and> f x mid = (Inr b, evs'))"
  by (auto simp: and_then_def split: prod.splits sum.splits)

lemma host_operate_answered: "host_operate a opn args evs = (Ok ans, evs') \<Longrightarrow> host_answered a ans evs'"
  by (auto simp: host_operate_def host_answered_def or_host_def split: sum.splits)

lemma dispatch_answered: "dispatch_answer lib a d hs q evs = (Ok ans, evs') \<Longrightarrow> host_answered a ans evs'"
  unfolding dispatch_answer_def and_then_pure_Inr and_then_Inr_iff by (auto dest: host_operate_answered)

lemma dispatch_replied:
  assumes "dispatch_respond lib a d hs q evs = (Ok (Replied rep), evs')"
  obtains payload where "rep = payload_reply lib d payload" and "host_answered a (Payload payload) evs'"
proof -
  obtain ans where "dispatch_answer lib a d hs q evs = (Ok ans, evs')"
    and "(case ans of Payload payload \<Rightarrow> Ok (Replied (payload_reply lib d payload))
         | Served s \<Rightarrow> Ok (Described s) | LiveAnswer h \<Rightarrow> Err internal_error) = Ok (Replied rep)"
    using assms unfolding dispatch_respond_def and_then_Inr_iff by auto
  with dispatch_answered that show thesis by (cases ans) auto
qed

lemma section_replied:
  assumes "serve_section lib a opn evs = (Ok (Replied rep), evs')"
  obtains payload where "rp_body rep = Text (scrub_json (sl_json_read lib) (sl_json_write lib) payload)"
    and "host_answered a (Payload payload) evs'"
proof -
  obtain payload where rep: "text_response (scrub_json (sl_json_read lib) (sl_json_write lib) payload) = Replied rep"
    and "host_payload a opn (JObject []) evs = (Ok payload, evs')"
    using assms unfolding serve_section_def and_then_Inr_iff by auto
  then obtain ans where op: "host_operate a opn (JObject []) evs = (Ok ans, evs')"
    and "(case ans of Payload payload \<Rightarrow> Ok payload | Served s \<Rightarrow> Err internal_error
          | LiveAnswer h \<Rightarrow> Err internal_error) = Ok payload"
    unfolding host_payload_def and_then_Inr_iff by auto
  then have "ans = Payload payload" by (cases ans) auto
  with op host_operate_answered rep that show thesis by (auto simp: text_response_def)
qed

section \<open>Properties\<close>

lemma new_events: "evs' = evs @ l \<Longrightarrow> drop (length evs) evs' = l"
  by simp

lemma operate_last:
  "asks_only l \<Longrightarrow> Operate opn args \<in> set (l @ [ev]) \<Longrightarrow> ev = Operate opn args"
  by (auto simp: asks_only_def engine_event_def)

lemma permits_enabled: "permits lib g u values \<Longrightarrow> g \<noteq> Open \<Longrightarrow> \<not> us_disabled u"
  by (cases g) (auto simp: permits_def)

lemma dispatched_is_gated:
  assumes "row \<in> set host_routes" and "\<not> unrestricted a" and "hr_gate row \<noteq> Open"
    and "dispatch_respond lib a (route_dispatch row captured bytes) hs query evs = (r, evs')"
    and "(\<exists>rep. r = Ok rep) \<or> \<not> asks_only (drop (length evs) evs')"
  shows "\<exists>u. caller lib a hs evs u \<and> permits lib (hr_gate row) u (path_values (route_dispatch row captured bytes)) \<and>
     (\<forall>opn args. Operate opn args \<in> set (drop (length evs) evs') \<longrightarrow>
        opn = hr_operation row \<and>
        json_at args [AtKey ''actor'', AtKey ''user''] = Some (JString (sl_uuid_text lib (us_id u))) \<and>
        (\<forall>n. json_at args [AtKey ''path'', AtKey n] =
           map_option JString (map_of (path_values (route_dispatch row captured bytes)) n)))"
proof -
  let ?d = "route_dispatch row captured bytes"
  obtain x where x: "dispatch_answer lib a ?d hs query evs = (x, evs')" "\<And>e. x = Inl e \<Longrightarrow> r = Inl e"
    using dispatch_respond_events[OF assms(4)] by blast
  from x(1) show ?thesis
  proof (cases rule: dispatch_answer_run)
    case (refused e l)
    with x(2) assms(5) show ?thesis by auto
  next
    case (asked ac path body l)
    have g: "dp_gate ?d = hr_gate row" "dp_operation ?d = hr_operation row"
      by (simp_all add: route_dispatch_def)
    have "\<not> ac_unrestricted ac" using asked(2) assms(2) by (simp add: actor_of_def)
    with gate_admit_Ok[OF asked(3)] assms(3) g(1) obtain u where u: "ac_user ac = Some u"
      "permits lib (hr_gate row) u (path_values ?d)" by auto
    have "distinct (map fst (dp_parameters ?d))"
      using host_routes_ok assms(1)
      by (auto simp: list_all_iff row_ok_def route_dispatch_def case_prod_unfold comp_def)
    from path_object_values[OF asked(1) this] have path: "map_of path n = map_option JString (map_of (path_values ?d) n)" for n .
    have "caller lib a hs evs u" using asked(2) u(1) by (simp add: actor_of_def)
    moreover have "opn = hr_operation row \<and>
        json_at args [AtKey ''actor'', AtKey ''user''] = Some (JString (sl_uuid_text lib (us_id u))) \<and>
        (\<forall>n. json_at args [AtKey ''path'', AtKey n] = map_option JString (map_of (path_values ?d) n))"
      if "Operate opn args \<in> set (drop (length evs) evs')" for opn args
    proof -
      have "opn = hr_operation row" "args = dispatch_arguments lib ac path query body"
        using operate_last[OF asked(4)] that g(2) new_events[OF asked(5)] by auto
      then show ?thesis using u(1) path by (simp add: arguments_at)
    qed
    ultimately show ?thesis using u(2) by blast
  qed
qed

text \<open>
  C10. With authentication configured, a route with a gate neither answers nor reaches the engine unless
  the request presents a token whose user the host reports, enabled, and, for an administrator's route,
  an administrator. On a route about one user, a caller who is no administrator is that user: the
  identifier the gate compared is the one forwarded to the operation. An operation of the
  table is told it acts for that caller.
\<close>
theorem host_operations_are_gated:
  assumes "declared rq" and "\<not> unrestricted a" and "api_gate rq \<noteq> Open"
    and "serve_api lib a rq evs = (r, evs')"
    and "(\<exists>rep. r = Ok rep) \<or> (\<exists>ev \<in> set (drop (length evs) evs'). engine_event ev)"
  shows "\<exists>u. caller lib a (api_headers rq) evs u \<and> \<not> us_disabled u \<and> (api_gate rq = Admin \<longrightarrow> us_admin u) \<and>
     (\<forall>row captured hs query bytes opn args.
        rq = Dispatched row captured hs query bytes \<and> Operate opn args \<in> set (drop (length evs) evs') \<longrightarrow>
        opn = hr_operation row \<and>
        json_at args [AtKey ''actor'', AtKey ''user''] = Some (JString (sl_uuid_text lib (us_id u))) \<and>
        (\<forall>n. api_gate rq = SelfOrAdmin n \<and> \<not> us_admin u \<longrightarrow>
          (\<exists>v. json_at args [AtKey ''path'', AtKey n] = Some (JString v) \<and> sl_uuid_parse lib v = Some (us_id u))))"
proof (cases "\<exists>row captured hs query bytes. rq = Dispatched row captured hs query bytes")
  case True
  then obtain row captured hs query bytes where rq: "rq = Dispatched row captured hs query bytes" by blast
  have "(\<exists>rep. r = Ok rep) \<or> \<not> asks_only (drop (length evs) evs')"
    using assms(5) by (auto simp: asks_only_def)
  with dispatched_is_gated[of row a lib captured bytes hs query evs r evs'] assms(1-4) rq
  obtain u where u: "caller lib a hs evs u" "permits lib (hr_gate row) u (path_values (route_dispatch row captured bytes))"
    and fwd: "\<And>opn args. Operate opn args \<in> set (drop (length evs) evs') \<Longrightarrow>
        opn = hr_operation row \<and>
        json_at args [AtKey ''actor'', AtKey ''user''] = Some (JString (sl_uuid_text lib (us_id u))) \<and>
        (\<forall>n. json_at args [AtKey ''path'', AtKey n] =
           map_option JString (map_of (path_values (route_dispatch row captured bytes)) n))"
    by auto
  have "\<exists>v. map_of (path_values (route_dispatch row captured bytes)) n = Some v \<and> sl_uuid_parse lib v = Some (us_id u)"
    if "hr_gate row = SelfOrAdmin n" "\<not> us_admin u" for n
    using u(2) that by (auto simp: permits_def bind_eq_Some_conv)
  moreover have "\<not> us_disabled u" "hr_gate row = Admin \<longrightarrow> us_admin u"
    using u(2) assms(3) rq permits_enabled by (auto simp: permits_def)
  ultimately show ?thesis using u(1) fwd rq by (intro exI[of _ u]) fastforce
next
  case False
  with gated_others[of rq lib a] assms(3) have "gated lib a (api_headers rq) (api_gate rq) (serve_api lib a rq)" by blast
  then have "gate_admitted lib a (api_headers rq) evs (api_gate rq) []"
    using assms(4,5) by (fastforce simp: gated_def asks_only_def)
  then obtain u where "caller lib a (api_headers rq) evs u" "permits lib (api_gate rq) u []"
    using assms(2,3) by (auto simp: gate_admitted_def)
  moreover have "\<not> us_disabled u" "api_gate rq = Admin \<longrightarrow> us_admin u"
    using calculation(2) assms(3) permits_enabled by (auto simp: permits_def)
  ultimately show ?thesis using False by blast
qed


lemma respond_needs_mount:
  assumes "respond flib host fs mount path rq = (res, fs')" and "(\<exists>rep. res = Ok rep) \<or> fs' \<noteq> fs"
  obtains resolved where "host mount = Ok resolved" and "rm_access resolved \<noteq> NoAccess"
    and "rq_method rq \<notin> {GET, HEAD} \<Longrightarrow> rm_access resolved = Edit"
proof (cases "try_then (host mount) (\<lambda>resolved. try_then (split_path path) (\<lambda>names. Ok (resolved, names)))")
  case (Inl e)
  with assms show thesis by (auto simp: respond_def Let_def)
next
  case (Inr rn)
  then obtain resolved names where rn: "rn = (resolved, names)" and host: "host mount = Ok resolved"
    by (auto simp: try_then_Inr_iff)
  have "rm_access resolved \<noteq> NoAccess"
    using assms Inr rn by (auto simp: respond_def Let_def)
  moreover have "rm_access resolved = Edit" if "rq_method rq \<notin> {GET, HEAD}"
    using assms Inr rn that calculation by (auto simp: respond_def Let_def split: if_splits)
  ultimately show thesis using host that by blast
qed

lemma files_host_Ok:
  assumes "files_host lib read_mount a hs evs mount = Ok resolved"
  obtains ac payload body evs' where "actor_of lib a hs evs ac" and "require_authenticated ac = Ok ()"
    and "host_answered a (Payload payload) evs'" and "read_mount payload = Some resolved"
    and "last evs' = Operate ''files.resolve'' (dispatch_arguments lib ac [(''mount'', JString mount)] None body)"
    and "prefix evs evs'"
proof -
  let ?d = "dispatch_lookup Authenticated ''files.resolve'' [(''mount'', mount)]"
  obtain x evs' where run: "dispatch_answer lib a ?d hs None evs = (x, evs')" by fastforce
  then obtain ans where x: "x = Ok ans" and ans: "resolve_answer read_mount ans = Ok resolved"
    using assms by (auto simp: files_host_def try_then_Inr_iff)
  then obtain payload where "ans = Payload payload" "read_mount payload = Some resolved"
    by (cases ans) (auto simp: resolve_answer_def split: option.splits)
  moreover have "host_answered a ans evs'" using dispatch_answered run x by blast
  moreover from run obtain ac path body l where "path_object lib (dp_parameters ?d) = Ok path" "actor_of lib a hs evs ac"
      "gate_admit lib (dp_gate ?d) ac (path_values ?d) = Ok ()"
      "evs' = evs @ l @ [Operate (dp_operation ?d) (dispatch_arguments lib ac path None body)]"
    using x by (cases rule: dispatch_answer_run) auto
  moreover from this(1) have "path = [(''mount'', JString mount)]"
    by (simp add: path_object_def dispatch_lookup_def insert_parameter_def)
  ultimately show thesis
    by (intro that[of ac payload evs' body]) (simp_all add: dispatch_lookup_def gate_admit_def)
qed

text \<open>
  C12. The file browser behind its gate: with authentication configured, a request that answers anything or
  changes any file comes from an enabled caller, and the host, told that caller and the mount, granted
  access to it, to edit if the request is not a read.
\<close>
theorem file_requests_need_a_grant:
  assumes "\<not> unrestricted a"
    and "mount_entry flib (files_host lib read_mount a hs evs) fs segment rest rq = (res, fs')"
    and "(\<exists>rep. res = Ok rep) \<or> fs' \<noteq> fs"
  shows "\<exists>u mount path args payload resolved evs'.
     caller lib a hs evs u \<and> \<not> us_disabled u \<and> mount_id_parse segment rest = Ok (mount, path) \<and>
     prefix evs evs' \<and> host_answered a (Payload payload) evs' \<and> last evs' = Operate ''files.resolve'' args \<and>
     json_at args [AtKey ''actor'', AtKey ''user''] = Some (JString (sl_uuid_text lib (us_id u))) \<and>
     json_at args [AtKey ''path'', AtKey ''mount''] = Some (JString mount) \<and>
     read_mount payload = Some resolved \<and> rm_access resolved \<noteq> NoAccess \<and>
     (rq_method rq \<notin> {GET, HEAD} \<longrightarrow> rm_access resolved = Edit)"
proof -
  obtain mount path where m: "mount_id_parse segment rest = Ok (mount, path)"
    using assms(2,3) by (cases "mount_id_parse segment rest") (auto simp: mount_entry_def)
  have "respond flib (files_host lib read_mount a hs evs) fs mount path rq = (res, fs')"
    using assms(2) m by (simp add: mount_entry_def)
  then obtain resolved where r: "files_host lib read_mount a hs evs mount = Ok resolved" "rm_access resolved \<noteq> NoAccess"
      "rq_method rq \<notin> {GET, HEAD} \<Longrightarrow> rm_access resolved = Edit"
    using respond_needs_mount assms(3) by metis
  from r(1) obtain ac payload body evs' where f: "actor_of lib a hs evs ac" "require_authenticated ac = Ok ()"
      "host_answered a (Payload payload) evs'" "read_mount payload = Some resolved"
      "last evs' = Operate ''files.resolve'' (dispatch_arguments lib ac [(''mount'', JString mount)] None body)" "prefix evs evs'"
    by (rule files_host_Ok)
  obtain u where u: "ac_user ac = Some u" "\<not> us_disabled u"
    using f(1,2) assms(1) by (auto simp: require_authenticated_def actor_of_def split: option.splits if_splits)
  have "caller lib a hs evs u" using f(1) u(1) by (simp add: actor_of_def)
  moreover have "json_at (dispatch_arguments lib ac [(''mount'', JString mount)] None body) [AtKey ''actor'', AtKey ''user''] =
      Some (JString (sl_uuid_text lib (us_id u)))"
    "json_at (dispatch_arguments lib ac [(''mount'', JString mount)] None body) [AtKey ''path'', AtKey ''mount''] = Some (JString mount)"
    using u(1) by (simp_all add: arguments_at)
  ultimately show ?thesis using u(2) m f(3,4,5,6) r(2,3) by blast
qed

definition pump_stops :: "pump_step \<Rightarrow> bool" where
  "pump_stops s \<longleftrightarrow> (case s of FromPeer leaves \<Rightarrow> leaves
     | FromHost r sent \<Rightarrow> (case r of Inr (Some t) \<Rightarrow> \<not> sent | _ \<Rightarrow> True))"

definition pump_texts :: "pump_step list \<Rightarrow> frame list" where
  "pump_texts steps = concat (map (\<lambda>s. case s of FromHost (Inr (Some t)) sent \<Rightarrow> [TextFrame t] | _ \<Rightarrow> []) steps)"

definition pump_farewell :: "pump_step \<Rightarrow> frame list" where
  "pump_farewell s = (case s of FromHost (Inl (code, reason)) sent \<Rightarrow> [CloseFrame code reason] | _ \<Rightarrow> [])"

lemma pump_loop_relays:
  "list_all (\<lambda>s. \<not> pump_stops s) steps \<Longrightarrow>
   pump_loop (steps @ rest) = (case pump_loop rest of (fs, finished) \<Rightarrow> (pump_texts steps @ fs, finished))"
  by (induction steps rule: pump_loop.induct)
    (auto simp: pump_stops_def pump_texts_def split: prod.splits)



text \<open>The control application answers nothing without its token.\<close>

lemma cli_token_required:
  "Option.bind (map_of (api_headers rq) ''authorization'') header_to_str \<noteq> Some token \<Longrightarrow>
   serve_app lib a (Some token) rq evs = (Err not_authenticated, evs)"
  by (simp add: serve_app_def require_cli_token_def)

subsection \<open>Witnesses\<close>

definition demo_headers :: headers where
  "demo_headers = [(''authorization'', ''Bearer own.one.sig'')]"

lemma demo_caller: "presented demo_lib (demo_app False False) demo_headers evs =
    Some \<lparr>pt_token = ''own.one.sig'', pt_user = 1, pt_expires = 100000000000, pt_impersonated_by = None\<rparr>"
  by (simp add: presented_def demo_app_def demo_headers_def bearer_token_def header_to_str_def demo_host_def parse_def
      demo_lib_def demo_decode_def demo_claims_def claim_uuid_def claim_instant_def timestamp_secs_def in_i64_def)

lemma demo_actor: "resolve_actor demo_lib (demo_app False False) demo_headers Full evs =
    (Ok \<lparr>ac_user = Some (demo_user 1 True False), ac_unrestricted = False\<rparr>, evs @ [AskUser 1])"
  by (simp add: resolve_actor_def actor_full_def resolve_identity_def demo_caller and_then_def ask_user_def or_host_def
      unrestricted_def) (simp add: demo_app_def demo_host_def)

lemma demo_admits: "gate_admit lib g \<lparr>ac_user = Some (demo_user 1 True False), ac_unrestricted = False\<rparr> values = Ok ()"
  by (rule gate_admit_permits[of _ "demo_user 1 True False"]) (simp_all add: permits_def demo_user_def split: gate.split)

lemma demo_dispatch:
  assumes "path_object demo_lib (dp_parameters d) = Ok path" and "dp_body d = None"
  shows "dispatch_answer demo_lib (demo_app False False) d demo_headers None [] =
     (Ok (Payload ''done''), [AskUser 1, Operate (dp_operation d) (dispatch_arguments demo_lib
        \<lparr>ac_user = Some (demo_user 1 True False), ac_unrestricted = False\<rparr> path None JNull)])"
  by (simp add: dispatch_answer_def assms demo_actor demo_admits dispatch_body_def host_operate_def or_host_def)
    (simp add: demo_app_def demo_host_def)

definition demo_row :: host_route where
  "demo_row = HostRoute GET ''/api/permissions/user/{id}'' (SelfOrAdmin ''user_id'') ''permissions.user''
     [(''id'', ''user_id'', Uuid)] False 200 False"

theorem host_operations_are_gated_witness:
  "\<exists>u. caller demo_lib (demo_app False False) demo_headers [] u \<and> \<not> us_disabled u"
proof -
  let ?rq = "Dispatched demo_row (\<lambda>_. ''xx'') demo_headers None []"
  have "demo_row \<in> set host_routes"
    by (simp add: demo_row_def host_routes_def permission_routes_def)
  moreover have "path_object demo_lib (dp_parameters (route_dispatch demo_row (\<lambda>_. ''xx'') [])) = Ok [(''user_id'', JString ''xx'')]"
    by (simp add: route_dispatch_def demo_row_def path_object_def insert_parameter_def demo_lib_def)
  moreover have "dp_body (route_dispatch demo_row (\<lambda>_. ''xx'') []) = None"
    by (simp add: route_dispatch_def demo_row_def)
  ultimately obtain rep evs' where run: "serve_api demo_lib (demo_app False False) ?rq [] = (Ok rep, evs')"
    by (simp add: dispatch_respond_def demo_dispatch)
  have "\<not> unrestricted (demo_app False False)" "declared ?rq" "api_gate ?rq \<noteq> Open"
    using \<open>demo_row \<in> set host_routes\<close> by (simp_all add: unrestricted_def demo_app_def demo_row_def)
  from host_operations_are_gated[OF this(2,1,3) run] show ?thesis by auto
qed

definition scrub_read :: "str \<Rightarrow> (str, json) result" where
  "scrub_read t =
     (if t = ''null'' then Ok JNull
      else if t = ''done'' then Ok (JObject [(''secret'', JString ''s''), (''port'', JInt 80)])
      else if t = ''clean'' then Ok (JObject [(''port'', JInt 80)]) else Err ''expected value'')"

definition scrub_write :: "json \<Rightarrow> str" where
  "scrub_write v =
     (if v = JNull then ''null'' else if v = JObject [(''port'', JInt 80)] then ''clean'' else ''done'')"


theorem file_requests_need_a_grant_witness:
  "\<exists>u mount path. caller demo_lib (demo_app False False) demo_headers [] u \<and> \<not> us_disabled u \<and>
     mount_id_parse ''data'' ''a/f'' = Ok (mount, path)"
proof -
  let ?host = "files_host demo_lib (\<lambda>_. Some (sample_mount View)) (demo_app False False) demo_headers []"
  have "?host m = Ok (sample_mount View)" for m
  proof -
    have "path_object demo_lib (dp_parameters (dispatch_lookup Authenticated ''files.resolve'' [(''mount'', m)])) =
        Ok [(''mount'', JString m)]"
      by (simp add: path_object_def dispatch_lookup_def insert_parameter_def)
    from demo_dispatch[OF this] show ?thesis
      by (simp add: files_host_def dispatch_lookup_def resolve_answer_def)
  qed
  then have host: "?host = (\<lambda>m. Ok (sample_mount View))" by blast
  let ?run = "mount_entry sample_lib (\<lambda>m. Ok (sample_mount View)) sample_fs ''data'' ''a/f'' (sample_request GET None)"
  have "\<not> isl (fst ?run)" by code_simp
  then obtain rep where "?run = (Ok rep, snd ?run)" by (metis isl_def prod.collapse sum.exhaust)
  then have run: "mount_entry sample_lib ?host sample_fs ''data'' ''a/f'' (sample_request GET None) = (Ok rep, snd ?run)"
    by (simp only: host)
  have "\<not> unrestricted (demo_app False False)" by (simp add: unrestricted_def demo_app_def)
  from file_requests_need_a_grant[OF this run] show ?thesis by blast
qed

end
